(* ===== verification/Prelude.thy ===== *)
theory Prelude
  imports "HOL-Library.Word" "HOL-Library.Signed_Division"
begin

text \<open>
  What every component of the kernel model shares: the machine integers of the 32-bit target,
  the error numbers of \<^verbatim>\<open>src/status.h\<close>, the outcome of a call that may not return
  (a panic, a bad pointer, a wait that never ends), and the generic lemmas on words and on
  loops that write consecutive cells.
\<close>

unbundle bit_operations_syntax

section \<open>Machine integers and physical memory\<close>

type_synonym u8 = "8 word"
type_synonym u16 = "16 word"
type_synonym u32 = "32 word"

text \<open>Physical memory: one byte per 32-bit address. Address arithmetic wraps.\<close>

type_synonym byte_mem = "u32 \<Rightarrow> u8"

named_theorems c_defs \<open>constants of the headers, unfolded before arithmetic\<close>
named_theorems mem_frame \<open>what a write leaves unchanged\<close>

section \<open>Error numbers (status.h)\<close>

definition SLOBOS_ALL_OK :: int where [c_defs]: "SLOBOS_ALL_OK = 0"
definition EIO :: int where [c_defs]: "EIO = 1"
definition EINVARG :: int where [c_defs]: "EINVARG = 2"
definition ENOMEM :: int where [c_defs]: "ENOMEM = 3"
definition EBADPATH :: int where [c_defs]: "EBADPATH = 4"
definition EFSNOTUS :: int where [c_defs]: "EFSNOTUS = 5"
definition ERDONLY :: int where [c_defs]: "ERDONLY = 6"
definition EUNIMP :: int where [c_defs]: "EUNIMP = 7"
definition EISTKN :: int where [c_defs]: "EISTKN = 8"
definition EINFORMAT :: int where [c_defs]: "EINFORMAT = 9"

section \<open>Calls that may not return\<close>

text \<open>
  A C function that panics, dereferences a null or dangling pointer to a structure, leaves the
  bounds of a local array, divides by zero or waits for ever does not return to its caller:
  its outcome is a \<open>fault\<close>. Everything else is \<open>Inr\<close> of the value returned.
\<close>

datatype fault = Panic string | BadPointer u32 | OutOfBounds int | DivByZero | Hang

type_synonym 'a outcome = "fault + 'a"

fun andthen :: "'a outcome \<Rightarrow> ('a \<Rightarrow> 'b outcome) \<Rightarrow> 'b outcome" where
  "andthen (Inl e) f = Inl e"
| "andthen (Inr x) f = f x"

lemma andthen_cong [fundef_cong]:
  "x = y \<Longrightarrow> (\<And>z. y = Inr z \<Longrightarrow> f z = g z) \<Longrightarrow> andthen x f = andthen y g"
  by (cases y) auto

lemma andthen_eq_Inr:
  "andthen x f = Inr y \<longleftrightarrow> (\<exists>z. x = Inr z \<and> f z = Inr y)"
  by (cases x) auto

section \<open>Word arithmetic\<close>

lemma unat_of_nat_u32: "n < 4294967296 \<Longrightarrow> unat (of_nat n :: u32) = n"
  by (simp add: unat_of_nat)

lemma unat_u32_bound: "unat (a :: u32) < 4294967296"
  using unsigned_less [of a, where ?'a = nat] by simp

lemma unat_le_u32 [simp]: "unat (a :: u32) \<le> 4294967296"
  using unat_u32_bound [of a] by simp

lemma unat_dec_u32:
  fixes w :: u32
  shows "0 < unat w \<Longrightarrow> unat (w - 1) = unat w - 1"
  by (subst unat_sub) (simp_all add: word_le_nat_alt Suc_le_eq)

lemma sint_small:
  assumes "unat (w :: u32) < 2147483648"
  shows "sint w = int (unat w)"
proof -
  have u: "uint w = int (unat w)" by simp
  have "sint w = signed_take_bit 31 (uint w)" unfolding sint_uint by simp
  also have "\<dots> = uint w"
    by (rule signed_take_bit_int_eq_self) (use assms in \<open>simp_all add: u del: of_nat_unat\<close>)
  finally show ?thesis by (simp only: u)
qed

lemma sint_small_u8:
  assumes "unat (w :: u8) < 128"
  shows "sint w = int (unat w)"
proof -
  have u: "uint w = int (unat w)" by simp
  have "sint w = signed_take_bit 7 (uint w)" unfolding sint_uint by simp
  also have "\<dots> = uint w"
    by (rule signed_take_bit_int_eq_self) (use assms in \<open>simp_all add: u del: of_nat_unat\<close>)
  finally show ?thesis by (simp only: u)
qed

text \<open>Offsets from a base address: \<open>a - p\<close> is the index of \<open>a\<close> in an array at \<open>p\<close>.\<close>

lemma offset_of_nat:
  fixes a p :: u32
  assumes "i < 4294967296"
  shows "(a = p + of_nat i) = (unat (a - p) = i)"
proof
  assume "a = p + of_nat i"
  with assms show "unat (a - p) = i" by (simp add: unat_of_nat_u32)
next
  assume "unat (a - p) = i"
  then have "of_nat i = a - p" by auto
  then show "a = p + of_nat i" by simp
qed

lemma plus_offset_eq:
  fixes p :: u32
  assumes "i < 4294967296" and "j < 4294967296"
  shows "(p + of_nat i = p + of_nat j) = (i = j)"
  using assms offset_of_nat [of j "p + of_nat i" p] by (simp add: unat_of_nat_u32)

lemma unat_add_u32:
  fixes x y :: u32
  shows "unat x + unat y < 4294967296 \<Longrightarrow> unat (x + y) = unat x + unat y"
  by (simp add: unat_word_ariths)

text \<open>An address inside one range is outside every range apart from it.\<close>

lemma inside_outside:
  fixes p q a :: u32
  assumes "unat p + k \<le> unat q \<or> unat q + l \<le> unat p" and "unat (a - q) < l"
    and "unat q + l \<le> 4294967296" and "unat p + k \<le> 4294967296"
  shows "k \<le> unat (a - p)"
proof -
  have a: "unat a = unat q + unat (a - q)"
  proof -
    have "unat (q + (a - q)) = unat q + unat (a - q)"
      using assms(2,3) by (intro unat_add_u32) simp
    then show ?thesis by simp
  qed
  show ?thesis
  proof (cases "p \<le> a")
    case True
    then have "unat (a - p) = unat a - unat p" by (rule unat_sub)
    with a assms True show ?thesis by (auto simp: word_le_nat_alt)
  next
    case False
    then have "unat (a - p) = 4294967296 + unat a - unat p"
      by (simp add: unat_sub_if_size word_size word_le_nat_alt)
    with a assms False show ?thesis by (auto simp: word_le_nat_alt)
  qed
qed

lemma offset_Suc:
  fixes a p :: u32
  assumes "a \<noteq> p"
  shows "unat (a - p) = Suc (unat (a - (p + 1)))"
proof -
  have "unat (a - (p + 1)) = unat (a - p - 1)" by (simp add: algebra_simps)
  also have "\<dots> = unat (a - p) - 1"
    using assms by (subst unat_sub) (auto simp: word_le_nat_alt unat_gt_0 Suc_le_eq)
  finally show ?thesis using assms by (simp add: unat_gt_0)
qed

section \<open>Loops that write consecutive cells\<close>

text \<open>The bytes \<open>bs\<close> stored from \<open>p\<close> on.\<close>

definition store_bytes :: "byte_mem \<Rightarrow> u32 \<Rightarrow> u8 list \<Rightarrow> byte_mem" where
  "store_bytes m p bs = (\<lambda>a. if unat (a - p) < length bs then bs ! unat (a - p) else m a)"

lemma store_bytes_Nil [simp]: "store_bytes m p [] = m"
  by (simp add: store_bytes_def)

lemma store_bytes_Cons:
  assumes "length bs < 4294967296"
  shows "store_bytes m p (b # bs) = store_bytes (m(p := b)) (p + 1) bs"
proof
  fix a
  show "store_bytes m p (b # bs) a = store_bytes (m(p := b)) (p + 1) bs a"
  proof (cases "a = p")
    case True
    then have "a - (p + 1) = 0xFFFFFFFF" by simp
    then have "unat (a - (p + 1)) = 4294967295" by (simp only: unat_numeral) simp
    then show ?thesis using True assms by (simp add: store_bytes_def)
  next
    case False
    then show ?thesis by (simp add: store_bytes_def offset_Suc)
  qed
qed

lemma store_bytes_append:
  assumes "length xs + length ys \<le> 4294967296"
  shows "store_bytes (store_bytes m p xs) (p + of_nat (length xs)) ys = store_bytes m p (xs @ ys)"
  using assms
proof (induction xs arbitrary: m p)
  case Nil
  then show ?case by simp
next
  case (Cons x xs)
  then show ?case by (simp add: store_bytes_Cons add.assoc [symmetric])
qed

lemma store_bytes_outside [mem_frame]: "length bs \<le> unat (a - p) \<Longrightarrow> store_bytes m p bs a = m a"
  by (simp add: store_bytes_def)

lemma store_bytes_nth [simp]:
  "i < length bs \<Longrightarrow> length bs \<le> 4294967296 \<Longrightarrow> store_bytes m p bs (p + of_nat i) = bs ! i"
  by (simp add: store_bytes_def unat_of_nat_u32)

text \<open>
  \<open>for (i = 0; i < n; i++) p[i] = f(i);\<close> on bytes: the memory afterwards, address by address.
  The value written may depend on the index but not on the memory.
\<close>

lemma fold_store_bytes:
  fixes p :: u32
  assumes "n \<le> 4294967296"
  shows "fold (\<lambda>i m. m(p + of_nat i := f i)) [0..<n] m =
         (\<lambda>a. if unat (a - p) < n then f (unat (a - p)) else m a)"
  using assms
proof (induction n)
  case 0
  then show ?case by simp
next
  case (Suc n)
  then have n: "n < 4294967296" by simp
  show ?case
  proof
    fix a :: u32
    have "fold (\<lambda>i m. m(p + of_nat i := f i)) [0..<Suc n] m a =
      (if unat (a - p) = n then f n else if unat (a - p) < n then f (unat (a - p)) else m a)"
      unfolding upt_Suc_append [OF le0] fold_append o_apply Suc.IH [OF less_imp_le [OF n]]
      by (simp add: offset_of_nat [OF n])
    then show "fold (\<lambda>i m. m(p + of_nat i := f i)) [0..<Suc n] m a =
      (if unat (a - p) < Suc n then f (unat (a - p)) else m a)"
      by (simp add: less_Suc_eq)
  qed
qed

end
