(* ===== verification/CMemory.thy ===== *)
theory CMemory
  imports Prelude
begin

text \<open>
  \<^verbatim>\<open>src/memory/memory.c\<close>: the byte routines every other component calls, on physical
  memory, and the 32-bit little-endian accesses the compiler emits for \<open>uint32_t\<close> objects.
\<close>

unbundle bit_operations_syntax

section \<open>memset, memcmp, memcpy\<close>

text \<open>
  \<open>memset\<close> writes the low byte of \<open>c\<close>. The loop index is an \<open>int\<close> compared with a
  \<open>size_t\<close>, so the comparison is unsigned and the loop runs \<open>size\<close> times.
\<close>

definition memset :: "byte_mem \<Rightarrow> u32 \<Rightarrow> u8 \<Rightarrow> u32 \<Rightarrow> byte_mem" where
  "memset m ptr c sz =
     fold (\<lambda>i m. m(ptr + of_nat i := c)) [0..<unat sz] m"

text \<open>
  \<open>memcmp\<close>: the bytes are \<open>char\<close>, signed on this target, and so is the comparison that
  decides the sign of the result. A count that is zero or negative compares nothing.
\<close>

fun memcmp_loop :: "byte_mem \<Rightarrow> u32 \<Rightarrow> u32 \<Rightarrow> nat \<Rightarrow> int" where
  "memcmp_loop m c1 c2 0 = 0"
| "memcmp_loop m c1 c2 (Suc count) =
     (if m c1 \<noteq> m c2 then (if sint (m c1) < sint (m c2) then -1 else 1)
      else memcmp_loop m (c1 + 1) (c2 + 1) count)"

definition memcmp :: "byte_mem \<Rightarrow> u32 \<Rightarrow> u32 \<Rightarrow> int \<Rightarrow> int" where
  "memcmp m s1 s2 count = memcmp_loop m s1 s2 (nat count)"

text \<open>
  \<open>memcpy\<close> copies forwards, one byte at a time, reading the memory as already changed.
  \<open>while (len--)\<close> stops when the counter reaches zero, so the bits of \<open>len\<close> read as
  an unsigned number say how often it runs.
\<close>

definition memcpy :: "byte_mem \<Rightarrow> u32 \<Rightarrow> u32 \<Rightarrow> u32 \<Rightarrow> byte_mem" where
  "memcpy m dest src len =
     fold (\<lambda>i m. m(dest + of_nat i := m (src + of_nat i))) [0..<unat len] m"

lemma memset_apply:
  "memset m p c n a = (if unat (a - p) < unat n then c else m a)"
  by (simp add: memset_def fold_store_bytes)

lemma memset_outside [mem_frame]:
  "unat n \<le> unat (a - p) \<Longrightarrow> memset m p c n a = m a"
  by (simp add: memset_apply)

text \<open>
  \<open>memcmp\<close> is zero exactly when the compared bytes agree, and otherwise its sign is the
  signed comparison of the first two bytes that differ.
\<close>

lemma memcmp_loop_eq_0:
  "memcmp_loop m p q n = 0 \<longleftrightarrow> (\<forall>i<n. m (p + of_nat i) = m (q + of_nat i))"
proof (induction n arbitrary: p q)
  case 0
  then show ?case by simp
next
  case (Suc n)
  have "(\<forall>i<Suc n. m (p + of_nat i) = m (q + of_nat i)) \<longleftrightarrow>
      m p = m q \<and> (\<forall>i<n. m (p + 1 + of_nat i) = m (q + 1 + of_nat i))"
    by (simp only: All_less_Suc2) (simp add: add.assoc add.commute add.left_commute)
  with Suc.IH show ?case by simp
qed

lemma memcmp_loop_sign:
  assumes "i < n" and "m (p + of_nat i) \<noteq> m (q + of_nat i)"
    and "\<forall>j<i. m (p + of_nat j) = m (q + of_nat j)"
  shows "memcmp_loop m p q n =
    (if sint (m (p + of_nat i)) < sint (m (q + of_nat i)) then -1 else 1)"
  using assms
proof (induction n arbitrary: i p q)
  case 0
  then show ?case by simp
next
  case (Suc n)
  show ?case
  proof (cases i)
    case 0
    with Suc.prems show ?thesis by simp
  next
    case (Suc k)
    with Suc.prems(3) have "m p = m q" by fastforce
    moreover have "\<forall>j<k. m (p + 1 + of_nat j) = m (q + 1 + of_nat j)"
      using Suc.prems(3) Suc by (metis Suc_less_eq add.assoc of_nat_Suc)
    ultimately show ?thesis
      using Suc.prems Suc.IH [of k "p + 1" "q + 1"] Suc by (simp add: add.assoc)
  qed
qed

text \<open>
  \<open>memcpy\<close> moves the bytes that were at \<open>src\<close> before the call whenever no byte is
  overwritten before it is read: for disjoint ranges, and for a destination below an
  overlapping source.
\<close>

lemma fold_copy_bytes:
  fixes d s :: u32
  assumes "n \<le> 4294967296" and "\<And>i j. i < j \<Longrightarrow> j < n \<Longrightarrow> d + of_nat i \<noteq> s + of_nat j"
  shows "fold (\<lambda>i m. m(d + of_nat i := m (s + of_nat i))) [0..<n] m =
         (\<lambda>a. if unat (a - d) < n then m (s + of_nat (unat (a - d))) else m a)"
  using assms
proof (induction n)
  case 0
  then show ?case by simp
next
  case (Suc n)
  then have n: "n < 4294967296" by simp
  let ?m = "fold (\<lambda>i m. m(d + of_nat i := m (s + of_nat i))) [0..<n] m"
  have IH: "?m = (\<lambda>a. if unat (a - d) < n then m (s + of_nat (unat (a - d))) else m a)"
    using Suc.prems by (intro Suc.IH) auto
  have src: "?m (s + of_nat n) = m (s + of_nat n)"
  proof (cases "unat (s + of_nat n - d) < n")
    case True
    have "s + of_nat n = d + of_nat (unat (s + of_nat n - d))" by simp
    with True Suc.prems(2) [OF True] show ?thesis by (metis lessI)
  next
    case False
    then show ?thesis unfolding IH by simp
  qed
  have "fold (\<lambda>i m. m(d + of_nat i := m (s + of_nat i))) [0..<Suc n] m =
      ?m(d + of_nat n := ?m (s + of_nat n))"
    by simp
  also have "\<dots> = (\<lambda>a. if unat (a - d) < Suc n then m (s + of_nat (unat (a - d))) else m a)"
    unfolding src unfolding IH
    by (rule ext) (auto simp: offset_of_nat [OF n] less_Suc_eq)
  finally show ?case .
qed

lemma memcpy_apply:
  assumes "\<And>i j. i < j \<Longrightarrow> j < unat n \<Longrightarrow> d + of_nat i \<noteq> s + of_nat j"
  shows "memcpy m d s n a =
    (if unat (a - d) < unat n then m (s + of_nat (unat (a - d))) else m a)"
  using fold_copy_bytes [OF unat_le_u32 assms, where m = m] by (simp add: memcpy_def)

lemma memcpy_outside [mem_frame]:
  "unat n \<le> unat (a - d) \<Longrightarrow> memcpy m d s n a = m a"
proof -
  assume "unat n \<le> unat (a - d)"
  moreover have "k \<le> unat (a - d) \<Longrightarrow>
      fold (\<lambda>i m. m(d + of_nat i := m (s + of_nat i))) [0..<k] m a = m a" for k
  proof (induction k)
    case 0
    then show ?case by simp
  next
    case (Suc k)
    then have "k < 4294967296" using unat_u32_bound [of "a - d"] by linarith
    with Suc show ?case by (simp add: offset_of_nat)
  qed
  ultimately show ?thesis by (simp add: memcpy_def)
qed

section \<open>16-bit objects\<close>

definition word_bytes :: "u16 \<Rightarrow> u8 list" where
  "word_bytes w = [ucast w, ucast (drop_bit 8 w)]"

definition load16 :: "byte_mem \<Rightarrow> u32 \<Rightarrow> u16" where
  "load16 m a = ucast (m a) OR push_bit 8 (ucast (m (a + 1)))"

definition store16 :: "byte_mem \<Rightarrow> u32 \<Rightarrow> u16 \<Rightarrow> byte_mem" where
  "store16 m a v = m(a := ucast v, a + 1 := ucast (drop_bit 8 v))"

lemma length_word_bytes [simp]: "length (word_bytes w) = 2"
  by (simp add: word_bytes_def)

lemma store16_bytes: "store16 m a v = store_bytes m a (word_bytes v)"
  by (simp add: store16_def word_bytes_def store_bytes_Cons)

lemma load16_store16 [simp]: "load16 (store16 m a v) a = v"
proof -
  have "a + 1 \<noteq> a" by simp
  then have "load16 (store16 m a v) a = ucast (ucast v :: u8) OR push_bit 8 (ucast (ucast (drop_bit 8 v) :: u8))"
    by (simp add: load16_def store16_def)
  also have "\<dots> = v"
  proof (rule bit_word_eqI)
    fix n assume "n < LENGTH(16)"
    then show "bit (ucast (ucast v :: u8) OR push_bit 8 (ucast (ucast (drop_bit 8 v) :: u8)) :: u16) n = bit v n"
      by (cases "n < 8") (auto simp: bit_simps)
  qed
  finally show ?thesis .
qed

section \<open>32-bit objects\<close>

text \<open>
  A \<open>uint32_t\<close> in memory is four bytes, the lowest first. Page directories, page tables
  and the argument vectors of a process are arrays of them.
\<close>

definition load32 :: "byte_mem \<Rightarrow> u32 \<Rightarrow> u32" where
  "load32 m a = ucast (m a) OR push_bit 8 (ucast (m (a + 1)))
     OR push_bit 16 (ucast (m (a + 2))) OR push_bit 24 (ucast (m (a + 3)))"

definition store32 :: "byte_mem \<Rightarrow> u32 \<Rightarrow> u32 \<Rightarrow> byte_mem" where
  "store32 m a v = m(a := ucast v, a + 1 := ucast (drop_bit 8 v),
     a + 2 := ucast (drop_bit 16 v), a + 3 := ucast (drop_bit 24 v))"

lemma distinct_offsets [simp]:
  fixes a :: u32
  shows "a + 1 \<noteq> a" "a + 2 \<noteq> a" "a + 3 \<noteq> a" "a + 1 \<noteq> a + 2" "a + 1 \<noteq> a + 3" "a + 2 \<noteq> a + 3"
    "a + 2 \<noteq> a + 1" "a + 3 \<noteq> a + 1" "a + 3 \<noteq> a + 2"
    "a \<noteq> a + 1" "a \<noteq> a + 2" "a \<noteq> a + 3"
  by simp_all

lemma word32_bytes:
  fixes v :: u32
  shows "ucast (ucast v :: u8) OR push_bit 8 (ucast (ucast (drop_bit 8 v) :: u8))
      OR push_bit 16 (ucast (ucast (drop_bit 16 v) :: u8))
      OR push_bit 24 (ucast (ucast (drop_bit 24 v) :: u8)) = v"
proof (rule bit_word_eqI)
  fix n assume "n < LENGTH(32)"
  then consider "n < 8" | "8 \<le> n" "n < 16" | "16 \<le> n" "n < 24" | "24 \<le> n" "n < 32" by force
  then show "bit (ucast (ucast v :: u8) OR push_bit 8 (ucast (ucast (drop_bit 8 v) :: u8))
      OR push_bit 16 (ucast (ucast (drop_bit 16 v) :: u8))
      OR push_bit 24 (ucast (ucast (drop_bit 24 v) :: u8)) :: u32) n = bit v n"
    by cases (auto simp: bit_simps)
qed

lemma load32_store32 [simp]: "load32 (store32 m a v) a = v"
  by (simp add: load32_def store32_def word32_bytes)

lemma load32_cong:
  assumes "m a = m' a" "m (a + 1) = m' (a + 1)" "m (a + 2) = m' (a + 2)" "m (a + 3) = m' (a + 3)"
  shows "load32 m a = load32 m' a"
  using assms by (simp add: load32_def)

lemma store32_outside [mem_frame]: "4 \<le> unat (b - a) \<Longrightarrow> store32 m a v b = m b"
proof -
  assume *: "4 \<le> unat (b - a)"
  have "b \<noteq> a + of_nat i" if "i < 4" for i :: nat
  proof -
    have "b = a + of_nat i \<longleftrightarrow> unat (b - a) = i" using that by (intro offset_of_nat) simp
    then show ?thesis using * that by simp
  qed
  from this [of 0] this [of 1] this [of 2] this [of 3] show ?thesis
    by (simp add: store32_def)
qed

text \<open>Accesses to different aligned words do not interfere.\<close>

lemma aligned4_offset:
  fixes a b :: u32
  assumes "4 dvd unat a" and "4 dvd unat b" and "a \<noteq> b" and "i < 4"
  shows "4 \<le> unat (b + of_nat i - a)"
proof -
  have ab: "4 dvd unat (b - a)"
  proof (cases "a \<le> b")
    case True
    then have "unat (b - a) = unat b - unat a" by (rule unat_sub)
    with assms show ?thesis by (simp add: dvd_diff_nat)
  next
    case False
    then have "unat (b - a) = 4294967296 + unat b - unat a"
      by (simp add: unat_sub_if_size word_size word_le_nat_alt)
    moreover have "4 dvd 4294967296 + unat b - unat a"
      using assms by (intro dvd_diff_nat dvd_add) auto
    ultimately show ?thesis by simp
  qed
  have "b - a \<noteq> 0" using assms by simp
  then have pos: "0 < unat (b - a)" by (simp add: unat_gt_0)
  have le: "unat (b - a) \<le> 4294967292"
    using ab unat_u32_bound [of "b - a"] by (auto elim!: dvdE)
  have sum: "unat ((b - a) + of_nat i) = unat (b - a) + i"
    using le assms(4) by (subst unat_plus_simple [THEN iffD1])
      (auto simp: no_olen_add_nat unat_of_nat_u32)
  have "b + of_nat i - a = (b - a) + of_nat i" by simp
  moreover have "4 \<le> unat (b - a)" using ab pos by (auto elim!: dvdE)
  ultimately show ?thesis by (simp only: sum)
qed
lemma load32_store32_other [mem_frame]:
  assumes "4 dvd unat a" and "4 dvd unat b" and "a \<noteq> b"
  shows "load32 (store32 m a v) b = load32 m b"
proof (rule load32_cong)
  note d = aligned4_offset [OF assms]
  show "store32 m a v b = m b" using d [of 0] by (simp add: store32_outside)
  show "store32 m a v (b + 1) = m (b + 1)" using d [of 1] by (simp add: store32_outside)
  show "store32 m a v (b + 2) = m (b + 2)" using d [of 2] by (simp add: store32_outside)
  show "store32 m a v (b + 3) = m (b + 3)" using d [of 3] by (simp add: store32_outside)
qed

end
