(* ===== verification/Heap.thy ===== *)
theory Heap
  imports CMemory
begin

text \<open>
  \<^verbatim>\<open>src/memory/heap/heap.c\<close>: the block allocator. A table of one byte per 4096-byte block
  says which blocks are free and how taken blocks hang together. The table is in physical
  memory, as in the kernel, so a write past its end is a write to what lies behind it.
\<close>

unbundle bit_operations_syntax

section \<open>State (heap.h)\<close>

definition HEAP_BLOCK_TABLE_ENTRY_TAKEN :: u8 where [c_defs]: "HEAP_BLOCK_TABLE_ENTRY_TAKEN = 0x01"
definition HEAP_BLOCK_TABLE_ENTRY_FREE :: u8 where [c_defs]: "HEAP_BLOCK_TABLE_ENTRY_FREE = 0x00"
definition HEAP_BLOCK_HAS_NEXT :: u8 where [c_defs]: "HEAP_BLOCK_HAS_NEXT = 0x80"
definition HEAP_BLOCK_IS_FIRST :: u8 where [c_defs]: "HEAP_BLOCK_IS_FIRST = 0x40"
definition SLOBOS_HEAP_BLOCK_SIZE :: u32 where [c_defs]: "SLOBOS_HEAP_BLOCK_SIZE = 4096"

record heap_table =
  tab_entries :: u32
  tab_total :: u32

record heap =
  heap_tab :: heap_table
  heap_saddr :: u32

section \<open>Creating a heap\<close>

definition heap_validate_table :: "u32 \<Rightarrow> u32 \<Rightarrow> heap_table \<Rightarrow> int" where
  "heap_validate_table ptr end_ptr tab =
     (let table_size = end_ptr - ptr;
          total_blocks = table_size div SLOBOS_HEAP_BLOCK_SIZE
      in if tab_total tab \<noteq> total_blocks then - EINVARG else 0)"

definition heap_validate_alignment :: "u32 \<Rightarrow> bool" where
  "heap_validate_alignment ptr \<longleftrightarrow> ptr mod SLOBOS_HEAP_BLOCK_SIZE = 0"

text \<open>
  The third component of the result is the memory: on success the whole table is marked free.
  A misaligned range leaves the heap structure untouched; a table of the wrong size is
  reported after the structure was filled in.
\<close>

definition heap_create ::
    "byte_mem \<Rightarrow> heap \<Rightarrow> u32 \<Rightarrow> u32 \<Rightarrow> heap_table \<Rightarrow> int \<times> heap \<times> byte_mem" where
  "heap_create m h ptr end_ptr tab =
     (if \<not> heap_validate_alignment ptr \<or> \<not> heap_validate_alignment end_ptr then (- EINVARG, h, m)
      else
        let h1 = \<lparr>heap_tab = tab, heap_saddr = ptr\<rparr>;
            res = heap_validate_table ptr end_ptr tab
        in if res < 0 then (res, h1, m)
           else (res, h1, memset m (tab_entries tab) HEAP_BLOCK_TABLE_ENTRY_FREE (tab_total tab)))"

definition heap_align_value_to_upper :: "u32 \<Rightarrow> u32" where
  "heap_align_value_to_upper val =
     (if val mod SLOBOS_HEAP_BLOCK_SIZE = 0 then val
      else (val - val mod SLOBOS_HEAP_BLOCK_SIZE) + SLOBOS_HEAP_BLOCK_SIZE)"

definition heap_get_entry_type :: "u8 \<Rightarrow> u8" where
  "heap_get_entry_type entry = entry AND 0x0f"

section \<open>Searching the table\<close>

text \<open>
  The loop of \<open>heap_get_start_block\<close>: \<open>bc\<close> counts the free blocks seen in a row and
  \<open>bs\<close> is where they start, -1 for none. The comparison of the \<open>int\<close> \<open>bc\<close> with the
  \<open>uint32_t\<close> is a comparison of words.
\<close>

definition table_entry :: "byte_mem \<Rightarrow> heap_table \<Rightarrow> nat \<Rightarrow> u8" where
  "table_entry m tab k = m (tab_entries tab + of_nat k)"

function start_block_loop ::
    "byte_mem \<Rightarrow> heap_table \<Rightarrow> u32 \<Rightarrow> nat \<Rightarrow> int \<Rightarrow> int \<Rightarrow> int" where
  "start_block_loop m tab total_blocks i bc bs =
     (if i < unat (tab_total tab) then
        if heap_get_entry_type (table_entry m tab i) \<noteq> HEAP_BLOCK_TABLE_ENTRY_FREE then
          start_block_loop m tab total_blocks (Suc i) 0 (-1)
        else
          let bs = (if bs = -1 then int i else bs);
              bc = bc + 1
          in if word_of_int bc = total_blocks then bs
             else start_block_loop m tab total_blocks (Suc i) bc bs
      else bs)"
  by pat_completeness auto
termination
  by (relation "measure (\<lambda>(m, tab, n, i, bc, bs). unat (tab_total tab) - i)") auto

declare start_block_loop.simps [simp del]

definition heap_get_start_block :: "byte_mem \<Rightarrow> heap \<Rightarrow> u32 \<Rightarrow> int" where
  "heap_get_start_block m h total_blocks =
     (let bs = start_block_loop m (heap_tab h) total_blocks 0 0 (-1)
      in if bs = -1 then - ENOMEM else bs)"

definition heap_block_to_address :: "heap \<Rightarrow> int \<Rightarrow> u32" where
  "heap_block_to_address h block = heap_saddr h + word_of_int block * SLOBOS_HEAP_BLOCK_SIZE"

section \<open>Marking blocks\<close>

text \<open>
  The block number \<open>i\<close> is an \<open>int\<close>: a negative one indexes below the table, one past
  \<open>tab_total\<close> behind it.
\<close>

function mark_taken_loop :: "byte_mem \<Rightarrow> heap_table \<Rightarrow> int \<Rightarrow> int \<Rightarrow> u8 \<Rightarrow> byte_mem" where
  "mark_taken_loop m tab i end_block entry =
     (if i \<le> end_block then
        mark_taken_loop (m(tab_entries tab + word_of_int i := entry)) tab (i + 1) end_block
          (if i \<noteq> end_block - 1 then HEAP_BLOCK_TABLE_ENTRY_TAKEN OR HEAP_BLOCK_HAS_NEXT
           else HEAP_BLOCK_TABLE_ENTRY_TAKEN)
      else m)"
  by pat_completeness auto
termination
  by (relation "measure (\<lambda>(m, tab, i, e, entry). nat (e + 1 - i))") auto

declare mark_taken_loop.simps [simp del]

definition heap_mark_blocks_taken :: "byte_mem \<Rightarrow> heap \<Rightarrow> int \<Rightarrow> int \<Rightarrow> byte_mem" where
  "heap_mark_blocks_taken m h start_block total_blocks =
     (let end_block = (start_block + total_blocks) - 1;
          entry = HEAP_BLOCK_TABLE_ENTRY_TAKEN OR HEAP_BLOCK_IS_FIRST;
          entry = (if total_blocks > 1 then entry OR HEAP_BLOCK_HAS_NEXT else entry)
      in mark_taken_loop m (heap_tab h) start_block end_block entry)"

definition heap_malloc_blocks :: "byte_mem \<Rightarrow> heap \<Rightarrow> u32 \<Rightarrow> u32 \<times> byte_mem" where
  "heap_malloc_blocks m h total_blocks =
     (let start_block = heap_get_start_block m h total_blocks
      in if start_block < 0 then (0, m)
         else (heap_block_to_address h start_block,
               heap_mark_blocks_taken m h start_block (sint total_blocks)))"

function mark_free_loop :: "byte_mem \<Rightarrow> heap_table \<Rightarrow> int \<Rightarrow> byte_mem" where
  "mark_free_loop m tab i =
     (if i < sint (tab_total tab) then
        let entry = m (tab_entries tab + word_of_int i);
            m1 = m(tab_entries tab + word_of_int i := HEAP_BLOCK_TABLE_ENTRY_FREE)
        in if entry AND HEAP_BLOCK_HAS_NEXT = 0 then m1 else mark_free_loop m1 tab (i + 1)
      else m)"
  by pat_completeness auto
termination
  by (relation "measure (\<lambda>(m, tab, i). nat (sint (tab_total tab) - i))") auto

declare mark_free_loop.simps [simp del]

definition heap_mark_blocks_free :: "byte_mem \<Rightarrow> heap \<Rightarrow> int \<Rightarrow> byte_mem" where
  "heap_mark_blocks_free m h starting_block = mark_free_loop m (heap_tab h) starting_block"

text \<open>C's signed division truncates towards zero, as \<open>sdiv\<close> does.\<close>

definition heap_address_to_block :: "heap \<Rightarrow> u32 \<Rightarrow> int" where
  "heap_address_to_block h address = sint (address - heap_saddr h) sdiv 4096"

section \<open>Allocating and freeing\<close>

definition heap_malloc :: "byte_mem \<Rightarrow> heap \<Rightarrow> u32 \<Rightarrow> u32 \<times> byte_mem" where
  "heap_malloc m h sz =
     (let aligned_size = heap_align_value_to_upper sz;
          total_blocks = aligned_size div SLOBOS_HEAP_BLOCK_SIZE
      in heap_malloc_blocks m h total_blocks)"

definition heap_free :: "byte_mem \<Rightarrow> heap \<Rightarrow> u32 \<Rightarrow> byte_mem" where
  "heap_free m h ptr = heap_mark_blocks_free m h (heap_address_to_block h ptr)"

end
