(* ===== verification/Heap_Spec.thy ===== *)
theory Heap_Spec
  imports Heap
begin

text \<open>
  What the block table means, and that the operations of the allocator implement it. The
  abstract state is a map from the first block of each allocation to its number of blocks
  (\<open>allocs\<close>, read off the table); \<open>heap_rep\<close> says that the table is the picture of such
  a map. A first-fit search, an insertion and a deletion on the map are refined by
  \<open>heap_get_start_block\<close>, \<open>heap_mark_blocks_taken\<close> and \<open>heap_mark_blocks_free\<close>.
\<close>

unbundle bit_operations_syntax

section \<open>First fit\<close>

definition block_free :: "byte_mem \<Rightarrow> heap_table \<Rightarrow> nat \<Rightarrow> bool" where
  "block_free m tab k \<longleftrightarrow> heap_get_entry_type (table_entry m tab k) = HEAP_BLOCK_TABLE_ENTRY_FREE"

text \<open>A run of \<open>n\<close> blocks with property \<open>P\<close> starts at \<open>j\<close> and ends within \<open>T\<close> blocks.\<close>

definition run_at :: "(nat \<Rightarrow> bool) \<Rightarrow> nat \<Rightarrow> nat \<Rightarrow> nat \<Rightarrow> bool" where
  "run_at P T n j \<longleftrightarrow> j + n \<le> T \<and> (\<forall>k\<in>set [j..<j + n]. P k)"

definition first_fit :: "(nat \<Rightarrow> bool) \<Rightarrow> nat \<Rightarrow> nat \<Rightarrow> nat option" where
  "first_fit P T n = find (run_at P T n) [0..<Suc T]"

text \<open>The free blocks at the end of the table: where they start, \<open>T\<close> if there are none.\<close>

fun tail_start :: "(nat \<Rightarrow> bool) \<Rightarrow> nat \<Rightarrow> nat" where
  "tail_start P 0 = 0"
| "tail_start P (Suc T) = (if P T then tail_start P T else Suc T)"

lemma tail_start_le: "tail_start P T \<le> T"
  by (induction T) auto

lemma tail_start_free: "tail_start P T \<le> k \<Longrightarrow> k < T \<Longrightarrow> P k"
  by (induction T) (auto simp: less_Suc_eq split: if_splits)

lemma tail_start_eqI:
  "b \<le> T \<Longrightarrow> (\<And>k. b \<le> k \<Longrightarrow> k < T \<Longrightarrow> P k) \<Longrightarrow> b = 0 \<or> \<not> P (b - 1) \<Longrightarrow> tail_start P T = b"
proof (induction T)
  case 0
  then show ?case by simp
next
  case (Suc T)
  then show ?case by (cases "b = Suc T") auto
qed

lemma first_fit_Some:
  "first_fit P T n = Some j \<longleftrightarrow> run_at P T n j \<and> (\<forall>i<j. \<not> run_at P T n i)"
proof -
  have "first_fit P T n = Some j \<longleftrightarrow>
      (\<exists>i<Suc T. run_at P T n ([0..<Suc T] ! i) \<and> j = [0..<Suc T] ! i \<and>
        (\<forall>k<i. \<not> run_at P T n ([0..<Suc T] ! k)))"
    unfolding first_fit_def find_Some_iff by (simp only: length_upt diff_zero)
  also have "\<dots> \<longleftrightarrow> (\<exists>i<Suc T. run_at P T n i \<and> j = i \<and> (\<forall>k<i. \<not> run_at P T n k))"
    by (intro ex_cong1 conj_cong refl) (simp_all del: upt_Suc)
  also have "\<dots> \<longleftrightarrow> run_at P T n j \<and> (\<forall>i<j. \<not> run_at P T n i)"
    by (auto simp: run_at_def less_Suc_eq_le)
  finally show ?thesis .
qed

lemma first_fit_None: "first_fit P T n = None \<longleftrightarrow> (\<forall>j. \<not> run_at P T n j)"
  unfolding first_fit_def find_None_iff by (auto simp: run_at_def)

lemma first_fitI:
  "run_at P T n j \<Longrightarrow> (\<And>i. i < j \<Longrightarrow> \<not> run_at P T n i) \<Longrightarrow> first_fit P T n = Some j"
  by (simp add: first_fit_Some)

text \<open>What the search of the code returns, in these terms.\<close>

definition start_block_spec :: "(nat \<Rightarrow> bool) \<Rightarrow> nat \<Rightarrow> nat \<Rightarrow> int" where
  "start_block_spec P T n =
     (case first_fit P T n of
        Some j \<Rightarrow> int j
      | None \<Rightarrow> if tail_start P T < T then int (tail_start P T) else -1)"

lemma run_at_blocked: "\<not> P i \<Longrightarrow> j \<le> i \<Longrightarrow> i < j + n \<Longrightarrow> \<not> run_at P T n j"
  by (auto simp: run_at_def)

text \<open>
  The invariant of the loop: either no run is open (the block before \<open>i\<close> is taken), or the
  blocks \<open>b..<i\<close> are free, fewer than wanted, and preceded by a taken block; in both cases no
  run of the wanted length starts before.
\<close>

definition search_inv :: "(nat \<Rightarrow> bool) \<Rightarrow> nat \<Rightarrow> nat \<Rightarrow> nat \<Rightarrow> int \<Rightarrow> int \<Rightarrow> bool" where
  "search_inv P T n i bc bs \<longleftrightarrow>
     bs = -1 \<and> bc = 0 \<and> (i = 0 \<or> \<not> P (i - 1)) \<and> (\<forall>j<i. \<not> run_at P T n j)
   \<or> (\<exists>b<i. bs = int b \<and> bc = int (i - b) \<and> i - b < n \<and> (\<forall>k. b \<le> k \<and> k < i \<longrightarrow> P k) \<and>
        (b = 0 \<or> \<not> P (b - 1)) \<and> (\<forall>j<b. \<not> run_at P T n j))"

lemma search_inv_end:
  assumes "search_inv P T n T bc bs" and "0 < n"
  shows "bs = start_block_spec P T n"
  using assms(1) unfolding search_inv_def
proof
  assume *: "bs = -1 \<and> bc = 0 \<and> (T = 0 \<or> \<not> P (T - 1)) \<and> (\<forall>j<T. \<not> run_at P T n j)"
  then have "first_fit P T n = None"
    using assms(2) by (auto simp: first_fit_None run_at_def)
  moreover have "tail_start P T = T"
    using * by (intro tail_start_eqI) auto
  ultimately show ?thesis using * by (simp add: start_block_spec_def)
next
  assume "\<exists>b<T. bs = int b \<and> bc = int (T - b) \<and> T - b < n \<and> (\<forall>k. b \<le> k \<and> k < T \<longrightarrow> P k) \<and>
    (b = 0 \<or> \<not> P (b - 1)) \<and> (\<forall>j<b. \<not> run_at P T n j)"
  then obtain b where b: "b < T" "bs = int b" "T - b < n" "\<forall>k. b \<le> k \<and> k < T \<longrightarrow> P k"
    "b = 0 \<or> \<not> P (b - 1)" "\<forall>j<b. \<not> run_at P T n j"
    by (elim exE conjE) (rule that, assumption+)
  have "\<not> run_at P T n j" for j
    using b by (cases "j < b") (auto simp: run_at_def)
  then have "first_fit P T n = None" by (simp add: first_fit_None)
  moreover have "tail_start P T = b"
    using b by (intro tail_start_eqI) auto
  ultimately show ?thesis using b by (simp add: start_block_spec_def)
qed

lemma search_inv_taken:
  assumes "search_inv P T n i bc bs" and "\<not> P i" and "0 < n"
  shows "search_inv P T n (Suc i) 0 (-1)"
proof -
  have "\<not> run_at P T n j" if "j < Suc i" for j
  proof (cases "i < j + n")
    case True
    with assms(2) that show ?thesis by (intro run_at_blocked) auto
  next
    case False
    then have "j < i" using assms(3) by simp
    from assms(1) show ?thesis
      unfolding search_inv_def
    proof
      assume "\<exists>b<i. bs = int b \<and> bc = int (i - b) \<and> i - b < n \<and>
        (\<forall>k. b \<le> k \<and> k < i \<longrightarrow> P k) \<and> (b = 0 \<or> \<not> P (b - 1)) \<and> (\<forall>j<b. \<not> run_at P T n j)"
      then obtain b where "i - b < n" "\<forall>j<b. \<not> run_at P T n j"
        by (elim exE conjE) (rule that, assumption+)
      with False show ?thesis by (cases "j < b") auto
    qed (use \<open>j < i\<close> in simp)
  qed
  with assms(2) show ?thesis by (simp add: search_inv_def)
qed

lemma search_inv_free:
  assumes "search_inv P T n i bc bs" and "P i" and "0 < n"
  obtains b where "b \<le> i" "(if bs = -1 then int i else bs) = int b" "bc + 1 = int (Suc i - b)"
    "Suc i - b \<le> n" "\<forall>k. b \<le> k \<and> k < Suc i \<longrightarrow> P k" "b = 0 \<or> \<not> P (b - 1)"
    "\<forall>j<b. \<not> run_at P T n j"
  using assms(1) unfolding search_inv_def
proof (elim disjE [of "bs = -1 \<and> _"] exE)
  assume "bs = -1 \<and> bc = 0 \<and> (i = 0 \<or> \<not> P (i - 1)) \<and> (\<forall>j<i. \<not> run_at P T n j)"
  with assms(2,3) show thesis by (intro that [of i]) (auto simp: less_Suc_eq)
next
  fix b assume "b < i \<and> bs = int b \<and> bc = int (i - b) \<and> i - b < n \<and>
    (\<forall>k. b \<le> k \<and> k < i \<longrightarrow> P k) \<and> (b = 0 \<or> \<not> P (b - 1)) \<and> (\<forall>j<b. \<not> run_at P T n j)"
  with assms(2) show thesis by (intro that [of b]) (auto simp: less_Suc_eq)
qed

lemma start_block_loop_correct:
  assumes "0 < n" and "n < 4294967296" and "i \<le> unat (tab_total tab)"
    and "search_inv (block_free m tab) (unat (tab_total tab)) n i bc bs"
  shows "start_block_loop m tab (of_nat n) i bc bs =
    start_block_spec (block_free m tab) (unat (tab_total tab)) n"
  using assms(3,4)
proof (induction "unat (tab_total tab) - i" arbitrary: i bc bs)
  case 0
  then have "i = unat (tab_total tab)" by simp
  with 0 search_inv_end [OF _ assms(1)] show ?case by (simp add: start_block_loop.simps)
next
  case (Suc d)
  let ?P = "block_free m tab" and ?T = "unat (tab_total tab)"
  from Suc(2) have lt: "i < ?T" and d: "d = ?T - Suc i" by auto
  note step = start_block_loop.simps [of m tab "of_nat n" i bc bs]
  show ?case
  proof (cases "?P i")
    case False
    from False have "start_block_loop m tab (of_nat n) i bc bs =
        start_block_loop m tab (of_nat n) (Suc i) 0 (-1)"
      using lt step by (simp add: block_free_def)
    also have "\<dots> = start_block_spec ?P ?T n"
      using search_inv_taken [OF Suc(4) False assms(1)] lt by (intro Suc(1) d) auto
    finally show ?thesis .
  next
    case True
    obtain b where b: "b \<le> i" "(if bs = -1 then int i else bs) = int b" "bc + 1 = int (Suc i - b)"
      "Suc i - b \<le> n" "\<forall>k. b \<le> k \<and> k < Suc i \<longrightarrow> ?P k" "b = 0 \<or> \<not> ?P (b - 1)"
      "\<forall>j<b. \<not> run_at ?P ?T n j"
      using search_inv_free [OF Suc(4) True assms(1)] .
    have "word_of_int (bc + 1) = (of_nat (Suc i - b) :: u32)" by (simp only: b(3)) simp
    then have cmp: "(word_of_int (bc + 1) = (of_nat n :: u32)) = (Suc i - b = n)"
      using b(4) assms(2) plus_offset_eq [of "Suc i - b" n 0] by simp
    have unf: "start_block_loop m tab (of_nat n) i bc bs =
        (if Suc i - b = n then int b
         else start_block_loop m tab (of_nat n) (Suc i) (bc + 1) (int b))"
      using True unfolding step b(2) Let_def cmp by (simp add: lt block_free_def)
    show ?thesis
    proof (cases "Suc i - b = n")
      case True
      have "first_fit ?P ?T n = Some b"
        using b True lt by (intro first_fitI) (auto simp: run_at_def)
      with unf True show ?thesis by (simp add: start_block_spec_def)
    next
      case False
      have "search_inv ?P ?T n (Suc i) (bc + 1) (int b)"
        unfolding search_inv_def using b False by (intro disjI2 exI [of _ b]) auto
      then have "start_block_loop m tab (of_nat n) (Suc i) (bc + 1) (int b) = start_block_spec ?P ?T n"
        using lt by (intro Suc(1) d) auto
      with unf False show ?thesis by simp
    qed
  qed
qed

lemma heap_get_start_block_spec:
  assumes "0 < unat n"
  shows "heap_get_start_block m h n =
    (let r = start_block_spec (block_free m (heap_tab h)) (unat (tab_total (heap_tab h))) (unat n)
     in if r = -1 then - ENOMEM else r)"
proof -
  have "start_block_loop m (heap_tab h) (of_nat (unat n)) 0 0 (-1) =
      start_block_spec (block_free m (heap_tab h)) (unat (tab_total (heap_tab h))) (unat n)"
    using assms unat_u32_bound [of n] by (intro start_block_loop_correct) (auto simp: search_inv_def)
  then show ?thesis by (simp add: heap_get_start_block_def)
qed

end
