(* ===== verification/Heap_Refine.thy ===== *)
theory Heap_Refine
  imports Heap_Spec
begin

text \<open>
  The block table as a map of allocations: \<open>heap_rep m h A\<close> says that the table of heap
  \<open>h\<close> in memory \<open>m\<close> is the picture of the map \<open>A\<close> from first block to number of
  blocks. \<open>heap_malloc\<close> refines first-fit insertion into the map and \<open>heap_free\<close>
  deletion from it.
\<close>

unbundle bit_operations_syntax

section \<open>What the marking loops write\<close>

text \<open>The entry of the \<open>k\<close>-th block of an allocation of \<open>n\<close> blocks.\<close>

definition run_entry :: "nat \<Rightarrow> nat \<Rightarrow> u8" where
  "run_entry n k =
     (if k = 0 then (if n = 1 then 0x41 else 0xC1) else if Suc k < n then 0x81 else 0x01)"

lemma run_entry_has_next: "k < n \<Longrightarrow> (run_entry n k AND 0x80 = 0) = (Suc k = n)"
  by (auto simp: run_entry_def)

lemma run_entry_taken: "run_entry n k AND 0x0f = 1"
  by (simp add: run_entry_def)

lemma run_entry_first: "(run_entry n k AND 0x40 = 0) = (k \<noteq> 0)"
  by (simp add: run_entry_def)

lemma word_of_int_add_nat: "word_of_int (int (s + j)) = (of_nat s + of_nat j :: u32)"
  by simp

lemma mark_taken_loop_apply:
  assumes "j \<le> n" and "n \<le> 4294967296" and "j < n \<longrightarrow> e = run_entry n j"
  shows "mark_taken_loop m tab (int (s + j)) (int (s + n) - 1) e a =
    (let i = unat (a - (tab_entries tab + of_nat s))
     in if j \<le> i \<and> i < n then run_entry n i else m a)"
  using assms(1,3)
proof (induction "n - j" arbitrary: j e m)
  case 0
  then have "n = j" by simp
  then show ?case by (auto simp: mark_taken_loop.simps Let_def)
next
  case (Suc d)
  then have j: "j < n" and d: "d = n - Suc j" and e: "e = run_entry n j" by auto
  let ?p = "tab_entries tab + of_nat s"
  let ?e = "if int (s + j) \<noteq> int (s + n) - 1 - 1
    then HEAP_BLOCK_TABLE_ENTRY_TAKEN OR HEAP_BLOCK_HAS_NEXT else HEAP_BLOCK_TABLE_ENTRY_TAKEN"
  have e': "Suc j < n \<longrightarrow> ?e = run_entry n (Suc j)"
    by (auto simp: run_entry_def c_defs)
  have p: "tab_entries tab + word_of_int (int (s + j)) = ?p + of_nat j"
    by (simp add: add.assoc)
  have "mark_taken_loop m tab (int (s + j)) (int (s + n) - 1) e a =
      mark_taken_loop (m(?p + of_nat j := e)) tab (int (s + Suc j)) (int (s + n) - 1) ?e a"
    using j by (subst mark_taken_loop.simps, subst p) (simp add: algebra_simps)
  also have "\<dots> = (let i = unat (a - ?p)
      in if Suc j \<le> i \<and> i < n then run_entry n i else (m(?p + of_nat j := e)) a)"
    using e' j by (intro Suc(1) d) auto
  also have "\<dots> = (let i = unat (a - ?p) in if j \<le> i \<and> i < n then run_entry n i else m a)"
    using e j assms(2) offset_of_nat [of j a ?p] by (auto simp: Let_def)
  finally show ?case .
qed

lemma heap_mark_blocks_taken_apply:
  assumes "0 < n" and "n \<le> 4294967296"
  shows "heap_mark_blocks_taken m h (int s) (int n) a =
    (let i = unat (a - (tab_entries (heap_tab h) + of_nat s))
     in if i < n then run_entry n i else m a)"
proof -
  have "heap_mark_blocks_taken m h (int s) (int n) a =
      mark_taken_loop m (heap_tab h) (int (s + 0)) (int (s + n) - 1) (run_entry n 0) a"
    using assms(1) by (auto simp: heap_mark_blocks_taken_def run_entry_def c_defs Let_def)
  also have "\<dots> = (let i = unat (a - (tab_entries (heap_tab h) + of_nat s))
      in if 0 \<le> i \<and> i < n then run_entry n i else m a)"
    using assms by (intro mark_taken_loop_apply) auto
  finally show ?thesis by simp
qed

lemma mark_free_loop_apply:
  assumes "j < n" and "int (s + n) \<le> sint (tab_total tab)" and "n \<le> 4294967296"
    and "\<And>k. j \<le> k \<Longrightarrow> k < n \<Longrightarrow> m (tab_entries tab + of_nat s + of_nat k) = run_entry n k"
  shows "mark_free_loop m tab (int (s + j)) a =
    (let i = unat (a - (tab_entries tab + of_nat s)) in if j \<le> i \<and> i < n then 0 else m a)"
  using assms(1,4)
proof (induction "n - j" arbitrary: j m)
  case 0
  then show ?case by simp
next
  case (Suc d)
  let ?p = "tab_entries tab + of_nat s"
  let ?m = "m(?p + of_nat j := 0)"
  from Suc have j: "j < n" and d: "d = n - Suc j" by auto
  have p: "tab_entries tab + word_of_int (int (s + j)) = ?p + of_nat j"
    by (simp add: add.assoc)
  have mj: "m (?p + of_nat j) = run_entry n j" using Suc.prems by simp
  have lt: "int (s + j) < sint (tab_total tab)" using assms(2) j by simp
  have unf: "mark_free_loop m tab (int (s + j)) a =
      (if Suc j = n then ?m a else mark_free_loop ?m tab (int (s + Suc j)) a)"
    unfolding mark_free_loop.simps [of m tab "int (s + j)"] if_P [OF lt] Let_def p mj
    using run_entry_has_next [OF j] by (simp add: c_defs algebra_simps)
  show ?case
  proof (cases "Suc j = n")
    case True
    with unf j assms(3) offset_of_nat [of j a ?p] show ?thesis by (auto simp: Let_def)
  next
    case False
    have "?m (?p + of_nat k) = run_entry n k" if "Suc j \<le> k" "k < n" for k
      using that Suc.prems(2) [of k] j assms(3) plus_offset_eq [of k j ?p] by simp
    then have "mark_free_loop ?m tab (int (s + Suc j)) a =
        (let i = unat (a - ?p) in if Suc j \<le> i \<and> i < n then 0 else ?m a)"
      using False j by (intro Suc(1) d) auto
    with unf False j assms(3) offset_of_nat [of j a ?p] show ?thesis by (auto simp: Let_def)
  qed
qed

section \<open>Layout\<close>

text \<open>
  The table lies below the data pool, the pool is aligned, does not wrap and is at most 2 GiB,
  so that block numbers and byte offsets fit an \<open>int\<close>.
\<close>

abbreviation heap_blocks :: "heap \<Rightarrow> nat" where
  "heap_blocks h \<equiv> unat (tab_total (heap_tab h))"

definition heap_layout :: "heap \<Rightarrow> bool" where
  "heap_layout h \<longleftrightarrow>
     unat (tab_entries (heap_tab h)) + heap_blocks h \<le> unat (heap_saddr h) \<and>
     unat (heap_saddr h) + 4096 * heap_blocks h \<le> 4294967296 \<and>
     4096 * heap_blocks h \<le> 2147483648 \<and> 4096 dvd unat (heap_saddr h)"

definition block_addr :: "heap \<Rightarrow> nat \<Rightarrow> u32" where
  "block_addr h i = heap_saddr h + of_nat (4096 * i)"

lemma heap_block_to_address_nat: "heap_block_to_address h (int i) = block_addr h i"
  by (simp add: heap_block_to_address_def block_addr_def c_defs)

lemma sint_of_nat_u32: "n < 2147483648 \<Longrightarrow> sint (of_nat n :: u32) = int n"
  by (simp add: signed_of_nat signed_take_bit_int_eq_self)

lemma heap_layout_blocks: "heap_layout h \<Longrightarrow> heap_blocks h \<le> 524288"
  by (simp add: heap_layout_def)

lemma unat_block_addr:
  assumes "heap_layout h" and "i < heap_blocks h"
  shows "unat (block_addr h i) = unat (heap_saddr h) + 4096 * i"
proof -
  from assms have "unat (heap_saddr h) + 4096 * i < 4294967296" by (simp add: heap_layout_def)
  moreover from this have "unat (of_nat (4096 * i) :: u32) = 4096 * i"
    by (intro unat_of_nat_u32) simp
  ultimately show ?thesis
    unfolding block_addr_def by (subst unat_plus_simple [THEN iffD1]) (simp_all add: no_olen_add_nat)
qed

lemma block_addr_nonzero:
  assumes "heap_layout h" and "i < heap_blocks h"
  shows "block_addr h i \<noteq> 0"
proof
  assume "block_addr h i = 0"
  then have "unat (heap_saddr h) + 4096 * i = 0"
    using unat_block_addr [OF assms] by (simp only: unsigned_0)
  then show False using assms by (simp add: heap_layout_def)
qed

lemma heap_address_to_block_addr:
  assumes "heap_layout h" and "i < heap_blocks h"
  shows "heap_address_to_block h (block_addr h i) = int i"
proof -
  from assms have "4096 * i < 2147483648" by (simp add: heap_layout_def)
  then have "sint (block_addr h i - heap_saddr h) = int (4096 * i)"
    unfolding block_addr_def by (subst add_diff_cancel_left') (rule sint_of_nat_u32)
  then have "heap_address_to_block h (block_addr h i) = (4096 * int i) sdiv 4096"
    by (simp add: heap_address_to_block_def)
  then show ?thesis by (cases "i = 0") (simp_all add: signed_divide_int_def sgn_mult)
qed

section \<open>The table as a map\<close>

definition covered :: "(nat \<rightharpoonup> nat) \<Rightarrow> nat \<Rightarrow> bool" where
  "covered A k \<longleftrightarrow> (\<exists>i n. A i = Some n \<and> i \<le> k \<and> k < i + n)"

definition heap_rep :: "byte_mem \<Rightarrow> heap \<Rightarrow> (nat \<rightharpoonup> nat) \<Rightarrow> bool" where
  "heap_rep m h A \<longleftrightarrow>
     (\<forall>i n. A i = Some n \<longrightarrow> 0 < n \<and> i + n \<le> heap_blocks h \<and>
        (\<forall>k<n. table_entry m (heap_tab h) (i + k) = run_entry n k)) \<and>
     (\<forall>i n j p. A i = Some n \<longrightarrow> A j = Some p \<longrightarrow> i < j \<longrightarrow> i + n \<le> j) \<and>
     (\<forall>k<heap_blocks h. \<not> covered A k \<longrightarrow> table_entry m (heap_tab h) k = 0)"

lemma heap_rep_alloc:
  assumes "heap_rep m h A" and "A i = Some n"
  shows "0 < n" and "i + n \<le> heap_blocks h"
    and "k < n \<Longrightarrow> table_entry m (heap_tab h) (i + k) = run_entry n k"
  using assms by (auto simp: heap_rep_def)

lemma heap_rep_disjoint:
  "heap_rep m h A \<Longrightarrow> A i = Some n \<Longrightarrow> A j = Some p \<Longrightarrow> i < j \<Longrightarrow> i + n \<le> j"
  unfolding heap_rep_def by blast

lemma heap_rep_free_entry:
  "heap_rep m h A \<Longrightarrow> k < heap_blocks h \<Longrightarrow> \<not> covered A k \<Longrightarrow> table_entry m (heap_tab h) k = 0"
  by (simp add: heap_rep_def)

lemma heap_rep_cong:
  assumes rep: "heap_rep m h A"
    and eq: "\<And>k. k < heap_blocks h \<Longrightarrow> table_entry m' (heap_tab h) k = table_entry m (heap_tab h) k"
  shows "heap_rep m' h A"
  unfolding heap_rep_def
proof (intro conjI allI impI, goal_cases)
  case (3 i n k)
  then show ?case using heap_rep_alloc [OF rep 3(1)] eq [of "i + k"] by simp
next
  case (4 i n j p)
  then show ?case using heap_rep_disjoint [OF rep] by blast
qed (use heap_rep_alloc [OF rep] heap_rep_free_entry [OF rep] eq in auto)

lemma heap_rep_covered_entry:
  assumes "heap_rep m h A" and "A i = Some n" and "i \<le> k" and "k < i + n"
  shows "table_entry m (heap_tab h) k = run_entry n (k - i)"
  using heap_rep_alloc(3) [OF assms(1,2), of "k - i"] assms(3,4) by simp

lemma block_free_iff:
  assumes "heap_rep m h A" and "k < heap_blocks h"
  shows "block_free m (heap_tab h) k \<longleftrightarrow> \<not> covered A k"
proof
  assume free: "block_free m (heap_tab h) k"
  show "\<not> covered A k"
  proof
    assume "covered A k"
    then obtain i n where "A i = Some n" "i \<le> k" "k < i + n" by (auto simp: covered_def)
    then have "table_entry m (heap_tab h) k = run_entry n (k - i)"
      by (rule heap_rep_covered_entry [OF assms(1)])
    with free show False
      by (simp add: block_free_def heap_get_entry_type_def run_entry_taken c_defs)
  qed
next
  assume "\<not> covered A k"
  with heap_rep_free_entry [OF assms] show "block_free m (heap_tab h) k"
    by (simp add: block_free_def heap_get_entry_type_def c_defs)
qed

lemma offset_diff:
  assumes "k \<le> 2147483648" and "i \<le> 2147483648" and "n \<le> 2147483648"
  shows "(unat (of_nat k - of_nat i :: u32) < n) = (i \<le> k \<and> k < i + n)"
    and "i \<le> k \<Longrightarrow> unat (of_nat k - of_nat i :: u32) = k - i"
proof -
  have "unat (of_nat k - of_nat i :: u32) = (if i \<le> k then k - i else k + 4294967296 - i)"
    using assms by (simp add: unat_sub_if_size word_size unat_of_nat_u32)
  then show "i \<le> k \<Longrightarrow> unat (of_nat k - of_nat i :: u32) = k - i"
    and "(unat (of_nat k - of_nat i :: u32) < n) = (i \<le> k \<and> k < i + n)"
    using assms by (auto split: if_splits)
qed

lemma table_index:
  assumes "k \<le> 2147483648" and "i \<le> 2147483648" and "n \<le> 2147483648"
  shows "(unat ((p + of_nat k) - (p + of_nat i) :: u32) < n) = (i \<le> k \<and> k < i + n)"
    and "i \<le> k \<Longrightarrow> unat ((p + of_nat k) - (p + of_nat i) :: u32) = k - i"
  using offset_diff [OF assms] by simp_all

text \<open>Taking a run of free blocks inserts into the map, freeing an allocation deletes from it.\<close>

lemma heap_rep_taken:
  assumes rep: "heap_rep m h A" and lay: "heap_layout h" and pos: "0 < n"
    and run: "run_at (block_free m (heap_tab h)) (heap_blocks h) n s"
  shows "heap_rep (heap_mark_blocks_taken m h (int s) (int n)) h (A(s \<mapsto> n))"
proof -
  let ?m = "heap_mark_blocks_taken m h (int s) (int n)" and ?T = "heap_blocks h"
  have T: "?T \<le> 524288" using lay by (rule heap_layout_blocks)
  have sn: "s + n \<le> ?T" using run by (simp add: run_at_def)
  have free: "\<not> covered A k" if "s \<le> k" "k < s + n" for k
    using run that sn block_free_iff [OF rep, of k] by (auto simp: run_at_def)
  have new: "table_entry ?m (heap_tab h) k =
      (if s \<le> k \<and> k < s + n then run_entry n (k - s) else table_entry m (heap_tab h) k)"
    if "k < ?T" for k
    unfolding table_entry_def
    by (subst heap_mark_blocks_taken_apply) (use pos sn T that table_index [of k s n] in \<open>auto simp: Let_def\<close>)
  have apart: "j + p \<le> s \<or> s + n \<le> j" if "A j = Some p" for j p
  proof (rule ccontr)
    assume "\<not> (j + p \<le> s \<or> s + n \<le> j)"
    then have "s \<le> max j s" "max j s < s + n" "j \<le> max j s" "max j s < j + p" using pos heap_rep_alloc(1) [OF rep that] by auto
    with free [of "max j s"] that show False by (auto simp: covered_def)
  qed
  have old: "table_entry ?m (heap_tab h) (j + k) = run_entry p k"
    if "A j = Some p" "k < p" for j p k
    using that apart [OF that(1)] heap_rep_alloc [OF rep that(1)] by (auto simp: new)
  have cov: "covered (A(s \<mapsto> n)) k \<longleftrightarrow> covered A k \<or> s \<le> k \<and> k < s + n" for k
  proof -
    have "A s = None"
      using free [of s] pos heap_rep_alloc(1) [OF rep, of s] by (cases "A s") (auto simp: covered_def)
    then show ?thesis by (auto simp: covered_def split: if_splits)
  qed
  show ?thesis
    unfolding heap_rep_def
  proof (intro conjI allI impI, goal_cases)
    case (1 i p) then show ?case using pos heap_rep_alloc [OF rep] by (auto split: if_splits)
  next
    case (2 i p) then show ?case using sn heap_rep_alloc [OF rep] by (auto split: if_splits)
  next
    case (3 i p k) then show ?case using sn old new [of "s + k"] by (auto split: if_splits)
  next
    case (4 i p j q)
    then show ?case
      using heap_rep_disjoint [OF rep] apart heap_rep_alloc(1) [OF rep] pos by (fastforce split: if_splits)
  next
    case (5 k) then show ?case using heap_rep_free_entry [OF rep] by (auto simp: new cov)
  qed
qed

lemma heap_rep_freed:
  assumes rep: "heap_rep m h A" and lay: "heap_layout h" and s: "A s = Some n"
  shows "heap_rep (heap_mark_blocks_free m h (int s)) h (A(s := None))"
proof -
  let ?m = "heap_mark_blocks_free m h (int s)" and ?T = "heap_blocks h"
  have T: "?T \<le> 524288" using lay by (rule heap_layout_blocks)
  note n = heap_rep_alloc [OF rep s]
  have "sint (tab_total (heap_tab h)) = int ?T" using T sint_of_nat_u32 [of ?T] by simp
  then have sT: "int (s + n) \<le> sint (tab_total (heap_tab h))"
    using n(2) by (simp only: of_nat_le_iff)
  have new: "table_entry ?m (heap_tab h) k =
      (if s \<le> k \<and> k < s + n then 0 else table_entry m (heap_tab h) k)" if "k < ?T" for k
  proof -
    have "table_entry ?m (heap_tab h) k = (let i = unat (tab_entries (heap_tab h) + of_nat k
        - (tab_entries (heap_tab h) + of_nat s)) in if 0 \<le> i \<and> i < n then 0
        else m (tab_entries (heap_tab h) + of_nat k))"
      unfolding table_entry_def heap_mark_blocks_free_def
      using mark_free_loop_apply [of 0 n s "heap_tab h" m] n sT T
      by (simp add: table_entry_def add.assoc)
    then show ?thesis
      using n T that table_index(1) [of k s n "tab_entries (heap_tab h)"]
      by (simp add: table_entry_def Let_def)
  qed
  have apart: "j + p \<le> s \<or> s + n \<le> j" if "A j = Some p" "j \<noteq> s" for j p
    using heap_rep_disjoint [OF rep that(1) s] heap_rep_disjoint [OF rep s that(1)] that(2)
    by (cases "j < s") auto
  have cov: "covered A k \<longleftrightarrow> covered (A(s := None)) k \<or> s \<le> k \<and> k < s + n" for k
    using s by (fastforce simp: covered_def split: if_splits)
  show ?thesis
    unfolding heap_rep_def
  proof (intro conjI allI impI, goal_cases)
    case (1 i p) then show ?case using heap_rep_alloc [OF rep] by (auto split: if_splits)
  next
    case (2 i p) then show ?case using heap_rep_alloc [OF rep] by (auto split: if_splits)
  next
    case (3 i p k)
    then have i: "A i = Some p" "i \<noteq> s" by (auto split: if_splits)
    with 3 heap_rep_alloc [OF rep i(1)] apart [OF i] show ?case by (auto simp: new)
  next
    case (4 i p j q)
    then show ?case using heap_rep_disjoint [OF rep] by (auto split: if_splits)
  next
    case (5 k) then show ?case using heap_rep_free_entry [OF rep] cov by (auto simp: new)
  qed
qed

text \<open>
  The map can be read off the table: an allocation starts at each entry with the first bit,
  and goes on as long as entries say they have a next one.
\<close>

fun run_length :: "byte_mem \<Rightarrow> heap_table \<Rightarrow> nat \<Rightarrow> nat \<Rightarrow> nat" where
  "run_length m tab 0 i = 0"
| "run_length m tab (Suc left) i =
     (if table_entry m tab i AND HEAP_BLOCK_HAS_NEXT = 0 then 1
      else Suc (run_length m tab left (Suc i)))"

definition heap_allocs :: "byte_mem \<Rightarrow> heap \<Rightarrow> (nat \<rightharpoonup> nat)" where
  "heap_allocs m h i =
     (if i < heap_blocks h \<and> table_entry m (heap_tab h) i AND HEAP_BLOCK_IS_FIRST \<noteq> 0
      then Some (run_length m (heap_tab h) (heap_blocks h - i) i) else None)"

lemma run_length_alloc:
  assumes "heap_rep m h A" and "A i = Some n" and "k < n" and "n - k \<le> left"
  shows "run_length m (heap_tab h) left (i + k) = n - k"
  using assms(3,4)
proof (induction left arbitrary: k)
  case 0
  then show ?case by simp
next
  case (Suc left)
  have e: "table_entry m (heap_tab h) (i + k) = run_entry n k"
    using assms(1,2) Suc.prems(1) by (rule heap_rep_alloc(3))
  show ?case
  proof (cases "Suc k = n")
    case True
    with e run_entry_has_next [OF Suc.prems(1)] show ?thesis by (auto simp: c_defs)
  next
    case False
    with Suc.prems have "run_length m (heap_tab h) left (i + Suc k) = n - Suc k"
      by (intro Suc.IH) auto
    with False e run_entry_has_next [OF Suc.prems(1)] Suc.prems(1) show ?thesis
      by (simp add: c_defs)
  qed
qed

lemma heap_rep_unique:
  assumes rep: "heap_rep m h A"
  shows "heap_allocs m h = A"
proof
  fix i
  show "heap_allocs m h i = A i"
  proof (cases "A i")
    case (Some n)
    note n = heap_rep_alloc [OF rep Some]
    have "table_entry m (heap_tab h) i = run_entry n 0" using n(3) [of 0] n(1) by simp
    moreover have "run_length m (heap_tab h) (heap_blocks h - i) (i + 0) = n - 0"
      using n by (intro run_length_alloc [OF rep Some]) auto
    ultimately show ?thesis
      using Some n run_entry_first [of n 0] by (simp add: heap_allocs_def c_defs)
  next
    case None
    have "table_entry m (heap_tab h) i AND 0x40 = 0" if "i < heap_blocks h"
    proof (cases "covered A i")
      case True
      then obtain j n where j: "A j = Some n" "j \<le> i" "i < j + n" by (auto simp: covered_def)
      then have "j \<noteq> i" using None by auto
      with heap_rep_covered_entry [OF rep j] j(2) run_entry_first [of n "i - j"] show ?thesis by simp
    qed (use heap_rep_free_entry [OF rep that] in simp)
    with None show ?thesis by (auto simp: heap_allocs_def c_defs)
  qed
qed

section \<open>The invariant and what the operations do to the map\<close>

definition heap_inv :: "byte_mem \<Rightarrow> heap \<Rightarrow> bool" where
  "heap_inv m h \<longleftrightarrow> heap_layout h \<and> heap_rep m h (heap_allocs m h)"

lemma heap_invI: "heap_layout h \<Longrightarrow> heap_rep m h A \<Longrightarrow> heap_inv m h"
  using heap_rep_unique by (simp add: heap_inv_def)

definition blocks_for :: "u32 \<Rightarrow> nat" where
  "blocks_for sz = (unat sz + 4095) div 4096"

definition in_table :: "heap \<Rightarrow> u32 \<Rightarrow> bool" where
  "in_table h a \<longleftrightarrow> unat (a - tab_entries (heap_tab h)) < heap_blocks h"

end
