(* ===== verification/Heap_Props.thy ===== *)
theory Heap_Props
  imports Heap_Refine
begin

text \<open>
  The operations of \<^verbatim>\<open>heap.c\<close> on the map of allocations: creation gives the empty map,
  \<open>heap_malloc\<close> inserts at the first fit or fails, \<open>heap_free\<close> deletes, and both write
  nothing but the table. The last section is the case in which the search misleads them.
\<close>

unbundle bit_operations_syntax

section \<open>Sizes\<close>

lemma u32_mod_4096: "unat (v mod 4096 :: u32) = unat v mod 4096"
  by (simp add: unat_mod)

lemma ceil_4096:
  fixes x :: nat
  shows "4096 * ((x + 4095) div 4096) = (if x mod 4096 = 0 then x else x - x mod 4096 + 4096)"
proof -
  define q r where "q = x div 4096" and "r = x mod 4096"
  have x: "x = r + 4096 * q" and r: "r < 4096" by (simp_all add: q_def r_def)
  have "(x + 4095) div 4096 = ((r + 4095) + 4096 * q) div 4096"
    unfolding x by (simp only: ac_simps)
  also have "\<dots> = q + (r + 4095) div 4096" by (simp only: div_mult_self2 zero_neq_numeral not_False_eq_True)
  also have "(r + 4095) div 4096 = (if r = 0 then 0 else 1)"
    using r by (auto intro!: div_nat_eqI)
  finally show ?thesis unfolding r_def [symmetric] using x r by auto
qed

lemma heap_align_bounds:
  assumes "unat sz \<le> 4294963200"
  shows "unat (heap_align_value_to_upper sz) = 4096 * blocks_for sz"
proof (cases "sz mod 4096 = 0")
  case True
  then have "unat sz mod 4096 = 0" using u32_mod_4096 [of sz] by simp
  with True ceil_4096 [of "unat sz"] show ?thesis
    by (simp add: heap_align_value_to_upper_def blocks_for_def c_defs)
next
  case False
  let ?r = "unat sz mod 4096"
  have r: "?r \<noteq> 0"
  proof
    assume "?r = 0"
    then have "unat (sz mod 4096) = 0" using u32_mod_4096 [of sz] by simp
    with False show False by (simp only: unat_eq_zero)
  qed
  have "sz mod 4096 \<le> sz" by (simp add: word_le_nat_alt u32_mod_4096)
  then have lo: "unat (sz - sz mod 4096) = unat sz - ?r"
    by (simp add: unat_sub u32_mod_4096)
  have "?r < 4096" by simp
  moreover have "unat sz = 4294963200 \<Longrightarrow> ?r = 0" by simp
  ultimately have "unat sz - ?r + 4096 < 4294967296" using assms r by linarith
  then have "unat ((sz - sz mod 4096) + 4096) = unat sz - ?r + 4096"
    using lo by (subst unat_plus_simple [THEN iffD1]) (simp_all add: no_olen_add_nat)
  with False r ceil_4096 [of "unat sz"] show ?thesis
    by (simp add: heap_align_value_to_upper_def blocks_for_def c_defs)
qed

lemma heap_malloc_eq:
  assumes "unat sz \<le> 4294963200"
  shows "heap_malloc m h sz = heap_malloc_blocks m h (of_nat (blocks_for sz))"
proof -
  have "unat (heap_align_value_to_upper sz div 4096) = blocks_for sz"
    using heap_align_bounds [OF assms] by (simp add: unat_div)
  then have "heap_align_value_to_upper sz div 4096 = of_nat (blocks_for sz)"
    by (metis of_nat_unat ucast_id)
  then show ?thesis by (simp add: heap_malloc_def c_defs)
qed

lemma blocks_for_bound: "blocks_for sz \<le> 1048576"
  using unat_u32_bound [of sz] div_le_mono [of "unat sz + 4095" 4294971390 4096]
  by (simp add: blocks_for_def)

lemma blocks_for_pos: "0 < blocks_for sz \<longleftrightarrow> sz \<noteq> 0"
proof -
  have "0 < blocks_for sz \<longleftrightarrow> 0 < unat sz" by (auto simp: blocks_for_def div_greater_zero_iff)
  then show ?thesis by (simp add: unat_gt_0)
qed

section \<open>Allocation\<close>

text \<open>The search of the code, in terms of the map of allocations.\<close>

abbreviation unallocated :: "byte_mem \<Rightarrow> heap \<Rightarrow> nat \<Rightarrow> bool" where
  "unallocated m h \<equiv> (\<lambda>k. \<not> covered (heap_allocs m h) k)"

definition fit :: "byte_mem \<Rightarrow> heap \<Rightarrow> nat \<Rightarrow> nat option" where
  "fit m h n = first_fit (unallocated m h) (heap_blocks h) n"

lemma run_at_cong: "(\<And>k. k < T \<Longrightarrow> P k = Q k) \<Longrightarrow> run_at P T n j = run_at Q T n j"
  by (auto simp: run_at_def)

lemma first_fit_cong: "(\<And>k. k < T \<Longrightarrow> P k = Q k) \<Longrightarrow> first_fit P T n = first_fit Q T n"
  unfolding first_fit_def using run_at_cong [of T P Q n] by presburger

lemma tail_start_cong: "(\<And>k. k < T \<Longrightarrow> P k = Q k) \<Longrightarrow> tail_start P T = tail_start Q T"
  by (induction T) auto

lemma heap_inv_rep: "heap_inv m h \<Longrightarrow> heap_rep m h (heap_allocs m h)"
  and heap_inv_layout: "heap_inv m h \<Longrightarrow> heap_layout h"
  by (simp_all add: heap_inv_def)

lemma heap_inv_search:
  assumes "heap_inv m h"
  shows "first_fit (block_free m (heap_tab h)) (heap_blocks h) n = fit m h n"
    and "tail_start (block_free m (heap_tab h)) (heap_blocks h) =
      tail_start (unallocated m h) (heap_blocks h)"
  unfolding fit_def
  using block_free_iff [OF heap_inv_rep [OF assms]]
  by (auto intro!: first_fit_cong tail_start_cong)

lemma heap_get_start_block_fit:
  assumes "heap_inv m h" and "0 < n" and "n < 4294967296"
  shows "heap_get_start_block m h (of_nat n) =
    (case fit m h n of
       Some j \<Rightarrow> int j
     | None \<Rightarrow> let t = tail_start (unallocated m h) (heap_blocks h)
               in if t < heap_blocks h then int t else - ENOMEM)"
proof -
  have "unat (of_nat n :: u32) = n" using assms(3) by (rule unat_of_nat_u32)
  then show ?thesis
    using heap_get_start_block_spec [of "of_nat n" m h] assms(2) heap_inv_search [OF assms(1)]
    by (simp add: start_block_spec_def Let_def split: option.splits)
qed

lemma sint_blocks: "n \<le> 1048576 \<Longrightarrow> sint (of_nat n :: u32) = int n"
  by (rule sint_of_nat_u32) simp

lemma heap_malloc_blocks_fit:
  assumes inv: "heap_inv m h" and n: "0 < n" "n \<le> 1048576" and fit: "fit m h n = Some i"
  shows "heap_malloc_blocks m h (of_nat n) =
    (block_addr h i, heap_mark_blocks_taken m h (int i) (int n))"
  using assms heap_get_start_block_fit [OF inv n(1)]
  by (simp add: heap_malloc_blocks_def heap_block_to_address_nat sint_blocks)

lemma fit_run:
  assumes "heap_inv m h" and "fit m h n = Some i"
  shows "run_at (block_free m (heap_tab h)) (heap_blocks h) n i"
  using assms heap_inv_search(1) [OF assms(1), of n] by (simp add: first_fit_Some)

lemma taken_outside:
  assumes "0 < n" and "i + n \<le> heap_blocks h" and "heap_layout h" and "\<not> in_table h a"
  shows "heap_mark_blocks_taken m h (int i) (int n) a = m a"
proof -
  have T: "heap_blocks h \<le> 524288" using assms(3) by (rule heap_layout_blocks)
  have "\<not> unat (a - (tab_entries (heap_tab h) + of_nat i)) < n"
  proof
    assume lt: "unat (a - (tab_entries (heap_tab h) + of_nat i)) < n"
    define d where "d = unat (a - (tab_entries (heap_tab h) + of_nat i))"
    have "a - tab_entries (heap_tab h) = of_nat (i + d)"
      unfolding d_def by (simp add: algebra_simps)
    then have "unat (a - tab_entries (heap_tab h)) = i + d"
      using lt assms(2) T by (simp only:) (rule unat_of_nat_u32, simp add: d_def)
    with lt assms(2,4) show False by (simp add: in_table_def d_def)
  qed
  with assms(1,2) T show ?thesis
    by (subst heap_mark_blocks_taken_apply) (auto simp: Let_def)
qed

lemma free_outside:
  assumes "heap_rep m h A" and "heap_layout h" and "A i = Some n" and "\<not> in_table h a"
  shows "heap_mark_blocks_free m h (int i) a = m a"
proof -
  note n = heap_rep_alloc [OF assms(1,3)]
  have T: "heap_blocks h \<le> 524288" using assms(2) by (rule heap_layout_blocks)
  have "sint (tab_total (heap_tab h)) = int (heap_blocks h)"
    using T sint_of_nat_u32 [of "heap_blocks h"] by simp
  then have sT: "int (i + n) \<le> sint (tab_total (heap_tab h))"
    using n(2) by (simp only: of_nat_le_iff)
  have "heap_mark_blocks_free m h (int (i + 0)) a =
      (let k = unat (a - (tab_entries (heap_tab h) + of_nat i)) in if 0 \<le> k \<and> k < n then 0 else m a)"
    unfolding heap_mark_blocks_free_def
    using n sT T by (intro mark_free_loop_apply) (auto simp: table_entry_def add.assoc)
  then have "heap_mark_blocks_free m h (int i) a = m a \<or>
      unat (a - (tab_entries (heap_tab h) + of_nat i)) < n"
    by (auto simp: Let_def)
  moreover have "\<not> unat (a - (tab_entries (heap_tab h) + of_nat i)) < n"
    using taken_outside [OF n(1,2) assms(2,4), of "\<lambda>_. 2"] n T
    by (subst (asm) heap_mark_blocks_taken_apply) (auto simp: Let_def run_entry_def split: if_splits)
  ultimately show ?thesis by simp
qed

section \<open>Creation\<close>

lemma heap_rep_empty:
  "(\<And>k. k < heap_blocks h \<Longrightarrow> table_entry m (heap_tab h) k = 0) \<Longrightarrow> heap_rep m h Map.empty"
  by (simp add: heap_rep_def)

lemma heap_inv_empty:
  assumes "heap_layout h" and "\<And>k. k < heap_blocks h \<Longrightarrow> table_entry m (heap_tab h) k = 0"
  shows "heap_inv m h" and "heap_allocs m h = Map.empty"
  using heap_rep_empty [OF assms(2)] assms(1) heap_invI heap_rep_unique by blast+

lemma memset_table:
  assumes "k < unat n"
  shows "memset m p c n (p + of_nat k) = c"
  using assms unat_u32_bound [of n] by (simp add: memset_apply unat_of_nat_u32)

lemma aligned_dvd: "heap_validate_alignment p \<longleftrightarrow> 4096 dvd unat p"
proof -
  have "p mod 4096 = 0 \<longleftrightarrow> unat (p mod 4096) = 0" by (simp only: unat_eq_zero)
  also have "\<dots> \<longleftrightarrow> 4096 dvd unat p" by (simp add: u32_mod_4096 dvd_eq_mod_eq_0)
  finally show ?thesis by (simp add: heap_validate_alignment_def c_defs)
qed

text \<open>
  \<open>heap_create\<close> with an aligned range that the table describes exactly returns 0, fills in
  the heap structure, and establishes the allocator's invariant with no allocation at all; it
  writes nothing but the block table.
\<close>

theorem heap_create_establishes:
  assumes "heap_layout \<lparr>heap_tab = tab, heap_saddr = ptr\<rparr>"
    and "end_ptr = ptr + of_nat (4096 * unat (tab_total tab))"
  shows "\<exists>m'. heap_create m h ptr end_ptr tab = (0, \<lparr>heap_tab = tab, heap_saddr = ptr\<rparr>, m') \<and>
    heap_inv m' \<lparr>heap_tab = tab, heap_saddr = ptr\<rparr> \<and>
    heap_allocs m' \<lparr>heap_tab = tab, heap_saddr = ptr\<rparr> = Map.empty \<and>
    (\<forall>a. \<not> in_table \<lparr>heap_tab = tab, heap_saddr = ptr\<rparr> a \<longrightarrow> m' a = m a)"
proof -
  let ?h = "\<lparr>heap_tab = tab, heap_saddr = ptr\<rparr>" and ?T = "unat (tab_total tab)"
  let ?m = "memset m (tab_entries tab) 0 (tab_total tab)"
  have lay: "4096 dvd unat ptr" "4096 * ?T \<le> 2147483648" using assms(1) by (simp_all add: heap_layout_def)
  have off: "unat (of_nat (4096 * ?T) :: u32) = 4096 * ?T"
    using lay(2) by (intro unat_of_nat_u32) simp
  have "4096 dvd unat end_ptr"
  proof -
    have "unat end_ptr = (unat ptr + 4096 * ?T) mod 4294967296"
      unfolding assms(2) unat_word_ariths(1) off by simp
    then show ?thesis using lay(1) by (simp add: dvd_mod)
  qed
  moreover have "(end_ptr - ptr) div 4096 = tab_total tab"
  proof -
    have "unat ((end_ptr - ptr) div 4096) = ?T"
      unfolding assms(2) add_diff_cancel_left' unat_div off by simp
    then show ?thesis by (simp only: word_unat_eq_iff)
  qed
  ultimately have "heap_create m h ptr end_ptr tab = (0, ?h, ?m)"
    using lay(1) by (simp add: heap_create_def aligned_dvd heap_validate_table_def c_defs)
  moreover have "table_entry ?m tab k = 0" if "k < ?T" for k
    unfolding table_entry_def using that by (rule memset_table)
  then have "heap_inv ?m ?h \<and> heap_allocs ?m ?h = Map.empty"
    using heap_inv_empty [OF assms(1)] by simp
  ultimately show ?thesis by (auto simp: in_table_def memset_apply)
qed

theorem heap_create_establishes_witness:
  "\<exists>m'. heap_create (\<lambda>_. 7) \<lparr>heap_tab = \<lparr>tab_entries = 0, tab_total = 0\<rparr>, heap_saddr = 0\<rparr>
      0x2000 0x6000 \<lparr>tab_entries = 0x100, tab_total = 4\<rparr> =
      (0, \<lparr>heap_tab = \<lparr>tab_entries = 0x100, tab_total = 4\<rparr>, heap_saddr = 0x2000\<rparr>, m') \<and>
    heap_allocs m' \<lparr>heap_tab = \<lparr>tab_entries = 0x100, tab_total = 4\<rparr>, heap_saddr = 0x2000\<rparr> = Map.empty"
  using heap_create_establishes [where tab = "\<lparr>tab_entries = 0x100, tab_total = 4\<rparr>" and ptr = "0x2000"
      and end_ptr = "0x6000" and m = "\<lambda>_. 7"
      and h = "\<lparr>heap_tab = \<lparr>tab_entries = 0, tab_total = 0\<rparr>, heap_saddr = 0\<rparr>"]
  by (auto simp: heap_layout_def)

section \<open>Allocating and freeing\<close>

lemma heap_malloc_fit:
  assumes "heap_inv m h" and "sz \<noteq> 0" and "unat sz \<le> 4294963200"
    and "fit m h (blocks_for sz) = Some i"
  shows "\<exists>m'. heap_malloc m h sz = (block_addr h i, m') \<and> heap_inv m' h \<and>
    heap_allocs m' h = (heap_allocs m h)(i \<mapsto> blocks_for sz) \<and>
    (\<forall>a. \<not> in_table h a \<longrightarrow> m' a = m a)"
proof -
  let ?n = "blocks_for sz" and ?m = "heap_mark_blocks_taken m h (int i) (int (blocks_for sz))"
  have n: "0 < ?n" "?n \<le> 1048576" using assms(2) blocks_for_pos blocks_for_bound by auto
  note lay = heap_inv_layout [OF assms(1)] and run = fit_run [OF assms(1,4)]
  have "heap_malloc m h sz = (block_addr h i, ?m)"
    using heap_malloc_eq [OF assms(3)] heap_malloc_blocks_fit [OF assms(1) n assms(4)] by simp
  moreover have rep: "heap_rep ?m h ((heap_allocs m h)(i \<mapsto> ?n))"
    by (rule heap_rep_taken [OF heap_inv_rep [OF assms(1)] lay n(1) run])
  moreover have "?m a = m a" if "\<not> in_table h a" for a
    using run n(1) lay that by (intro taken_outside) (auto simp: run_at_def)
  ultimately show ?thesis using heap_rep_unique [OF rep] heap_invI [OF lay rep] by blast
qed

lemma heap_rep_entry_unique:
  assumes "heap_rep m1 h A" and "heap_rep m2 h A" and "k < heap_blocks h"
  shows "table_entry m1 (heap_tab h) k = table_entry m2 (heap_tab h) k"
proof (cases "covered A k")
  case True
  then obtain i n where "A i = Some n" "i \<le> k" "k < i + n" by (auto simp: covered_def)
  then show ?thesis
    using heap_rep_covered_entry [OF assms(1)] heap_rep_covered_entry [OF assms(2)] by simp
qed (use heap_rep_free_entry assms in simp)


text \<open>A heap of four blocks, all free, on which witnesses are evaluated.\<close>

definition demo_heap :: heap where
  "demo_heap = \<lparr>heap_tab = \<lparr>tab_entries = 0x100, tab_total = 4\<rparr>, heap_saddr = 0x2000\<rparr>"

lemma demo_heap_blocks [simp]: "tab_total (heap_tab demo_heap) = 4"
  by (simp add: demo_heap_def)

lemma demo_heap_inv: "heap_inv (\<lambda>_. 0) demo_heap" "heap_allocs (\<lambda>_. 0) demo_heap = Map.empty"
  by (rule heap_inv_empty; simp add: demo_heap_def heap_layout_def table_entry_def)+

lemma demo_heap_fit: "fit (\<lambda>_. 0) demo_heap 2 = Some 0" "fit (\<lambda>_. 0) demo_heap 1 = Some 0"
  "fit (\<lambda>_. 0) demo_heap 5 = None"
  unfolding fit_def demo_heap_inv(2)
  by (simp_all add: covered_def first_fit_def run_at_def upt_rec)

lemma blocks_for_eval: "blocks_for 5000 = 2" "blocks_for 1 = 1" "blocks_for 20000 = 5"
  by (simp_all add: blocks_for_def)


text \<open>
  when no run is long enough and the last block is taken (or there are no blocks),
  \<open>heap_malloc\<close> returns the null pointer and changes nothing.
\<close>

theorem heap_malloc_exhausted:
  assumes "heap_inv m h" and "sz \<noteq> 0" and "unat sz \<le> 4294963200"
    and "fit m h (blocks_for sz) = None"
    and "heap_blocks h = 0 \<or> covered (heap_allocs m h) (heap_blocks h - 1)"
  shows "heap_malloc m h sz = (0, m)"
proof -
  let ?n = "blocks_for sz"
  have n: "0 < ?n" "?n \<le> 1048576" using assms(2) blocks_for_pos blocks_for_bound by auto
  have "tail_start (unallocated m h) (heap_blocks h) = heap_blocks h"
    using assms(5) by (intro tail_start_eqI) auto
  then have "heap_get_start_block m h (of_nat ?n) = - ENOMEM"
    using heap_get_start_block_fit [OF assms(1) n(1)] n(2) assms(4) by simp
  then show ?thesis
    using heap_malloc_eq [OF assms(3)] by (simp add: heap_malloc_blocks_def c_defs)
qed

theorem heap_malloc_exhausted_witness:
  "heap_malloc (\<lambda>_. 0) \<lparr>heap_tab = \<lparr>tab_entries = 0x100, tab_total = 0\<rparr>, heap_saddr = 0x2000\<rparr> 1 =
    (0, \<lambda>_. 0)"
proof -
  let ?h = "\<lparr>heap_tab = \<lparr>tab_entries = 0x100, tab_total = 0\<rparr>, heap_saddr = 0x2000\<rparr>"
  have "heap_inv (\<lambda>_. 0) ?h" by (rule heap_inv_empty) (simp_all add: heap_layout_def)
  moreover have "fit (\<lambda>_. 0) ?h (blocks_for 1) = None"
    by (simp add: fit_def first_fit_None run_at_def blocks_for_eval)
  ultimately show ?thesis by (intro heap_malloc_exhausted) simp_all
qed

text \<open>
  The error path the comment above \<open>heap_get_start_block\<close> promises is missing. When no
  run is long enough but the last block is free, \<open>heap_malloc\<close> returns the start of the
  blocks free at the end, although they are too few, and writes allocation entries past the
  end of the block table: the memory behind the table is overwritten and the caller gets a
  range that runs out of the data pool.
\<close>

theorem heap_malloc_overruns_table:
  assumes "heap_inv m h" and "sz \<noteq> 0" and "unat sz \<le> 4294963200"
    and "fit m h (blocks_for sz) = None"
    and "0 < heap_blocks h" and "\<not> covered (heap_allocs m h) (heap_blocks h - 1)"
  shows "\<exists>t m'. t < heap_blocks h \<and> heap_blocks h < t + blocks_for sz \<and>
    heap_malloc m h sz = (block_addr h t, m') \<and> block_addr h t \<noteq> 0 \<and>
    (\<forall>k. heap_blocks h \<le> k \<longrightarrow> k < t + blocks_for sz \<longrightarrow>
       m' (tab_entries (heap_tab h) + of_nat k) = run_entry (blocks_for sz) (k - t))"
proof -
  let ?n = "blocks_for sz" and ?T = "heap_blocks h"
  let ?t = "tail_start (unallocated m h) ?T"
  let ?m = "heap_mark_blocks_taken m h (int ?t) (int ?n)"
  have n: "0 < ?n" "?n \<le> 1048576" using assms(2) blocks_for_pos blocks_for_bound by auto
  have lay: "heap_layout h" and T: "?T \<le> 524288"
    using heap_inv_layout [OF assms(1)] heap_layout_blocks by auto
  have t: "?t < ?T"
    using assms(5,6) tail_start_le [of "unallocated m h" "?T - 1"] by (cases ?T) auto
  have over: "?T < ?t + ?n"
  proof (rule ccontr)
    assume "\<not> ?T < ?t + ?n"
    then have "run_at (unallocated m h) ?T ?n ?t"
      using tail_start_free [of "unallocated m h" ?T] by (auto simp: run_at_def)
    with assms(4) show False by (simp add: fit_def first_fit_None)
  qed
  have "heap_get_start_block m h (of_nat ?n) = int ?t"
    using heap_get_start_block_fit [OF assms(1) n(1)] n(2) assms(4) t by (simp add: Let_def)
  then have "heap_malloc m h sz = (block_addr h ?t, ?m)"
    using heap_malloc_eq [OF assms(3)] n(2)
    by (simp add: heap_malloc_blocks_def heap_block_to_address_nat sint_blocks)
  moreover have "block_addr h ?t \<noteq> 0" using lay t by (rule block_addr_nonzero)
  moreover have "?m (tab_entries (heap_tab h) + of_nat k) = run_entry ?n (k - ?t)"
    if "?T \<le> k" "k < ?t + ?n" for k
    using that n t T table_index [of k ?t ?n "tab_entries (heap_tab h)"]
    by (subst heap_mark_blocks_taken_apply) (simp_all add: Let_def)
  ultimately show ?thesis using t over by blast
qed

theorem heap_malloc_overruns_table_witness:
  "\<exists>t m'. heap_malloc (\<lambda>_. 0) demo_heap 20000 = (block_addr demo_heap t, m') \<and>
    block_addr demo_heap t \<noteq> 0 \<and> heap_blocks demo_heap < t + 5"
  using heap_malloc_overruns_table [of "\<lambda>_. 0" demo_heap 20000]
  by (auto simp: demo_heap_inv demo_heap_fit blocks_for_eval covered_def)

lemma heap_free_block_addr:
  assumes "heap_layout h" and "i < heap_blocks h"
  shows "heap_free m h (block_addr h i) = heap_mark_blocks_free m h (int i)"
  by (simp add: heap_free_def heap_address_to_block_addr [OF assms])

lemma heap_free_alloc:
  assumes "heap_inv m h" and "heap_allocs m h i = Some n"
  shows "\<exists>m'. heap_free m h (block_addr h i) = m' \<and> heap_inv m' h \<and>
    heap_allocs m' h = (heap_allocs m h)(i := None) \<and>
    (\<forall>a. \<not> in_table h a \<longrightarrow> m' a = m a)"
proof -
  note lay = heap_inv_layout [OF assms(1)] and rep = heap_inv_rep [OF assms(1)]
  have "i < heap_blocks h" using heap_rep_alloc [OF rep assms(2)] by simp
  then have "heap_free m h (block_addr h i) = heap_mark_blocks_free m h (int i)"
    using heap_free_block_addr [OF lay] by simp
  moreover note rep' = heap_rep_freed [OF rep lay assms(2)]
  ultimately show ?thesis
    using heap_rep_unique [OF rep'] heap_invI [OF lay rep'] free_outside [OF rep lay assms(2)]
    by auto
qed

text \<open>
  C17: freeing the address of a live allocation deletes exactly that allocation from the map,
  keeps the invariant, and writes nothing outside the block table.
\<close>

theorem heap_free_deletes:
  assumes "heap_inv m h" and "heap_allocs m h i = Some n"
  shows "\<exists>m'. heap_free m h (block_addr h i) = m' \<and> heap_inv m' h \<and>
    heap_allocs m' h = (heap_allocs m h)(i := None) \<and>
    (\<forall>a. \<not> in_table h a \<longrightarrow> m' a = m a)"
  using assms by (rule heap_free_alloc)

theorem heap_free_deletes_witness:
  "heap_allocs (heap_free (heap_mark_blocks_taken (\<lambda>_. 0) demo_heap 0 2) demo_heap
    (block_addr demo_heap 0)) demo_heap = Map.empty"
proof -
  let ?m = "heap_mark_blocks_taken (\<lambda>_. 0) demo_heap (int 0) (int 2)"
  have rep: "heap_rep ?m demo_heap ([0 \<mapsto> 2])"
    using heap_rep_taken [OF heap_inv_rep [OF demo_heap_inv(1)] heap_inv_layout [OF demo_heap_inv(1)]
      _ fit_run [OF demo_heap_inv(1) demo_heap_fit(1)]] by (simp add: demo_heap_inv)
  note A = heap_rep_unique [OF rep]
  have "heap_inv ?m demo_heap"
    using rep heap_inv_layout [OF demo_heap_inv(1)] by (rule heap_invI [rotated])
  then show ?thesis
    using heap_free_deletes [of ?m demo_heap 0 2] A by auto
qed

text \<open>
  C33: freeing what was just allocated restores the whole memory, byte for byte.
\<close>

theorem heap_malloc_free_roundtrip:
  assumes "heap_inv m h" and "sz \<noteq> 0" and "unat sz \<le> 4294963200"
    and "fit m h (blocks_for sz) = Some i"
  shows "heap_free (snd (heap_malloc m h sz)) h (fst (heap_malloc m h sz)) = m"
proof -
  obtain m1 where m1: "heap_malloc m h sz = (block_addr h i, m1)" "heap_inv m1 h"
    "heap_allocs m1 h = (heap_allocs m h)(i \<mapsto> blocks_for sz)"
    "\<forall>a. \<not> in_table h a \<longrightarrow> m1 a = m a"
    using heap_malloc_fit [OF assms] by blast
  obtain m2 where m2: "heap_free m1 h (block_addr h i) = m2" "heap_inv m2 h"
    "heap_allocs m2 h = (heap_allocs m1 h)(i := None)" "\<forall>a. \<not> in_table h a \<longrightarrow> m2 a = m1 a"
    using heap_free_alloc [OF m1(2), of i "blocks_for sz"] m1(3) by auto
  have "heap_allocs m h i = None"
  proof (rule ccontr)
    assume "heap_allocs m h i \<noteq> None"
    then have "covered (heap_allocs m h) i"
      using heap_rep_alloc(1) [OF heap_inv_rep [OF assms(1)]] by (fastforce simp: covered_def)
    then show False
      using assms(2,4) blocks_for_pos [of sz] by (auto simp: fit_def first_fit_Some run_at_def)
  qed
  then have A: "heap_allocs m2 h = heap_allocs m h" using m1(3) m2(3) by auto
  have "m2 a = m a" for a
  proof (cases "in_table h a")
    case True
    let ?k = "unat (a - tab_entries (heap_tab h))"
    have k: "?k < heap_blocks h" using True by (simp add: in_table_def)
    have "table_entry m2 (heap_tab h) ?k = table_entry m (heap_tab h) ?k"
      using heap_rep_entry_unique [OF heap_inv_rep [OF m2(2), unfolded A] heap_inv_rep [OF assms(1)] k] .
    then show ?thesis by (simp add: table_entry_def)
  qed (use m1(4) m2(4) in simp)
  then show ?thesis using m1(1) m2(1) by auto
qed

theorem heap_malloc_free_roundtrip_witness:
  "heap_free (snd (heap_malloc (\<lambda>_. 0) demo_heap 5000)) demo_heap
    (fst (heap_malloc (\<lambda>_. 0) demo_heap 5000)) = (\<lambda>_. 0)"
  by (rule heap_malloc_free_roundtrip [where i = 0])
    (simp_all add: demo_heap_inv demo_heap_fit blocks_for_eval)

end
