(* ===== verification/Kheap.thy ===== *)
theory Kheap
  imports Heap_Props
begin

text \<open>
  \<^verbatim>\<open>src/memory/heap/kheap.c\<close>: the one heap of the kernel and the allocation functions the
  other components call. The contracts \<open>block_allocator\<close>, \<open>zeroing_allocator\<close> and
  \<open>page_allocator\<close> are what those components rely on; \<open>kmalloc\<close>, \<open>kzalloc\<close> and
  \<open>kfree\<close> are interpretations of them.
\<close>

unbundle bit_operations_syntax

section \<open>State\<close>

text \<open>Physical memory and the global \<open>kernel_heap\<close>; later components extend this record.\<close>

record kmem =
  mem :: byte_mem
  kernel_heap :: heap

definition SLOBOS_HEAP_SIZE_BYTES :: u32 where [c_defs]: "SLOBOS_HEAP_SIZE_BYTES = 104857600"
definition SLOBOS_HEAP_ADDRESS :: u32 where [c_defs]: "SLOBOS_HEAP_ADDRESS = 0x02000000"
definition SLOBOS_HEAP_TABLE_ADDRESS :: u32 where [c_defs]: "SLOBOS_HEAP_TABLE_ADDRESS = 0x00007E00"

text \<open>The first component is the message \<open>kheap_init\<close> prints, if it prints one.\<close>

definition kheap_init :: "'a kmem_scheme \<Rightarrow> string option \<times> 'a kmem_scheme" where
  "kheap_init s =
     (let total_table_entries = SLOBOS_HEAP_SIZE_BYTES div SLOBOS_HEAP_BLOCK_SIZE;
          tab = \<lparr>tab_entries = SLOBOS_HEAP_TABLE_ADDRESS, tab_total = total_table_entries\<rparr>;
          end_ptr = SLOBOS_HEAP_ADDRESS + SLOBOS_HEAP_SIZE_BYTES;
          (res, h, m) = heap_create (mem s) (kernel_heap s) SLOBOS_HEAP_ADDRESS end_ptr tab;
          s1 = s\<lparr>mem := m, kernel_heap := h\<rparr>
      in if res < 0 then (Some ''Failed to create heap'', s1) else (None, s1))"

definition kmalloc :: "u32 \<Rightarrow> 'a kmem_scheme \<Rightarrow> u32 \<times> 'a kmem_scheme" where
  "kmalloc sz s = (let (p, m) = heap_malloc (mem s) (kernel_heap s) sz in (p, s\<lparr>mem := m\<rparr>))"

definition kfree :: "u32 \<Rightarrow> 'a kmem_scheme \<Rightarrow> 'a kmem_scheme" where
  "kfree ptr s = s\<lparr>mem := heap_free (mem s) (kernel_heap s) ptr\<rparr>"

definition kzalloc :: "u32 \<Rightarrow> 'a kmem_scheme \<Rightarrow> u32 \<times> 'a kmem_scheme" where
  "kzalloc sz s =
     (let (ptr, s1) = kmalloc sz s
      in if ptr = 0 then (0, s1) else (ptr, s1\<lparr>mem := memset (mem s1) ptr 0 sz\<rparr>))"

section \<open>What clients see\<close>

abbreviation kheap_ok :: "'a kmem_scheme \<Rightarrow> bool" where
  "kheap_ok s \<equiv> heap_inv (mem s) (kernel_heap s)"

abbreviation kheap_table :: "'a kmem_scheme \<Rightarrow> u32 \<Rightarrow> bool" where
  "kheap_table s \<equiv> in_table (kernel_heap s)"

text \<open>The live allocations by address, in pages.\<close>

definition live :: "'a kmem_scheme \<Rightarrow> (u32 \<rightharpoonup> nat)" where
  "live s p =
     (let d = unat (p - heap_saddr (kernel_heap s))
      in if d mod 4096 = 0 \<and> d div 4096 < heap_blocks (kernel_heap s)
         then heap_allocs (mem s) (kernel_heap s) (d div 4096) else None)"

definition kheap_room :: "'a kmem_scheme \<Rightarrow> nat \<Rightarrow> bool" where
  "kheap_room s n \<longleftrightarrow> fit (mem s) (kernel_heap s) n \<noteq> None"

definition kheap_spare :: "'a kmem_scheme \<Rightarrow> nat" where
  "kheap_spare s =
     length (filter (\<lambda>k. \<not> covered (heap_allocs (mem s) (kernel_heap s)) k) [0..<heap_blocks (kernel_heap s)])"

lemma live_block_addr:
  assumes "kheap_ok s" and "i < heap_blocks (kernel_heap s)"
  shows "live s (block_addr (kernel_heap s) i) = heap_allocs (mem s) (kernel_heap s) i"
proof -
  have "4096 * i < 4294967296"
    using heap_layout_blocks [OF heap_inv_layout [OF assms(1)]] assms(2) by simp
  then have "unat (block_addr (kernel_heap s) i - heap_saddr (kernel_heap s)) = 4096 * i"
    unfolding block_addr_def by (subst add_diff_cancel_left') (rule unat_of_nat_u32)
  then show ?thesis using assms(2) by (simp add: live_def)
qed

lemma live_SomeD:
  assumes "kheap_ok s" and "live s p = Some n"
  obtains i where "p = block_addr (kernel_heap s) i" "i < heap_blocks (kernel_heap s)"
    "heap_allocs (mem s) (kernel_heap s) i = Some n" "0 < n" "i + n \<le> heap_blocks (kernel_heap s)"
proof -
  let ?h = "kernel_heap s" and ?d = "unat (p - heap_saddr (kernel_heap s))"
  have d: "?d mod 4096 = 0" "?d div 4096 < heap_blocks ?h"
    and A: "heap_allocs (mem s) ?h (?d div 4096) = Some n"
    using assms(2) by (auto simp: live_def Let_def split: if_splits)
  from d(1) have "4096 * (?d div 4096) = ?d" by (simp add: mult.commute mod_eq_0_iff_dvd)
  then have "p = block_addr ?h (?d div 4096)" by (simp add: block_addr_def)
  then show thesis
    using d(2) A heap_rep_alloc(1,2) [OF heap_inv_rep [OF assms(1)] A] by (rule that)
qed

text \<open>The bytes of an allocation lie in the data pool, away from the block table.\<close>

lemma live_range:
  assumes "kheap_ok s" and "live s p = Some n"
  shows "4096 dvd unat p" and "0 < n" and "p \<noteq> 0" and "unat p + 4096 * n \<le> 4294967296"
    and "unat (tab_entries (heap_tab (kernel_heap s))) + heap_blocks (kernel_heap s) \<le> unat p"
proof -
  note lay = heap_inv_layout [OF assms(1)]
  obtain i where i: "p = block_addr (kernel_heap s) i" "i < heap_blocks (kernel_heap s)"
    "0 < n" "i + n \<le> heap_blocks (kernel_heap s)"
    using live_SomeD [OF assms] by metis
  have p: "unat p = unat (heap_saddr (kernel_heap s)) + 4096 * i"
    using i(1) unat_block_addr [OF lay i(2)] by simp
  show "4096 dvd unat p" and "0 < n" and "unat p + 4096 * n \<le> 4294967296"
    and "unat (tab_entries (heap_tab (kernel_heap s))) + heap_blocks (kernel_heap s) \<le> unat p"
    using p lay i by (auto simp: heap_layout_def)
  show "p \<noteq> 0" using block_addr_nonzero [OF lay i(2)] i(1) by simp
qed

lemma live_disjoint:
  assumes "kheap_ok s" and "live s p = Some n" and "live s q = Some l" and "p \<noteq> q"
  shows "unat p + 4096 * n \<le> unat q \<or> unat q + 4096 * l \<le> unat p"
proof -
  note lay = heap_inv_layout [OF assms(1)] and rep = heap_inv_rep [OF assms(1)]
  let ?h = "kernel_heap s"
  obtain i where i: "p = block_addr ?h i" "i < heap_blocks ?h" "heap_allocs (mem s) ?h i = Some n"
    using live_SomeD [OF assms(1,2)] by metis
  obtain j where j: "q = block_addr ?h j" "j < heap_blocks ?h" "heap_allocs (mem s) ?h j = Some l"
    using live_SomeD [OF assms(1,3)] by metis
  have "i + n \<le> j \<or> j + l \<le> i"
    using heap_rep_disjoint [OF rep i(3) j(3)] heap_rep_disjoint [OF rep j(3) i(3)] assms(4) i(1) j(1)
    by (cases "i < j"; cases "j < i") auto
  then show ?thesis
    using unat_block_addr [OF lay i(2)] unat_block_addr [OF lay j(2)] i(1) j(1) by auto
qed

section \<open>The contract of an allocator\<close>

text \<open>
  \<open>room s n\<close>: some run of \<open>n\<close> pages is free; \<open>owned\<close>: the live allocations;
  \<open>meta\<close>: the addresses of the allocator's own bookkeeping; \<open>put m s\<close>: the state with
  memory \<open>m\<close>, by which clients write to what they own.
\<close>

locale block_allocator =
  fixes ok :: "'s \<Rightarrow> bool"
    and alloc :: "u32 \<Rightarrow> 's \<Rightarrow> u32 \<times> 's"
    and release :: "u32 \<Rightarrow> 's \<Rightarrow> 's"
    and owned :: "'s \<Rightarrow> u32 \<Rightarrow> nat option"
    and room :: "'s \<Rightarrow> nat \<Rightarrow> bool"
    and peek :: "'s \<Rightarrow> byte_mem"
    and put :: "byte_mem \<Rightarrow> 's \<Rightarrow> 's"
    and meta :: "'s \<Rightarrow> u32 \<Rightarrow> bool"
  assumes alloc_ok: "ok s \<Longrightarrow> sz \<noteq> 0 \<Longrightarrow> unat sz \<le> 4294963200 \<Longrightarrow> room s (blocks_for sz) \<Longrightarrow>
      ok (snd (alloc sz s))"
    and alloc_fresh: "ok s \<Longrightarrow> sz \<noteq> 0 \<Longrightarrow> unat sz \<le> 4294963200 \<Longrightarrow> room s (blocks_for sz) \<Longrightarrow>
      owned s (fst (alloc sz s)) = None"
    and alloc_owned: "ok s \<Longrightarrow> sz \<noteq> 0 \<Longrightarrow> unat sz \<le> 4294963200 \<Longrightarrow> room s (blocks_for sz) \<Longrightarrow>
      owned (snd (alloc sz s)) = (owned s)(fst (alloc sz s) \<mapsto> blocks_for sz)"
    and alloc_frame: "ok s \<Longrightarrow> sz \<noteq> 0 \<Longrightarrow> unat sz \<le> 4294963200 \<Longrightarrow> room s (blocks_for sz) \<Longrightarrow>
      \<not> meta s a \<Longrightarrow> unat sz \<le> unat (a - fst (alloc sz s)) \<Longrightarrow> peek (snd (alloc sz s)) a = peek s a"
    and release_ok: "ok s \<Longrightarrow> owned s p = Some n \<Longrightarrow> ok (release p s)"
    and release_owned: "ok s \<Longrightarrow> owned s p = Some n \<Longrightarrow> owned (release p s) = (owned s)(p := None)"
    and release_frame: "ok s \<Longrightarrow> owned s p = Some n \<Longrightarrow> \<not> meta s a \<Longrightarrow> peek (release p s) a = peek s a"
    and meta_alloc: "meta (snd (alloc sz s)) = meta s"
    and meta_release: "meta (release p s) = meta s"
    and meta_put: "meta (put m s) = meta s"
    and peek_put: "peek (put m s) = m"
    and put_ok: "ok s \<Longrightarrow> (\<And>a. meta s a \<Longrightarrow> m a = peek s a) \<Longrightarrow> ok (put m s)"
    and put_owned: "ok s \<Longrightarrow> (\<And>a. meta s a \<Longrightarrow> m a = peek s a) \<Longrightarrow> owned (put m s) = owned s"
    and owned_aligned: "ok s \<Longrightarrow> owned s p = Some n \<Longrightarrow> 4096 dvd unat p \<and> 0 < n \<and> p \<noteq> 0"
    and owned_bound: "ok s \<Longrightarrow> owned s p = Some n \<Longrightarrow> unat p + 4096 * n \<le> 4294967296"
    and owned_meta: "ok s \<Longrightarrow> owned s p = Some n \<Longrightarrow> unat (a - p) < 4096 * n \<Longrightarrow> \<not> meta s a"
    and owned_disjoint: "ok s \<Longrightarrow> owned s p = Some n \<Longrightarrow> owned s q = Some l \<Longrightarrow> p \<noteq> q \<Longrightarrow>
      unat p + 4096 * n \<le> unat q \<or> unat q + 4096 * l \<le> unat p"
begin

lemmas alloc_facts = alloc_ok alloc_fresh alloc_owned

text \<open>Releasing what was just allocated gives the old set of allocations back.\<close>

lemma alloc_release:
  assumes "ok s" "sz \<noteq> 0" "unat sz \<le> 4294963200" "room s (blocks_for sz)"
  shows "ok (release (fst (alloc sz s)) (snd (alloc sz s)))"
    and "owned (release (fst (alloc sz s)) (snd (alloc sz s))) = owned s"
proof -
  have "owned (snd (alloc sz s)) (fst (alloc sz s)) = Some (blocks_for sz)"
    using alloc_owned [OF assms] by simp
  then show "ok (release (fst (alloc sz s)) (snd (alloc sz s)))"
    and "owned (release (fst (alloc sz s)) (snd (alloc sz s))) = owned s"
    using alloc_ok [OF assms] release_ok release_owned alloc_owned [OF assms] alloc_fresh [OF assms]
    by (blast, auto)
qed

lemma alloc_result:
  assumes "ok s" "sz \<noteq> 0" "unat sz \<le> 4294963200" "room s (blocks_for sz)"
  shows "fst (alloc sz s) \<noteq> 0" and "4096 dvd unat (fst (alloc sz s))"
    and "unat (fst (alloc sz s)) + 4096 * blocks_for sz \<le> 4294967296"
  using owned_aligned [OF alloc_ok [OF assms]] owned_bound [OF alloc_ok [OF assms]]
    alloc_owned [OF assms] by auto

text \<open>A new allocation is apart from every older one.\<close>

lemma alloc_apart:
  assumes "ok s" "sz \<noteq> 0" "unat sz \<le> 4294963200" "room s (blocks_for sz)" and "owned s q = Some l"
  shows "unat (fst (alloc sz s)) + 4096 * blocks_for sz \<le> unat q \<or>
    unat q + 4096 * l \<le> unat (fst (alloc sz s))"
proof -
  have "q \<noteq> fst (alloc sz s)" using assms(5) alloc_fresh [OF assms(1-4)] by auto
  then show ?thesis
    using owned_disjoint [OF alloc_ok [OF assms(1-4)], of "fst (alloc sz s)" _ q l]
      alloc_owned [OF assms(1-4)] assms(5) by auto
qed

text \<open>Allocating does not disturb the contents of an older allocation.\<close>

lemma alloc_keeps_contents:
  assumes "ok s" "sz \<noteq> 0" "unat sz \<le> 4294963200" "room s (blocks_for sz)"
    and "owned s q = Some l" and "unat (a - q) < 4096 * l"
  shows "peek (snd (alloc sz s)) a = peek s a"
proof -
  have "4096 * blocks_for sz \<le> unat (a - fst (alloc sz s))"
    using alloc_apart [OF assms(1-5)] assms(6) owned_bound [OF assms(1,5)] alloc_result(3) [OF assms(1-4)]
    by (rule inside_outside)
  moreover have "unat sz \<le> 4096 * blocks_for sz"
    unfolding blocks_for_def ceil_4096 by (auto simp: mod_le_divisor less_imp_le)
  ultimately show ?thesis
    using owned_meta [OF assms(1,5,6)] by (intro alloc_frame [OF assms(1-4)]) auto
qed

end

text \<open>An allocator that also zeroes what was asked for.\<close>

locale zeroing_allocator = block_allocator +
  assumes alloc_zero: "ok s \<Longrightarrow> sz \<noteq> 0 \<Longrightarrow> unat sz \<le> 4294963200 \<Longrightarrow> room s (blocks_for sz) \<Longrightarrow>
      unat (a - fst (alloc sz s)) < unat sz \<Longrightarrow> peek (snd (alloc sz s)) a = 0"

text \<open>
  An allocator that says how many pages are left: while one is, a request of at most a page
  succeeds. What loops over many single pages rely on.
\<close>

locale page_allocator = zeroing_allocator +
  fixes spare :: "'a \<Rightarrow> nat"
  assumes spare_room: "ok s \<Longrightarrow> 0 < spare s \<Longrightarrow> room s 1"
    and spare_alloc: "ok s \<Longrightarrow> sz \<noteq> 0 \<Longrightarrow> unat sz \<le> 4294963200 \<Longrightarrow> room s (blocks_for sz) \<Longrightarrow>
      spare (snd (alloc sz s)) + blocks_for sz = spare s"
    and spare_release: "ok s \<Longrightarrow> owned s p = Some n \<Longrightarrow> spare (release p s) = spare s + n"
    and spare_put: "ok s \<Longrightarrow> (\<And>a. meta s a \<Longrightarrow> m a = peek s a) \<Longrightarrow> spare (put m s) = spare s"
begin

lemma blocks_for_page: "sz \<noteq> 0 \<Longrightarrow> unat sz \<le> 4096 \<Longrightarrow> blocks_for sz = 1"
  using blocks_for_pos [of sz] div_le_mono [of "unat sz + 4095" 8191 4096]
  by (auto simp: blocks_for_def)

lemma alloc_page:
  assumes "ok s" "0 < spare s" "sz \<noteq> 0" "unat sz \<le> 4096"
  shows "ok (snd (alloc sz s))" and "owned s (fst (alloc sz s)) = None"
    and "owned (snd (alloc sz s)) = (owned s)(fst (alloc sz s) \<mapsto> 1)"
    and "spare (snd (alloc sz s)) = spare s - 1"
    and "fst (alloc sz s) \<noteq> 0" and "4096 dvd unat (fst (alloc sz s))"
proof -
  have b: "blocks_for sz = 1" using assms(3,4) by (rule blocks_for_page)
  have le: "unat sz \<le> 4294963200" using assms(4) by simp
  have r: "room s (blocks_for sz)" using spare_room [OF assms(1,2)] b by simp
  note f = alloc_facts [OF assms(1,3) le r] alloc_result [OF assms(1,3) le r]
    spare_alloc [OF assms(1,3) le r]
  show "ok (snd (alloc sz s))" and "owned s (fst (alloc sz s)) = None"
    and "owned (snd (alloc sz s)) = (owned s)(fst (alloc sz s) \<mapsto> 1)"
    and "spare (snd (alloc sz s)) = spare s - 1"
    and "fst (alloc sz s) \<noteq> 0" and "4096 dvd unat (fst (alloc sz s))"
    using f b by auto
qed

lemma alloc_page_contents:
  assumes "ok s" "0 < spare s" "sz \<noteq> 0" "unat sz \<le> 4096"
  shows "unat (a - fst (alloc sz s)) < unat sz \<Longrightarrow> peek (snd (alloc sz s)) a = 0"
    and "owned s q = Some l \<Longrightarrow> unat (a - q) < 4096 * l \<Longrightarrow> peek (snd (alloc sz s)) a = peek s a"
    and "\<not> meta s a \<Longrightarrow> 4096 \<le> unat (a - fst (alloc sz s)) \<Longrightarrow> peek (snd (alloc sz s)) a = peek s a"
proof -
  have le: "unat sz \<le> 4294963200" using assms(4) by simp
  have r: "room s (blocks_for sz)"
    using spare_room [OF assms(1,2)] blocks_for_page [OF assms(3,4)] by simp
  show "unat (a - fst (alloc sz s)) < unat sz \<Longrightarrow> peek (snd (alloc sz s)) a = 0"
    by (rule alloc_zero [OF assms(1,3) le r])
  show "owned s q = Some l \<Longrightarrow> unat (a - q) < 4096 * l \<Longrightarrow> peek (snd (alloc sz s)) a = peek s a"
    by (rule alloc_keeps_contents [OF assms(1,3) le r])
  show "\<not> meta s a \<Longrightarrow> 4096 \<le> unat (a - fst (alloc sz s)) \<Longrightarrow> peek (snd (alloc sz s)) a = peek s a"
    using alloc_frame [OF assms(1,3) le r] assms(4) by auto
qed

end

section \<open>kmalloc, kzalloc and kfree meet the contracts\<close>

lemma kheap_table_mem [simp]: "kheap_table (s\<lparr>mem := m\<rparr>) = kheap_table s"
  by simp

lemma kmalloc_fit:
  assumes "kheap_ok s" and "sz \<noteq> 0" and "unat sz \<le> 4294963200" and "kheap_room s (blocks_for sz)"
  obtains i where "fit (mem s) (kernel_heap s) (blocks_for sz) = Some i"
    "fst (kmalloc sz s) = block_addr (kernel_heap s) i" "i < heap_blocks (kernel_heap s)"
    "i + blocks_for sz \<le> heap_blocks (kernel_heap s)"
    "\<And>k. i \<le> k \<Longrightarrow> k < i + blocks_for sz \<Longrightarrow> \<not> covered (heap_allocs (mem s) (kernel_heap s)) k"
    "kernel_heap (snd (kmalloc sz s)) = kernel_heap s" "kheap_ok (snd (kmalloc sz s))"
    "heap_allocs (mem (snd (kmalloc sz s))) (kernel_heap s) =
       (heap_allocs (mem s) (kernel_heap s))(i \<mapsto> blocks_for sz)"
    "\<And>a. \<not> kheap_table s a \<Longrightarrow> mem (snd (kmalloc sz s)) a = mem s a"
proof -
  obtain i where i: "fit (mem s) (kernel_heap s) (blocks_for sz) = Some i"
    using assms(4) by (auto simp: kheap_room_def)
  obtain m' where m': "heap_malloc (mem s) (kernel_heap s) sz = (block_addr (kernel_heap s) i, m')"
    "heap_inv m' (kernel_heap s)"
    "heap_allocs m' (kernel_heap s) = (heap_allocs (mem s) (kernel_heap s))(i \<mapsto> blocks_for sz)"
    "\<forall>a. \<not> kheap_table s a \<longrightarrow> m' a = mem s a"
    using heap_malloc_fit [OF assms(1-3) i] by blast
  have run: "run_at (\<lambda>k. \<not> covered (heap_allocs (mem s) (kernel_heap s)) k)
      (heap_blocks (kernel_heap s)) (blocks_for sz) i"
    using i by (simp add: fit_def first_fit_Some)
  have "0 < blocks_for sz" using assms(2) blocks_for_pos by simp
  with run have "i < heap_blocks (kernel_heap s)" by (simp add: run_at_def)
  then show thesis
    using i m' run by (intro that [of i]) (auto simp: kmalloc_def run_at_def)
qed

lemma live_updated:
  assumes "kheap_ok t" and "kheap_ok s" and "kernel_heap t = kernel_heap s" and "i < heap_blocks (kernel_heap s)"
    and "heap_allocs (mem t) (kernel_heap s) = (heap_allocs (mem s) (kernel_heap s))(i := v)"
  shows "live t = (live s)(block_addr (kernel_heap s) i := v)"
proof
  fix p
  show "live t p = ((live s)(block_addr (kernel_heap s) i := v)) p"
  proof (cases "p = block_addr (kernel_heap s) i")
    case True
    then show ?thesis using live_block_addr [OF assms(1), of i] assms(3,4,5) by simp
  next
    case False
    define d where "d = unat (p - heap_saddr (kernel_heap s))"
    have "d div 4096 \<noteq> i" if "d mod 4096 = 0"
    proof
      assume "d div 4096 = i"
      then have "d = 4096 * i" using that by auto
      then have "of_nat (4096 * i) = p - heap_saddr (kernel_heap s)" unfolding d_def by (metis of_nat_unat ucast_id)
      then have "p = block_addr (kernel_heap s) i" unfolding block_addr_def by (metis add.commute diff_add_cancel)
      with False show False by simp
    qed
    then show ?thesis using False assms(3,5) by (auto simp: live_def Let_def simp flip: d_def)
  qed
qed

lemma live_cong:
  assumes "kheap_ok s" and "kernel_heap t = kernel_heap s" and "\<And>a. kheap_table s a \<Longrightarrow> mem t a = mem s a"
  shows "kheap_ok t" and "heap_allocs (mem t) (kernel_heap t) = heap_allocs (mem s) (kernel_heap s)"
    and "live t = live s" and "kheap_spare t = kheap_spare s"
proof -
  let ?h = "kernel_heap s"
  have T: "heap_blocks ?h \<le> 524288" using heap_layout_blocks [OF heap_inv_layout [OF assms(1)]] .
  have rep: "heap_rep (mem t) ?h (heap_allocs (mem s) ?h)"
    using heap_inv_rep [OF assms(1)]
    by (rule heap_rep_cong) (use T assms(3) in \<open>simp add: table_entry_def in_table_def unat_of_nat_u32\<close>)
  show ok: "kheap_ok t" unfolding assms(2) using heap_inv_layout [OF assms(1)] rep by (rule heap_invI)
  show A: "heap_allocs (mem t) (kernel_heap t) = heap_allocs (mem s) (kernel_heap s)"
    unfolding assms(2) by (rule heap_rep_unique [OF rep])
  from A show "live t = live s" unfolding assms(2) by (intro ext) (simp add: live_def Let_def assms(2))
  from A show "kheap_spare t = kheap_spare s" unfolding assms(2) by (simp add: kheap_spare_def assms(2))
qed

lemma spare_insert:
  assumes "\<And>k. i \<le> k \<Longrightarrow> k < i + n \<Longrightarrow> \<not> covered A k" and "A i = None" and "i + n \<le> T"
  shows "length (filter (\<lambda>k. \<not> covered (A(i \<mapsto> n)) k) [0..<T]) + n =
    length (filter (\<lambda>k. \<not> covered A k) [0..<T])"
proof -
  have cov: "covered (A(i \<mapsto> n)) k \<longleftrightarrow> covered A k \<or> i \<le> k \<and> k < i + n" for k
    using assms(2) by (auto simp: covered_def split: if_splits)
  let ?old = "{k. k < T \<and> \<not> covered A k}"
  have card: "length (filter P [0..<T]) = card {k. k < T \<and> P k}" for P
    by (simp add: length_filter_conv_card cong: conj_cong)
  have "{k. k < T \<and> \<not> covered (A(i \<mapsto> n)) k} = ?old - {i..<i + n}" by (auto simp: cov)
  moreover have "{i..<i + n} \<subseteq> ?old" using assms(1,3) by auto
  ultimately have "card {k. k < T \<and> \<not> covered (A(i \<mapsto> n)) k} = card ?old - n"
    and "n \<le> card ?old"
    using card_Diff_subset [of "{i..<i + n}" ?old] card_mono [of ?old "{i..<i + n}"] by auto
  then show ?thesis by (simp only: card)
qed

lemma kmalloc_contract:
  assumes "kheap_ok s" and "sz \<noteq> 0" and "unat sz \<le> 4294963200" and "kheap_room s (blocks_for sz)"
  shows "kheap_ok (snd (kmalloc sz s))" and "live s (fst (kmalloc sz s)) = None"
    and "live (snd (kmalloc sz s)) = (live s)(fst (kmalloc sz s) \<mapsto> blocks_for sz)"
    and "\<not> kheap_table s a \<Longrightarrow> mem (snd (kmalloc sz s)) a = mem s a"
    and "kheap_spare (snd (kmalloc sz s)) + blocks_for sz = kheap_spare s"
    and "kernel_heap (snd (kmalloc sz s)) = kernel_heap s"
proof -
  obtain i where i: "fst (kmalloc sz s) = block_addr (kernel_heap s) i" "i < heap_blocks (kernel_heap s)"
    "i + blocks_for sz \<le> heap_blocks (kernel_heap s)"
    "\<And>k. i \<le> k \<Longrightarrow> k < i + blocks_for sz \<Longrightarrow> \<not> covered (heap_allocs (mem s) (kernel_heap s)) k"
    "kernel_heap (snd (kmalloc sz s)) = kernel_heap s" "kheap_ok (snd (kmalloc sz s))"
    "heap_allocs (mem (snd (kmalloc sz s))) (kernel_heap s) =
       (heap_allocs (mem s) (kernel_heap s))(i \<mapsto> blocks_for sz)"
    "\<And>a. \<not> kheap_table s a \<Longrightarrow> mem (snd (kmalloc sz s)) a = mem s a"
    using kmalloc_fit [OF assms] by metis
  have none: "heap_allocs (mem s) (kernel_heap s) i = None"
    using i(4) [of i] assms(2) blocks_for_pos [of sz] heap_rep_alloc(1) [OF heap_inv_rep [OF assms(1)], of i]
    by (cases "heap_allocs (mem s) (kernel_heap s) i") (auto simp: covered_def)
  show "kheap_ok (snd (kmalloc sz s))" and "kernel_heap (snd (kmalloc sz s)) = kernel_heap s"
    and "\<not> kheap_table s a \<Longrightarrow> mem (snd (kmalloc sz s)) a = mem s a" by (fact i)+
  show "live s (fst (kmalloc sz s)) = None"
    using live_block_addr [OF assms(1) i(2)] none i(1) by simp
  show "live (snd (kmalloc sz s)) = (live s)(fst (kmalloc sz s) \<mapsto> blocks_for sz)"
    unfolding i(1) by (rule live_updated [OF i(6) assms(1) i(5,2,7)])
  show "kheap_spare (snd (kmalloc sz s)) + blocks_for sz = kheap_spare s"
    using spare_insert [OF i(4) none i(3)] by (simp add: kheap_spare_def i(5,7))
qed

lemma kfree_contract:
  assumes "kheap_ok s" and "live s p = Some n"
  shows "kheap_ok (kfree p s)" and "live (kfree p s) = (live s)(p := None)"
    and "\<not> kheap_table s a \<Longrightarrow> mem (kfree p s) a = mem s a"
    and "kheap_spare (kfree p s) = kheap_spare s + n"
proof -
  let ?h = "kernel_heap s" and ?A = "heap_allocs (mem s) (kernel_heap s)"
  obtain i where i: "p = block_addr ?h i" "i < heap_blocks ?h" "?A i = Some n"
    "0 < n" "i + n \<le> heap_blocks ?h"
    using live_SomeD [OF assms] by metis
  have f: "heap_inv (mem (kfree p s)) ?h" "heap_allocs (mem (kfree p s)) ?h = ?A(i := None)"
    "\<forall>a. \<not> kheap_table s a \<longrightarrow> mem (kfree p s) a = mem s a" "kernel_heap (kfree p s) = ?h"
    using heap_free_alloc [OF assms(1) i(3)] i(1) by (auto simp: kfree_def)
  show ok: "kheap_ok (kfree p s)" and "\<not> kheap_table s a \<Longrightarrow> mem (kfree p s) a = mem s a"
    using f by simp_all
  show "live (kfree p s) = (live s)(p := None)"
    using live_updated [OF ok assms(1) f(4) i(2) f(2)] i(1) by simp
  have "\<not> covered (?A(i := None)) k" if "i \<le> k" "k < i + n" for k
  proof
    assume "covered (?A(i := None)) k"
    then obtain j l where "?A j = Some l" "j \<noteq> i" "j \<le> k" "k < j + l"
      by (auto simp: covered_def split: if_splits)
    then show False
      using that heap_rep_disjoint [OF heap_inv_rep [OF assms(1)] i(3), of j l]
        heap_rep_disjoint [OF heap_inv_rep [OF assms(1)] _ i(3), of j l] by (cases "j < i") auto
  qed
  then have "length (filter (\<lambda>k. \<not> covered ((?A(i := None))(i \<mapsto> n)) k) [0..<heap_blocks ?h]) + n =
      length (filter (\<lambda>k. \<not> covered (?A(i := None)) k) [0..<heap_blocks ?h])"
    using i(5) by (intro spare_insert) auto
  moreover have "(?A(i := None))(i \<mapsto> n) = ?A" using i(3) by auto
  ultimately show "kheap_spare (kfree p s) = kheap_spare s + n"
    using f by (simp add: kheap_spare_def)
qed

lemma owned_not_in_table:
  assumes "kheap_ok s" and "live s p = Some n" and "unat (a - p) < 4096 * n"
  shows "\<not> kheap_table s a"
proof -
  let ?t = "heap_tab (kernel_heap s)"
  have "heap_blocks (kernel_heap s) \<le> unat (a - tab_entries ?t)"
    by (rule inside_outside [OF _ assms(3) live_range(4) [OF assms(1,2)]])
      (use live_range(5) [OF assms(1,2)] unat_u32_bound [of p] in auto)
  then show ?thesis by (simp add: in_table_def)
qed

interpretation kmalloc: block_allocator kheap_ok kmalloc kfree live kheap_room mem
    "\<lambda>m s. s\<lparr>mem := m\<rparr>" kheap_table
proof (unfold_locales, goal_cases)
  case (4 s sz a) then show ?case using kmalloc_contract(4) by blast
next
  case (8 sz s) then show ?case by (simp add: kmalloc_def split: prod.split)
next
  case (9 p s) then show ?case by (simp add: kfree_def)
next
  case (12 s m) then show ?case using live_cong(1) [of s "s\<lparr>mem := m\<rparr>"] by simp
next
  case (13 s m) then show ?case using live_cong(3) [of s "s\<lparr>mem := m\<rparr>"] by simp
next
  case (14 s p n) then show ?case using live_range(1,2,3) by blast
next
  case (15 s p n) then show ?case by (rule live_range(4))
next
  case (16 s p n a) then show ?case by (rule owned_not_in_table)
next
  case (17 s p n q l) then show ?case by (rule live_disjoint)
qed (use kmalloc_contract kfree_contract in simp_all)

lemma kzalloc_contract:
  assumes "kheap_ok s" and "sz \<noteq> 0" and "unat sz \<le> 4294963200" and "kheap_room s (blocks_for sz)"
  shows "kheap_ok (snd (kzalloc sz s))" and "live s (fst (kzalloc sz s)) = None"
    and "live (snd (kzalloc sz s)) = (live s)(fst (kzalloc sz s) \<mapsto> blocks_for sz)"
    and "\<not> kheap_table s a \<Longrightarrow> unat sz \<le> unat (a - fst (kzalloc sz s)) \<Longrightarrow>
      mem (snd (kzalloc sz s)) a = mem s a"
    and "unat (a - fst (kzalloc sz s)) < unat sz \<Longrightarrow> mem (snd (kzalloc sz s)) a = 0"
    and "kheap_spare (snd (kzalloc sz s)) + blocks_for sz = kheap_spare s"
    and "kernel_heap (snd (kzalloc sz s)) = kernel_heap s"
proof -
  note k = kmalloc_contract [OF assms]
  let ?p = "fst (kmalloc sz s)" and ?t = "snd (kmalloc sz s)"
  let ?m = "memset (mem ?t) ?p 0 sz"
  have p: "live ?t ?p = Some (blocks_for sz)" using k(3) by simp
  have eq: "kzalloc sz s = (?p, ?t\<lparr>mem := ?m\<rparr>)"
    using live_range(3) [OF k(1) p] by (simp add: kzalloc_def case_prod_unfold Let_def)
  have "?m a = mem ?t a" if "kheap_table ?t a" for a
  proof -
    have "unat sz \<le> 4096 * blocks_for sz"
      unfolding blocks_for_def ceil_4096 by (auto simp: mod_le_divisor less_imp_le)
    moreover have "4096 * blocks_for sz \<le> unat (a - ?p)"
      using owned_not_in_table [OF k(1) p, of a] that by (meson leI)
    ultimately show ?thesis by (intro memset_outside) simp
  qed
  then have c: "kheap_ok (?t\<lparr>mem := ?m\<rparr>)" "live (?t\<lparr>mem := ?m\<rparr>) = live ?t"
    "kheap_spare (?t\<lparr>mem := ?m\<rparr>) = kheap_spare ?t"
    using live_cong [OF k(1), of "?t\<lparr>mem := ?m\<rparr>"] by simp_all
  show "kheap_ok (snd (kzalloc sz s))" and "live s (fst (kzalloc sz s)) = None"
    and "live (snd (kzalloc sz s)) = (live s)(fst (kzalloc sz s) \<mapsto> blocks_for sz)"
    and "kheap_spare (snd (kzalloc sz s)) + blocks_for sz = kheap_spare s"
    and "kernel_heap (snd (kzalloc sz s)) = kernel_heap s"
    and "unat (a - fst (kzalloc sz s)) < unat sz \<Longrightarrow> mem (snd (kzalloc sz s)) a = 0"
    and "\<not> kheap_table s a \<Longrightarrow> unat sz \<le> unat (a - fst (kzalloc sz s)) \<Longrightarrow>
      mem (snd (kzalloc sz s)) a = mem s a"
    unfolding eq using c k by (simp_all add: memset_apply)
qed

lemma kheap_spare_room: 
  assumes "kheap_ok s" and "0 < kheap_spare s"
  shows "kheap_room s 1"
proof -
  let ?P = "\<lambda>k. \<not> covered (heap_allocs (mem s) (kernel_heap s)) k"
  obtain k where "k < heap_blocks (kernel_heap s)" "?P k"
    using assms(2) by (auto simp: kheap_spare_def filter_empty_conv)
  then have "run_at ?P (heap_blocks (kernel_heap s)) 1 k" by (simp add: run_at_def)
  then show ?thesis by (auto simp: kheap_room_def fit_def first_fit_None)
qed

interpretation kzalloc: page_allocator kheap_ok kzalloc kfree live kheap_room mem
    "\<lambda>m s. s\<lparr>mem := m\<rparr>" kheap_table kheap_spare
proof (unfold_locales, goal_cases)
  case (4 s sz a) then show ?case using kzalloc_contract(4) by blast
next
  case (8 sz s) then show ?case by (simp add: kzalloc_def kmalloc_def case_prod_unfold Let_def)
next
  case (12 s m) then show ?case using live_cong(1) [of s "s\<lparr>mem := m\<rparr>"] by simp
next
  case (13 s m) then show ?case using live_cong(3) [of s "s\<lparr>mem := m\<rparr>"] by simp
next
  case (14 s p n) then show ?case using live_range(1,2,3) by blast
next
  case (15 s p n) then show ?case by (rule live_range(4))
next
  case (16 s p n a) then show ?case by (rule owned_not_in_table)
next
  case (17 s p n q l) then show ?case by (rule live_disjoint)
next
  case (18 s sz a) then show ?case using kzalloc_contract(5) by blast
next
  case (19 s) then show ?case by (rule kheap_spare_room)
next
  case (22 s m) then show ?case using live_cong(4) [of s "s\<lparr>mem := m\<rparr>"] by simp
qed (use kzalloc_contract kfree_contract kmalloc.meta_release in simp_all)

section \<open>Properties of the kernel heap\<close>

text \<open>The heap structure that \<open>kheap_init\<close> leaves behind.\<close>

definition booted_heap :: heap where
  "booted_heap = \<lparr>heap_tab = \<lparr>tab_entries = 0x7E00, tab_total = 25600\<rparr>, heap_saddr = 0x02000000\<rparr>"

lemma booted_layout: "heap_layout booted_heap"
  by (simp add: booted_heap_def heap_layout_def)

lemma kheap_init_eq:
  "kheap_init s = (None, s\<lparr>mem := memset (mem s) 0x7E00 0 25600, kernel_heap := booted_heap\<rparr>)"
  by (simp add: kheap_init_def heap_create_def heap_validate_alignment_def heap_validate_table_def
      booted_heap_def c_defs)

text \<open>
  C32: \<open>kheap_init\<close> never reports a failure. It leaves a well-formed heap of 25600 free blocks,
  100 MiB, with nothing allocated, and touches no memory but the 25600 bytes of the table.
\<close>

theorem kheap_init_correct:
  "fst (kheap_init s) = None \<and> kheap_ok (snd (kheap_init s)) \<and> live (snd (kheap_init s)) = Map.empty \<and>
   kheap_spare (snd (kheap_init s)) = 25600 \<and>
   mem (snd (kheap_init s)) = (\<lambda>a. if unat (a - 0x7E00) < 25600 then 0 else mem s a)"
proof -
  let ?t = "snd (kheap_init s)"
  have "table_entry (mem ?t) (heap_tab booted_heap) k = 0" if "k < heap_blocks booted_heap" for k
    using that by (simp add: kheap_init_eq table_entry_def memset_apply booted_heap_def unat_of_nat_u32)
  then have e: "heap_inv (mem ?t) booted_heap" "heap_allocs (mem ?t) booted_heap = Map.empty"
    using heap_inv_empty [OF booted_layout] by auto
  have k: "kernel_heap ?t = booted_heap" by (simp add: kheap_init_eq)
  have "live ?t = Map.empty" using e k by (intro ext) (simp add: live_def Let_def)
  moreover have "kheap_spare ?t = 25600"
    using e k by (simp add: kheap_spare_def covered_def) (simp add: booted_heap_def)
  ultimately show ?thesis using e k by (auto simp: kheap_init_eq memset_apply)
qed

text \<open>
  C4: what \<open>kzalloc\<close> promises its callers. In a well-formed heap with room for the request
  it returns a non-null page-aligned address that was not allocated; afterwards exactly that
  allocation is new, the requested bytes are zero, the memory of every older allocation lies
  elsewhere and is unchanged, and the heap is still well formed.
\<close>

theorem kzalloc_fresh_zeroed:
  assumes "kheap_ok s" and "sz \<noteq> 0" and "unat sz \<le> 4294963200" and "kheap_room s (blocks_for sz)"
    and "kzalloc sz s = (p, t)"
  shows "kheap_ok t \<and> p \<noteq> 0 \<and> 4096 dvd unat p \<and> live s p = None \<and>
    live t = (live s)(p \<mapsto> blocks_for sz) \<and>
    (\<forall>a. unat (a - p) < unat sz \<longrightarrow> mem t a = 0) \<and>
    (\<forall>q l a. live s q = Some l \<longrightarrow> unat (a - q) < 4096 * l \<longrightarrow>
       mem t a = mem s a \<and> \<not> unat (a - p) < 4096 * blocks_for sz)"
proof -
  have pt: "p = fst (kzalloc sz s)" "t = snd (kzalloc sz s)" using assms(5) by simp_all
  note apart = kzalloc.alloc_apart [OF assms(1-4)]
  have "4096 * blocks_for sz \<le> unat (a - p)" if "live s q = Some l" "unat (a - q) < 4096 * l" for q l a
    unfolding pt(1) using apart [OF that(1)] that(2) kzalloc.owned_bound [OF assms(1) that(1)]
      kzalloc.alloc_result(3) [OF assms(1-4)] by (rule inside_outside)
  then show ?thesis
    unfolding pt
    using kzalloc.alloc_facts [OF assms(1-4)] kzalloc.alloc_result [OF assms(1-4)]
      kzalloc.alloc_zero [OF assms(1-4)] kzalloc.alloc_keeps_contents [OF assms(1-4)]
    by (auto simp flip: not_le)
qed

lemma kheap_init_room: "kheap_room (snd (kheap_init s)) 2"
proof -
  let ?t = "snd (kheap_init s)"
  have "table_entry (mem ?t) (heap_tab booted_heap) k = 0" if "k < heap_blocks booted_heap" for k
    using that by (simp add: kheap_init_eq table_entry_def memset_apply booted_heap_def unat_of_nat_u32)
  then have "heap_allocs (mem ?t) booted_heap = Map.empty"
    using heap_inv_empty [OF booted_layout] by auto
  then have "run_at (\<lambda>k. \<not> covered (heap_allocs (mem ?t) (kernel_heap ?t)) k)
      (heap_blocks (kernel_heap ?t)) 2 0"
    by (simp add: run_at_def covered_def kheap_init_eq) (simp add: booted_heap_def)
  then show ?thesis by (auto simp: kheap_room_def fit_def first_fit_None)
qed

theorem kzalloc_fresh_zeroed_witness:
  "let s = snd (kheap_init \<lparr>mem = (\<lambda>_. 7), kernel_heap = demo_heap\<rparr>); t = snd (kzalloc 5000 s)
   in kheap_ok t \<and> live t (fst (kzalloc 5000 s)) = Some 2 \<and> mem t (fst (kzalloc 5000 s)) = 0"
proof -
  let ?s = "snd (kheap_init \<lparr>mem = (\<lambda>_. 7), kernel_heap = demo_heap\<rparr>)"
  have ok: "kheap_ok ?s"
    by (simp add: kheap_init_eq, rule heap_inv_empty(1) [OF booted_layout])
      (simp add: table_entry_def memset_apply booted_heap_def unat_of_nat_u32)
  have "kheap_room ?s (blocks_for 5000)" using kheap_init_room by (simp add: blocks_for_eval)
  then show ?thesis
    using kzalloc_fresh_zeroed [OF ok, of 5000 "fst (kzalloc 5000 ?s)" "snd (kzalloc 5000 ?s)"]
    by (auto simp: Let_def blocks_for_eval)
qed

text \<open>
  \<open>kfree(0)\<close> is not the no-op its callers take it for. On the heap of the kernel the null
  pointer is taken for block -8192, and a byte 8192 below the block table is set to zero;
  the map of allocations is not consulted.
\<close>

lemma kfree_null:
  assumes "kernel_heap s = booted_heap"
  shows "mem (kfree 0 s) 0x5E00 = 0 \<and> \<not> kheap_table s 0x5E00 \<and>
    (mem s 0x5E00 AND 0x80 = 0 \<longrightarrow> mem (kfree 0 s) = (mem s)(0x5E00 := 0))"
proof -
  have blk: "heap_address_to_block booted_heap 0 = - 8192"
    by (simp add: heap_address_to_block_def booted_heap_def signed_divide_int_def)
  have step: "mark_free_loop m (heap_tab booted_heap) i =
      (if m (0x7E00 + word_of_int i) AND 0x80 = 0 then m(0x7E00 + word_of_int i := 0)
       else mark_free_loop (m(0x7E00 + word_of_int i := 0)) (heap_tab booted_heap) (i + 1))"
    if "i < 25600" for m i
    using that by (subst mark_free_loop.simps) (simp add: booted_heap_def c_defs Let_def)
  have keep: "mark_free_loop m (heap_tab booted_heap) i 0x5E00 = 0"
    if "m 0x5E00 = 0" "- 8192 < i" "i \<le> 25600" for m i
    using that
  proof (induction "nat (25600 - i)" arbitrary: m i)
    case 0
    then show ?case by (subst mark_free_loop.simps) (simp add: booted_heap_def)
  next
    case (Suc d)
    then show ?case by (subst step) auto
  qed
  have addr: "0x7E00 + word_of_int (- 8192) = (0x5E00 :: u32)" by simp
  have "mem (kfree 0 s) = mark_free_loop (mem s) (heap_tab booted_heap) (- 8192)"
    by (simp add: kfree_def assms heap_free_def heap_mark_blocks_free_def blk del: mark_free_loop.simps)
  also have "\<dots> = (if mem s 0x5E00 AND 0x80 = 0 then (mem s)(0x5E00 := 0)
      else mark_free_loop ((mem s)(0x5E00 := 0)) (heap_tab booted_heap) (- 8191))"
    by (subst step) (simp_all only: addr, simp_all)
  finally have run: "mem (kfree 0 s) = \<dots>" .
  have "\<not> kheap_table s 0x5E00" by (simp add: assms in_table_def booted_heap_def)
  then show ?thesis
    using keep [of "(mem s)(0x5E00 := 0)" "- 8191"] by (simp add: run)
qed

end
