(* ===== verification/Kheap_Client.thy ===== *)
theory Kheap_Client
  imports Kheap
begin

text \<open>
  What the users of the kernel heap share: writing to a page one owns, and the addresses whose
  contents no allocation changes.
\<close>

section \<open>Writing to owned pages\<close>

lemma live_outside:
  assumes "kheap_ok s" and "live s p = Some n" and "live s q = Some l" and "p \<noteq> q"
    and "unat (a - q) < 4096 * l"
  shows "4096 * n \<le> unat (a - p)"
  using kzalloc.owned_disjoint [OF assms(1-4)] assms(5) kzalloc.owned_bound [OF assms(1,3)]
    kzalloc.owned_bound [OF assms(1,2)] by (rule inside_outside)

lemma live_page_aligned: "kheap_ok s \<Longrightarrow> live s p = Some n \<Longrightarrow> 4096 dvd unat p"
  using kzalloc.owned_aligned by blast

lemma own_write:
  assumes "kheap_ok s" and "live s p = Some n" and "\<And>a. 4096 * n \<le> unat (a - p) \<Longrightarrow> m a = mem s a"
  shows "kheap_ok (s\<lparr>mem := m\<rparr>)" and "live (s\<lparr>mem := m\<rparr>) = live s"
    and "kheap_spare (s\<lparr>mem := m\<rparr>) = kheap_spare s"
proof -
  have "m a = mem s a" if "kheap_table s a" for a
    using kzalloc.owned_meta [OF assms(1,2), of a] that assms(3) [of a] by linarith
  then show "kheap_ok (s\<lparr>mem := m\<rparr>)" and "live (s\<lparr>mem := m\<rparr>) = live s"
    and "kheap_spare (s\<lparr>mem := m\<rparr>) = kheap_spare s"
    using kzalloc.put_ok [OF assms(1)] kzalloc.put_owned [OF assms(1)] kzalloc.spare_put [OF assms(1)]
    by blast+
qed

lemma kzalloc_kernel_heap: "kernel_heap (snd (kzalloc sz s)) = kernel_heap s"
  by (simp add: kzalloc_def kmalloc_def case_prod_unfold Let_def)

section \<open>Stable addresses\<close>

text \<open>
  A byte is stable when it belongs to a live allocation, or to neither the block table nor the
  data pool. Allocating a page changes no stable byte and keeps them stable.
\<close>

definition in_pool :: "heap \<Rightarrow> u32 \<Rightarrow> bool" where
  "in_pool h a \<longleftrightarrow> unat (a - heap_saddr h) < 4096 * heap_blocks h"

definition stable :: "'a kmem_scheme \<Rightarrow> u32 \<Rightarrow> bool" where
  "stable s a \<longleftrightarrow> (\<exists>p l. live s p = Some l \<and> unat (a - p) < 4096 * l) \<or>
     \<not> kheap_table s a \<and> \<not> in_pool (kernel_heap s) a"

lemma live_in_pool:
  assumes "kheap_ok s" and "live s p = Some l" and "unat (a - p) < 4096 * l"
  shows "in_pool (kernel_heap s) a"
proof -
  obtain i where i: "p = block_addr (kernel_heap s) i" "i < heap_blocks (kernel_heap s)"
    "i + l \<le> heap_blocks (kernel_heap s)"
    using live_SomeD [OF assms(1,2)] by metis
  have T: "heap_blocks (kernel_heap s) \<le> 524288" using heap_layout_blocks [OF heap_inv_layout [OF assms(1)]] .
  have off: "unat (of_nat (4096 * i) :: u32) = 4096 * i"
    using i T by (intro unat_of_nat_u32) simp
  have "a - heap_saddr (kernel_heap s) = (a - p) + of_nat (4096 * i)"
    by (simp add: i(1) block_addr_def)
  moreover have "unat ((a - p) + of_nat (4096 * i)) = unat (a - p) + 4096 * i"
    using assms(3) i T off by (subst unat_add_u32) auto
  ultimately have "unat (a - heap_saddr (kernel_heap s)) = unat (a - p) + 4096 * i" by (simp only:)
  then show ?thesis using assms(3) i(3) by (simp add: in_pool_def)
qed

text \<open>An address the heap has nothing to do with.\<close>

definition foreign :: "'a kmem_scheme \<Rightarrow> u32 \<Rightarrow> bool" where
  "foreign s a \<longleftrightarrow> \<not> kheap_table s a \<and> \<not> in_pool (kernel_heap s) a"

lemma foreign_far: "kheap_ok s \<Longrightarrow> foreign s a \<Longrightarrow> live s p = Some n \<Longrightarrow> 4096 * n \<le> unat (a - p)"
  using live_in_pool [of s p n a] by (auto simp: foreign_def not_le [symmetric])

lemma foreign_cong: "kernel_heap t = kernel_heap s \<Longrightarrow> foreign t a = foreign s a"
  by (simp add: foreign_def)

lemma foreign_kzalloc:
  assumes "kheap_ok s" and "sz \<noteq> 0" and "unat sz \<le> 4294963200" and "kheap_room s (blocks_for sz)" and f: "foreign s a"
  shows "mem (snd (kzalloc sz s)) a = mem s a"
proof -
  let ?p = "fst (kzalloc sz s)" and ?t = "snd (kzalloc sz s)"
  have l: "live ?t ?p = Some (blocks_for sz)" using kzalloc.alloc_owned [OF assms(1-4)] by simp
  have "foreign ?t a" using f kzalloc_kernel_heap [of sz s] by (simp add: foreign_def)
  then have "4096 * blocks_for sz \<le> unat (a - ?p)" by (rule foreign_far [OF kzalloc.alloc_ok [OF assms(1-4)] _ l])
  moreover have "unat sz \<le> 4096 * blocks_for sz"
    unfolding blocks_for_def ceil_4096 by (auto simp: mod_le_divisor less_imp_le)
  ultimately show ?thesis
    using f by (intro kzalloc.alloc_frame [OF assms(1-4)]) (auto simp: foreign_def)
qed

text \<open>A new page into which its owner writes: everything else stays as it was.\<close>

lemma new_page:
  fixes s :: "'a kmem_scheme"
  defines "t \<equiv> \<lambda>sz m. (snd (kzalloc sz s))\<lparr>mem := m (mem (snd (kzalloc sz s)))\<rparr>"
  assumes ok: "kheap_ok s" and sp: "0 < kheap_spare s" and sz: "sz \<noteq> 0" "unat sz \<le> 4096" and e: "fst (kzalloc sz s) = e"
    and m: "\<forall>x a. 4096 \<le> unat (a - e) \<longrightarrow> m x a = x a"
  shows "kheap_ok (t sz m)" and "live s e = None" and "live (t sz m) = (live s)(e \<mapsto> 1)" and "4096 dvd unat e"
    and "kheap_spare (t sz m) + 1 = kheap_spare s" and "kernel_heap (t sz m) = kernel_heap s"
    and "live s q = Some l \<Longrightarrow> unat (a - q) < 4096 * l \<Longrightarrow> mem (t sz m) a = mem s a"
    and "foreign s a \<Longrightarrow> mem (t sz m) a = mem s a"
proof -
  let ?s = "snd (kzalloc sz s)"
  note A = kzalloc.alloc_page [OF ok sp sz, unfolded e] and C = kzalloc.alloc_page_contents [OF ok sp sz, unfolded e]
  have le: "live ?s e = Some 1" using A(3) by simp
  have w: "\<And>a. 4096 * 1 \<le> unat (a - e) \<Longrightarrow> m (mem ?s) a = mem ?s a" using m by simp
  note W = own_write [OF A(1) le w]
  show "kheap_ok (t sz m)" "live s e = None" "live (t sz m) = (live s)(e \<mapsto> 1)" "4096 dvd unat e"
    using W(1,2) A(2,3,6) by (simp_all add: t_def)
  show "kheap_spare (t sz m) + 1 = kheap_spare s" using W(3) A(4) sp by (simp add: t_def)
  show h: "kernel_heap (t sz m) = kernel_heap s" by (simp add: t_def kzalloc_kernel_heap)
  show "mem (t sz m) a = mem s a" if "live s q = Some l" "unat (a - q) < 4096 * l"
  proof -
    have "live ?s q = Some l" "e \<noteq> q" using A(2,3) that(1) by auto
    from live_outside [OF A(1) le this that(2)] show ?thesis using w C(2) [OF that] by (simp add: t_def)
  qed
  show "mem (t sz m) a = mem s a" if f: "foreign s a"
  proof -
    have "foreign ?s a" using f by (simp add: foreign_def kzalloc_kernel_heap)
    from foreign_far [OF A(1) this le] show ?thesis using w C(3) [of a] f by (simp add: t_def foreign_def)
  qed
qed

lemma stable_kzalloc:
  assumes "kheap_ok s" and "0 < kheap_spare s" and "sz \<noteq> 0" and "unat sz \<le> 4096" and "stable s a"
  shows "mem (snd (kzalloc sz s)) a = mem s a" and "stable (snd (kzalloc sz s)) a"
    and "4096 \<le> unat (a - fst (kzalloc sz s))"
proof -
  let ?p = "fst (kzalloc sz s)" and ?t = "snd (kzalloc sz s)"
  note A = kzalloc.alloc_page [OF assms(1-4)] and C = kzalloc.alloc_page_contents [OF assms(1-4)]
  have lp: "live ?t ?p = Some 1" using A(3) by simp
  have kh: "kernel_heap ?t = kernel_heap s" by (rule kzalloc_kernel_heap)
  have "mem ?t a = mem s a \<and> stable ?t a \<and> 4096 \<le> unat (a - ?p)"
    using assms(5) unfolding stable_def
  proof (elim disjE exE conjE)
    fix p l assume p: "live s p = Some l" "unat (a - p) < 4096 * l"
    then have "live ?t p = Some l" "p \<noteq> ?p" using A(2,3) by auto
    then show "mem ?t a = mem s a \<and> ((\<exists>p l. live ?t p = Some l \<and> unat (a - p) < 4096 * l) \<or>
        \<not> kheap_table ?t a \<and> \<not> in_pool (kernel_heap ?t) a) \<and> 4096 \<le> unat (a - ?p)"
      using C(2) [OF p] p live_outside [OF A(1) lp, of p l a] by auto
  next
    assume out: "\<not> kheap_table s a" "\<not> in_pool (kernel_heap s) a"
    have far: "4096 \<le> unat (a - ?p)"
      using live_in_pool [OF A(1) lp, of a] out(2) kh by (metis mult.right_neutral not_less)
    then show "mem ?t a = mem s a \<and> ((\<exists>p l. live ?t p = Some l \<and> unat (a - p) < 4096 * l) \<or>
        \<not> kheap_table ?t a \<and> \<not> in_pool (kernel_heap ?t) a) \<and> 4096 \<le> unat (a - ?p)"
      using C(3) [OF out(1) far] out kh by simp
  qed
  then show "mem ?t a = mem s a" and "stable ?t a" and "4096 \<le> unat (a - ?p)" by auto
qed

lemma stable_cong:
  "live t = live s \<Longrightarrow> kernel_heap t = kernel_heap s \<Longrightarrow> stable t = stable s"
  by (intro ext) (simp add: stable_def)

text \<open>All of this depends on the memory and the heap structure only.\<close>

lemma same_heap:
  assumes "mem t = mem s" and "kernel_heap t = kernel_heap s"
  shows "live t = live s" and "kheap_spare t = kheap_spare s" and "stable t = stable s"
proof -
  show l: "live t = live s" using assms by (intro ext) (simp add: live_def Let_def)
  show "kheap_spare t = kheap_spare s" using assms by (simp add: kheap_spare_def)
  show "stable t = stable s" using l assms(2) by (intro ext) (simp add: stable_def)
qed

text \<open>
  Room by counting: of the first \<open>u + 1\<close> windows of \<open>n\<close> blocks one has none of the \<open>u\<close> blocks in use.
\<close>

lemma free_window:
  assumes "(card {k. k < T \<and> \<not> P k} + 1) * n \<le> T" and n: "0 < n"
  obtains j where "run_at P T n j"
proof (rule ccontr)
  let ?B = "{k. k < T \<and> \<not> P k}" and ?W = "{..card {k. k < T \<and> \<not> P k}}"
  assume "\<not> thesis"
  then have no: "\<not> run_at P T n j" for j using that by blast
  have w: "\<exists>k. k \<in> ?B \<and> k div n = i" if i: "i \<in> ?W" for i
  proof -
    have "i * n \<le> card ?B * n" using i by (intro mult_le_mono1) simp
    then have e: "i * n + n \<le> T" using assms(1) by (simp only: distrib_right)
    then obtain k where k: "i * n \<le> k" "k < i * n + n" "\<not> P k"
      using no [of "i * n"] by (auto simp: run_at_def)
    have "k div n = i" using k(1,2) by (intro div_nat_eqI) (simp_all add: mult.commute)
    moreover have "k < T" using k(2) e by simp
    ultimately show ?thesis using k(3) by blast
  qed
  have "?W \<subseteq> (\<lambda>k. k div n) ` ?B" using w by (auto simp: image_iff)
  then have "card ?W \<le> card ?B" by (rule surj_card_le [rotated]) simp
  then show False by simp
qed

lemma room_by_count:
  assumes "kheap_ok s" and "(heap_blocks (kernel_heap s) - kheap_spare s + 1) * n \<le> heap_blocks (kernel_heap s)"
    and "0 < n"
  shows "kheap_room s n"
proof -
  let ?P = "\<lambda>k. \<not> covered (heap_allocs (mem s) (kernel_heap s)) k" and ?T = "heap_blocks (kernel_heap s)"
  have "kheap_spare s = card {k. k < ?T \<and> ?P k}"
    unfolding kheap_spare_def by (subst distinct_card [symmetric]) (auto intro: arg_cong [where f = card])
  moreover have "card {k. k < ?T \<and> ?P k} + card {k. k < ?T \<and> \<not> ?P k} = ?T"
  proof -
    have "{..<?T} = {k. k < ?T \<and> ?P k} \<union> {k. k < ?T \<and> \<not> ?P k}" by auto
    then have "card {..<?T} = card {k. k < ?T \<and> ?P k} + card {k. k < ?T \<and> \<not> ?P k}"
      by (simp only:) (rule card_Un_disjoint, auto)
    then show ?thesis by simp
  qed
  ultimately have "card {k. k < ?T \<and> \<not> ?P k} = ?T - kheap_spare s" by linarith
  then have "(card {k. k < ?T \<and> \<not> ?P k} + 1) * n \<le> ?T" using assms(2) by (simp only:)
  then obtain j where "run_at ?P ?T n j" using assms(3) by (rule free_window)
  then show ?thesis by (auto simp: kheap_room_def fit_def first_fit_None)
qed

section \<open>The heap at boot\<close>

lemma booted_client:
  shows "kheap_ok (snd (kheap_init s))" and "kheap_spare (snd (kheap_init s)) = 25600"
    and "live (snd (kheap_init s)) = Map.empty" and "kernel_heap (snd (kheap_init s)) = booted_heap"
    and "25600 \<le> unat (a - 0x7E00) \<Longrightarrow> mem (snd (kheap_init s)) a = mem s a"
    and "unat (a - 0x7E00) < 25600 \<Longrightarrow> mem (snd (kheap_init s)) a = 0"
proof -
  let ?t = "snd (kheap_init s)"
  have z: "table_entry (mem ?t) (heap_tab booted_heap) k = 0" if "k < heap_blocks booted_heap" for k
    using that by (simp add: kheap_init_eq table_entry_def memset_apply booted_heap_def unat_of_nat_u32)
  note e = heap_inv_empty [OF booted_layout, of "mem ?t", OF z]
  show k: "kernel_heap ?t = booted_heap" by (simp add: kheap_init_eq)
  show "kheap_ok ?t" using e(1) k by simp
  show "kheap_spare ?t = 25600"
    using e k by (simp add: kheap_spare_def covered_def) (simp add: booted_heap_def)
  show "live ?t = Map.empty" using e k by (intro ext) (simp add: live_def Let_def)
qed (simp_all add: kheap_init_eq memset_apply)

text \<open>Addresses below the block table, where programs and the kernel's own data are not moved.\<close>

lemma booted_stable_low:
  assumes "unat a < 0x7E00"
  shows "stable (snd (kheap_init s)) a"
proof -
  have "\<not> a \<ge> 0x7E00" "\<not> a \<ge> 0x02000000" using assms by (simp_all add: word_le_nat_alt)
  then have t: "unat (a - 0x7E00) = 4294967296 + unat a - 0x7E00"
    and p: "unat (a - 0x02000000) = 4294967296 + unat a - 0x02000000"
    by (simp_all add: unat_sub_if_size word_size word_le_nat_alt)
  show ?thesis
    unfolding stable_def
    using t p by (simp add: booted_client in_table_def in_pool_def) (simp add: booted_heap_def)
qed

end
