(* ===== verification/Paging.thy ===== *)
theory Paging
  imports Kheap_Client
begin

text \<open>
  \<^verbatim>\<open>src/memory/paging/paging.c\<close>: page directories and page tables, as arrays of 1024 words
  in physical memory. The processor's CR3 register, which \<^verbatim>\<open>paging.asm\<close> loads, and the
  static \<open>current_directory\<close> join the state.
\<close>

unbundle bit_operations_syntax

section \<open>State and constants (paging.h)\<close>

record mmu = kmem +
  cr3 :: u32
  current_directory :: u32

definition PAGING_CACHE_DISABLED :: u32 where [c_defs]: "PAGING_CACHE_DISABLED = 16"
definition PAGING_WRITE_THROUGH :: u32 where [c_defs]: "PAGING_WRITE_THROUGH = 8"
definition PAGING_ACCESS_FROM_ALL :: u32 where [c_defs]: "PAGING_ACCESS_FROM_ALL = 4"
definition PAGING_IS_WRITEABLE :: u32 where [c_defs]: "PAGING_IS_WRITEABLE = 2"
definition PAGING_IS_PRESENT :: u32 where [c_defs]: "PAGING_IS_PRESENT = 1"
definition PAGING_TOTAL_ENTRIES_PER_TABLE :: u32 where [c_defs]: "PAGING_TOTAL_ENTRIES_PER_TABLE = 1024"
definition PAGING_PAGE_SIZE :: u32 where [c_defs]: "PAGING_PAGE_SIZE = 4096"

text \<open>
  A \<open>struct paging_4gb_chunk\<close> is one pointer; a chunk is its address. A directory or a
  table is an array of words: \<open>slot p i\<close> is the address of element \<open>i\<close>.
\<close>

definition slot :: "u32 \<Rightarrow> nat \<Rightarrow> u32" where
  "slot p i = p + 4 * of_nat i"

definition paging_4gb_chunk_get_directory :: "byte_mem \<Rightarrow> u32 \<Rightarrow> u32" where
  "paging_4gb_chunk_get_directory m chunk = load32 m chunk"

section \<open>Alignment\<close>

definition paging_align_address :: "u32 \<Rightarrow> u32" where
  "paging_align_address ptr =
     (if ptr mod PAGING_PAGE_SIZE \<noteq> 0 then ptr + PAGING_PAGE_SIZE - ptr mod PAGING_PAGE_SIZE else ptr)"

definition paging_align_to_lower_page :: "u32 \<Rightarrow> u32" where
  "paging_align_to_lower_page addr = addr - addr mod PAGING_PAGE_SIZE"

definition paging_is_aligned :: "u32 \<Rightarrow> bool" where
  "paging_is_aligned addr \<longleftrightarrow> addr mod PAGING_PAGE_SIZE = 0"

section \<open>Directory and table entries\<close>

text \<open>The two output parameters keep their values when the address is not aligned.\<close>

definition paging_get_indexes :: "u32 \<Rightarrow> u32 \<Rightarrow> u32 \<Rightarrow> int \<times> u32 \<times> u32" where
  "paging_get_indexes virtual_address directory_index_out table_index_out =
     (if \<not> paging_is_aligned virtual_address then (- EINVARG, directory_index_out, table_index_out)
      else (0, virtual_address div (PAGING_TOTAL_ENTRIES_PER_TABLE * PAGING_PAGE_SIZE),
        virtual_address mod (PAGING_TOTAL_ENTRIES_PER_TABLE * PAGING_PAGE_SIZE) div PAGING_PAGE_SIZE))"

definition paging_set :: "byte_mem \<Rightarrow> u32 \<Rightarrow> u32 \<Rightarrow> u32 \<Rightarrow> int \<times> byte_mem" where
  "paging_set m directory virt val =
     (if \<not> paging_is_aligned virt then (- EINVARG, m)
      else
        let (res, directory_index, table_index) = paging_get_indexes virt 0 0
        in if res < 0 then (res, m)
           else
             let entry = load32 m (slot directory (unat directory_index));
                 tab = entry AND 0xFFFFF000
             in (0, store32 m (slot tab (unat table_index)) val))"

text \<open>\<open>paging_get\<close> masks the directory entry with \<open>0xffff000\<close>, one digit short.\<close>

definition paging_get :: "byte_mem \<Rightarrow> u32 \<Rightarrow> u32 \<Rightarrow> u32" where
  "paging_get m directory virt =
     (let (_, directory_index, table_index) = paging_get_indexes virt 0 0;
          entry = load32 m (slot directory (unat directory_index));
          tab = entry AND 0x0FFFF000
      in load32 m (slot tab (unat table_index)))"

definition paging_get_physical_address :: "byte_mem \<Rightarrow> u32 \<Rightarrow> u32 \<Rightarrow> u32" where
  "paging_get_physical_address m directory_entry virt =
     (let virt_addr_new = paging_align_to_lower_page virt;
          difference = virt - virt_addr_new
      in (paging_get m directory_entry virt_addr_new AND 0xFFFFF000) + difference)"

section \<open>Mapping\<close>

definition paging_map :: "byte_mem \<Rightarrow> u32 \<Rightarrow> u32 \<Rightarrow> u32 \<Rightarrow> u32 \<Rightarrow> int \<times> byte_mem" where
  "paging_map m directory virt phys flags =
     (if virt mod PAGING_PAGE_SIZE \<noteq> 0 \<or> phys mod PAGING_PAGE_SIZE \<noteq> 0 then (- EINVARG, m)
      else paging_set m (load32 m directory) virt (phys OR flags))"

text \<open>The loop of \<open>paging_map_range\<close>: \<open>n\<close> iterations are left, \<open>res\<close> is the last result.\<close>

fun map_range_loop :: "byte_mem \<Rightarrow> u32 \<Rightarrow> u32 \<Rightarrow> u32 \<Rightarrow> nat \<Rightarrow> u32 \<Rightarrow> int \<Rightarrow> int \<times> byte_mem" where
  "map_range_loop m directory virt phys 0 flags res = (res, m)"
| "map_range_loop m directory virt phys (Suc n) flags res =
     (let (res, m) = paging_map m directory virt phys flags
      in if res < 0 then (res, m)
         else map_range_loop m directory (virt + PAGING_PAGE_SIZE) (phys + PAGING_PAGE_SIZE) n flags res)"

definition paging_map_range :: "byte_mem \<Rightarrow> u32 \<Rightarrow> u32 \<Rightarrow> u32 \<Rightarrow> int \<Rightarrow> u32 \<Rightarrow> int \<times> byte_mem" where
  "paging_map_range m directory virt phys count flags =
     map_range_loop m directory virt phys (nat count) flags 0"

definition paging_map_to :: "byte_mem \<Rightarrow> u32 \<Rightarrow> u32 \<Rightarrow> u32 \<Rightarrow> u32 \<Rightarrow> u32 \<Rightarrow> int \<times> byte_mem" where
  "paging_map_to m directory virt phys phys_end flags =
     (if virt mod PAGING_PAGE_SIZE \<noteq> 0 then (- EINVARG, m)
      else if phys mod PAGING_PAGE_SIZE \<noteq> 0 then (- EINVARG, m)
      else if phys_end mod PAGING_PAGE_SIZE \<noteq> 0 then (- EINVARG, m)
      else if phys_end < phys then (- EINVARG, m)
      else
        let total_bytes = phys_end - phys;
            total_pages = sint (total_bytes div PAGING_PAGE_SIZE)
        in paging_map_range m directory virt phys total_pages flags)"

section \<open>Creating, loading and freeing a directory\<close>

text \<open>
  The inner loop of \<open>paging_new_4gb\<close> fills one table. The \<open>int\<close> arithmetic on the offset
  reaches 4 GiB and is taken modulo \<open>2 ^ 32\<close>.
\<close>

definition fill_table :: "byte_mem \<Rightarrow> u32 \<Rightarrow> u32 \<Rightarrow> u8 \<Rightarrow> byte_mem" where
  "fill_table m entry offset flags =
     fold (\<lambda>b m. store32 m (slot entry b) ((offset + of_nat b * PAGING_PAGE_SIZE) OR ucast flags))
       [0..<unat PAGING_TOTAL_ENTRIES_PER_TABLE] m"

definition new_4gb_step :: "u8 \<Rightarrow> u32 \<Rightarrow> nat \<Rightarrow> u32 \<times> 'a kmem_scheme \<Rightarrow> u32 \<times> 'a kmem_scheme" where
  "new_4gb_step flags directory i = (\<lambda>(offset, s).
     let (entry, s1) = kzalloc (4 * PAGING_TOTAL_ENTRIES_PER_TABLE) s;
         m2 = fill_table (mem s1) entry offset flags;
         offset = offset + PAGING_TOTAL_ENTRIES_PER_TABLE * PAGING_PAGE_SIZE;
         m3 = store32 m2 (slot directory i) (entry OR ucast flags OR PAGING_IS_WRITEABLE)
     in (offset, s1\<lparr>mem := m3\<rparr>))"

definition paging_new_4gb :: "u8 \<Rightarrow> 'a kmem_scheme \<Rightarrow> u32 \<times> 'a kmem_scheme" where
  "paging_new_4gb flags s =
     (let (directory, s1) = kzalloc (4 * PAGING_TOTAL_ENTRIES_PER_TABLE) s;
          (_, s2) = fold (new_4gb_step flags directory) [0..<unat PAGING_TOTAL_ENTRIES_PER_TABLE] (0, s1);
          (chunk_4gb, s3) = kzalloc 4 s2
      in (chunk_4gb, s3\<lparr>mem := store32 (mem s3) chunk_4gb directory\<rparr>))"

definition paging_switch :: "u32 \<Rightarrow> 'a mmu_scheme \<Rightarrow> 'a mmu_scheme" where
  "paging_switch directory s =
     s\<lparr>cr3 := load32 (mem s) directory, current_directory := load32 (mem s) directory\<rparr>"

text \<open>The tables and the directory are read again after each \<open>kfree\<close>, as the code does.\<close>

definition free_table :: "u32 \<Rightarrow> nat \<Rightarrow> 'a kmem_scheme \<Rightarrow> 'a kmem_scheme" where
  "free_table chunk i s =
     (let entry = load32 (mem s) (slot (load32 (mem s) chunk) i)
      in kfree (entry AND 0xFFFFF000) s)"

definition paging_free_4gb :: "u32 \<Rightarrow> 'a kmem_scheme \<Rightarrow> 'a kmem_scheme" where
  "paging_free_4gb chunk s =
     (let s1 = fold (free_table chunk) [0..<1024] s
      in kfree chunk (kfree (load32 (mem s1) chunk) s1))"

end
