(* ===== verification/Paging_Props.thy ===== *)
theory Paging_Props
  imports Paging
begin

text \<open>
  What the paging functions do to the mapping a directory describes: words in owned pages do
  not interfere, so a directory built by \<open>paging_new_4gb\<close> is a function from page numbers
  to entries that \<open>paging_set\<close> updates at one point.
\<close>

unbundle bit_operations_syntax

section \<open>Words in pages\<close>

lemma unat_slot:
  assumes "4096 dvd unat p" and "i < 1024"
  shows "unat (slot p i) = unat p + 4 * i"
proof -
  obtain k where k: "unat p = 4096 * k" using assms(1) by (rule dvdE)
  have "k < 1048576" using unat_u32_bound [of p] k by simp
  then have "unat p + 4 * i < 4294967296" using k assms(2) by linarith
  moreover have "unat (of_nat (4 * i) :: u32) = 4 * i" using assms(2) by (intro unat_of_nat_u32) simp
  ultimately have "unat (p + of_nat (4 * i)) = unat p + 4 * i" by (subst unat_add_u32) simp_all
  then show ?thesis by (simp add: slot_def)
qed

lemma slot_offset:
  assumes "i < 1024"
  shows "unat (slot p i - p) = 4 * i"
proof -
  have "slot p i - p = of_nat (4 * i)" by (simp add: slot_def)
  then show ?thesis using assms by (simp only: unat_of_nat_u32)
qed

lemma page_eq_iff:
  assumes "4096 dvd unat (p :: u32)" and "4096 dvd unat q"
  shows "p = q \<longleftrightarrow> unat p div 4096 = unat q div 4096"
  using assms by (metis dvd_mult_div_cancel unsigned_word_eqI)

lemma slot_eq_iff:
  assumes "4096 dvd unat p" and "4096 dvd unat q" and "i < 1024" and "j < 1024"
  shows "slot p i = slot q j \<longleftrightarrow> p = q \<and> i = j"
proof
  assume "slot p i = slot q j"
  then have eq: "unat p + 4 * i = unat q + 4 * j" using unat_slot assms by metis
  obtain k l where "unat p = 4096 * k" "unat q = 4096 * l" using assms(1,2) by (elim dvdE)
  then have "k = l" using eq assms(3,4) by linarith
  then show "p = q \<and> i = j"
    using eq \<open>unat p = 4096 * k\<close> \<open>unat q = 4096 * l\<close> by (simp add: word_unat_eq_iff)
qed simp

lemma load32_store32_slot:
  assumes "4096 dvd unat p" and "4096 dvd unat q" and "i < 1024" and "j < 1024"
  shows "load32 (store32 m (slot p i) v) (slot q j) = (if p = q \<and> i = j then v else load32 m (slot q j))"
proof -
  have "4 dvd unat (slot p i)" "4 dvd unat (slot q j)"
    using unat_slot [OF assms(1,3)] unat_slot [OF assms(2,4)] assms(1,2)
    by (auto intro!: dvd_add intro: dvd_trans [of 4 4096])
  then show ?thesis
    using slot_eq_iff [OF assms] load32_store32_other [of "slot p i" "slot q j"] by auto
qed

lemma store32_slot_outside:
  assumes "i < 1024" and "4096 \<le> unat (a - p)"
  shows "store32 m (slot p i) v a = m a"
proof (rule store32_outside)
  have "a - slot p i = (a - p) - of_nat (4 * i)" by (simp add: slot_def)
  moreover have four: "unat (of_nat (4 * i) :: u32) = 4 * i" using assms(1) by (intro unat_of_nat_u32) simp
  moreover have "of_nat (4 * i) \<le> a - p"
    using assms unfolding word_le_nat_alt four by simp
  ultimately have "unat (a - slot p i) = unat (a - p) - 4 * i"
    by (simp only: unat_sub)
  then show "4 \<le> unat (a - slot p i)" using assms by linarith
qed

lemma slot_bytes_in_page:
  assumes "4096 dvd unat p" and "i < 1024" and "k < 4"
  shows "unat (slot p i + of_nat k - p) < 4096"
proof -
  have "slot p i + of_nat k - p = of_nat (4 * i + k)" by (simp add: slot_def)
  then show ?thesis using assms by (simp only: unat_of_nat_u32)
qed

lemma load32_slot_cong:
  assumes "i < 1024" and "4096 dvd unat p" and "\<And>a. unat (a - p) < 4096 \<Longrightarrow> m' a = m a"
  shows "load32 m' (slot p i) = load32 m (slot p i)"
proof (rule load32_cong)
  note b = slot_bytes_in_page [OF assms(2,1)]
  show "m' (slot p i) = m (slot p i)" using b [of 0] assms(3) by simp
  show "m' (slot p i + 1) = m (slot p i + 1)" using b [of 1] assms(3) by simp
  show "m' (slot p i + 2) = m (slot p i + 2)" using b [of 2] assms(3) by simp
  show "m' (slot p i + 3) = m (slot p i + 3)" using b [of 3] assms(3) by simp
qed

text \<open>An entry is the address of a page with flags in its low twelve bits.\<close>

lemma page_low_bits:
  assumes "4096 dvd unat (p :: u32)" and "n < 12"
  shows "\<not> bit p n"
proof -
  have "take_bit 12 p = 0"
    using assms(1) by (simp add: take_bit_eq_mod unat_mod word_arith_nat_mod word_unat_eq_iff mod_eq_0_iff_dvd)
  then show ?thesis using assms(2) by (metis bit_0_eq bit_take_bit_iff bot_apply bot_bool_def)
qed

lemma low_word_high_bits:
  assumes "(f :: u32) < 4096" and "12 \<le> n"
  shows "\<not> bit f n"
proof -
  have "take_bit 12 f = f"
    using assms(1) by (simp add: take_bit_eq_mod word_less_nat_alt word_unat_eq_iff unat_mod)
  then show ?thesis using assms(2) by (metis bit_take_bit_iff not_le)
qed

lemma page_mask: "(0xFFFFF000 :: u32) = NOT (mask 12)"
  by (simp add: mask_eq_exp_minus_1)

lemma entry_mask:
  assumes "4096 dvd unat (p :: u32)" and "f < 4096"
  shows "(p OR f) AND 0xFFFFF000 = p"
proof (rule bit_word_eqI)
  fix n assume "n < LENGTH(32)"
  then show "bit ((p OR f) AND 0xFFFFF000) n = bit p n"
    unfolding page_mask using page_low_bits [OF assms(1), of n] low_word_high_bits [OF assms(2), of n]
    by (cases "n < 12") (auto simp: bit_simps)
qed

section \<open>The mapping a directory describes\<close>

definition dir_index :: "u32 \<Rightarrow> nat" where
  "dir_index v = unat v div 4194304"

definition tab_index :: "u32 \<Rightarrow> nat" where
  "tab_index v = unat v mod 4194304 div 4096"

definition table_at :: "byte_mem \<Rightarrow> u32 \<Rightarrow> nat \<Rightarrow> u32" where
  "table_at m d i = load32 m (slot d i) AND 0xFFFFF000"

definition page_entry :: "byte_mem \<Rightarrow> u32 \<Rightarrow> u32 \<Rightarrow> u32" where
  "page_entry m d v = load32 m (slot (table_at m d (dir_index v)) (tab_index v))"

text \<open>The directory and its 1024 tables are different pages.\<close>

definition dir_ok :: "u32 \<Rightarrow> byte_mem \<Rightarrow> bool" where
  "dir_ok d m \<longleftrightarrow> 4096 dvd unat d \<and> (\<forall>i<1024. table_at m d i \<noteq> d) \<and> inj_on (table_at m d) {..<1024}"

lemma index_bounds [simp]: "dir_index v < 1024" "tab_index v < 1024"
  using unat_u32_bound [of v] by (auto simp: dir_index_def tab_index_def less_mult_imp_div_less)

lemma index_sum:
  assumes "4096 dvd unat v"
  shows "unat v = 4194304 * dir_index v + 4096 * tab_index v"
proof -
  have "4096 dvd unat v mod 4194304" using assms by (intro dvd_mod) auto
  then have "4096 * tab_index v = unat v mod 4194304" by (simp add: tab_index_def)
  then show ?thesis by (simp add: dir_index_def)
qed

lemma index_eq_iff:
  assumes "4096 dvd unat v" and "4096 dvd unat w"
  shows "dir_index v = dir_index w \<and> tab_index v = tab_index w \<longleftrightarrow> v = w"
  by (metis assms index_sum word_unat_eq_iff)

lemma table_at_aligned [simp]: "4096 dvd unat (table_at m d i)"
proof -
  have "take_bit 12 (table_at m d i) = 0"
    by (rule bit_word_eqI) (auto simp: table_at_def page_mask bit_simps)
  then have "unat (take_bit 12 (table_at m d i)) = 0" by simp
  then show ?thesis by (simp add: take_bit_eq_mod unat_mod mod_eq_0_iff_dvd)
qed

lemma aligned_iff:
  "v mod PAGING_PAGE_SIZE = 0 \<longleftrightarrow> 4096 dvd unat v"
  by (simp add: c_defs word_unat_eq_iff unat_mod mod_eq_0_iff_dvd)

lemma paging_is_aligned_iff: "paging_is_aligned v \<longleftrightarrow> 4096 dvd unat v"
  by (simp add: paging_is_aligned_def aligned_iff)

lemma unat_index [simp]:
  "unat (of_nat (dir_index v) :: u32) = dir_index v"
  "unat (of_nat (tab_index v) :: u32) = tab_index v"
  using index_bounds [of v] by (simp_all only: unat_of_nat_u32)

lemma paging_get_indexes_eq:
  "paging_get_indexes v a b =
    (if 4096 dvd unat v then (0, of_nat (dir_index v), of_nat (tab_index v)) else (- EINVARG, a, b))"
proof -
  have "v div 4194304 = of_nat (dir_index v)"
    unfolding word_unat_eq_iff unat_index by (simp add: dir_index_def unat_div)
  moreover have "v mod 4194304 div 4096 = of_nat (tab_index v)"
    unfolding word_unat_eq_iff unat_index by (simp add: tab_index_def unat_div unat_mod)
  ultimately show ?thesis
    by (simp add: paging_get_indexes_def paging_is_aligned_iff c_defs)
qed

lemma paging_set_eq:
  "paging_set m d v x = (if 4096 dvd unat v
     then (0, store32 m (slot (table_at m d (dir_index v)) (tab_index v)) x) else (- EINVARG, m))"
  by (simp add: paging_set_def paging_is_aligned_iff paging_get_indexes_eq table_at_def)

lemma page_entry_set:
  assumes "dir_ok d m" and "4096 dvd unat v" and "4096 dvd unat w"
  shows "dir_ok d (snd (paging_set m d v x))"
    and "table_at (snd (paging_set m d v x)) d i = table_at m d i \<or> 1024 \<le> i"
    and "page_entry (snd (paging_set m d v x)) d w = (if w = v then x else page_entry m d w)"
proof -
  let ?m = "store32 m (slot (table_at m d (dir_index v)) (tab_index v)) x"
  have m: "snd (paging_set m d v x) = ?m" using assms(2) by (simp add: paging_set_eq)
  have d: "4096 dvd unat d" "table_at m d (dir_index v) \<noteq> d" "inj_on (table_at m d) {..<1024}"
    using assms(1) by (auto simp: dir_ok_def)
  have tab: "table_at ?m d i = table_at m d i" if "i < 1024" for i
    using that d by (simp add: table_at_def [of ?m] load32_store32_slot) (simp add: table_at_def)
  then show "table_at (snd (paging_set m d v x)) d i = table_at m d i \<or> 1024 \<le> i"
    unfolding m by (meson leI)
  have "inj_on (table_at ?m d) {..<1024} = inj_on (table_at m d) {..<1024}"
    using tab by (intro inj_on_cong) simp
  then show "dir_ok d (snd (paging_set m d v x))"
    unfolding m dir_ok_def using assms(1) tab by (simp add: dir_ok_def)
  have "table_at m d (dir_index v) = table_at m d (dir_index w) \<longleftrightarrow> dir_index v = dir_index w"
    using d(3) by (simp add: inj_on_eq_iff)
  then show "page_entry (snd (paging_set m d v x)) d w = (if w = v then x else page_entry m d w)"
    unfolding m page_entry_def tab [OF index_bounds(1)]
    using index_eq_iff [OF assms(2,3)] by (auto simp: load32_store32_slot)
qed

text \<open>
  \<open>paging_get\<close> loses the top four bits of the table's address: it reads the entry only when
  the table is below \<open>0x10000000\<close>, where the heap of the kernel is.
\<close>

definition low_dir_ok :: "u32 \<Rightarrow> byte_mem \<Rightarrow> bool" where
  "low_dir_ok d m \<longleftrightarrow> dir_ok d m \<and> (\<forall>i<1024. table_at m d i < 0x10000000)"

lemma low_mask:
  assumes "(t AND 0xFFFFF000 :: u32) < 0x10000000"
  shows "t AND 0x0FFFF000 = t AND 0xFFFFF000"
proof (rule bit_word_eqI)
  fix n assume n: "n < LENGTH(32)"
  have e: "(0x0FFFF000 :: u32) = mask 28 AND 0xFFFFF000" by (simp add: mask_eq_exp_minus_1)
  have "take_bit 28 (t AND 0xFFFFF000) = t AND 0xFFFFF000"
    using assms by (simp add: take_bit_eq_mod word_less_nat_alt word_unat_eq_iff unat_mod)
  then have "28 \<le> n \<Longrightarrow> \<not> bit (t AND 0xFFFFF000) n" by (metis bit_take_bit_iff not_le)
  then show "bit (t AND 0x0FFFF000) n = bit (t AND 0xFFFFF000) n"
    unfolding e using n by (cases "n < 28") (auto simp: bit_simps)
qed

lemma paging_get_eq:
  assumes "low_dir_ok d m" and "4096 dvd unat v"
  shows "paging_get m d v = page_entry m d v"
proof -
  have "load32 m (slot d (dir_index v)) AND 0x0FFFF000 = table_at m d (dir_index v)"
    unfolding table_at_def using assms(1) by (intro low_mask) (auto simp: low_dir_ok_def table_at_def)
  then show ?thesis
    using assms(2) by (simp add: paging_get_def paging_get_indexes_eq page_entry_def)
qed

text \<open>Setting a page writes to a table, not to the directory.\<close>

lemma dir_word_set:
  assumes "dir_ok d m" and "4096 dvd unat v" and "i < 1024"
  shows "load32 (snd (paging_set m d v x)) (slot d i) = load32 m (slot d i)"
  using assms by (simp add: paging_set_eq dir_ok_def load32_store32_slot)

section \<open>The contract of a page map\<close>

text \<open>
  What the loader and the process code rely on: setting an aligned page succeeds and changes
  that page only. A run of pages set one after the other is what the mapping functions loop over.
\<close>

locale page_map =
  fixes ok :: "'s \<Rightarrow> bool"
    and set_page :: "'s \<Rightarrow> u32 \<Rightarrow> u32 \<Rightarrow> int \<times> 's"
    and get_page :: "'s \<Rightarrow> u32 \<Rightarrow> u32"
  assumes set_status: "4096 dvd unat v \<Longrightarrow> fst (set_page s v x) = 0"
    and set_refused: "\<not> 4096 dvd unat v \<Longrightarrow> set_page s v x = (- EINVARG, s)"
    and set_ok: "ok s \<Longrightarrow> 4096 dvd unat v \<Longrightarrow> ok (snd (set_page s v x))"
    and get_set: "ok s \<Longrightarrow> 4096 dvd unat v \<Longrightarrow> 4096 dvd unat w \<Longrightarrow>
      get_page (snd (set_page s v x)) w = (if w = v then x else get_page s w)"
begin

lemma set_run:
  fixes f g :: "nat \<Rightarrow> u32"
  assumes "ok s" and "\<And>k. k < n \<Longrightarrow> 4096 dvd unat (f k)" and "inj_on f {..<n}"
  shows "let t = fold (\<lambda>k s. snd (set_page s (f k) (g k))) [0..<n] s
    in ok t \<and> (\<forall>k<n. get_page t (f k) = g k) \<and>
       (\<forall>w. 4096 dvd unat w \<longrightarrow> w \<notin> f ` {..<n} \<longrightarrow> get_page t w = get_page s w)"
  using assms(2,3)
proof (induction n)
  case 0
  then show ?case using assms(1) by simp
next
  case (Suc n)
  let ?t = "fold (\<lambda>k s. snd (set_page s (f k) (g k))) [0..<n] s"
  have new: "j < n \<Longrightarrow> f j \<noteq> f n" for j
    using Suc.prems(2) by (auto simp: inj_on_def)
  have IH: "ok ?t" "\<forall>k<n. get_page ?t (f k) = g k"
    "\<forall>w. 4096 dvd unat w \<longrightarrow> w \<notin> f ` {..<n} \<longrightarrow> get_page ?t w = get_page s w"
    using Suc.IH Suc.prems by (simp_all add: Let_def inj_on_def)
  note set = get_set [OF IH(1), of "f n"]
  show ?case
    using IH set_ok [OF IH(1), of "f n"] set Suc.prems(1) new
    by (auto simp: Let_def less_Suc_eq lessThan_Suc)
qed

end

interpretation dir: page_map "dir_ok d" "\<lambda>m. paging_set m d" "\<lambda>m. page_entry m d" for d
  by unfold_locales (simp_all add: page_entry_set, simp_all add: paging_set_eq)

interpretation low_dir: page_map "low_dir_ok d" "\<lambda>m. paging_set m d" "\<lambda>m. paging_get m d" for d
proof unfold_locales
  fix m and v x w :: u32 assume m: "low_dir_ok d m" and v: "4096 dvd unat v"
  then have d: "dir_ok d m" by (simp add: low_dir_ok_def)
  show low: "low_dir_ok d (snd (paging_set m d v x))"
    using page_entry_set(1) [OF d v v, of x] page_entry_set(2) [OF d v v, of x] m
    unfolding low_dir_ok_def by (metis not_le)
  assume w: "4096 dvd unat w"
  show "paging_get (snd (paging_set m d v x)) d w = (if w = v then x else paging_get m d w)"
    using page_entry_set(3) [OF d v w] paging_get_eq [OF low w] paging_get_eq [OF m w] by simp
qed (simp_all add: paging_set_eq)

text \<open>
  A chunk in good order: its own page is neither the directory nor a table, so that mapping
  pages never changes which directory the chunk points to.
\<close>

definition chunk_ok :: "u32 \<Rightarrow> byte_mem \<Rightarrow> bool" where
  "chunk_ok c m \<longleftrightarrow> low_dir_ok (load32 m c) m \<and> 4096 dvd unat c \<and> c \<noteq> load32 m c \<and>
     (\<forall>i<1024. table_at m (load32 m c) i \<noteq> c)"

lemma load32_store32_chunk:
  assumes "4096 dvd unat p" and "4096 dvd unat c" and "i < 1024" and "p \<noteq> c"
  shows "load32 (store32 m (slot p i) v) c = load32 m c"
  using load32_store32_slot [OF assms(1,2,3), of 0] assms(4) by (simp add: slot_def)

lemma chunk_set:
  assumes "chunk_ok c m" and "4096 dvd unat v"
  shows "load32 (snd (paging_set m (load32 m c) v x)) c = load32 m c"
    and "chunk_ok c (snd (paging_set m (load32 m c) v x))"
proof -
  let ?d = "load32 m c"
  have low: "low_dir_ok ?d m" and c: "4096 dvd unat c" "c \<noteq> ?d"
    and tab: "i < 1024 \<Longrightarrow> table_at m ?d i \<noteq> c" for i
    using assms(1) by (auto simp: chunk_ok_def)
  have d: "dir_ok ?d m" using low by (simp add: low_dir_ok_def)
  show l: "load32 (snd (paging_set m ?d v x)) c = ?d"
    using tab [of "dir_index v"] c assms(2)
    by (simp add: paging_set_eq load32_store32_chunk)
  have "table_at (snd (paging_set m ?d v x)) ?d i \<noteq> c" if "i < 1024" for i
    using page_entry_set(2) [OF d assms(2,2), of x i] tab [OF that] that by auto
  then show "chunk_ok c (snd (paging_set m ?d v x))"
    unfolding chunk_ok_def l using low_dir.set_ok [OF low assms(2), of x] c by simp
qed

interpretation chunk: page_map "chunk_ok c" "\<lambda>m. paging_set m (load32 m c)"
    "\<lambda>m. paging_get m (load32 m c)" for c
proof unfold_locales
  fix m and v x w :: u32
  assume c: "chunk_ok c m" and v: "4096 dvd unat v" and w: "4096 dvd unat w"
  show "paging_get (snd (paging_set m (load32 m c) v x)) (load32 (snd (paging_set m (load32 m c) v x)) c) w =
      (if w = v then x else paging_get m (load32 m c) w)"
    unfolding chunk_set(1) [OF c v] using c v w by (intro low_dir.get_set) (simp_all add: chunk_ok_def)
qed (simp_all only: chunk_set, simp_all add: paging_set_eq)

section \<open>Runs of pages\<close>

lemma aligned_plus:
  assumes "4096 dvd unat (a :: u32)" and "4096 dvd unat b"
  shows "4096 dvd unat (a + b)"
  unfolding unat_word_ariths using assms by (intro dvd_mod dvd_add) simp_all

lemma aligned_pages: "4096 dvd unat (4096 * of_nat k :: u32)"
proof -
  have "unat (4096 * of_nat k :: u32) = 4096 * k mod 4294967296"
    by (simp add: unat_word_ariths unat_of_nat mod_mult_right_eq)
  then show ?thesis by (simp add: dvd_mod)
qed

lemma page_run_aligned: "4096 dvd unat (v :: u32) \<Longrightarrow> 4096 dvd unat (v + 4096 * of_nat k)"
  by (rule aligned_plus [OF _ aligned_pages])

lemma page_run_inj:
  assumes "n \<le> 1048576"
  shows "inj_on (\<lambda>k. v + 4096 * of_nat k :: u32) {..<n}"
proof (rule inj_onI)
  fix j k assume jk: "j \<in> {..<n}" "k \<in> {..<n}" and eq: "v + 4096 * of_nat j = v + 4096 * of_nat k"
  have "v + of_nat (4096 * j) = v + of_nat (4096 * k)" using eq by simp
  then have "4096 * j = 4096 * k"
    using jk assms by (subst (asm) plus_offset_eq) auto
  then show "j = k" by simp
qed

lemma map_range_loop_fold:
  assumes "4096 dvd unat v" and "4096 dvd unat p"
  shows "map_range_loop m c v p n flags r = (if n = 0 then r else 0,
    fold (\<lambda>k m. snd (paging_set m (load32 m c) (v + 4096 * of_nat k) ((p + 4096 * of_nat k) OR flags)))
      [0..<n] m)"
  using assms
proof (induction n arbitrary: m v p r)
  case 0
  then show ?case by simp
next
  case (Suc n)
  have shift: "[0..<Suc n] = 0 # map Suc [0..<n]" by (simp add: upt_conv_Cons map_Suc_upt del: upt_Suc)
  have al: "4096 dvd unat (v + 4096)" "4096 dvd unat (p + 4096)"
    using page_run_aligned [OF Suc.prems(1), of 1] page_run_aligned [OF Suc.prems(2), of 1] by simp_all
  have m: "paging_map m c v p flags = (0, snd (paging_set m (load32 m c) v (p OR flags)))"
    using Suc.prems by (simp add: paging_map_def aligned_iff paging_set_eq)
  show ?case
    unfolding shift by (simp add: m Suc.IH [OF al] fold_map o_def c_defs add.assoc distrib_left)
qed

lemma map_range_maps:
  assumes "chunk_ok c m" and "4096 dvd unat v" and "4096 dvd unat p" and "0 \<le> count" and "count \<le> 1048576"
    and "paging_map_range m c v p count flags = (res, t)"
  shows "res = 0 \<and> chunk_ok c t \<and>
    (\<forall>k < nat count. paging_get t (load32 t c) (v + 4096 * of_nat k) = (p + 4096 * of_nat k) OR flags) \<and>
    (\<forall>w. 4096 dvd unat w \<longrightarrow> (\<forall>k < nat count. w \<noteq> v + 4096 * of_nat k) \<longrightarrow>
       paging_get t (load32 t c) w = paging_get m (load32 m c) w)"
proof -
  have "inj_on (\<lambda>k. v + 4096 * of_nat k) {..<nat count}" using assms(5) by (intro page_run_inj) simp
  from chunk.set_run [OF assms(1) page_run_aligned [OF assms(2)] this, of "\<lambda>k. (p + 4096 * of_nat k) OR flags"]
  show ?thesis
    using assms(6) unfolding paging_map_range_def map_range_loop_fold [OF assms(2,3)]
    by (auto simp: Let_def)
qed

end
