(* ===== verification/Paging_Chunk.thy ===== *)
theory Paging_Chunk
  imports Paging_Props
begin

text \<open>
  The life of a 4 GiB chunk: \<open>paging_new_4gb\<close> takes 1026 pages from the kernel heap and builds
  the identity mapping in them, \<open>paging_free_4gb\<close> gives exactly these pages back.
\<close>

unbundle bit_operations_syntax

section \<open>Filling a table\<close>

lemma fold_store_slots:
  assumes "4096 dvd unat e" and "n \<le> 1024"
  shows "(\<forall>b<n. load32 (fold (\<lambda>b m. store32 m (slot e b) (f b)) [0..<n] m) (slot e b) = f b) \<and>
    (\<forall>a. 4096 \<le> unat (a - e) \<longrightarrow> fold (\<lambda>b m. store32 m (slot e b) (f b)) [0..<n] m a = m a)"
  using assms(2)
proof (induction n)
  case 0
  then show ?case by simp
next
  case (Suc n)
  then show ?case
    using assms(1) by (auto simp: load32_store32_slot store32_slot_outside less_Suc_eq)
qed

lemma fill_table_effect:
  assumes "4096 dvd unat e"
  shows "b < 1024 \<Longrightarrow> load32 (fill_table m e off flags) (slot e b) = (off + of_nat b * 4096) OR ucast flags"
    and "4096 \<le> unat (a - e) \<Longrightarrow> fill_table m e off flags a = m a"
  using fold_store_slots [OF assms, of 1024] by (simp_all add: fill_table_def c_defs)

section \<open>Building the tables\<close>

text \<open>
  After \<open>i\<close> rounds of the outer loop, started in \<open>s1\<close> with the directory \<open>d\<close>: the first
  \<open>i\<close> tables are new pages, all different, and hold the identity mapping of their 4 MiB.
\<close>

definition new_inv :: "'a kmem_scheme \<Rightarrow> u32 \<Rightarrow> u8 \<Rightarrow> nat \<Rightarrow> u32 \<times> 'a kmem_scheme \<Rightarrow> bool" where
  "new_inv s1 d flags i = (\<lambda>(off, s).
     off = of_nat i * 0x400000 \<and> kheap_ok s \<and> kheap_spare s + i = kheap_spare s1 \<and>
     kernel_heap s = kernel_heap s1 \<and>
     live s = (\<lambda>p. if p \<in> table_at (mem s) d ` {..<i} then Some 1 else live s1 p) \<and>
     (\<forall>k<i. live s1 (table_at (mem s) d k) = None) \<and> inj_on (table_at (mem s) d) {..<i} \<and>
     (\<forall>k<i. \<forall>b<1024. load32 (mem s) (slot (table_at (mem s) d k) b) =
        (of_nat k * 0x400000 + of_nat b * 4096) OR ucast flags) \<and>
     (\<forall>k<i. load32 (mem s) (slot d k) = table_at (mem s) d k OR (ucast flags OR 2)) \<and>
     (\<forall>a. foreign s1 a \<longrightarrow> mem s a = mem s1 a) \<and>
     (\<forall>p l a. live s1 p = Some l \<longrightarrow> p \<noteq> d \<longrightarrow> unat (a - p) < 4096 * l \<longrightarrow> mem s a = mem s1 a))"

lemma low_bits_small:
  assumes "\<And>n. bit (w :: u32) n \<Longrightarrow> n < 12"
  shows "w < 4096"
proof -
  have "take_bit 12 w = w" by (rule bit_word_eqI) (auto simp: bit_simps assms)
  moreover have "unat (take_bit 12 w) = unat w mod 4096" by (simp add: take_bit_eq_mod unat_mod)
  ultimately have "unat w = unat w mod 4096" by simp
  then have "unat w < 4096" by (metis mod_less_divisor zero_less_numeral)
  then show ?thesis by (simp add: word_less_nat_alt)
qed

lemma flags_small: "(ucast (flags :: u8) OR 2 :: u32) < 4096" "(ucast (flags :: u8) :: u32) < 4096"
proof -
  have "bit flags n \<Longrightarrow> n < 8" for n using bit_imp_le_length [of flags n] by simp
  then have "bit flags n \<Longrightarrow> n < 12" for n by fastforce
  then show "(ucast (flags :: u8) OR 2 :: u32) < 4096" "(ucast (flags :: u8) :: u32) < 4096"
    by (auto intro!: low_bits_small simp: bit_simps)
qed

text \<open>One round: a new page \<open>e\<close> is filled and entered in the directory; nothing else changes.\<close>

lemma new_step_effect:
  assumes ok: "kheap_ok s" and sp: "0 < kheap_spare s" and d: "live s d = Some 1" and i: "i < 1024"
  shows "\<exists>e s'. new_4gb_step flags d i (off, s) = (off + 0x400000, s') \<and> kheap_ok s' \<and> live s e = None \<and>
    live s' = (live s)(e \<mapsto> 1) \<and> kheap_spare s' + 1 = kheap_spare s \<and> kernel_heap s' = kernel_heap s \<and>
    4096 dvd unat e \<and> (\<forall>b<1024. load32 (mem s') (slot e b) = (off + of_nat b * 4096) OR ucast flags) \<and>
    load32 (mem s') (slot d i) = e OR (ucast flags OR 2) \<and>
    (\<forall>k<1024. k \<noteq> i \<longrightarrow> load32 (mem s') (slot d k) = load32 (mem s) (slot d k)) \<and>
    (\<forall>q l a. live s q = Some l \<longrightarrow> q \<noteq> d \<longrightarrow> unat (a - q) < 4096 * l \<longrightarrow> mem s' a = mem s a) \<and>
    (\<forall>a. foreign s a \<longrightarrow> mem s' a = mem s a)"
proof -
  define e where "e = fst (kzalloc 4096 s)"
  define s1 where "s1 = snd (kzalloc 4096 s)"
  define s2 where "s2 = s1\<lparr>mem := fill_table (mem s1) e off flags\<rparr>"
  define m where "m = store32 (mem s2) (slot d i) (e OR (ucast flags OR 2))"
  have sz: "(4096 :: u32) \<noteq> 0" "unat (4096 :: u32) \<le> 4096" by simp_all
  have ea: "4096 dvd unat e" using kzalloc.alloc_page(6) [OF ok sp sz] by (simp add: e_def)
  have fill: "\<forall>x a. 4096 \<le> unat (a - e) \<longrightarrow> fill_table x e off flags a = x a" using fill_table_effect(2) [OF ea] by blast
  note A = new_page [OF ok sp sz e_def [symmetric], where m = "\<lambda>x. fill_table x e off flags", OF fill, folded s1_def, folded s2_def]
  have step: "new_4gb_step flags d i (off, s) = (off + 0x400000, s2\<lparr>mem := m\<rparr>)"
    by (simp add: new_4gb_step_def case_prod_unfold Let_def c_defs e_def s1_def s2_def m_def or.assoc)
  have ed: "e \<noteq> d" and d2: "live s2 d = Some 1" and e2: "live s2 e = Some 1" using A(2,3) d by auto
  have da: "4096 dvd unat d" by (rule live_page_aligned [OF ok d])
  have w: "m a = mem s2 a" if "4096 * 1 \<le> unat (a - d)" for a
    unfolding m_def using that by (intro store32_slot_outside [OF i]) simp
  note W = own_write [OF A(1) d2 w]
  have tab: "load32 m (slot e b) = (off + of_nat b * 4096) OR ucast flags" if "b < 1024" for b
  proof -
    have "load32 m (slot e b) = load32 (mem s2) (slot e b)"
      unfolding m_def using load32_store32_slot [OF da ea i that] ed by simp
    then show ?thesis using fill_table_effect(1) [OF ea that] by (simp add: s2_def)
  qed
  have dir: "load32 m (slot d k) = load32 (mem s) (slot d k)" if k: "k < 1024" "k \<noteq> i" for k
  proof -
    have "load32 m (slot d k) = load32 (mem s2) (slot d k)"
      unfolding m_def using load32_store32_slot [OF da da i k(1)] k(2) by simp
    also have "\<dots> = load32 (mem s) (slot d k)" using A(7) [OF d] by (intro load32_slot_cong [OF k(1) da]) simp
    finally show ?thesis .
  qed
  have own: "load32 m (slot d i) = e OR (ucast flags OR 2)" unfolding m_def by simp
  have keep: "m a = mem s a" if "live s q = Some l" "q \<noteq> d" "unat (a - q) < 4096 * l" for q l a
  proof -
    have "live s2 q = Some l" using A(2,3) that(1) by auto
    from live_outside [OF A(1) d2 this that(2)[symmetric] that(3)] w A(7) [OF that(1,3)] show ?thesis by simp
  qed
  have "m a = mem s a" if "foreign s a" for a
    using w foreign_far [OF A(1) _ d2, of a] foreign_cong [OF A(6), of a] A(8) [OF that] that by simp
  then show ?thesis
    using step W A(2-6) tab dir own keep by (intro exI [of _ e] exI [of _ "s2\<lparr>mem := m\<rparr>"]) simp
qed

lemma new_step_inv:
  assumes d: "live s1 d = Some 1" and ok1: "kheap_ok s1" and i: "i < 1024"
    and spare: "i < kheap_spare s1" and inv: "new_inv s1 d flags i (off, s)"
  shows "new_inv s1 d flags (Suc i) (new_4gb_step flags d i (off, s))"
proof -
  let ?T = "table_at (mem s) d"
  have off: "off = of_nat i * 0x400000" and ok: "kheap_ok s" and sp: "kheap_spare s + i = kheap_spare s1"
    and kh: "kernel_heap s = kernel_heap s1"
    and lv: "live s = (\<lambda>p. if p \<in> ?T ` {..<i} then Some 1 else live s1 p)"
    and new: "\<forall>k<i. live s1 (?T k) = None" and inj: "inj_on ?T {..<i}"
    and ent: "\<forall>k<i. \<forall>b<1024. load32 (mem s) (slot (?T k) b) = (of_nat k * 0x400000 + of_nat b * 4096) OR ucast flags"
    and wrd: "\<forall>k<i. load32 (mem s) (slot d k) = ?T k OR (ucast flags OR 2)"
    and frn: "\<forall>a. foreign s1 a \<longrightarrow> mem s a = mem s1 a"
    and old: "\<forall>p l a. live s1 p = Some l \<longrightarrow> p \<noteq> d \<longrightarrow> unat (a - p) < 4096 * l \<longrightarrow> mem s a = mem s1 a"
    using inv unfolding new_inv_def prod.case by - (elim conjE, assumption)+
  have s0: "0 < kheap_spare s" using sp spare by simp
  have dT: "d \<notin> ?T ` {..<i}" using new d by auto
  have ld: "live s d = Some 1" using lv dT d by simp
  obtain e s' where step: "new_4gb_step flags d i (off, s) = (off + 0x400000, s')" and e: "live s e = None" "4096 dvd unat e"
    and s': "kheap_ok s'" "live s' = (live s)(e \<mapsto> 1)" "kheap_spare s' + 1 = kheap_spare s" "kernel_heap s' = kernel_heap s"
    and tab: "\<forall>b<1024. load32 (mem s') (slot e b) = (off + of_nat b * 4096) OR ucast flags"
    and dir: "load32 (mem s') (slot d i) = e OR (ucast flags OR 2)"
      "\<forall>k<1024. k \<noteq> i \<longrightarrow> load32 (mem s') (slot d k) = load32 (mem s) (slot d k)"
    and keep: "\<forall>q l a. live s q = Some l \<longrightarrow> q \<noteq> d \<longrightarrow> unat (a - q) < 4096 * l \<longrightarrow> mem s' a = mem s a"
    and fr: "\<forall>a. foreign s a \<longrightarrow> mem s' a = mem s a"
    using new_step_effect [OF ok s0 ld i] by metis
  have T: "table_at (mem s') d k = ?T k" if "k < i" for k using dir(2) that i by (simp add: table_at_def)
  have Ti: "table_at (mem s') d i = e" using dir(1) entry_mask [OF e(2) flags_small(1)] by (simp add: table_at_def)
  have img: "table_at (mem s') d ` {..<Suc i} = insert e (?T ` {..<i})" using T Ti by (auto simp: lessThan_Suc)
  have eT: "e \<noteq> ?T k" if "k < i" for k using e(1) lv that by auto
  have e1: "live s1 e = None" using e(1) lv by (auto split: if_splits)
  have entk: "load32 (mem s') (slot (?T k) b) = load32 (mem s) (slot (?T k) b)" if k: "k < i" "b < 1024" for k b
  proof (rule load32_slot_cong [OF k(2)])
    have "live s (?T k) = Some 1" "?T k \<noteq> d" using lv new d k(1) by auto
    then show "mem s' x = mem s x" if "unat (x - ?T k) < 4096" for x using keep that by simp
  qed simp
  show ?thesis
    unfolding step new_inv_def prod.case
  proof (intro conjI allI impI)
    show "off + 0x400000 = of_nat (Suc i) * 0x400000" by (simp add: off algebra_simps)
    show "kheap_ok s'" "kheap_spare s' + Suc i = kheap_spare s1" "kernel_heap s' = kernel_heap s1"
      using s' sp kh by simp_all
    show "live s' = (\<lambda>p. if p \<in> table_at (mem s') d ` {..<Suc i} then Some 1 else live s1 p)"
      unfolding s'(2) using lv by (auto simp: img)
    show "live s1 (table_at (mem s') d k) = None" if "k < Suc i" for k
      using that new T Ti e1 by (auto simp: less_Suc_eq)
    show "inj_on (table_at (mem s') d) {..<Suc i}"
    proof -
      have "inj_on (table_at (mem s') d) {..<i}" using inj T by (simp add: inj_on_def)
      moreover have "table_at (mem s') d i \<notin> table_at (mem s') d ` {..<i}" using T Ti eT by fastforce
      ultimately show ?thesis by (simp add: lessThan_Suc)
    qed
    show "load32 (mem s') (slot (table_at (mem s') d k) b) = (of_nat k * 0x400000 + of_nat b * 4096) OR ucast flags"
      if "k < Suc i" "b < 1024" for k b
      using that T Ti ent entk tab off by (auto simp: less_Suc_eq)
    show "load32 (mem s') (slot d k) = table_at (mem s') d k OR (ucast flags OR 2)" if "k < Suc i" for k
      using that dir Ti T wrd i by (cases "k = i") simp_all
    show "mem s' a = mem s1 a" if "foreign s1 a" for a using fr frn that foreign_cong [OF kh] by simp
    show "mem s' a = mem s1 a" if p: "live s1 p = Some l" "p \<noteq> d" "unat (a - p) < 4096 * l" for p l a
    proof -
      have "live s p = Some l" using lv new p(1) by auto
      then show ?thesis using keep old p by simp
    qed
  qed
qed

lemma new_loop_inv:
  assumes "live s1 d = Some 1" and "kheap_ok s1" and "n \<le> 1024" and "n \<le> kheap_spare s1"
  shows "new_inv s1 d flags n (fold (new_4gb_step flags d) [0..<n] (0, s1))"
  using assms(3,4)
proof (induction n)
  case 0
  then show ?case using assms(2) by (simp add: new_inv_def)
next
  case (Suc n)
  then show ?case
    using new_step_inv [OF assms(1,2), of n flags "fst (fold (new_4gb_step flags d) [0..<n] (0, s1))"
        "snd (fold (new_4gb_step flags d) [0..<n] (0, s1))"] by simp
qed

section \<open>A new chunk\<close>

definition chunk_pages :: "byte_mem \<Rightarrow> u32 \<Rightarrow> u32 set" where
  "chunk_pages m c = {c, load32 m c} \<union> table_at m (load32 m c) ` {..<1024}"

text \<open>Every table is present, writeable and open to the user; the flags of the pages decide.\<close>

definition user_dir :: "u32 \<Rightarrow> byte_mem \<Rightarrow> bool" where
  "user_dir c m \<longleftrightarrow> (\<forall>i<1024. load32 m (slot (load32 m c) i) AND 7 = 7)"

text \<open>The data pool of the heap lies below the addresses \<open>paging_get\<close> can follow.\<close>

definition kheap_low :: "'a kmem_scheme \<Rightarrow> bool" where
  "kheap_low s \<longleftrightarrow>
     unat (heap_saddr (kernel_heap s)) + 4096 * heap_blocks (kernel_heap s) \<le> 0x10000000"

lemma live_low:
  assumes "kheap_ok s" and "kheap_low s" and "live s p = Some n"
  shows "p < 0x10000000"
proof -
  obtain i where i: "p = block_addr (kernel_heap s) i" "i < heap_blocks (kernel_heap s)"
    using live_SomeD [OF assms(1,3)] by metis
  then show ?thesis
    using unat_block_addr [OF heap_inv_layout [OF assms(1)] i(2)] assms(2)
    by (simp add: kheap_low_def word_less_nat_alt)
qed

text \<open>The directory \<open>d\<close> with its 1024 tables, all of them new pages.\<close>

lemma new_directory:
  fixes flags :: u8
  assumes ok: "kheap_ok s" and spare: "1025 \<le> kheap_spare s"
  defines "d \<equiv> fst (kzalloc 4096 s)"
  defines "s' \<equiv> snd (fold (new_4gb_step flags d) [0..<1024] (0, snd (kzalloc 4096 s)))"
  defines "T \<equiv> table_at (mem s') d"
  shows "kheap_ok s'" and "kheap_spare s' + 1025 = kheap_spare s" and "kernel_heap s' = kernel_heap s"
    and "live s' = (\<lambda>p. if p \<in> insert d (T ` {..<1024}) then Some 1 else live s p)"
    and "live s d = None" and "\<forall>k<1024. T k \<noteq> d \<and> live s (T k) = None" and "inj_on T {..<1024}"
    and "\<forall>k<1024. \<forall>b<1024. load32 (mem s') (slot (T k) b) = (of_nat k * 0x400000 + of_nat b * 4096) OR ucast flags"
    and "\<forall>k<1024. load32 (mem s') (slot d k) = T k OR (ucast flags OR 2)"
    and "foreign s a \<Longrightarrow> mem s' a = mem s a"
    and "live s p = Some l \<Longrightarrow> unat (a - p) < 4096 * l \<Longrightarrow> mem s' a = mem s a"
proof -
  define s1 where "s1 = snd (kzalloc 4096 s)"
  have s0: "0 < kheap_spare s" using spare by simp
  have sz: "(4096 :: u32) \<noteq> 0" "unat (4096 :: u32) \<le> 4096" by simp_all
  have id: "\<forall>x a. 4096 \<le> unat (a - d) \<longrightarrow> (\<lambda>m. m) x a = x a" and e: "fst (kzalloc 4096 s) = d" by (simp_all add: d_def)
  note A = new_page [OF ok s0 sz e id, folded s1_def, simplified]
  have ld: "live s1 d = Some 1" using A(3) by simp
  have n: "1024 \<le> kheap_spare s1" using spare A(5) by simp
  have f: "foreign s1 a = foreign s a" for a by (rule foreign_cong [OF A(6)])
  obtain off where "new_inv s1 d flags 1024 (off, s')"
    using new_loop_inv [OF ld A(1) le_refl n, of flags] unfolding s'_def s1_def by (metis prod.collapse)
  then have I: "kheap_ok s'" "kheap_spare s' + 1024 = kheap_spare s1" "kernel_heap s' = kernel_heap s1"
    "live s' = (\<lambda>p. if p \<in> T ` {..<1024} then Some 1 else live s1 p)"
    "\<forall>k<1024. live s1 (T k) = None" "inj_on T {..<1024}"
    "\<forall>k<1024. \<forall>b<1024. load32 (mem s') (slot (T k) b) = (of_nat k * 0x400000 + of_nat b * 4096) OR ucast flags"
    "\<forall>k<1024. load32 (mem s') (slot d k) = T k OR (ucast flags OR 2)"
    "\<forall>a. foreign s a \<longrightarrow> mem s' a = mem s1 a"
    "\<forall>p l a. live s1 p = Some l \<longrightarrow> p \<noteq> d \<longrightarrow> unat (a - p) < 4096 * l \<longrightarrow> mem s' a = mem s1 a"
    unfolding new_inv_def prod.case T_def f by - (elim conjE, assumption)+
  show "kheap_ok s'" "inj_on T {..<1024}" "live s d = None" by (rule I(1), rule I(6), rule A(2))
  show "kheap_spare s' + 1025 = kheap_spare s" "kernel_heap s' = kernel_heap s" using I(2,3) A(5,6) by simp_all
  show "live s' = (\<lambda>p. if p \<in> insert d (T ` {..<1024}) then Some 1 else live s p)" unfolding I(4) A(3) by auto
  show "\<forall>k<1024. T k \<noteq> d \<and> live s (T k) = None" using I(5) A(3) by (auto split: if_splits)
  show "\<forall>k<1024. \<forall>b<1024. load32 (mem s') (slot (T k) b) = (of_nat k * 0x400000 + of_nat b * 4096) OR ucast flags"
    "\<forall>k<1024. load32 (mem s') (slot d k) = T k OR (ucast flags OR 2)" by (rule I(7), rule I(8))
  show "mem s' a = mem s a" if "foreign s a" using I(9) A(8) [OF that] that by simp
  show "mem s' a = mem s a" if p: "live s p = Some l" "unat (a - p) < 4096 * l"
  proof -
    have "p \<noteq> d" "live s1 p = Some l" using A(2,3) p(1) by auto
    then show ?thesis using I(10) A(7) [OF p] p(2) by simp
  qed
qed

lemma new_4gb_contract:
  assumes ok: "kheap_ok s" and low: "kheap_low s" and spare: "1026 \<le> kheap_spare s"
    and new: "paging_new_4gb flags s = (c, t)"
  shows "kheap_ok t \<and> kheap_spare t + 1026 = kheap_spare s \<and> kernel_heap t = kernel_heap s \<and>
    chunk_ok c (mem t) \<and> chunk_pages (mem t) c \<inter> dom (live s) = {} \<and>
    live t = (\<lambda>p. if p \<in> chunk_pages (mem t) c then Some 1 else live s p) \<and>
    (\<forall>v. 4096 dvd unat v \<longrightarrow> page_entry (mem t) (load32 (mem t) c) v = v OR ucast flags) \<and>
    (ucast flags OR 2 = (7 :: u32) \<longrightarrow> user_dir c (mem t)) \<and>
    (\<forall>a. foreign s a \<longrightarrow> mem t a = mem s a) \<and>
    (\<forall>p l a. live s p = Some l \<longrightarrow> unat (a - p) < 4096 * l \<longrightarrow> mem t a = mem s a)"
proof -
  define d where "d = fst (kzalloc 4096 s)"
  define s2 where "s2 = snd (fold (new_4gb_step flags d) [0..<1024] (0, snd (kzalloc 4096 s)))"
  let ?T = "table_at (mem s2) d"
  have c_def: "fst (kzalloc 4 s2) = c" and t_def: "t = (snd (kzalloc 4 s2))\<lparr>mem := store32 (mem (snd (kzalloc 4 s2))) c d\<rparr>"
    using new by (auto simp: paging_new_4gb_def case_prod_unfold Let_def c_defs d_def s2_def)
  have n: "1025 \<le> kheap_spare s" using spare by simp
  note D = new_directory(1-4,6-11) [OF ok n, where flags = flags, folded d_def, folded s2_def]
    and nd = new_directory(5) [OF ok n, folded d_def]
  have s2: "0 < kheap_spare s2" using D(2) spare by simp
  have w: "\<forall>m a. 4096 \<le> unat (a - c) \<longrightarrow> store32 m c d a = m a"
    using store32_slot_outside [of 0 _ c] by (simp add: slot_def)
  have sz: "(4 :: u32) \<noteq> 0" "unat (4 :: u32) \<le> 4096" by simp_all
  note C = new_page [OF D(1) s2 sz c_def w, folded t_def]
  have ld: "live s2 d = Some 1" and lT: "\<And>k. k < 1024 \<Longrightarrow> live s2 (?T k) = Some 1" using D(4) by simp_all
  have c: "c \<noteq> d" "c \<notin> ?T ` {..<1024}" "live s c = None" using C(2) D(4) by (auto split: if_splits)
  have dir: "load32 (mem t) c = d" by (simp add: t_def)
  have word: "load32 (mem t) (slot q i) = load32 (mem s2) (slot q i)" if "live s2 q = Some 1" "i < 1024" for q i
    using that C(7) [OF that(1)] live_page_aligned [OF D(1) that(1)] by (intro load32_slot_cong) auto
  have T: "table_at (mem t) d k = ?T k" if "k < 1024" for k using word [OF ld that] by (simp add: table_at_def)
  then have pages: "chunk_pages (mem t) c = {c, d} \<union> ?T ` {..<1024}" by (auto simp: chunk_pages_def dir)
  have live_t: "live t = (\<lambda>p. if p \<in> chunk_pages (mem t) c then Some 1 else live s p)"
    unfolding C(3) D(4) pages using c by auto
  have low2: "kheap_low s2" using low by (simp add: kheap_low_def D(3))
  have "dir_ok d (mem t)"
    unfolding dir_ok_def using live_page_aligned [OF D(1) ld] T D(5,6) by (auto simp: inj_on_def)
  moreover have "table_at (mem t) d k < 0x10000000" if "k < 1024" for k
    using live_low [OF D(1) low2 lT [OF that]] T [OF that] by simp
  ultimately have "chunk_ok c (mem t)"
    unfolding chunk_ok_def dir low_dir_ok_def using C(4) c T by auto
  moreover have "chunk_pages (mem t) c \<inter> dom (live s) = {}" unfolding pages using c(3) nd D(5) by auto
  moreover have "page_entry (mem t) (load32 (mem t) c) v = v OR ucast flags" if "4096 dvd unat v" for v
  proof -
    have "(of_nat (unat v) :: u32) = of_nat (4194304 * dir_index v + 4096 * tab_index v)"
      by (simp only: index_sum [OF that])
    then have v: "v = of_nat (dir_index v) * 0x400000 + of_nat (tab_index v) * 4096" by (simp add: mult.commute)
    show ?thesis
      unfolding page_entry_def dir T [OF index_bounds(1)] using word lT D(7) by (simp flip: v)
  qed
  moreover have "mem t a = mem s a" if p: "live s p = Some l" "unat (a - p) < 4096 * l" for p l a
  proof -
    have "live s2 p = Some l" using D(4,5) nd p(1) by auto
    then show ?thesis using C(7) D(10) p by simp
  qed
  moreover have "mem t a = mem s a" if "foreign s a" for a using C(8) D(9) foreign_cong [OF D(3)] that by simp
  moreover have "user_dir c (mem t)" if "ucast flags OR 2 = (7 :: u32)"
  proof -
    have m7: "(x OR 7) AND 7 = 7" for x :: u32 by (rule bit_word_eqI) (auto simp: bit_simps)
    then show ?thesis using word [OF ld] D(8) that by (simp add: user_dir_def dir)
  qed
  moreover have "kheap_spare t + 1026 = kheap_spare s" "kernel_heap t = kernel_heap s" using C(5,6) D(2,3) by simp_all
  ultimately show ?thesis using C(1) live_t by blast
qed

section \<open>Freeing a chunk\<close>

lemma load32_owned_kfree:
  assumes "kheap_ok s" and "live s q = Some n" and "live s p = Some 1" and "i < 1024"
  shows "load32 (mem (kfree q s)) (slot p i) = load32 (mem s) (slot p i)"
proof (rule load32_slot_cong [OF assms(4) live_page_aligned [OF assms(1,3)]])
  fix a assume "unat (a - p) < 4096"
  then show "mem (kfree q s) a = mem s a"
    using kzalloc.release_frame [OF assms(1,2)] kzalloc.owned_meta [OF assms(1,3), of a] by simp
qed

text \<open>After \<open>n\<close> rounds the first \<open>n\<close> tables are gone and nothing else has changed.\<close>

definition free_inv :: "'a kmem_scheme \<Rightarrow> u32 \<Rightarrow> nat \<Rightarrow> 'a kmem_scheme \<Rightarrow> bool" where
  "free_inv t c n s \<longleftrightarrow>
     kheap_ok s \<and> kheap_spare s = kheap_spare t + n \<and> kernel_heap s = kernel_heap t \<and>
     live s = (\<lambda>p. if p \<in> table_at (mem t) (load32 (mem t) c) ` {..<n} then None else live t p) \<and>
     (\<forall>a. \<not> kheap_table t a \<longrightarrow> mem s a = mem t a)"

lemma live_word_frame:
  assumes "kheap_ok t" and "live t p = Some 1" and "i < 1024" and "\<forall>a. \<not> kheap_table t a \<longrightarrow> mem s a = mem t a"
  shows "load32 (mem s) (slot p i) = load32 (mem t) (slot p i)"
  using assms(4) kzalloc.owned_meta [OF assms(1,2)]
  by (intro load32_slot_cong [OF assms(3) live_page_aligned [OF assms(1,2)]]) auto

lemma free_loop_inv:
  assumes ok: "kheap_ok t" and chunk: "chunk_ok c (mem t)"
    and own: "\<forall>p \<in> chunk_pages (mem t) c. live t p = Some 1" and n: "n \<le> 1024"
  shows "free_inv t c n (fold (free_table c) [0..<n] t)"
  using n
proof (induction n)
  case 0
  then show ?case using ok by (simp add: free_inv_def)
next
  case (Suc n)
  let ?d = "load32 (mem t) c" and ?s = "fold (free_table c) [0..<n] t"
  let ?T = "table_at (mem t) ?d"
  have inv: "free_inv t c n ?s" using Suc by simp
  then have s: "kheap_ok ?s" "kheap_spare ?s = kheap_spare t + n" "kernel_heap ?s = kernel_heap t"
    "live ?s = (\<lambda>p. if p \<in> ?T ` {..<n} then None else live t p)"
    and fr: "\<forall>a. \<not> kheap_table t a \<longrightarrow> mem ?s a = mem t a"
    unfolding free_inv_def by blast+
  have lc: "live t c = Some 1" and ld: "live t ?d = Some 1" and lT: "live t (?T n) = Some 1"
    using own Suc.prems by (auto simp: chunk_pages_def)
  have "load32 (mem ?s) c = ?d"
    using live_word_frame [OF ok lc _ fr, of 0] by (simp add: slot_def)
  moreover have "load32 (mem ?s) (slot ?d n) = load32 (mem t) (slot ?d n)"
    using live_word_frame [OF ok ld _ fr] Suc.prems by simp
  ultimately have step: "free_table c n ?s = kfree (?T n) ?s"
    by (simp add: free_table_def table_at_def)
  have "inj_on ?T {..<1024}" using chunk by (simp add: chunk_ok_def low_dir_ok_def dir_ok_def)
  then have "?T n \<notin> ?T ` {..<n}"
    using Suc.prems by (subst inj_on_image_mem_iff [of _ "{..<1024}"]) auto
  then have ls: "live ?s (?T n) = Some 1" using s(4) lT by simp
  note f = kzalloc.release_ok [OF s(1) ls] kzalloc.release_owned [OF s(1) ls]
    kzalloc.spare_release [OF s(1) ls] kzalloc.release_frame [OF s(1) ls]
  have "free_inv t c (Suc n) (kfree (?T n) ?s)"
    unfolding free_inv_def f(2) s(4)
    using f(1,3,4) s(2,3) fr by (auto simp: lessThan_Suc kfree_def)
  then show ?case by (simp add: step)
qed

lemma free_4gb_contract:
  assumes ok: "kheap_ok t" and chunk: "chunk_ok c (mem t)"
    and own: "\<forall>p \<in> chunk_pages (mem t) c. live t p = Some 1"
  shows "kheap_ok (paging_free_4gb c t) \<and> kheap_spare (paging_free_4gb c t) = kheap_spare t + 1026 \<and>
    live (paging_free_4gb c t) = (\<lambda>p. if p \<in> chunk_pages (mem t) c then None else live t p) \<and>
    (\<forall>a. \<not> kheap_table t a \<longrightarrow> mem (paging_free_4gb c t) a = mem t a)"
proof -
  let ?d = "load32 (mem t) c" and ?s = "fold (free_table c) [0..<1024] t"
  let ?T = "table_at (mem t) ?d"
  have "free_inv t c 1024 ?s" by (rule free_loop_inv [OF assms]) simp
  then have s: "kheap_ok ?s" "kheap_spare ?s = kheap_spare t + 1024" "kernel_heap ?s = kernel_heap t"
    "live ?s = (\<lambda>p. if p \<in> ?T ` {..<1024} then None else live t p)"
    and fr: "\<forall>a. \<not> kheap_table t a \<longrightarrow> mem ?s a = mem t a"
    unfolding free_inv_def by blast+
  have lc: "live t c = Some 1" and ld: "live t ?d = Some 1"
    using own by (auto simp: chunk_pages_def)
  have out: "c \<noteq> ?d" "c \<notin> ?T ` {..<1024}" "?d \<notin> ?T ` {..<1024}"
    using chunk by (auto simp: chunk_ok_def low_dir_ok_def dir_ok_def)
  have dir: "load32 (mem ?s) c = ?d"
    using live_word_frame [OF ok lc _ fr, of 0] by (simp add: slot_def)
  have l1: "live ?s ?d = Some 1" using s(4) out ld by simp
  note f = kzalloc.release_ok [OF s(1) l1] kzalloc.release_owned [OF s(1) l1]
    kzalloc.spare_release [OF s(1) l1] kzalloc.release_frame [OF s(1) l1]
  have l2: "live (kfree ?d ?s) c = Some 1" using f(2) s(4) out lc by simp
  note g = kzalloc.release_ok [OF f(1) l2] kzalloc.release_owned [OF f(1) l2]
    kzalloc.spare_release [OF f(1) l2] kzalloc.release_frame [OF f(1) l2]
  have eq: "paging_free_4gb c t = kfree c (kfree ?d ?s)"
    by (simp add: paging_free_4gb_def dir)
  show ?thesis
    unfolding eq g(2) f(2) s(4)
    using g(1,3,4) f(3,4) s(2,3) fr by (auto simp: chunk_pages_def kfree_def)
qed

section \<open>Properties of paging\<close>

text \<open>
  C19: \<open>paging_new_4gb\<close> on a well-formed heap with 1026 free blocks below 256 MiB returns a
  chunk that maps every page of the 4 GiB to itself with the given flags. Its 1026 pages are
  new, the heap is well formed and every older allocation keeps its contents.
\<close>

theorem paging_new_4gb_identity:
  assumes "kheap_ok s" and "kheap_low s" and "1026 \<le> kheap_spare s"
    and "paging_new_4gb flags s = (c, t)"
  shows "kheap_ok t \<and> kheap_spare t + 1026 = kheap_spare s \<and> chunk_ok c (mem t) \<and>
    (\<forall>v. 4096 dvd unat v \<longrightarrow> paging_get (mem t) (load32 (mem t) c) v = v OR ucast flags) \<and>
    live t = (\<lambda>p. if p \<in> chunk_pages (mem t) c then Some 1 else live s p) \<and>
    chunk_pages (mem t) c \<inter> dom (live s) = {} \<and>
    (\<forall>p l a. live s p = Some l \<longrightarrow> unat (a - p) < 4096 * l \<longrightarrow> mem t a = mem s a)"
proof -
  note n = new_4gb_contract [OF assms]
  have "low_dir_ok (load32 (mem t) c) (mem t)" using n by (simp add: chunk_ok_def)
  with n have "\<forall>v. 4096 dvd unat v \<longrightarrow> paging_get (mem t) (load32 (mem t) c) v = v OR ucast flags"
    by (simp add: paging_get_eq)
  with n show ?thesis by blast
qed

lemma booted_spare:
  "kheap_ok (snd (kheap_init s))" "kheap_low (snd (kheap_init s))" "kheap_spare (snd (kheap_init s)) = 25600"
proof -
  let ?t = "snd (kheap_init s)"
  have z: "table_entry (mem ?t) (heap_tab booted_heap) k = 0" if "k < heap_blocks booted_heap" for k
    using that by (simp add: kheap_init_eq table_entry_def memset_apply booted_heap_def unat_of_nat_u32)
  note e = heap_inv_empty [OF booted_layout, of "mem ?t", OF z]
  have k: "kernel_heap ?t = booted_heap" by (simp add: kheap_init_eq)
  show "kheap_ok ?t" using e(1) k by simp
  show "kheap_low ?t" by (simp add: kheap_low_def k) (simp add: booted_heap_def)
  show "kheap_spare ?t = 25600"
    using e k by (simp add: kheap_spare_def covered_def) (simp add: booted_heap_def)
qed

definition demo_boot :: kmem where
  "demo_boot = snd (kheap_init \<lparr>mem = (\<lambda>_. 7), kernel_heap = demo_heap\<rparr>)"

lemma demo_boot_ok: "kheap_ok demo_boot" "kheap_low demo_boot" "1026 \<le> kheap_spare demo_boot"
  by (simp_all add: demo_boot_def booted_spare)

text \<open>The first chunk of the kernel, with its flags (writeable, present, access from all).\<close>

definition demo_chunk :: "u32 \<times> kmem" where
  "demo_chunk = paging_new_4gb 7 demo_boot"

lemma demo_chunk_ok:
  "kheap_ok (snd demo_chunk)" "chunk_ok (fst demo_chunk) (mem (snd demo_chunk))"
  "\<forall>p \<in> chunk_pages (mem (snd demo_chunk)) (fst demo_chunk). live (snd demo_chunk) p = Some 1"
proof -
  have "paging_new_4gb 7 demo_boot = (fst demo_chunk, snd demo_chunk)" by (simp add: demo_chunk_def)
  note n = new_4gb_contract [OF demo_boot_ok this]
  from n show "kheap_ok (snd demo_chunk)" by (rule conjunct1)
  from n show "chunk_ok (fst demo_chunk) (mem (snd demo_chunk))"
    and "\<forall>p \<in> chunk_pages (mem (snd demo_chunk)) (fst demo_chunk). live (snd demo_chunk) p = Some 1"
    by simp_all
qed

theorem paging_new_4gb_identity_witness:
  "paging_get (mem (snd demo_chunk)) (load32 (mem (snd demo_chunk)) (fst demo_chunk)) 0xFFFFF000 = 0xFFFFF007"
  using paging_new_4gb_identity [OF demo_boot_ok, of 7 "fst demo_chunk" "snd demo_chunk"]
  by (simp add: demo_chunk_def)

text \<open>
  C8: \<open>paging_map_range\<close> on aligned addresses maps exactly \<open>count\<close> pages, one after the other,
  to consecutive frames with the given flags; every other page keeps its entry.
\<close>

theorem paging_map_range_maps:
  assumes "chunk_ok c m" and "4096 dvd unat v" and "4096 dvd unat p" and "0 \<le> count" and "count \<le> 1048576"
    and "paging_map_range m c v p count flags = (res, t)"
  shows "res = 0 \<and> chunk_ok c t \<and>
    (\<forall>k < nat count. paging_get t (load32 t c) (v + 4096 * of_nat k) = (p + 4096 * of_nat k) OR flags) \<and>
    (\<forall>w. 4096 dvd unat w \<longrightarrow> (\<forall>k < nat count. w \<noteq> v + 4096 * of_nat k) \<longrightarrow>
       paging_get t (load32 t c) w = paging_get m (load32 m c) w)"
  using assms by (rule map_range_maps)

theorem paging_map_range_maps_witness:
  "let m = mem (snd demo_chunk); c = fst demo_chunk;
       t = snd (paging_map_range m c 0x400000 0x2000000 3 7)
   in paging_get t (load32 t c) 0x402000 = 0x2002007"
  using paging_map_range_maps [where v = "0x400000" and p = "0x2000000" and count = 3 and flags = 7,
      OF demo_chunk_ok(2) _ _ _ _ surjective_pairing, THEN conjunct2, THEN conjunct2, THEN conjunct1,
      THEN spec, of 2]
  by (simp add: Let_def)

lemma aligned_iff_mod: "v mod PAGING_PAGE_SIZE \<noteq> 0 \<longleftrightarrow> \<not> 4096 dvd unat v"
  by (simp add: aligned_iff)

lemma map_to_pages:
  assumes "p \<le> e"
  shows "sint ((e - p) div PAGING_PAGE_SIZE) = int ((unat e - unat p) div 4096)"
proof -
  have le: "unat ((e - p) div PAGING_PAGE_SIZE) = (unat e - unat p) div 4096"
    using assms by (simp add: c_defs unat_div unat_sub)
  have "(unat e - unat p) div 4096 < 1048576"
    using unat_u32_bound [of e] by (simp add: less_mult_imp_div_less)
  then show ?thesis
    using le by (subst sint_small) simp_all
qed

text \<open>
  C34: \<open>paging_map_to\<close> refuses a misaligned address and an end below the start with -EINVARG and
  leaves memory alone; otherwise it maps exactly the pages from \<open>phys\<close> up to, not including,
  \<open>phys_end\<close>.
\<close>

theorem paging_map_to_spec:
  assumes "chunk_ok c m" and "paging_map_to m c v p e flags = (res, t)"
  shows "if 4096 dvd unat v \<and> 4096 dvd unat p \<and> 4096 dvd unat e \<and> p \<le> e
    then res = 0 \<and> chunk_ok c t \<and>
      (\<forall>k < (unat e - unat p) div 4096.
         paging_get t (load32 t c) (v + 4096 * of_nat k) = (p + 4096 * of_nat k) OR flags) \<and>
      (\<forall>w. 4096 dvd unat w \<longrightarrow> (\<forall>k < (unat e - unat p) div 4096. w \<noteq> v + 4096 * of_nat k) \<longrightarrow>
         paging_get t (load32 t c) w = paging_get m (load32 m c) w)
    else res = - EINVARG \<and> t = m"
proof (cases "4096 dvd unat v \<and> 4096 dvd unat p \<and> 4096 dvd unat e \<and> p \<le> e")
  case True
  have b: "int ((unat e - unat p) div 4096) \<le> 1048576"
    using unat_u32_bound [of e] by linarith
  have "paging_map_range m c v p (int ((unat e - unat p) div 4096)) flags = (res, t)"
    using assms(2) True map_to_pages [of p e]
    by (simp add: paging_map_to_def aligned_iff_mod not_less split: if_splits)
  from map_range_maps [OF assms(1) _ _ _ b this] True show ?thesis by simp
next
  case False
  then show ?thesis
    using assms(2) by (auto simp: paging_map_to_def aligned_iff_mod not_le split: if_splits)
qed

theorem paging_map_to_spec_witness:
  "let m = mem (snd demo_chunk); c = fst demo_chunk
   in fst (paging_map_to m c 0x400000 0x2000000 0x2003000 7) = 0 \<and>
      fst (paging_map_to m c 0x400000 0x2000000 0x2003001 7) = - EINVARG"
  using paging_map_to_spec [where v = "0x400000" and p = "0x2000000" and e = "0x2003000" and flags = 7,
      OF demo_chunk_ok(2) surjective_pairing]
    paging_map_to_spec [where v = "0x400000" and p = "0x2000000" and e = "0x2003001" and flags = 7,
      OF demo_chunk_ok(2) surjective_pairing]
  by (simp add: Let_def)

text \<open>
  C35: freeing a chunk that \<open>paging_new_4gb\<close> made gives back exactly its pages: the live
  allocations and the number of free blocks are those before the chunk was made.
\<close>

theorem paging_free_4gb_roundtrip:
  assumes "kheap_ok s" and "kheap_low s" and "1026 \<le> kheap_spare s"
    and "paging_new_4gb flags s = (c, t)"
  shows "live (paging_free_4gb c t) = live s \<and> kheap_ok (paging_free_4gb c t) \<and>
    kheap_spare (paging_free_4gb c t) = kheap_spare s"
proof -
  note n = new_4gb_contract [OF assms]
  have "\<forall>p \<in> chunk_pages (mem t) c. live t p = Some 1" using n by simp
  note f = free_4gb_contract [OF _ _ this]
  have "live (paging_free_4gb c t) p = live s p" for p
    using n f by (cases "p \<in> chunk_pages (mem t) c") (auto simp: dom_def disjoint_iff)
  then show ?thesis using n f by auto
qed

theorem paging_free_4gb_roundtrip_witness:
  "live (paging_free_4gb (fst demo_chunk) (snd demo_chunk)) = live demo_boot"
  using paging_free_4gb_roundtrip [OF demo_boot_ok, of 7 "fst demo_chunk" "snd demo_chunk"]
  by (simp add: demo_chunk_def)

lemma mask_plus:
  assumes "4096 dvd unat v" and "unat x < 4096"
  shows "paging_align_to_lower_page (v + x) = v"
proof -
  obtain k where k: "unat v = 4096 * k" using assms(1) by (rule dvdE)
  have "k < 1048576" using unat_u32_bound [of v] k by simp
  then have "unat (v + x) = unat v + unat x" using k assms(2) by (intro unat_add_u32) simp
  then have "unat ((v + x) mod 4096) = unat x" using k assms(2) by (simp add: unat_mod)
  then have "(v + x) mod 4096 = x" by (simp add: word_unat_eq_iff)
  then show ?thesis by (simp add: paging_align_to_lower_page_def c_defs)
qed

text \<open>
  Address translation in software. Once a page is mapped to a frame with flags in the low
  twelve bits, \<open>paging_get_physical_address\<close> takes every byte of the page to the same byte of
  the frame.
\<close>

theorem paging_physical_address_of_map:
  assumes "chunk_ok c m" and "4096 dvd unat v" and "4096 dvd unat p" and "flags < 4096" and "unat x < 4096"
    and "paging_map m c v p flags = (res, t)"
  shows "res = 0 \<and> paging_get_physical_address t (load32 t c) (v + x) = p + x"
proof -
  have t: "res = 0" "t = snd (paging_set m (load32 m c) v (p OR flags))"
    using assms(2,3,6) by (auto simp: paging_map_def aligned_iff paging_set_eq)
  have "paging_get t (load32 t c) v = p OR flags"
    using chunk.get_set [OF assms(1,2,2)] t(2) by simp
  then show ?thesis
    using t(1) mask_plus [OF assms(2,5)] entry_mask [OF assms(3,4)]
    by (simp add: paging_get_physical_address_def)
qed

theorem paging_physical_address_of_map_witness:
  "let c = fst demo_chunk; t = snd (paging_map (mem (snd demo_chunk)) c 0x3FF000 0x2345000 7)
   in paging_get_physical_address t (load32 t c) 0x3FF123 = 0x2345123"
  using paging_physical_address_of_map [where v = "0x3FF000" and p = "0x2345000" and flags = 7 and x = "0x123",
      OF demo_chunk_ok(2) _ _ _ _ surjective_pairing] by (simp add: Let_def)

end
