(* ===== verification/CString.thy ===== *)
theory CString
  imports CMemory
begin

text \<open>
  \<^verbatim>\<open>src/string/string.c\<close> (and its copy in \<^verbatim>\<open>programs/stdlib\<close>): strings are bytes in
  memory up to a zero byte. A scan for the terminator may not find one, so it is a partial
  function: \<open>None\<close> is a loop that does not end.
\<close>

unbundle bit_operations_syntax

section \<open>Characters\<close>

text \<open>\<open>char\<close> is signed: the comparisons are signed, the sum is cut back to eight bits.\<close>

definition tolower :: "u8 \<Rightarrow> u8" where
  "tolower s1 = (if sint s1 \<ge> 65 \<and> sint s1 \<le> 90 then s1 + 32 else s1)"

definition isdigit :: "u8 \<Rightarrow> bool" where
  "isdigit c \<longleftrightarrow> sint c \<ge> 48 \<and> sint c \<le> 57"

definition tonumericdigit :: "u8 \<Rightarrow> int" where
  "tonumericdigit c = sint c - 48"

section \<open>Lengths\<close>

partial_function (option) strlen_loop :: "byte_mem \<Rightarrow> u32 \<Rightarrow> int \<Rightarrow> int option" where
  "strlen_loop m ptr i = (if m ptr \<noteq> 0 then strlen_loop m (ptr + 1) (i + 1) else Some i)"

definition strlen :: "byte_mem \<Rightarrow> u32 \<Rightarrow> int option" where
  "strlen m ptr = strlen_loop m ptr 0"

function strnlen_terminator_loop :: "byte_mem \<Rightarrow> u32 \<Rightarrow> int \<Rightarrow> u8 \<Rightarrow> int \<Rightarrow> int" where
  "strnlen_terminator_loop m str maxlen terminator i =
     (if i < maxlen then
        if m (str + word_of_int i) = 0 \<or> m (str + word_of_int i) = terminator then i
        else strnlen_terminator_loop m str maxlen terminator (i + 1)
      else i)"
  by pat_completeness auto
termination by (relation "measure (\<lambda>(m, str, maxlen, t, i). nat (maxlen - i))") auto

declare strnlen_terminator_loop.simps [simp del]

definition strnlen_terminator :: "byte_mem \<Rightarrow> u32 \<Rightarrow> int \<Rightarrow> u8 \<Rightarrow> int" where
  "strnlen_terminator m str maxlen terminator = strnlen_terminator_loop m str maxlen terminator 0"

function strnlen_loop :: "byte_mem \<Rightarrow> u32 \<Rightarrow> int \<Rightarrow> int \<Rightarrow> int" where
  "strnlen_loop m ptr maxlen i =
     (if i < maxlen then
        if m (ptr + word_of_int i) = 0 then i else strnlen_loop m ptr maxlen (i + 1)
      else i)"
  by pat_completeness auto
termination by (relation "measure (\<lambda>(m, ptr, maxlen, i). nat (maxlen - i))") auto

declare strnlen_loop.simps [simp del]

definition strnlen :: "byte_mem \<Rightarrow> u32 \<Rightarrow> int \<Rightarrow> int" where
  "strnlen m ptr maxlen = strnlen_loop m ptr maxlen 0"

section \<open>Comparison\<close>

text \<open>The bytes are read as unsigned, so the result is the difference of the first that differ.\<close>

fun istrncmp_loop :: "byte_mem \<Rightarrow> u32 \<Rightarrow> u32 \<Rightarrow> nat \<Rightarrow> int" where
  "istrncmp_loop m s1 s2 0 = 0"
| "istrncmp_loop m s1 s2 (Suc n) =
     (let u1 = m s1; u2 = m s2
      in if u1 \<noteq> u2 \<and> tolower u1 \<noteq> tolower u2 then uint u1 - uint u2
         else if u1 = 0 then 0
         else istrncmp_loop m (s1 + 1) (s2 + 1) n)"

definition istrncmp :: "byte_mem \<Rightarrow> u32 \<Rightarrow> u32 \<Rightarrow> int \<Rightarrow> int" where
  "istrncmp m s1 s2 n = istrncmp_loop m s1 s2 (nat n)"

fun strncmp_loop :: "byte_mem \<Rightarrow> u32 \<Rightarrow> u32 \<Rightarrow> nat \<Rightarrow> int" where
  "strncmp_loop m str1 str2 0 = 0"
| "strncmp_loop m str1 str2 (Suc n) =
     (let u1 = m str1; u2 = m str2
      in if u1 \<noteq> u2 then uint u1 - uint u2
         else if u1 = 0 then 0
         else strncmp_loop m (str1 + 1) (str2 + 1) n)"

definition strncmp :: "byte_mem \<Rightarrow> u32 \<Rightarrow> u32 \<Rightarrow> int \<Rightarrow> int" where
  "strncmp m str1 str2 n = strncmp_loop m str1 str2 (nat n)"

section \<open>Copying\<close>

partial_function (option) strcpy_loop :: "byte_mem \<Rightarrow> u32 \<Rightarrow> u32 \<Rightarrow> byte_mem option" where
  "strcpy_loop m dest src =
     (if m src \<noteq> 0 then strcpy_loop (m(dest := m src)) (dest + 1) (src + 1) else Some (m(dest := 0)))"

definition strcpy :: "byte_mem \<Rightarrow> u32 \<Rightarrow> u32 \<Rightarrow> byte_mem option" where
  "strcpy m dest src = strcpy_loop m dest src"

function strncpy_loop :: "byte_mem \<Rightarrow> u32 \<Rightarrow> u32 \<Rightarrow> int \<Rightarrow> int \<Rightarrow> int \<times> byte_mem" where
  "strncpy_loop m dest src count i =
     (if i < count - 1 then
        if m (src + word_of_int i) = 0 then (i, m)
        else strncpy_loop (m(dest + word_of_int i := m (src + word_of_int i))) dest src count (i + 1)
      else (i, m))"
  by pat_completeness auto
termination by (relation "measure (\<lambda>(m, dest, src, count, i). nat (count - i))") auto

declare strncpy_loop.simps [simp del]

definition strncpy :: "byte_mem \<Rightarrow> u32 \<Rightarrow> u32 \<Rightarrow> int \<Rightarrow> byte_mem" where
  "strncpy m dest src count =
     (let (i, m) = strncpy_loop m dest src count 0 in m(dest + word_of_int i := 0))"

section \<open>Tokens\<close>

text \<open>
  \<open>strtok\<close> keeps its place in the global \<open>sp\<close>. The inner \<open>for\<close> loops look the character up
  among the delimiters: the index of the match, or \<open>len\<close>.
\<close>

function delimiter_index :: "byte_mem \<Rightarrow> u8 \<Rightarrow> u32 \<Rightarrow> int \<Rightarrow> int \<Rightarrow> int" where
  "delimiter_index m c delimiters len i =
     (if i < len then
        if c = m (delimiters + word_of_int i) then i else delimiter_index m c delimiters len (i + 1)
      else i)"
  by pat_completeness auto
termination by (relation "measure (\<lambda>(m, c, d, len, i). nat (len - i))") auto

declare delimiter_index.simps [simp del]

partial_function (option) skip_delimiters :: "byte_mem \<Rightarrow> u32 \<Rightarrow> int \<Rightarrow> u32 \<Rightarrow> u32 option" where
  "skip_delimiters m delimiters len p_start =
     (if delimiter_index m (m p_start) delimiters len 0 = len then Some p_start
      else skip_delimiters m delimiters len (p_start + 1))"

partial_function (option) end_of_token :: "byte_mem \<Rightarrow> u32 \<Rightarrow> int \<Rightarrow> u32 \<Rightarrow> (u32 \<times> byte_mem) option" where
  "end_of_token m delimiters len sp =
     (if m sp \<noteq> 0 then
        if delimiter_index m (m sp) delimiters len 0 < len then Some (sp + 1, m(sp := 0))
        else end_of_token m delimiters len (sp + 1)
      else Some (sp, m))"

text \<open>The result is the token's address, the new \<open>sp\<close> and the memory.\<close>

definition strtok :: "byte_mem \<Rightarrow> u32 \<Rightarrow> u32 \<Rightarrow> u32 \<Rightarrow> (u32 \<times> u32 \<times> byte_mem) option" where
  "strtok m sp str delimiters =
     (case strlen m delimiters of None \<Rightarrow> None
      | Some len \<Rightarrow>
        if str = 0 \<and> sp = 0 then Some (0, sp, m)
        else
          let sp = (if str \<noteq> 0 \<and> sp = 0 then str else sp)
          in (case skip_delimiters m delimiters len sp of None \<Rightarrow> None
              | Some p_start \<Rightarrow>
                if m p_start = 0 then Some (0, 0, m)
                else (case end_of_token m delimiters len p_start of None \<Rightarrow> None
                      | Some (sp, m) \<Rightarrow> Some (p_start, sp, m))))"

end
