(* ===== verification/CString_Props.thy ===== *)
theory CString_Props
  imports CString
begin

text \<open>
  The string routines against lists of bytes: \<open>cstr m p s\<close> says that the bytes \<open>s\<close>, none of
  them zero, are at \<open>p\<close> and a zero byte follows.
\<close>

unbundle bit_operations_syntax

section \<open>Strings in memory\<close>

fun cstr :: "byte_mem \<Rightarrow> u32 \<Rightarrow> u8 list \<Rightarrow> bool" where
  "cstr m p [] \<longleftrightarrow> m p = 0"
| "cstr m p (c # s) \<longleftrightarrow> c \<noteq> 0 \<and> m p = c \<and> cstr m (p + 1) s"

lemma cstr_nth:
  "cstr m p s \<longleftrightarrow> (\<forall>i<length s. m (p + of_nat i) = s ! i \<and> s ! i \<noteq> 0) \<and> m (p + of_nat (length s)) = 0"
proof (induction s arbitrary: p)
  case Nil
  then show ?case by simp
next
  case (Cons c s)
  then show ?case by (auto simp: All_less_Suc2 add.assoc)
qed

lemma cstr_append:
  "cstr m p (s @ t) \<Longrightarrow> cstr m (p + of_nat (length s)) t"
  by (induction s arbitrary: p) (auto, metis add.assoc)

lemma cstr_unique: "cstr m p s \<Longrightarrow> cstr m p t \<Longrightarrow> s = t"
proof (induction s arbitrary: p t)
  case Nil
  then show ?case by (cases t) auto
next
  case (Cons c s)
  then show ?case by (cases t) auto
qed

lemma cstr_cong:
  assumes "\<And>i. i \<le> length s \<Longrightarrow> m' (p + of_nat i) = m (p + of_nat i)"
  shows "cstr m' p s = cstr m p s"
  using assms by (auto simp: cstr_nth)

lemma cstr_nonzero: "cstr m p s \<Longrightarrow> 0 \<notin> set s"
  by (induction s arbitrary: p) auto

section \<open>Lengths\<close>

lemma strlen_loop_cstr: "cstr m p s \<Longrightarrow> strlen_loop m p i = Some (i + int (length s))"
  by (induction s arbitrary: p i) (subst strlen_loop.simps, simp)+

lemma strlen_cstr: "cstr m p s \<Longrightarrow> strlen m p = Some (int (length s))"
  by (simp add: strlen_def strlen_loop_cstr)

text \<open>Without a terminator anywhere the loop never ends.\<close>

lemma strlen_loop_None:
  assumes "\<forall>a. m a \<noteq> 0"
  shows "strlen_loop m p i = None"
proof -
  have "strlen_loop m' q j = Some k \<Longrightarrow> \<exists>a. m' a = 0" for m' q j k
    by (induction rule: strlen_loop.raw_induct [rotated, consumes 1]) (auto split: if_splits)
  from this [of m p i] show ?thesis using assms by (cases "strlen_loop m p i") auto
qed

lemma strnlen_loop_cstr:
  assumes "cstr m p s" and "0 \<le> i" and "i \<le> int (length s)"
  shows "strnlen_loop m p k i = (if i \<le> k then min (int (length s)) k else i)"
  using assms(2,3)
proof (induction "nat (k - i)" arbitrary: i)
  case 0
  then show ?case by (subst strnlen_loop.simps) auto
next
  case (Suc n)
  then have k: "i < k" by linarith
  have at: "m (p + word_of_int i) = (if nat i < length s then s ! nat i else 0)"
  proof (cases "nat i < length s")
    case True
    then show ?thesis using assms(1) Suc.prems by (auto simp: cstr_nth simp flip: of_nat_nat)
  next
    case False
    then have "i = int (length s)" using Suc.prems by simp
    then show ?thesis using assms(1) by (simp add: cstr_nth)
  qed
  show ?case
  proof (cases "nat i < length s")
    case True
    then have "s ! nat i \<noteq> 0" using assms(1) by (simp add: cstr_nth)
    then show ?thesis
      using Suc.hyps(1) [of "i + 1"] Suc.hyps(2) Suc.prems k at True
      by (subst strnlen_loop.simps) auto
  next
    case False
    then show ?thesis using Suc.prems k at by (subst strnlen_loop.simps) auto
  qed
qed

lemma strnlen_cstr:
  "cstr m p s \<Longrightarrow> 0 \<le> k \<Longrightarrow> strnlen m p k = min (int (length s)) k"
  using strnlen_loop_cstr [of m p s 0 k] by (simp add: strnlen_def)

section \<open>Comparison\<close>

text \<open>Where two strings of non-zero bytes first differ, with the terminator as a zero.\<close>

fun first_diff :: "u8 list \<Rightarrow> u8 list \<Rightarrow> int" where
  "first_diff [] [] = 0"
| "first_diff (c # s) [] = uint c"
| "first_diff [] (d # t) = - uint d"
| "first_diff (c # s) (d # t) = (if c = d then first_diff s t else uint c - uint d)"

lemma strncmp_loop_cstr:
  "cstr m p s \<Longrightarrow> cstr m q t \<Longrightarrow> strncmp_loop m p q n = first_diff (take n s) (take n t)"
proof (induction n arbitrary: p q s t)
  case 0
  then show ?case by simp
next
  case (Suc n)
  then show ?case by (cases s; cases t) auto
qed

lemma first_diff_0: "0 \<notin> set s \<Longrightarrow> 0 \<notin> set t \<Longrightarrow> first_diff s t = 0 \<longleftrightarrow> s = t"
  by (induction s t rule: first_diff.induct) (auto simp: word_uint_eq_iff)

lemma tolower_zero [simp]: "tolower 0 = 0"
  by (simp add: tolower_def)

lemma tolower_0 [simp]: "tolower c = 0 \<longleftrightarrow> c = 0"
proof -
  have "sint c = - 32" if "c + 32 = 0"
  proof -
    have "c = - 32" using that by (simp add: eq_neg_iff_add_eq_0)
    then show ?thesis by simp
  qed
  then show ?thesis by (auto simp: tolower_def)
qed

lemma istrncmp_loop_cstr:
  "cstr m p s \<Longrightarrow> cstr m q t \<Longrightarrow>
   istrncmp_loop m p q n = 0 \<longleftrightarrow> map tolower (take n s) = map tolower (take n t)"
proof (induction n arbitrary: p q s t)
  case 0
  then show ?case by simp
next
  case (Suc n)
  have u: "uint a = uint b \<longleftrightarrow> a = b" "uint a = 0 \<longleftrightarrow> a = 0" for a b :: u8
    by (simp_all add: word_uint_eq_iff)
  have z: "0 = tolower c \<longleftrightarrow> c = 0" for c using tolower_0 [of c] by metis
  show ?case using Suc by (cases s; cases t) (auto simp: Let_def u z)
qed

section \<open>Copying\<close>

text \<open>
  A copy is right when no byte of the destination is a byte of the source still to be read:
  for strings apart, and for a destination below an overlapping source.
\<close>

lemma strcpy_loop_cstr:
  assumes "cstr m p s" and "length s < 4294967295"
    and "\<And>i j. i < j \<Longrightarrow> j \<le> length s \<Longrightarrow> d + of_nat i \<noteq> p + of_nat j"
  shows "strcpy_loop m d p = Some (store_bytes m d (s @ [0]))"
  using assms
proof (induction s arbitrary: m d p)
  case Nil
  then show ?case by (subst strcpy_loop.simps) (simp add: store_bytes_Cons)
next
  case (Cons c s)
  have apart: "(d + 1) + of_nat i \<noteq> (p + 1) + of_nat j" if "i < j" "j \<le> length s" for i j
    using Cons.prems(3) [of "Suc i" "Suc j"] that by (simp add: add.assoc)
  have "cstr (m(d := c)) (p + 1) s = cstr m (p + 1) s"
    using Cons.prems(3) [of 0 "Suc _"] by (intro cstr_cong) (auto simp: add.assoc)
  then have c: "cstr (m(d := c)) (p + 1) s" and l: "length s < 4294967295"
    using Cons.prems(1,2) by simp_all
  have "strcpy_loop (m(d := c)) (d + 1) (p + 1) = Some (store_bytes (m(d := c)) (d + 1) (s @ [0]))"
    by (rule Cons.IH [OF c l apart])
  then show ?case
    using Cons.prems(1,2) by (subst strcpy_loop.simps) (simp add: store_bytes_Cons)
qed

lemma strcpy_cstr:
  assumes "cstr m p s" and "length s < 4294967295"
    and "\<And>i j. i < j \<Longrightarrow> j \<le> length s \<Longrightarrow> d + of_nat i \<noteq> p + of_nat j"
  shows "strcpy m d p = Some (store_bytes m d (s @ [0]))"
  using strcpy_loop_cstr [OF assms] by (simp add: strcpy_def)

lemma cstr_store_bytes:
  assumes "0 \<notin> set s" and "length s < 4294967295"
  shows "cstr (store_bytes m d (s @ [0])) d s"
  unfolding cstr_nth
proof (intro conjI allI impI)
  show "s ! i \<noteq> 0" if "i < length s" for i using that assms(1) by (metis nth_mem)
  show "store_bytes m d (s @ [0]) (d + of_nat i) = s ! i" if "i < length s" for i
    using that assms(2) by (simp add: nth_append)
  show "store_bytes m d (s @ [0]) (d + of_nat (length s)) = 0"
    using assms(2) by (subst store_bytes_nth) (simp_all add: nth_append)
qed

lemma store_bytes_snoc:
  assumes "length bs < 4294967296"
  shows "store_bytes m p (bs @ [b]) = (store_bytes m p bs)(p + of_nat (length bs) := b)"
proof
  fix a
  show "store_bytes m p (bs @ [b]) a = ((store_bytes m p bs)(p + of_nat (length bs) := b)) a"
    using offset_of_nat [OF assms, of a p] by (auto simp: store_bytes_def nth_append less_Suc_eq)
qed

lemma strncpy_loop_run:
  assumes "cstr m0 p s" and "length s < 4294967295"
    and "\<And>i j. i < j \<Longrightarrow> j \<le> length s \<Longrightarrow> int j < count \<Longrightarrow> d + of_nat i \<noteq> p + of_nat j"
    and "k \<le> length s" and "m = store_bytes m0 d (take k s)" and "int k \<le> count - 1"
  shows "strncpy_loop m d p count (int k) =
    (let l = min (length s) (nat (count - 1)) in (int l, store_bytes m0 d (take l s)))"
  using assms(4,5,6)
proof (induction "length s - k" arbitrary: k m rule: less_induct)
  case less
  have k: "k < 4294967296" using less.prems(1) assms(2) by simp
  have at: "m (p + of_nat k) = (if k < length s then s ! k else 0)"
  proof -
    have "\<not> unat (p + of_nat k - d) < k"
    proof
      assume "unat (p + of_nat k - d) < k"
      moreover have "d + of_nat (unat (p + of_nat k - d)) = p + of_nat k" by simp
      moreover have "int k < count" using less.prems(3) by simp
      ultimately show False using assms(3) less.prems(1) by metis
    qed
    then have "m (p + of_nat k) = m0 (p + of_nat k)"
      using less.prems(1,2) by (simp add: store_bytes_def min_absorb2)
    then show ?thesis using assms(1) less.prems(1) by (auto simp: cstr_nth)
  qed
  show ?case
  proof (cases "int k < count - 1 \<and> k < length s")
    case True
    then have nz: "s ! k \<noteq> 0" using assms(1) by (simp add: cstr_nth)
    have "m(d + of_nat k := s ! k) = store_bytes m0 d (take (Suc k) s)"
      using True k by (simp add: take_Suc_conv_app_nth less.prems(2) store_bytes_snoc)
    then have "strncpy_loop (m(d + of_nat k := s ! k)) d p count (int (Suc k)) =
        (let l = min (length s) (nat (count - 1)) in (int l, store_bytes m0 d (take l s)))"
      using True by (intro less.hyps) auto
    then show ?thesis
      using True at nz by (subst strncpy_loop.simps) (simp add: add.commute)
  next
    case False
    then have "min (length s) (nat (count - 1)) = k" using less.prems(1,3) by auto
    then show ?thesis
      using False at less.prems by (subst strncpy_loop.simps) (auto simp: Let_def)
  qed
qed

lemma strncpy_cstr:
  assumes "cstr m p s" and "length s < 4294967295" and "1 \<le> count"
    and "\<And>i j. i < j \<Longrightarrow> j \<le> length s \<Longrightarrow> int j < count \<Longrightarrow> d + of_nat i \<noteq> p + of_nat j"
  shows "strncpy m d p count = store_bytes m d (take (nat (count - 1)) s @ [0])"
proof -
  have "strncpy_loop m d p count (int 0) =
      (let l = min (length s) (nat (count - 1)) in (int l, store_bytes m d (take l s)))"
    using assms by (intro strncpy_loop_run) auto
  moreover have "take (min (length s) n) s = take n s" for n by (simp add: min_def)
  ultimately show ?thesis
    using assms(2) by (subst store_bytes_snoc) (simp_all add: strncpy_def Let_def)
qed

section \<open>Tokens\<close>

lemma delimiter_index_run:
  assumes "cstr m d ds" and "0 \<le> i" and "i \<le> int (length ds)"
  shows "(delimiter_index m c d (int (length ds)) i < int (length ds) \<longleftrightarrow> c \<in> set (drop (nat i) ds)) \<and>
    delimiter_index m c d (int (length ds)) i \<le> int (length ds)"
  using assms(2,3)
proof (induction "length ds - nat i" arbitrary: i rule: less_induct)
  case less
  show ?case
  proof (cases "i < int (length ds)")
    case True
    then have step: "drop (nat i) ds = ds ! nat i # drop (nat (i + 1)) ds"
      using less.prems by (simp add: Cons_nth_drop_Suc nat_add_distrib)
    have at: "m (d + word_of_int i) = ds ! nat i"
      using assms(1) less.prems True by (auto simp: cstr_nth simp flip: of_nat_nat)
    show ?thesis
      using less.hyps [of "i + 1"] less.prems step at True
      by (subst (1 2) delimiter_index.simps) auto
  next
    case False
    then show ?thesis using less.prems by (subst (1 2) delimiter_index.simps) auto
  qed
qed

lemma delimiter_index_cstr:
  assumes "cstr m d ds"
  shows "delimiter_index m c d (int (length ds)) 0 < int (length ds) \<longleftrightarrow> c \<in> set ds"
    and "delimiter_index m c d (int (length ds)) 0 = int (length ds) \<longleftrightarrow> c \<notin> set ds"
  using delimiter_index_run [OF assms, of 0 c] by auto

lemma skip_delimiters_cstr:
  assumes "cstr m d ds" and "cstr m p s"
  shows "skip_delimiters m d (int (length ds)) p =
    Some (p + of_nat (length (takeWhile (\<lambda>c. c \<in> set ds) s)))"
  using assms(2)
proof (induction s arbitrary: p)
  case Nil
  then show ?case
    using cstr_nonzero [OF assms(1)] delimiter_index_cstr [OF assms(1)]
    by (subst skip_delimiters.simps) simp
next
  case (Cons c s)
  then show ?case
    using delimiter_index_cstr [OF assms(1)] by (subst skip_delimiters.simps) (simp add: add.assoc)
qed

lemma end_of_token_cstr:
  assumes "cstr m d ds" and "cstr m p s"
  defines "tok \<equiv> takeWhile (\<lambda>c. c \<notin> set ds) s"
  shows "end_of_token m d (int (length ds)) p =
    (if tok = s then Some (p + of_nat (length s), m)
     else Some (p + of_nat (length tok) + 1, m(p + of_nat (length tok) := 0)))"
  unfolding tok_def using assms(2)
proof (induction s arbitrary: p)
  case Nil
  then show ?case by (subst end_of_token.simps) simp
next
  case (Cons c s)
  then show ?case
    using delimiter_index_cstr [OF assms(1)] by (subst end_of_token.simps) (auto simp: add.assoc)
qed

text \<open>A string cut at position \<open>k\<close> is two strings.\<close>

lemma cstr_cut:
  assumes "cstr m p (s @ c # t)" and "length s + length t < 4294967294"
  defines "m' \<equiv> m(p + of_nat (length s) := 0)"
  shows "cstr m' p s" and "cstr m' (p + of_nat (length s) + 1) t"
proof -
  have off: "m' (p + of_nat i) = (if i = length s then 0 else m (p + of_nat i))" if "i < 4294967296" for i
    using plus_offset_eq [OF that, of "length s" p] assms(2) by (simp add: m'_def)
  have nth: "m (p + of_nat i) = (s @ c # t) ! i" "(s @ c # t) ! i \<noteq> 0" if "i < length s + Suc (length t)" for i
    using assms(1) that by (simp_all add: cstr_nth)
  have nz: "i < length s \<Longrightarrow> s ! i \<noteq> 0" for i using nth(2) [of i] by (simp add: nth_append)
  show "cstr m' p s"
    unfolding cstr_nth using off nth(1) nz assms(2) by (auto simp: nth_append)
  have "cstr m (p + of_nat (length s) + 1) t"
    using cstr_append [OF assms(1)] by simp
  moreover have "m' (p + of_nat (length s) + 1 + of_nat i) = m (p + of_nat (length s) + 1 + of_nat i)"
    if "i \<le> length t" for i
    using off [of "length s + 1 + i"] that assms(2) by (simp add: add.assoc add.left_commute)
  ultimately show "cstr m' (p + of_nat (length s) + 1) t"
    using cstr_cong [of t m' "p + of_nat (length s) + 1" m] by blast
qed

text \<open>One call, whatever is left of the string.\<close>

lemma strtok_next:
  assumes "cstr m p s" and "length s < 4294967294" and "p \<noteq> 0" and "cstr m d ds"
    and "sp = 0 \<and> str = p \<or> sp = p"
  defines "rest \<equiv> dropWhile (\<lambda>c. c \<in> set ds) s"
  defines "tok \<equiv> takeWhile (\<lambda>c. c \<notin> set ds) rest" and "q \<equiv> p + of_nat (length s - length rest)"
  shows "rest = [] \<Longrightarrow> strtok m sp str d = Some (0, 0, m)"
    and "rest \<noteq> [] \<Longrightarrow> \<exists>sp' t. strtok m sp str d = Some (q, sp', t) \<and> cstr t q tok \<and>
      cstr t sp' (drop (Suc (length tok)) rest) \<and> (\<forall>a. a \<noteq> q + of_nat (length tok) \<longrightarrow> t a = m a) \<and>
      sp' = q + of_nat (min (Suc (length tok)) (length rest))"
proof -
  define skip where "skip = takeWhile (\<lambda>c. c \<in> set ds) s"
  have s: "s = skip @ rest" by (simp add: skip_def rest_def)
  have q: "q = p + of_nat (length skip)" by (simp add: q_def) (simp add: s)
  have cq: "cstr m q rest" unfolding q by (rule cstr_append) (use assms(1) s in simp)
  have st: "strtok m sp str d =
     (if rest = [] then Some (0, 0, m)
      else case end_of_token m d (int (length ds)) q of None \<Rightarrow> None | Some (sp, m) \<Rightarrow> Some (q, sp, m))"
  proof -
    have "skip_delimiters m d (int (length ds)) p = Some q"
      by (simp add: q skip_def skip_delimiters_cstr [OF assms(4,1)])
    then show ?thesis
      using assms(3,5) cq by (cases rest) (auto simp: strtok_def strlen_cstr [OF assms(4)])
  qed
  show "rest = [] \<Longrightarrow> strtok m sp str d = Some (0, 0, m)" using st by simp
  note e = end_of_token_cstr [OF assms(4) cq, folded tok_def]
  show "\<exists>sp' t. strtok m sp str d = Some (q, sp', t) \<and> cstr t q tok \<and>
      cstr t sp' (drop (Suc (length tok)) rest) \<and> (\<forall>a. a \<noteq> q + of_nat (length tok) \<longrightarrow> t a = m a) \<and>
      sp' = q + of_nat (min (Suc (length tok)) (length rest))" if ne: "rest \<noteq> []"
  proof (cases "tok = rest")
    case True
    have "m (q + of_nat (length rest)) = 0" using cq by (simp add: cstr_nth)
    then show ?thesis using st ne e True cq by auto
  next
    case tok: False
    then obtain c r where r: "rest = tok @ c # r"
      by (metis append_Nil2 dropWhile_eq_Nil_conv list.exhaust takeWhile_dropWhile_id takeWhile_eq_all_conv tok_def)
    have "length tok + length r < 4294967294"
      using assms(2) arg_cong [OF s, of length] arg_cong [OF r, of length] by simp
    then show ?thesis
      using st ne e tok cstr_cut [of m q tok c r] cq r by (auto simp: add.assoc)
  qed
qed

lemma cstr_ends: "m (d + of_nat i) = 0 \<Longrightarrow> \<exists>t. cstr m d t \<and> length t \<le> i"
proof (induction i arbitrary: d)
  case 0
  then show ?case by (intro exI [of _ "[]"]) simp
next
  case (Suc i)
  show ?case
  proof (cases "m d = 0")
    case True
    then show ?thesis by (intro exI [of _ "[]"]) simp
  next
    case False
    have "m (d + 1 + of_nat i) = 0" using Suc.prems by (simp add: add.assoc)
    then obtain t where "cstr m (d + 1) t" "length t \<le> i" using Suc.IH by blast
    then show ?thesis using False by (intro exI [of _ "m d # t"]) simp
  qed
qed

text \<open>The loop stops at \<open>count - 1\<close> at the latest, and has written below the index it stops at only.\<close>

lemma strncpy_loop_bound:
  assumes "strncpy_loop m d p count i = (k, m')" and "0 \<le> i" and "count < 2147483648" and "i \<le> max 0 (count - 1)"
  shows "i \<le> k \<and> k \<le> max 0 (count - 1) \<and> (\<forall>a. nat k \<le> unat (a - d) \<longrightarrow> m' a = m a)"
  using assms
proof (induction m d p count i rule: strncpy_loop.induct)
  case (1 m d p count i)
  show ?case
  proof (cases "i < count - 1 \<and> m (p + word_of_int i) \<noteq> 0")
    case False
    then have "k = i" "m' = m" using "1.prems"(1) by (auto simp: strncpy_loop.simps [of m d p count i] split: if_splits)
    then show ?thesis using "1.prems"(4) by simp
  next
    case True
    let ?m = "m(d + word_of_int i := m (p + word_of_int i))"
    have L: "strncpy_loop ?m d p count (i + 1) = (k, m')"
      using True "1.prems"(1) by (simp add: strncpy_loop.simps [of m d p count i])
    have i: "0 \<le> i + 1" "i + 1 \<le> max 0 (count - 1)" using True "1.prems"(2) by linarith+
    have IH: "i + 1 \<le> k" "k \<le> max 0 (count - 1)" "\<forall>a. nat k \<le> unat (a - d) \<longrightarrow> m' a = ?m a"
      using "1.IH" [OF conjunct1 [OF True] conjunct2 [OF True] L i(1) "1.prems"(3) i(2)] by blast+
    have u: "unat (word_of_int i :: u32) = nat i"
    proof -
      have "word_of_int i = (of_nat (nat i) :: u32)" using "1.prems"(2) by simp
      moreover have "nat i < 4294967296" using True "1.prems"(3) by linarith
      ultimately show ?thesis by (simp only: unat_of_nat_u32)
    qed
    have "m' a = m a" if "nat k \<le> unat (a - d)" for a
    proof -
      have "a \<noteq> d + word_of_int i" using that u IH(1) "1.prems"(2) by auto
      then show ?thesis using IH(3) that by simp
    qed
    then show ?thesis using IH(1,2) by simp
  qed
qed

section \<open>Properties of the string routines\<close>

text \<open>
  A list of arguments: nodes of 512 bytes for a string and the address of the next one.
\<close>

fun arg_list :: "byte_mem \<Rightarrow> u32 \<Rightarrow> (u32 \<times> u8 list) list \<Rightarrow> bool" where
  "arg_list m p [] \<longleftrightarrow> p = 0"
| "arg_list m p ((q, w) # ns) \<longleftrightarrow>
     p = q \<and> q \<noteq> 0 \<and> cstr m q w \<and> length w < 512 \<and> arg_list m (load32 m (q + 512)) ns"

lemma arg_list_short: "arg_list m p ns \<Longrightarrow> n \<in> set ns \<Longrightarrow> length (snd n) < 512"
  by (induction ns arbitrary: p) auto

lemma arg_list_cong:
  assumes "\<forall>(q, w) \<in> set ns. \<forall>j < 516. m' (q + of_nat j) = m (q + of_nat j)"
  shows "arg_list m' p ns = arg_list m p ns"
  using assms
proof (induction ns arbitrary: p)
  case Nil
  then show ?case by simp
next
  case (Cons n ns)
  obtain q w where n: "n = (q, w)" by (cases n)
  have e: "m' (q + of_nat j) = m (q + of_nat j)" if "j < 516" for j using Cons.prems n that by simp
  have "load32 m' (q + 512) = load32 m (q + 512)"
    using e [of 512] e [of 513] e [of 514] e [of 515] by (intro load32_cong) (simp_all add: add.assoc)
  moreover have "cstr m' q w = cstr m q w" if "length w < 512" using e that by (intro cstr_cong) simp
  ultimately show ?case using Cons.IH Cons.prems n by auto
qed

text \<open>
  C37: \<open>strcpy\<close> copies a string and its terminator, when the destination does not overwrite a
  part of the source still to be read; the destination then holds the string and nothing else
  changes. It returns exactly because there is a terminator.
\<close>

theorem strcpy_copies:
  assumes "cstr m p s" and "length s < 4294967295"
    and "\<forall>i j. i < j \<and> j \<le> length s \<longrightarrow> d + of_nat i \<noteq> p + of_nat j"
  shows "\<exists>t. strcpy m d p = Some t \<and> cstr t d s \<and> strlen t d = strlen m p \<and>
    (\<forall>a. length s < unat (a - d) \<longrightarrow> t a = m a)"
proof -
  have "strcpy m d p = Some (store_bytes m d (s @ [0]))"
    using assms by (intro strcpy_cstr) auto
  moreover have "cstr (store_bytes m d (s @ [0])) d s"
    by (rule cstr_store_bytes [OF cstr_nonzero [OF assms(1)] assms(2)])
  ultimately show ?thesis
    using strlen_cstr assms(1) by (auto intro!: store_bytes_outside)
qed

text \<open>The bytes ''0:/a'' at address 16 of an otherwise zero memory.\<close>

definition demo_text :: byte_mem where
  "demo_text = store_bytes (\<lambda>_. 0) 16 [48, 58, 47, 97, 0]"

lemma demo_text_cstr: "cstr demo_text 16 [48, 58, 47, 97]"
  by (simp add: demo_text_def store_bytes_Cons)

theorem strcpy_copies_witness:
  "\<exists>t. strcpy demo_text 32 16 = Some t \<and> strlen t 32 = Some 4"
proof -
  have "32 + of_nat i \<noteq> (16 + of_nat j :: u32)" if "i < j" "j \<le> 4" for i j :: nat
    using that by (cases "i = 0 \<or> i = 1 \<or> i = 2 \<or> i = 3"; cases "j = 0 \<or> j = 1 \<or> j = 2 \<or> j = 3 \<or> j = 4") auto
  then show ?thesis
    using strcpy_copies [OF demo_text_cstr, of 32] strlen_cstr [OF demo_text_cstr] by auto
qed

text \<open>
  C38: \<open>strncpy\<close>, whatever it is given to copy, even what it overwrites while it reads: it changes at most \<open>count\<close> bytes of
  the destination, and leaves a terminated string there that fits into them; with a \<open>count\<close> of 0 or less it still
  writes the terminator, one byte. When the source is a string that the copy does not overwrite before it is read and
  \<open>count\<close> is at least 1, the copy is the source cut to \<open>count - 1\<close> characters.
\<close>

theorem strncpy_bounded:
  assumes "count < 2147483648"
  shows "(\<forall>a. nat (max 1 count) \<le> unat (a - d) \<longrightarrow> strncpy m d p count a = m a) \<and>
    (\<exists>t. cstr (strncpy m d p count) d t \<and> length t < nat (max 1 count)) \<and>
    (\<forall>s. cstr m p s \<longrightarrow> length s < 4294967295 \<longrightarrow> 1 \<le> count \<longrightarrow>
      (\<forall>i j. i < j \<and> j \<le> length s \<longrightarrow> d + of_nat i \<noteq> p + of_nat j) \<longrightarrow>
      cstr (strncpy m d p count) d (take (nat (count - 1)) s))"
proof (intro conjI allI impI)
  obtain k m' where L: "strncpy_loop m d p count 0 = (k, m')" by fastforce
  have B: "0 \<le> k" "k \<le> max 0 (count - 1)" "\<forall>a. nat k \<le> unat (a - d) \<longrightarrow> m' a = m a"
    using strncpy_loop_bound [OF L _ assms] by simp_all
  have run: "strncpy m d p count = m'(d + of_nat (nat k) := 0)" using B(1) by (simp add: strncpy_def L)
  have u: "unat (of_nat (nat k) :: u32) = nat k" using B(2) assms by (intro unat_of_nat_u32) simp
  show "strncpy m d p count a = m a" if "nat (max 1 count) \<le> unat (a - d)" for a
  proof -
    have "nat k < unat (a - d)" using that B(1,2) by linarith
    then have "a \<noteq> d + of_nat (nat k)" using u by auto
    then show ?thesis using B(3) \<open>nat k < unat (a - d)\<close> by (simp add: run)
  qed
  obtain t where "cstr (strncpy m d p count) d t" "length t \<le> nat k"
    using cstr_ends [of "strncpy m d p count" d "nat k"] by (auto simp: run)
  then show "\<exists>t. cstr (strncpy m d p count) d t \<and> length t < nat (max 1 count)" using B(1,2) by (intro exI [of _ t]) auto
  fix s
  assume s: "cstr m p s" "length s < 4294967295" "1 \<le> count" "\<forall>i j. i < j \<and> j \<le> length s \<longrightarrow> d + of_nat i \<noteq> p + of_nat j"
  have eq: "strncpy m d p count = store_bytes m d (take (nat (count - 1)) s @ [0])"
    using s by (intro strncpy_cstr) auto
  have "0 \<notin> set (take (nat (count - 1)) s)" using cstr_nonzero [OF s(1)] set_take_subset by fast
  then show "cstr (strncpy m d p count) d (take (nat (count - 1)) s)"
    unfolding eq using s(2) by (intro cstr_store_bytes) auto
qed

theorem strncpy_bounded_witness: "cstr (strncpy demo_text 32 16 3) 32 [48, 58] \<and> strncpy demo_text 32 16 (- 5) 33 = demo_text 33"
proof -
  have "32 + of_nat i \<noteq> (16 + of_nat j :: u32)" if "i < j" "j \<le> 4" for i j :: nat
    using that by (cases "i = 0 \<or> i = 1 \<or> i = 2 \<or> i = 3"; cases "j = 0 \<or> j = 1 \<or> j = 2 \<or> j = 3 \<or> j = 4") auto
  then have apart: "\<forall>i j. i < j \<and> j \<le> length [48, 58, 47, 97 :: u8] \<longrightarrow> 32 + of_nat i \<noteq> (16 + of_nat j :: u32)" by simp
  have three: "(3 :: int) < 2147483648" by simp
  note S = strncpy_bounded [OF three, of 32 demo_text 16, THEN conjunct2, THEN conjunct2, THEN spec, THEN mp, OF demo_text_cstr,
      THEN mp, OF _, THEN mp, OF _ _, THEN mp, OF _ _ apart]
  have "cstr (strncpy demo_text 32 16 3) 32 (take (nat (3 - 1)) [48, 58, 47, 97])" by (rule S) simp_all
  then have "cstr (strncpy demo_text 32 16 3) 32 [48, 58]" by simp
  moreover have "strncpy demo_text 32 16 (- 5) 33 = demo_text 33"
    using strncpy_bounded [of "- 5" 32 demo_text 16] by simp
  ultimately show ?thesis by blast
qed

text \<open>
  C28: one call of \<open>strtok\<close>, with a string when \<open>sp\<close> is 0 and without one otherwise: leading
  delimiters are skipped, the token up to the next delimiter is returned as a string of its own,
  and \<open>sp\<close> is at what follows. When only delimiters are left the result and \<open>sp\<close> are 0. At most
  one byte changes, the delimiter after the token.
\<close>

theorem strtok_token:
  assumes "cstr m p s" and "length s < 4294967294" and "p \<noteq> 0" and "cstr m d ds"
    and "sp = 0 \<and> str = p \<or> sp = p"
  shows "let rest = dropWhile (\<lambda>c. c \<in> set ds) s; tok = takeWhile (\<lambda>c. c \<notin> set ds) rest;
             q = p + of_nat (length s - length rest)
    in if rest = [] then strtok m sp str d = Some (0, 0, m)
       else \<exists>sp' t. strtok m sp str d = Some (q, sp', t) \<and> cstr t q tok \<and>
         cstr t sp' (drop (Suc (length tok)) rest) \<and> (\<forall>a. a \<noteq> q + of_nat (length tok) \<longrightarrow> t a = m a)"
proof -
  note N = strtok_next [OF assms]
  show ?thesis using N(1) N(2) by (auto simp: Let_def)
qed

theorem strtok_token_witness:
  "\<exists>sp t. strtok (store_bytes demo_text 64 [47, 0]) 0 16 64 = Some (16, sp, t) \<and> cstr t 16 [48, 58] \<and> cstr t sp [97]"
proof -
  let ?m = "store_bytes demo_text 64 [47, 0]"
  have "cstr ?m 16 [48, 58, 47, 97]" by (simp add: demo_text_def store_bytes_Cons)
  moreover have "cstr ?m 64 [47]" by (simp add: store_bytes_Cons)
  ultimately show ?thesis
    using strtok_token [of ?m 16 "[48, 58, 47, 97]" 64 "[47]" 0 16] by (auto simp: Let_def)
qed

end
