(* ===== verification/Gdt.thy ===== *)
theory Gdt
  imports CMemory
begin

text \<open>
  \<^verbatim>\<open>src/gdt/gdt.c\<close>: segment descriptors. The readable form is a base, a limit and a type;
  the processor's form is eight bytes that scatter them. The processor's reading of the eight
  bytes (Intel SDM, vol. 3, 3.4.5) is \<open>descriptor_base\<close>, \<open>descriptor_limit\<close> and
  \<open>descriptor_type\<close>; encoding followed by this reading gives the segment back.
\<close>

unbundle bit_operations_syntax

section \<open>Encoding\<close>

record gdt_structured =
  seg_base :: u32
  seg_limit :: u32
  seg_type :: u8

text \<open>The bytes at \<open>target\<close> are overwritten one by one, in the order of the code.\<close>

definition encodeGdtEntry :: "byte_mem \<Rightarrow> u32 \<Rightarrow> gdt_structured \<Rightarrow> byte_mem outcome" where
  "encodeGdtEntry m target source =
     (if seg_limit source > 65536 \<and> seg_limit source AND 0xFFF \<noteq> 0xFFF
      then Inl (Panic ''encodeGdtEntry: Invalid argument'')
      else
        let m = m(target + 6 := 0x40);
            (limit, m) = (if seg_limit source > 65536
                          then (drop_bit 12 (seg_limit source), m(target + 6 := 0xC0))
                          else (seg_limit source, m));
            m = m(target := ucast (limit AND 0xFF));
            m = m(target + 1 := ucast (drop_bit 8 limit AND 0xFF));
            m = m(target + 6 := m (target + 6) OR ucast (drop_bit 16 limit AND 0x0F));
            base = seg_base source;
            m = m(target + 2 := ucast (base AND 0xFF));
            m = m(target + 3 := ucast (drop_bit 8 base AND 0xFF));
            m = m(target + 4 := ucast (drop_bit 16 base AND 0xFF));
            m = m(target + 7 := ucast (drop_bit 24 base AND 0xFF))
        in Inr (m(target + 5 := seg_type source)))"

fun gdt_structured_to_gdt_loop ::
    "byte_mem \<Rightarrow> u32 \<Rightarrow> gdt_structured list \<Rightarrow> byte_mem outcome" where
  "gdt_structured_to_gdt_loop m gdt [] = Inr m"
| "gdt_structured_to_gdt_loop m gdt (source # rest) =
     andthen (encodeGdtEntry m gdt source) (\<lambda>m. gdt_structured_to_gdt_loop m (gdt + 8) rest)"

text \<open>\<open>total_entries\<close> elements of the array are converted; an entry is eight bytes.\<close>

definition gdt_structured_to_gdt ::
    "byte_mem \<Rightarrow> u32 \<Rightarrow> gdt_structured list \<Rightarrow> int \<Rightarrow> byte_mem outcome" where
  "gdt_structured_to_gdt m gdt structured total_entries =
     gdt_structured_to_gdt_loop m gdt (take (nat total_entries) structured)"

text \<open>The table of \<^verbatim>\<open>kernel.c\<close>; the address of the TSS is the linker's.\<close>

definition SLOBOS_TOTAL_GDT_SEGMENTS :: int where "SLOBOS_TOTAL_GDT_SEGMENTS = 6"

definition kernel_gdt :: "u32 \<Rightarrow> u32 \<Rightarrow> gdt_structured list" where
  "kernel_gdt tss_addr tss_size =
     [\<lparr>seg_base = 0, seg_limit = 0, seg_type = 0\<rparr>,
      \<lparr>seg_base = 0, seg_limit = 0xFFFFFFFF, seg_type = 0x9A\<rparr>,
      \<lparr>seg_base = 0, seg_limit = 0xFFFFFFFF, seg_type = 0x92\<rparr>,
      \<lparr>seg_base = 0, seg_limit = 0xFFFFFFFF, seg_type = 0xF8\<rparr>,
      \<lparr>seg_base = 0, seg_limit = 0xFFFFFFFF, seg_type = 0xF2\<rparr>,
      \<lparr>seg_base = tss_addr, seg_limit = tss_size, seg_type = 0xE9\<rparr>]"

section \<open>What the processor reads\<close>

definition descriptor_base :: "byte_mem \<Rightarrow> u32 \<Rightarrow> u32" where
  "descriptor_base m t = ucast (m (t + 2)) OR push_bit 8 (ucast (m (t + 3)))
     OR push_bit 16 (ucast (m (t + 4))) OR push_bit 24 (ucast (m (t + 7)))"

definition descriptor_limit :: "byte_mem \<Rightarrow> u32 \<Rightarrow> u32" where
  "descriptor_limit m t =
     (let raw = ucast (m t) OR push_bit 8 (ucast (m (t + 1))) OR push_bit 16 (ucast (m (t + 6) AND 0x0F))
      in if m (t + 6) AND 0x80 \<noteq> 0 then push_bit 12 raw OR 0xFFF else raw)"

definition descriptor_type :: "byte_mem \<Rightarrow> u32 \<Rightarrow> u8" where
  "descriptor_type m t = m (t + 5)"

definition encodable :: "u32 \<Rightarrow> bool" where
  "encodable limit \<longleftrightarrow> \<not> (limit > 65536 \<and> limit AND 0xFFF \<noteq> 0xFFF)"

section \<open>Bytes of a word\<close>

lemma byte_mask: "(0xFF :: u32) = mask 8" "(0x0F :: u32) = mask 4" "(0x0F :: u8) = mask 4"
  "(0xFFF :: u32) = mask 12"
  by (simp_all add: mask_eq_exp_minus_1)

lemma base_bytes:
  fixes v :: u32
  shows "ucast (ucast (v AND 0xFF) :: u8) OR push_bit 8 (ucast (ucast (drop_bit 8 v AND 0xFF) :: u8))
      OR push_bit 16 (ucast (ucast (drop_bit 16 v AND 0xFF) :: u8))
      OR push_bit 24 (ucast (ucast (drop_bit 24 v AND 0xFF) :: u8)) = v"
proof -
  have "ucast (w AND 0xFF) = (ucast w :: u8)" for w :: u32
    unfolding byte_mask by (intro bit_word_eqI) (auto simp: bit_simps)
  then show ?thesis using word32_bytes [of v] by simp
qed

lemma limit_bytes:
  fixes l :: u32 and b :: u8
  assumes "l < 1048576" and "b AND 0x0F = 0"
  shows "ucast (ucast (l AND 0xFF) :: u8) OR push_bit 8 (ucast (ucast (drop_bit 8 l AND 0xFF) :: u8))
      OR push_bit 16 (ucast ((b OR ucast (drop_bit 16 l AND 0x0F)) AND 0x0F)) = l"
proof -
  have "take_bit 20 l = l"
    using assms(1) by (simp add: take_bit_eq_mod word_less_nat_alt word_unat_eq_iff unat_mod)
  then have high: "20 \<le> n \<Longrightarrow> \<not> bit l n" for n by (metis bit_take_bit_iff not_le)
  have "(b OR ucast (drop_bit 16 l AND 0x0F)) AND 0x0F = (ucast (drop_bit 16 l AND 0x0F) :: u8)"
    using assms(2) by (subst bit.conj_disj_distrib2) (simp, unfold byte_mask, rule bit_word_eqI, auto simp: bit_simps)
  then show ?thesis
    unfolding byte_mask
  proof (intro bit_word_eqI)
    fix n assume eq: "(b OR ucast (drop_bit 16 l AND mask 4)) AND mask 4 = (ucast (drop_bit 16 l AND mask 4) :: u8)"
      and n: "n < LENGTH(32)"
    consider "n < 8" | "8 \<le> n" "n < 16" | "16 \<le> n" "n < 20" | "20 \<le> n" by linarith
    then show "bit (ucast (ucast (l AND mask 8) :: u8) OR push_bit 8 (ucast (ucast (drop_bit 8 l AND mask 8) :: u8))
      OR push_bit 16 (ucast ((b OR ucast (drop_bit 16 l AND mask 4)) AND mask 4)) :: u32) n = bit l n"
      unfolding eq using high [of n] n by cases (auto simp: bit_simps)
  qed
qed

lemma page_limit:
  fixes l :: u32
  assumes "l AND 0xFFF = 0xFFF"
  shows "push_bit 12 (drop_bit 12 l) OR 0xFFF = l"
proof (rule bit_word_eqI)
  fix n assume n: "n < LENGTH(32)"
  have "bit (l AND 0xFFF) n = bit (0xFFF :: u32) n" by (simp add: assms)
  then show "bit (push_bit 12 (drop_bit 12 l) OR 0xFFF) n = bit l n"
    unfolding byte_mask using n by (cases "n < 12") (auto simp: bit_simps)
qed

lemma granularity_bit:
  "(0x40 OR ucast (w AND 0x0F :: u32)) AND 0x80 = (0 :: u8)"
  "(0xC0 OR ucast (w AND 0x0F :: u32)) AND 0x80 \<noteq> (0 :: u8)"
proof -
  have z: "(ucast (w AND 0x0F :: u32) :: u8) AND 0x80 = 0"
  proof (rule bit_word_eqI)
    fix n assume "n < LENGTH(8)"
    have "(0x80 :: u8) = push_bit 7 1" by simp
    then have "bit (0x80 :: u8) n \<Longrightarrow> n = 7" by (metis bit_1_iff bit_push_bit_iff diff_is_0_eq le_antisym)
    then show "bit ((ucast (w AND 0x0F :: u32) :: u8) AND 0x80) n = bit (0 :: u8) n"
      unfolding byte_mask by (auto simp: bit_simps)
  qed
  show "(0x40 OR ucast (w AND 0x0F :: u32)) AND 0x80 = (0 :: u8)"
    by (subst bit.conj_disj_distrib2) (simp add: z)
  show "(0xC0 OR ucast (w AND 0x0F :: u32)) AND 0x80 \<noteq> (0 :: u8)"
    by (subst bit.conj_disj_distrib2) (simp add: z)
qed

section \<open>Encoding is faithful\<close>

lemma encode_spec:
  assumes "encodable (seg_limit source)"
  obtains t where "encodeGdtEntry m target source = Inr t"
    "descriptor_base t target = seg_base source" "descriptor_limit t target = seg_limit source"
    "descriptor_type t target = seg_type source" "\<And>a. 8 \<le> unat (a - target) \<Longrightarrow> t a = m a"
proof -
  let ?l = "if seg_limit source > 65536 then drop_bit 12 (seg_limit source) else seg_limit source"
  let ?g = "if seg_limit source > 65536 then 0xC0 else 0x40 :: u8"
  have "\<exists>t. encodeGdtEntry m target source = Inr t \<and> t target = ucast (?l AND 0xFF) \<and>
    t (target + 1) = ucast (drop_bit 8 ?l AND 0xFF) \<and>
    t (target + 2) = ucast (seg_base source AND 0xFF) \<and>
    t (target + 3) = ucast (drop_bit 8 (seg_base source) AND 0xFF) \<and>
    t (target + 4) = ucast (drop_bit 16 (seg_base source) AND 0xFF) \<and>
    t (target + 5) = seg_type source \<and>
    t (target + 6) = ?g OR ucast (drop_bit 16 ?l AND 0x0F) \<and>
    t (target + 7) = ucast (drop_bit 24 (seg_base source) AND 0xFF) \<and>
    (\<forall>a. a \<notin> {target, target + 1, target + 2, target + 3, target + 4, target + 5, target + 6, target + 7} \<longrightarrow> t a = m a)"
    using assms
    by (cases "seg_limit source > 65536") (simp_all add: encodeGdtEntry_def encodable_def Let_def)
  then obtain t where t: "encodeGdtEntry m target source = Inr t" "t target = ucast (?l AND 0xFF)"
    "t (target + 1) = ucast (drop_bit 8 ?l AND 0xFF)"
    "t (target + 2) = ucast (seg_base source AND 0xFF)"
    "t (target + 3) = ucast (drop_bit 8 (seg_base source) AND 0xFF)"
    "t (target + 4) = ucast (drop_bit 16 (seg_base source) AND 0xFF)"
    "t (target + 5) = seg_type source"
    "t (target + 6) = ?g OR ucast (drop_bit 16 ?l AND 0x0F)"
    "t (target + 7) = ucast (drop_bit 24 (seg_base source) AND 0xFF)"
    and out: "\<And>a. a \<notin> {target, target + 1, target + 2, target + 3, target + 4, target + 5, target + 6, target + 7} \<Longrightarrow> t a = m a"
    by blast
  have "descriptor_base t target = seg_base source"
    unfolding descriptor_base_def t by (rule base_bytes)
  moreover have "descriptor_limit t target = seg_limit source"
  proof (cases "seg_limit source > 65536")
    case True
    then have ones: "seg_limit source AND 0xFFF = 0xFFF" using assms by (simp add: encodable_def)
    have "drop_bit 12 (seg_limit source) < 1048576"
      using unat_u32_bound [of "seg_limit source"]
      by (simp add: word_less_nat_alt drop_bit_eq_div unat_div less_mult_imp_div_less)
    then show ?thesis
      using True limit_bytes [of "drop_bit 12 (seg_limit source)" "0xC0"] page_limit [OF ones]
      by (simp add: descriptor_limit_def t granularity_bit del: drop_bit_drop_bit)
  next
    case False
    then have "seg_limit source < 1048576" by (simp add: not_less word_le_nat_alt word_less_nat_alt)
    then show ?thesis
      using False limit_bytes [of "seg_limit source" "0x40"]
      by (simp add: descriptor_limit_def t granularity_bit)
  qed
  moreover have "t a = m a" if "8 \<le> unat (a - target)" for a
  proof (rule out)
    have "a \<noteq> target + of_nat i" if "i < 8" for i
      using offset_of_nat [of i a target] \<open>8 \<le> unat (a - target)\<close> that by auto
    from this [of 0] this [of 1] this [of 2] this [of 3] this [of 4] this [of 5] this [of 6] this [of 7]
    show "a \<notin> {target, target + 1, target + 2, target + 3, target + 4, target + 5, target + 6, target + 7}" by simp
  qed
  ultimately show thesis using that t(1,7) by (simp add: descriptor_type_def)
qed

lemma descriptor_cong:
  assumes "\<And>a. unat (a - target) < 8 \<Longrightarrow> t a = m a"
  shows "descriptor_base t target = descriptor_base m target"
    "descriptor_limit t target = descriptor_limit m target"
    "descriptor_type t target = descriptor_type m target"
proof -
  have "t (target + of_nat i) = m (target + of_nat i)" if "i < 8" for i
    using that by (intro assms) (simp add: unat_of_nat_u32)
  from this [of 0] this [of 1] this [of 2] this [of 3] this [of 4] this [of 5] this [of 6] this [of 7]
  show "descriptor_base t target = descriptor_base m target"
    "descriptor_limit t target = descriptor_limit m target"
    "descriptor_type t target = descriptor_type m target"
    by (simp_all add: descriptor_base_def descriptor_limit_def descriptor_type_def)
qed

definition descriptor_of :: "byte_mem \<Rightarrow> u32 \<Rightarrow> gdt_structured" where
  "descriptor_of m t =
     \<lparr>seg_base = descriptor_base m t, seg_limit = descriptor_limit m t, seg_type = descriptor_type m t\<rparr>"

lemma gdt_loop_encodes:
  assumes "\<forall>g \<in> set gs. encodable (seg_limit g)" and "8 * length gs \<le> 4294967296"
  shows "\<exists>t. gdt_structured_to_gdt_loop m gdt gs = Inr t \<and>
    (\<forall>i<length gs. descriptor_of t (gdt + 8 * of_nat i) = gs ! i) \<and>
    (\<forall>a. 8 * length gs \<le> unat (a - gdt) \<longrightarrow> t a = m a)"
  using assms
proof (induction gs arbitrary: m gdt)
  case Nil
  then show ?case by simp
next
  case (Cons g gs)
  have "encodable (seg_limit g)" using Cons.prems(1) by simp
  then obtain m1 where m1: "encodeGdtEntry m gdt g = Inr m1" "descriptor_base m1 gdt = seg_base g"
    "descriptor_limit m1 gdt = seg_limit g" "descriptor_type m1 gdt = seg_type g"
    and out1: "\<And>a. 8 \<le> unat (a - gdt) \<Longrightarrow> m1 a = m a"
    using encode_spec [of g m gdt] by metis
  obtain t where t: "gdt_structured_to_gdt_loop m1 (gdt + 8) gs = Inr t"
    "\<forall>i<length gs. descriptor_of t (gdt + 8 + 8 * of_nat i) = gs ! i"
    and out: "\<forall>a. 8 * length gs \<le> unat (a - (gdt + 8)) \<longrightarrow> t a = m1 a"
    using Cons.IH [of m1 "gdt + 8"] Cons.prems by auto
  have first: "t a = m1 a" if "unat (a - gdt) < 8" for a
  proof -
    have "unat (a - (gdt + 8)) = unat ((a - gdt) - 8)" by (simp add: algebra_simps)
    also have "\<dots> = 4294967296 + unat (a - gdt) - 8"
      using that by (simp add: unat_sub_if_size word_size word_le_nat_alt)
    finally show ?thesis using out Cons.prems(2) by auto
  qed
  have "descriptor_of t (gdt + 8 * of_nat i) = (g # gs) ! i" if "i < length (g # gs)" for i
  proof (cases i)
    case 0
    then show ?thesis using m1(2-4) descriptor_cong [of gdt t m1, OF first] by (simp add: descriptor_of_def)
  next
    case (Suc k)
    then show ?thesis using t(2) that by (simp add: add.assoc)
  qed
  moreover have "t a = m a" if "8 * length (g # gs) \<le> unat (a - gdt)" for a
  proof -
    have "unat (a - (gdt + 8)) = unat ((a - gdt) - 8)" by (simp add: algebra_simps)
    also have "\<dots> = unat (a - gdt) - 8"
      using that by (subst unat_sub) (simp_all add: word_le_nat_alt)
    finally show ?thesis using out out1 that by simp
  qed
  ultimately show ?case using m1(1) t(1) by auto
qed

lemma gdt_loop_panics:
  assumes "g \<in> set gs" and "\<not> encodable (seg_limit g)"
  shows "gdt_structured_to_gdt_loop m gdt gs = Inl (Panic ''encodeGdtEntry: Invalid argument'')"
  using assms(1)
proof (induction gs arbitrary: m gdt)
  case Nil
  then show ?case by simp
next
  case (Cons h gs)
  have "encodeGdtEntry m gdt h = Inl (Panic ''encodeGdtEntry: Invalid argument'')" if "\<not> encodable (seg_limit h)"
    using that by (simp add: encodeGdtEntry_def encodable_def)
  moreover have "\<exists>m1. encodeGdtEntry m gdt h = Inr m1" if "encodable (seg_limit h)"
    using encode_spec [OF that, of m gdt] by blast
  ultimately show ?case using Cons assms(2) by (cases "encodable (seg_limit h)") auto
qed

text \<open>
  C29: \<open>gdt_structured_to_gdt\<close> writes a table the processor reads back as the segments it was given:
  base, limit and type of every entry, nothing outside the table. It panics exactly when
  some limit is above 64 KiB and not a whole number of pages.
\<close>

theorem gdt_encode_decode:
  assumes "0 \<le> n" and "nat n \<le> length gs" and "n \<le> 8192"
  shows "if \<forall>g \<in> set (take (nat n) gs). encodable (seg_limit g)
    then \<exists>t. gdt_structured_to_gdt m gdt gs n = Inr t \<and>
      (\<forall>i < nat n. descriptor_of t (gdt + 8 * of_nat i) = gs ! i) \<and>
      (\<forall>a. 8 * nat n \<le> unat (a - gdt) \<longrightarrow> t a = m a)
    else gdt_structured_to_gdt m gdt gs n = Inl (Panic ''encodeGdtEntry: Invalid argument'')"
proof (cases "\<forall>g \<in> set (take (nat n) gs). encodable (seg_limit g)")
  case True
  then show ?thesis
    using gdt_loop_encodes [OF True, of m gdt] assms by (simp add: gdt_structured_to_gdt_def min_absorb2)
next
  case False
  then obtain g where g: "g \<in> set (take (nat n) gs)" "\<not> encodable (seg_limit g)" by blast
  from gdt_loop_panics [OF g] have "gdt_structured_to_gdt m gdt gs n = Inl (Panic ''encodeGdtEntry: Invalid argument'')"
    unfolding gdt_structured_to_gdt_def .
  then show ?thesis using False by argo
qed

theorem gdt_encode_decode_witness:
  "\<exists>t. gdt_structured_to_gdt (\<lambda>_. 0) 0x1000 (kernel_gdt 0x123456 104) 6 = Inr t \<and>
     descriptor_of t 0x1008 = \<lparr>seg_base = 0, seg_limit = 0xFFFFFFFF, seg_type = 0x9A\<rparr> \<and>
     descriptor_of t 0x1028 = \<lparr>seg_base = 0x123456, seg_limit = 104, seg_type = 0xE9\<rparr>"
proof -
  have enc: "\<forall>g \<in> set (take (nat 6) (kernel_gdt 0x123456 104)). encodable (seg_limit g)"
    by (simp add: kernel_gdt_def encodable_def)
  then obtain t where "gdt_structured_to_gdt (\<lambda>_. 0) 0x1000 (kernel_gdt 0x123456 104) 6 = Inr t"
    and t: "\<forall>i < nat 6. descriptor_of t (0x1000 + 8 * of_nat i) = kernel_gdt 0x123456 104 ! i"
    using gdt_encode_decode [where n = 6 and gs = "kernel_gdt 0x123456 104" and m = "\<lambda>_. 0" and gdt = "0x1000"]
    by (auto simp: kernel_gdt_def)
  then show ?thesis using t [THEN spec, of 1] t [THEN spec, of 5] by (simp add: kernel_gdt_def)
qed

end
