(* ===== verification/Disk.thy ===== *)
theory Disk
  imports CMemory
begin

text \<open>
  \<^verbatim>\<open>src/disk/disk.c\<close> and \<^verbatim>\<open>src/disk/streamer.c\<close>: reading sectors through the ports of the
  ATA controller, and a stream that reads bytes at any position. The controller is a parameter:
  what it shows at its status port and the words it delivers after a command.
\<close>

unbundle bit_operations_syntax

section \<open>The controller\<close>

text \<open>The task file: what was written to the ports 0x1F6, 0x1F2 to 0x1F5 and 0x1F7.\<close>

record ata_regs =
  reg_drive :: u8
  reg_count :: u8
  reg_lba_low :: u8
  reg_lba_mid :: u8
  reg_lba_high :: u8
  reg_command :: u8

text \<open>
  \<open>ata_status dev regs b k\<close> is the byte read at the \<open>k\<close>-th poll of port 0x1F7 while sector \<open>b\<close>
  of the command is awaited, \<open>ata_word dev regs n\<close> the \<open>n\<close>-th word read from port 0x1F0.
\<close>

record ata =
  ata_status :: "ata_regs \<Rightarrow> nat \<Rightarrow> nat \<Rightarrow> u8"
  ata_word :: "ata_regs \<Rightarrow> nat \<Rightarrow> u16"

section \<open>disk.c\<close>

definition SLOBOS_SECTOR_SIZE :: int where [c_defs]: "SLOBOS_SECTOR_SIZE = 512"
definition SLOBOS_DISK_TYPE_REAL :: u32 where [c_defs]: "SLOBOS_DISK_TYPE_REAL = 0"

partial_function (option) wait_ready :: "ata \<Rightarrow> ata_regs \<Rightarrow> nat \<Rightarrow> nat \<Rightarrow> nat option" where
  "wait_ready dev regs b k =
     (if ata_status dev regs b k AND 0x08 \<noteq> 0 then Some k else wait_ready dev regs b (Suc k))"

fun read_sectors :: "ata \<Rightarrow> ata_regs \<Rightarrow> nat \<Rightarrow> nat \<Rightarrow> u8 list outcome" where
  "read_sectors dev regs b 0 = Inr []"
| "read_sectors dev regs b (Suc n) =
     (case wait_ready dev regs b 0 of
        None \<Rightarrow> Inl Hang
      | Some _ \<Rightarrow>
          andthen (read_sectors dev regs (Suc b) n) (\<lambda>rest.
            Inr (concat (map (\<lambda>i. word_bytes (ata_word dev regs (256 * b + i))) [0..<256]) @ rest)))"

text \<open>
  The ports as \<open>disk_read_sector\<close> writes them; \<open>outb\<close> sends the low byte. Port 0x1F5 should
  receive bits 16 to 23 of the address and receives bits 24 to 31.
\<close>

definition read_command :: "u32 \<Rightarrow> int \<Rightarrow> ata_regs" where
  "read_command lba total_sectors =
     \<lparr>reg_drive = ucast (drop_bit 24 lba OR 0xE0), reg_count = word_of_int total_sectors,
      reg_lba_low = ucast (lba AND 0xFF), reg_lba_mid = ucast (drop_bit 8 lba),
      reg_lba_high = ucast (drop_bit 24 lba), reg_command = 0x20\<rparr>"

text \<open>The result is what the buffer receives; the C function returns 0.\<close>

definition disk_read_sector :: "ata \<Rightarrow> u32 \<Rightarrow> int \<Rightarrow> u8 list outcome" where
  "disk_read_sector dev lba total_sectors =
     read_sectors dev (read_command lba total_sectors) 0 (nat total_sectors)"

text \<open>\<open>disk_addr\<close> is the address of the one \<open>struct disk\<close>.\<close>

definition disk_get :: "u32 \<Rightarrow> int \<Rightarrow> u32" where
  "disk_get disk_addr index = (if index \<noteq> 0 then 0 else disk_addr)"

definition disk_read_block :: "ata \<Rightarrow> u32 \<Rightarrow> u32 \<Rightarrow> u32 \<Rightarrow> int \<Rightarrow> (int \<times> u8 list) outcome" where
  "disk_read_block dev disk_addr idisk lba total_sectors =
     (if idisk \<noteq> disk_addr then Inr (- EIO, [])
      else andthen (disk_read_sector dev lba total_sectors) (\<lambda>bytes. Inr (0, bytes)))"

section \<open>streamer.c\<close>

record disk_stream =
  stream_pos :: int
  stream_disk :: u32

definition diskstreamer_seek :: "disk_stream \<Rightarrow> int \<Rightarrow> int \<times> disk_stream" where
  "diskstreamer_seek stream pos = (0, stream\<lparr>stream_pos := pos\<rparr>)"

text \<open>The bytes \<open>buf[offset]\<close> to \<open>buf[offset + n - 1]\<close> of the local buffer.\<close>

definition buffer_slice :: "u8 list \<Rightarrow> int \<Rightarrow> int \<Rightarrow> u8 list outcome" where
  "buffer_slice buf offset n =
     (if n \<le> 0 then Inr []
      else if offset < 0 then Inl (OutOfBounds offset)
      else if int (length buf) < offset + n then Inl (OutOfBounds (offset + n - 1))
      else Inr (take (nat n) (drop (nat offset) buf)))"

text \<open>
  \<open>diskstreamer_read\<close> returns its status, the bytes written to \<open>out\<close> in order, and the stream.
  One call reads at most to the end of the sector and calls itself for the rest.
\<close>

function diskstreamer_read ::
    "ata \<Rightarrow> u32 \<Rightarrow> disk_stream \<Rightarrow> int \<Rightarrow> (int \<times> u8 list \<times> disk_stream) outcome" where
  "diskstreamer_read dev disk_addr stream n =
     (let sector = stream_pos stream sdiv SLOBOS_SECTOR_SIZE;
          offset = stream_pos stream smod SLOBOS_SECTOR_SIZE;
          overflow = offset + n \<ge> SLOBOS_SECTOR_SIZE;
          total_to_read = (if overflow then n - ((offset + n) - SLOBOS_SECTOR_SIZE) else n)
      in andthen (disk_read_block dev disk_addr (stream_disk stream) (word_of_int sector) 1) (\<lambda>(res, buf).
         if res < 0 then Inr (res, [], stream)
         else andthen (buffer_slice buf offset total_to_read) (\<lambda>out.
           let stream = stream\<lparr>stream_pos := stream_pos stream + total_to_read\<rparr>
           in if overflow
              then andthen (diskstreamer_read dev disk_addr stream (n - total_to_read)) (\<lambda>(res, rest, stream).
                     Inr (res, out @ rest, stream))
              else Inr (res, out, stream))))"
  by pat_completeness auto
termination
proof (relation "measure (\<lambda>(dev, d, s, n). nat n)", goal_cases)
  case 1
  then show ?case by simp
next
  case (2 dev d s n)
  have "stream_pos s smod 512 < 512" using smod_int_range [of 512 "stream_pos s"] by simp
  with 2 show ?case by (auto simp: c_defs)
qed

declare diskstreamer_read.simps [simp del]

end
