(* ===== verification/Disk_Props.thy ===== *)
theory Disk_Props
  imports Disk
begin

text \<open>
  Reading against the image of the disk. \<open>ata_serves dev img\<close> is the documented behaviour of an ATA drive:
  READ SECTORS with the LBA bit, to drive 0, makes it ready once for each of the sectors the count
  register asks for (0 stands for 256) and delivers those that start at the 28-bit address in the task file.
  Of another command, or of words past the count, nothing is supposed.
\<close>

unbundle bit_operations_syntax

definition lba28 :: "ata_regs \<Rightarrow> nat" where
  "lba28 regs = unat (reg_lba_low regs) + 256 * unat (reg_lba_mid regs) + 65536 * unat (reg_lba_high regs)
     + 16777216 * unat (reg_drive regs AND 0x0F)"

definition sector_count :: "ata_regs \<Rightarrow> nat" where
  "sector_count regs = (if reg_count regs = 0 then 256 else unat (reg_count regs))"

definition lba_read :: "ata_regs \<Rightarrow> bool" where
  "lba_read regs \<longleftrightarrow> reg_command regs = 0x20 \<and> reg_drive regs AND 0xF0 = 0xE0"

definition ata_serves :: "ata \<Rightarrow> (nat \<Rightarrow> u8) \<Rightarrow> bool" where
  "ata_serves dev img \<longleftrightarrow> (\<forall>regs. lba_read regs \<longrightarrow>
     (\<forall>b < sector_count regs. \<exists>k. ata_status dev regs b k AND 0x08 \<noteq> 0) \<and>
     (\<forall>n < 256 * sector_count regs. word_bytes (ata_word dev regs n) =
        [img (512 * lba28 regs + 2 * n), img (512 * lba28 regs + 2 * n + 1)]))"

text \<open>An instance: a drive that holds an image, and is silent and delivers zeros where nothing is promised.\<close>

definition image_drive :: "(nat \<Rightarrow> u8) \<Rightarrow> ata" where
  "image_drive img =
     \<lparr>ata_status = (\<lambda>regs b _. if lba_read regs \<and> b < sector_count regs then 0x08 else 0),
      ata_word = (\<lambda>regs n. if lba_read regs \<and> n < 256 * sector_count regs
        then ucast (img (512 * lba28 regs + 2 * n)) OR push_bit 8 (ucast (img (512 * lba28 regs + 2 * n + 1))) else 0)\<rparr>"

lemma word_bytes_join: "word_bytes (ucast (a :: u8) OR push_bit 8 (ucast (b :: u8))) = [a, b]"
proof -
  have "ucast (ucast a OR push_bit 8 (ucast b) :: u16) = a"
    by (rule bit_word_eqI) (auto simp: bit_simps)
  moreover have "ucast (drop_bit 8 (ucast a OR push_bit 8 (ucast b) :: u16)) = b"
  proof (rule bit_word_eqI)
    fix n assume n: "n < LENGTH(8)"
    then have "\<not> bit a (8 + n)" using bit_imp_le_length [of a "8 + n"] by auto
    then show "bit (ucast (drop_bit 8 (ucast a OR push_bit 8 (ucast b) :: u16)) :: u8) n = bit b n"
      using n by (auto simp: bit_simps)
  qed
  ultimately show ?thesis by (simp add: word_bytes_def)
qed

lemma image_drive_serves: "ata_serves (image_drive img) img"
  by (simp add: ata_serves_def image_drive_def word_bytes_join)

lemma wait_ready_returns:
  assumes "\<exists>k. ata_status dev regs b k AND 0x08 \<noteq> 0"
  shows "\<exists>k. wait_ready dev regs b 0 = Some k"
proof -
  define P where "P k \<longleftrightarrow> ata_status dev regs b k AND 0x08 \<noteq> 0" for k
  have "\<exists>j. wait_ready dev regs b k = Some j" if "P n" "k \<le> n" for k n
    using that(2)
  proof (induction "n - k" arbitrary: k)
    case 0
    then show ?case using that(1) by (subst wait_ready.simps) (simp add: P_def)
  next
    case (Suc d)
    then have "\<exists>j. wait_ready dev regs b (Suc k) = Some j" by simp
    then show ?case by (subst wait_ready.simps) auto
  qed
  then show ?thesis using assms by (auto simp: P_def)
qed

lemma concat_words:
  assumes "\<And>i. i < s + n \<Longrightarrow> word_bytes (f i) = [img (p + 2 * i), img (p + 2 * i + 1)]"
  shows "concat (map (\<lambda>i. word_bytes (f (s + i))) [0..<n]) = map img [p + 2 * s..<p + 2 * s + 2 * n]"
  using assms
proof (induction n)
  case 0
  then show ?case by simp
next
  case (Suc n)
  have "[p + 2 * s..<p + 2 * s + 2 * Suc n] = [p + 2 * s..<p + 2 * s + 2 * n] @ [p + 2 * s + 2 * n, p + 2 * s + 2 * n + 1]"
    using upt_add_eq_append [of "p + 2 * s" "p + 2 * s + 2 * n" 2] by (simp add: numeral_2_eq_2)
  then show ?case using Suc by (simp add: algebra_simps)
qed

lemma read_sectors_image:
  assumes "ata_serves dev img" and "lba_read regs" and "b + n \<le> sector_count regs"
  shows "read_sectors dev regs b n =
    Inr (map img [512 * (lba28 regs + b)..<512 * (lba28 regs + b + n)])"
  using assms(3)
proof (induction n arbitrary: b)
  case 0
  then show ?case by simp
next
  case (Suc n)
  have S: "b < sector_count regs" "256 * b + 256 \<le> 256 * sector_count regs" "Suc b + n \<le> sector_count regs"
    using Suc.prems by simp_all
  obtain k where k: "wait_ready dev regs b 0 = Some k"
    using wait_ready_returns S(1) assms(1,2) unfolding ata_serves_def by meson
  have w: "word_bytes (ata_word dev regs i) = [img (512 * lba28 regs + 2 * i), img (512 * lba28 regs + 2 * i + 1)]"
    if "i < 256 * b + 256" for i
    using assms(1,2) S(2) that unfolding ata_serves_def by (meson less_le_trans)
  have "concat (map (\<lambda>i. word_bytes (ata_word dev regs (256 * b + i))) [0..<256]) =
      map img [512 * (lba28 regs + b)..<512 * (lba28 regs + b) + 512]"
    using concat_words [of "256 * b" 256 "ata_word dev regs" img "512 * lba28 regs", OF w]
    by (simp add: algebra_simps)
  moreover have "[512 * (lba28 regs + b)..<512 * (lba28 regs + b + Suc n)] =
      [512 * (lba28 regs + b)..<512 * (lba28 regs + b) + 512] @ [512 * (lba28 regs + Suc b)..<512 * (lba28 regs + Suc b + n)]"
    using upt_add_eq_append [of "512 * (lba28 regs + b)" "512 * (lba28 regs + b) + 512" "512 * n"]
    by (simp add: algebra_simps)
  ultimately show ?case by (simp add: k Suc.IH [OF S(3)])
qed

text \<open>
  The sector the drive starts at when asked for \<open>lba\<close>: bits 16 to 23 are lost, bits 24 to 31 are
  in their place.
\<close>

definition sector_reached :: "u32 \<Rightarrow> nat" where
  "sector_reached lba = unat lba mod 65536 + 65536 * (unat lba div 16777216)
     + 16777216 * (unat lba div 16777216 mod 16)"

lemma nat_byte: "unat (ucast (w :: u32) :: u8) = unat w mod 256"
  by (simp add: unsigned_ucast_eq take_bit_eq_mod)

lemma lba28_read_command: "lba28 (read_command lba n) = sector_reached lba"
proof -
  have m: "(0xFF :: u32) = mask 8" "(0x0F :: u8) = mask 4" by (simp_all add: mask_eq_exp_minus_1)
  have low: "unat (ucast (lba AND 0xFF) :: u8) = unat lba mod 256"
    by (simp add: nat_byte m(1) unat_mod flip: take_bit_eq_mask) (simp add: take_bit_eq_mod unat_mod)
  have mid: "unat (ucast (drop_bit 8 lba) :: u8) = unat lba div 256 mod 256"
    by (simp add: nat_byte drop_bit_eq_div unat_div)
  have "unat lba div 16777216 < 256" using unat_u32_bound [of lba] by (simp add: less_mult_imp_div_less)
  then have high: "unat (ucast (drop_bit 24 lba) :: u8) = unat lba div 16777216"
    by (simp add: nat_byte drop_bit_eq_div unat_div)
  have "ucast (drop_bit 24 lba OR 0xE0 :: u32) AND 0x0F = take_bit 4 (ucast (drop_bit 24 lba) :: u8)"
  proof -
    have "(ucast (drop_bit 24 lba OR 0xE0 :: u32) :: u8) = ucast (drop_bit 24 lba) OR 0xE0"
      by (simp add: unsigned_or_eq)
    then have "ucast (drop_bit 24 lba OR 0xE0 :: u32) AND (0x0F :: u8) = ucast (drop_bit 24 lba) AND 0x0F"
      by (simp add: bit.conj_disj_distrib2)
    then show ?thesis unfolding m by (simp add: take_bit_eq_mask)
  qed
  then have drive: "unat (ucast (drop_bit 24 lba OR 0xE0 :: u32) AND (0x0F :: u8)) = unat lba div 16777216 mod 16"
    using high by (simp add: take_bit_eq_mod unat_mod)
  have "unat lba mod 65536 = unat lba mod 256 + 256 * (unat lba div 256 mod 256)"
    using mod_mult2_eq [of "unat lba" 256 256] by simp
  then show ?thesis
    by (simp add: lba28_def read_command_def sector_reached_def low mid high drive)
qed

lemma sector_reached_low: "unat lba < 65536 \<Longrightarrow> sector_reached lba = unat lba"
  by (simp add: sector_reached_def)

text \<open>The command asks for a read in LBA mode, of as many sectors as are then taken from the drive.\<close>

lemma read_command_lba:
  assumes "unat lba < 268435456"
  shows "lba_read (read_command lba n)"
proof -
  have "unat (drop_bit 24 lba) < 16" using assms by (simp add: drop_bit_eq_div unat_div)
  then have "drop_bit 24 lba = take_bit 4 (drop_bit 24 lba)"
    by (intro word_unat_eq_iff [THEN iffD2]) (simp add: unsigned_take_bit_eq take_bit_nat_eq_self)
  then have d: "drop_bit 24 lba = drop_bit 24 lba AND mask 4" by (simp only: take_bit_eq_mask)
  have "ucast (drop_bit 24 lba AND mask 4 OR 0xE0 :: u32) AND (0xF0 :: u8) = 0xE0"
  proof (rule bit_word_eqI)
    fix k assume k: "k < LENGTH(8)"
    then have "k \<in> {0, 1, 2, 3, 4, 5, 6, 7}" by auto
    then show "bit (ucast (drop_bit 24 lba AND mask 4 OR 0xE0 :: u32) AND (0xF0 :: u8)) k = bit (0xE0 :: u8) k"
      by (elim insertE emptyE) (simp_all add: bit_simps)
  qed
  then show ?thesis unfolding lba_read_def read_command_def by (simp flip: d)
qed

lemma read_command_count: "1 \<le> n \<Longrightarrow> n \<le> 256 \<Longrightarrow> sector_count (read_command lba n) = nat n"
proof -
  assume n: "1 \<le> n" "n \<le> 256"
  show ?thesis
  proof (cases "n = 256")
    case True
    then show ?thesis by (simp add: sector_count_def read_command_def)
  next
    case False
    then have "unat (word_of_int n :: u8) = nat n" using n by (simp add: unsigned_of_int take_bit_int_eq_self)
    then show ?thesis using n by (auto simp: sector_count_def read_command_def simp flip: unat_eq_zero)
  qed
qed

lemma disk_read_block_img:
  assumes "ata_serves dev img" and "idisk = disk_addr" and "unat lba < 268435456" and "0 \<le> n" "n \<le> 256"
  shows "disk_read_block dev disk_addr idisk lba n =
    Inr (0, map img [512 * sector_reached lba..<512 * (sector_reached lba + nat n)])"
proof (cases "n = 0")
  case True
  then show ?thesis using assms(2) by (simp add: disk_read_block_def disk_read_sector_def)
next
  case False
  then have "read_sectors dev (read_command lba n) 0 (nat n) =
      Inr (map img [512 * (lba28 (read_command lba n) + 0)..<512 * (lba28 (read_command lba n) + 0 + nat n)])"
    using assms(4,5) read_command_count [of n lba]
    by (intro read_sectors_image [OF assms(1) read_command_lba [OF assms(3)]]) simp
  then show ?thesis
    using assms(2) by (simp add: disk_read_block_def disk_read_sector_def lba28_read_command)
qed

section \<open>The stream is a byte array\<close>

lemma sdiv_nonneg: "0 \<le> (a :: int) \<Longrightarrow> a sdiv 512 = a div 512" "0 \<le> a \<Longrightarrow> a smod 512 = a mod 512"
  by (simp_all add: signed_divide_int_def signed_modulo_int_def sgn_if minus_div_mult_eq_mod)

lemma sector_slice:
  assumes "0 \<le> off" and "0 \<le> k" and "off + k \<le> 512"
  shows "buffer_slice (map img [512 * s..<512 * (s + 1)]) off k =
    Inr (map img [512 * s + nat off..<512 * s + nat off + nat k])"
proof (cases "k = 0")
  case True
  then show ?thesis by (simp add: buffer_slice_def)
next
  case False
  have "take (nat k) (drop (nat off) [512 * s..<512 * (s + 1)]) = [512 * s + nat off..<512 * s + nat off + nat k]"
  proof -
    have "nat off + nat k \<le> 512" using assms by linarith
    then show ?thesis by (simp add: take_upt)
  qed
  then show ?thesis using False assms by (simp add: buffer_slice_def take_map drop_map)
qed

text \<open>Byte \<open>x\<close> of the disk, as the driver finds it.\<close>

definition disk_byte :: "(nat \<Rightarrow> u8) \<Rightarrow> nat \<Rightarrow> u8" where
  "disk_byte img x = img (512 * sector_reached (of_nat (x div 512)) + x mod 512)"

lemma disk_byte_low:
  assumes "x < 33554432"
  shows "disk_byte img x = img x"
proof -
  have s: "x div 512 < 65536" using assms by (simp add: less_mult_imp_div_less)
  then have "sector_reached (of_nat (x div 512)) = x div 512"
    using sector_reached_low [of "of_nat (x div 512)"] by (simp add: unat_of_nat_u32)
  then show ?thesis by (simp add: disk_byte_def)
qed

lemma disk_bytes_sector:
  assumes "off + k \<le> 512"
  shows "map (disk_byte img) [512 * s + off..<512 * s + off + k] =
    map img [512 * sector_reached (of_nat s) + off..<512 * sector_reached (of_nat s) + off + k]"
proof (intro nth_equalityI)
  fix i assume "i < length (map (disk_byte img) [512 * s + off..<512 * s + off + k])"
  then have i: "off + i < 512" "i < k" using assms by simp_all
  have "512 * s + off + i = (off + i) + 512 * s" by simp
  then have "(512 * s + off + i) div 512 = s" "(512 * s + off + i) mod 512 = off + i"
    using i(1) by (simp_all only: div_mult_self2 mod_mult_self2) simp_all
  then show "map (disk_byte img) [512 * s + off..<512 * s + off + k] ! i =
      map img [512 * sector_reached (of_nat s) + off..<512 * sector_reached (of_nat s) + off + k] ! i"
    using i by (simp add: disk_byte_def add.assoc)
qed simp

lemma diskstreamer_read_disk:
  assumes "ata_serves dev img" and "stream_disk stream = disk_addr"
    and "0 \<le> stream_pos stream" and "0 \<le> n" and "stream_pos stream + n < 2147483648"
  shows "diskstreamer_read dev disk_addr stream n =
    Inr (0, map (disk_byte img) [nat (stream_pos stream)..<nat (stream_pos stream + n)],
         stream\<lparr>stream_pos := stream_pos stream + n\<rparr>)"
  using assms(2-)
proof (induction "nat n" arbitrary: stream n rule: less_induct)
  case less
  define p where "p = stream_pos stream"
  define s where "s = nat (p div 512)"
  define r where "r = sector_reached (of_nat s)"
  have p: "0 \<le> p" "p < 2147483648" using less.prems by (simp_all add: p_def)
  have s: "s < 4194304" using p by (simp add: s_def nat_less_iff)
  have word: "word_of_int (p div 512) = (of_nat s :: u32)"
  proof -
    have "0 \<le> p div 512" using p by (simp add: pos_imp_zdiv_nonneg_iff)
    then show ?thesis by (simp add: s_def)
  qed
  define off where "off = p mod 512"
  have off: "0 \<le> off" "off < 512" and ps: "p = 512 * int s + off"
    using p by (simp_all add: off_def s_def pos_imp_zdiv_nonneg_iff)
  have blk: "disk_read_block dev disk_addr (stream_disk stream) (word_of_int (p div 512)) 1 =
      Inr (0, map img [512 * r..<512 * (r + 1)])"
    unfolding word r_def using disk_read_block_img [OF assms(1) less.prems(1), of "of_nat s" 1] s by (simp add: unat_of_nat_u32)
  have start: "512 * s + nat off = nat p" using ps off by simp
  have slice: "buffer_slice (map img [512 * r..<512 * (r + 1)]) off k = Inr (map (disk_byte img) [nat p..<nat p + nat k])"
    if "0 \<le> k" "off + k \<le> 512" for k
    using sector_slice [OF off(1) that, of img r] disk_bytes_sector [of "nat off" "nat k" img s, folded r_def] that off(1)
    unfolding start by (simp only: nat_le_iff nat_add_distrib [symmetric])
  show ?case
  proof (cases "off + n \<ge> 512")
    case False
    have "diskstreamer_read dev disk_addr stream n =
        andthen (buffer_slice (map img [512 * r..<512 * (r + 1)]) off n)
          (\<lambda>out. Inr (0, out, stream\<lparr>stream_pos := p + n\<rparr>))"
      using False p blk
      by (subst diskstreamer_read.simps) (simp add: c_defs sdiv_nonneg off_def [symmetric] p_def [symmetric])
    then show ?thesis using False slice [OF less.prems(3)] p less.prems(3) by (simp add: p_def nat_add_distrib)
  next
    case True
    define k where "k = 512 - off"
    have k: "0 < k" "k \<le> n" "n - (off + n - 512) = k" "off + k \<le> 512" using off True by (simp_all add: k_def)
    let ?t = "stream\<lparr>stream_pos := p + k\<rparr>"
    have rest: "diskstreamer_read dev disk_addr ?t (n - k) =
        Inr (0, map (disk_byte img) [nat (p + k)..<nat (p + n)], ?t\<lparr>stream_pos := p + n\<rparr>)"
      using less.hyps [of "n - k" ?t] less.prems k p by (simp add: p_def)
    have "diskstreamer_read dev disk_addr stream n =
        andthen (buffer_slice (map img [512 * r..<512 * (r + 1)]) off k)
          (\<lambda>out. andthen (diskstreamer_read dev disk_addr ?t (n - k)) (\<lambda>(res, rest, stream).
             Inr (res, out @ rest, stream)))"
      using True p blk k(3)
      by (subst diskstreamer_read.simps) (simp add: c_defs sdiv_nonneg off_def [symmetric] p_def [symmetric])
    also have "\<dots> = Inr (0, map (disk_byte img) [nat p..<nat p + nat k] @ map (disk_byte img) [nat (p + k)..<nat (p + n)],
        ?t\<lparr>stream_pos := p + n\<rparr>)"
      using slice [OF less_imp_le [OF k(1)] k(4)] rest by simp
    also have "map (disk_byte img) [nat p..<nat p + nat k] @ map (disk_byte img) [nat (p + k)..<nat (p + n)] =
        map (disk_byte img) [nat p..<nat (p + n)]"
      using upt_add_eq_append [of "nat p" "nat p + nat k" "nat (n - k)"] p k less.prems(3)
      by (simp add: nat_add_distrib nat_diff_distrib flip: map_append)
    finally show ?thesis by (simp add: p_def)
  qed
qed

lemma diskstreamer_read_img:
  assumes "ata_serves dev img" and "stream_disk stream = disk_addr"
    and "0 \<le> stream_pos stream" and "0 \<le> n" and "stream_pos stream + n < 33554432"
  shows "diskstreamer_read dev disk_addr stream n =
    Inr (0, map img [nat (stream_pos stream)..<nat (stream_pos stream + n)],
         stream\<lparr>stream_pos := stream_pos stream + n\<rparr>)"
proof -
  have "map (disk_byte img) [nat (stream_pos stream)..<nat (stream_pos stream + n)] =
      map img [nat (stream_pos stream)..<nat (stream_pos stream + n)]"
    using assms(3-5) by (intro map_cong refl disk_byte_low) (simp add: zless_nat_eq_int_zless)
  then show ?thesis using diskstreamer_read_disk [OF assms(1-4)] assms(5) by simp
qed

section \<open>Properties of the disk\<close>

text \<open>
  Reading at most 256 sectors below \<open>2^28\<close>. \<open>disk_read_block\<close> delivers the sectors
  starting at \<open>sector_reached lba\<close>: the sector asked for below 65536, and for
  larger addresses the sector whose bits 16 to 23 are replaced by bits 24 to 31.
\<close>

theorem disk_read_block_reads:
  assumes "ata_serves dev img" and "unat lba < 268435456" and "0 \<le> n" "n \<le> 256"
  shows "disk_read_block dev d d lba n =
      Inr (0, map img [512 * sector_reached lba..<512 * (sector_reached lba + nat n)]) \<and>
    (unat lba < 65536 \<longrightarrow> sector_reached lba = unat lba) \<and>
    (65536 \<le> unat lba \<longrightarrow> unat lba < 16777216 \<longrightarrow> sector_reached lba \<noteq> unat lba)"
proof -
  have "65536 \<le> unat lba \<Longrightarrow> unat lba < 16777216 \<Longrightarrow> sector_reached lba \<noteq> unat lba" by (simp add: sector_reached_def)
  then show ?thesis using disk_read_block_img [OF assms(1) refl assms(2-4), of d] sector_reached_low [of lba] by blast
qed

theorem disk_read_block_reads_witness:
  "sector_reached 70000 = 4464 \<and>
   disk_read_block (image_drive of_nat) 1 1 70000 0 = Inr (0, [])"
  using disk_read_block_reads [where d = 1 and lba = 70000 and n = 0, OF image_drive_serves [of of_nat]]
  by (simp add: sector_reached_def)

text \<open>
  C20: the stream on a drive that follows LBA28. A read of \<open>n\<close> bytes that ends below 2 GiB returns 0 and
  advances the position by \<open>n\<close>, across any number of sector boundaries. It delivers the bytes \<open>disk_byte\<close>
  says: those at the position as long as the read ends within the first 32 MiB, and beyond that the bytes of the
  sectors the driver reaches instead, because it drops bits 16 to 23 of the sector number. Every command
  it sends is a read in LBA mode for one sector, the one that is then taken from the drive.
\<close>

theorem diskstreamer_read_bytes:
  assumes "ata_serves dev img" and "stream_disk stream = disk_addr"
    and "0 \<le> stream_pos stream" and "0 \<le> n" and "stream_pos stream + n < 2147483648"
  shows "diskstreamer_read dev disk_addr stream n =
      Inr (0, map (disk_byte img) [nat (stream_pos stream)..<nat (stream_pos stream + n)],
           stream\<lparr>stream_pos := stream_pos stream + n\<rparr>) \<and>
    (stream_pos stream + n \<le> 33554432 \<longrightarrow>
       map (disk_byte img) [nat (stream_pos stream)..<nat (stream_pos stream + n)] =
       map img [nat (stream_pos stream)..<nat (stream_pos stream + n)]) \<and>
    (\<forall>lba. unat lba < 4194304 \<longrightarrow> lba_read (read_command lba 1) \<and> sector_count (read_command lba 1) = 1)"
proof (intro conjI impI allI)
  show "map (disk_byte img) [nat (stream_pos stream)..<nat (stream_pos stream + n)] =
      map img [nat (stream_pos stream)..<nat (stream_pos stream + n)]" if "stream_pos stream + n \<le> 33554432"
    using that assms(3,4) by (intro map_cong refl disk_byte_low) (simp add: zless_nat_eq_int_zless)
  show "lba_read (read_command lba 1)" if "unat lba < 4194304" for lba using that by (intro read_command_lba) simp
  show "sector_count (read_command lba 1) = 1" for lba using read_command_count [of 1 lba] by simp
qed (rule diskstreamer_read_disk [OF assms])

text \<open>Across a sector boundary, and at 32 MiB, where the first sector of the disk is read again.\<close>

theorem diskstreamer_read_bytes_witness:
  "diskstreamer_read (image_drive of_nat) 1 \<lparr>stream_pos = 510, stream_disk = 1\<rparr> 4 =
     Inr (0, [254, 255, 0, 1], \<lparr>stream_pos = 514, stream_disk = 1\<rparr>) \<and>
   diskstreamer_read (image_drive (\<lambda>x. if x < 512 then 7 else 9)) 1 \<lparr>stream_pos = 33554432, stream_disk = 1\<rparr> 2 =
     Inr (0, [7, 7], \<lparr>stream_pos = 33554434, stream_disk = 1\<rparr>)"
proof
  have "[33554432..<33554434 :: nat] = [33554432, 33554433]" by (simp add: upt_rec)
  then show "diskstreamer_read (image_drive (\<lambda>x. if x < 512 then 7 else 9)) 1 \<lparr>stream_pos = 33554432, stream_disk = 1\<rparr> 2 =
      Inr (0, [7, 7], \<lparr>stream_pos = 33554434, stream_disk = 1\<rparr>)"
    using diskstreamer_read_bytes [OF image_drive_serves, of "\<lparr>stream_pos = 33554432, stream_disk = 1\<rparr>" 1 2 "\<lambda>x. if x < 512 then 7 else 9"]
    by (simp add: disk_byte_def sector_reached_def)
qed (use diskstreamer_read_bytes [OF image_drive_serves, of "\<lparr>stream_pos = 510, stream_disk = 1\<rparr>" 1 4 of_nat]
  in \<open>simp add: upt_rec\<close>)

end
