(* ===== verification/Terminal.thy ===== *)
theory Terminal
  imports Paging CString_Props
begin

text \<open>
  The terminal of \<^verbatim>\<open>src/kernel.c\<close>: an array of 16-bit cells at \<open>video_mem\<close> and a cursor.
  \<open>terminal_backspace\<close> calls \<open>terminal_writechar(" ", 15)\<close>: it passes the address of a string
  where a character is expected. The low byte of that address is the linker's and a parameter,
  \<open>blank\<close>.
\<close>

unbundle bit_operations_syntax

section \<open>State\<close>

definition VGA_WIDTH :: u16 where [c_defs]: "VGA_WIDTH = 80"
definition VGA_HEIGHT :: nat where [c_defs]: "VGA_HEIGHT = 20"

record screen = mmu +
  video_mem :: u32
  terminal_row :: u16
  terminal_col :: u16

section \<open>Operations\<close>

text \<open>Both arguments are \<open>char\<close> and are extended with their sign before they are combined.\<close>

definition terminal_make_char :: "u8 \<Rightarrow> u8 \<Rightarrow> u16" where
  "terminal_make_char c colour = push_bit 8 (scast colour) OR scast c"

definition terminal_putchar :: "u16 \<Rightarrow> u16 \<Rightarrow> u8 \<Rightarrow> u8 \<Rightarrow> 'a screen_scheme \<Rightarrow> 'a screen_scheme" where
  "terminal_putchar x y c colour s =
     s\<lparr>mem := store16 (mem s) (video_mem s + 2 * (ucast y * ucast VGA_WIDTH + ucast x))
                 (terminal_make_char c colour)\<rparr>"

definition cursor_rank :: "'a screen_scheme \<Rightarrow> nat" where
  "cursor_rank s = 65536 * unat (terminal_row s) + unat (terminal_col s)"

lemma unat_dec_u16: "w \<noteq> 0 \<Longrightarrow> unat (w - 1 :: u16) = unat w - 1"
  by (subst unat_sub) (auto simp: word_le_nat_alt unat_gt_0 Suc_le_eq)

lemma unat_u16_pos: "(w :: u16) \<noteq> 0 \<Longrightarrow> 0 < unat w"
  by (simp add: unat_gt_0)

function terminal_writechar :: "u8 \<Rightarrow> u8 \<Rightarrow> u8 \<Rightarrow> 'a screen_scheme \<Rightarrow> 'a screen_scheme"
  and terminal_backspace :: "u8 \<Rightarrow> 'a screen_scheme \<Rightarrow> 'a screen_scheme" where
  "terminal_writechar blank c colour s =
     (if c = 10 then s\<lparr>terminal_row := terminal_row s + 1, terminal_col := 0\<rparr>
      else if c = 0x08 then terminal_backspace blank s
      else
        let s = terminal_putchar (terminal_col s) (terminal_row s) c colour s;
            s = s\<lparr>terminal_col := terminal_col s + 1\<rparr>
        in if terminal_col s \<ge> VGA_WIDTH then s\<lparr>terminal_col := 0, terminal_row := terminal_row s + 1\<rparr>
           else s)"
| "terminal_backspace blank s =
     (if terminal_row s = 0 \<and> terminal_col s = 0 then s
      else
        let s = (if terminal_col s = 0 then s\<lparr>terminal_row := terminal_row s - 1, terminal_col := VGA_WIDTH\<rparr>
                 else s);
            s = s\<lparr>terminal_col := terminal_col s - 1\<rparr>;
            s = terminal_writechar blank blank 15 s
        in s\<lparr>terminal_col := terminal_col s - 1\<rparr>)"
  by pat_completeness auto

termination
proof (relation "measure (\<lambda>x. case x of Inl (blank, c, colour, s) \<Rightarrow> 2 * cursor_rank s + 1
    | Inr (blank, s) \<Rightarrow> 2 * cursor_rank s)", goal_cases)
  case 1
  then show ?case by simp
next
  case (2 blank c colour s)
  then show ?case by simp
next
  case (3 blank s t u)
  then show ?case
    using unat_u16_pos [of "terminal_row s"] unat_u16_pos [of "terminal_col s"]
    by (cases "terminal_col s = 0") (auto simp: cursor_rank_def c_defs unat_dec_u16)
qed

declare terminal_writechar.simps [simp del] terminal_backspace.simps [simp del]

text \<open>\<open>terminal_initialize\<close> declares locals that hide the cursor, which it does not reset.\<close>

definition terminal_initialize :: "'a screen_scheme \<Rightarrow> 'a screen_scheme" where
  "terminal_initialize s =
     fold (\<lambda>y. fold (\<lambda>x. terminal_putchar (of_nat x) (of_nat y) 32 0) [0..<unat VGA_WIDTH]) [0..<VGA_HEIGHT]
       (s\<lparr>video_mem := 0xB8000\<rparr>)"

text \<open>
  \<open>print\<close> measures the string first. A string that the program text contains is given by its
  characters, one at an address by the address.
\<close>

definition print_chars :: "u8 \<Rightarrow> u8 list \<Rightarrow> 'a screen_scheme \<Rightarrow> 'a screen_scheme" where
  "print_chars blank cs s = fold (\<lambda>c. terminal_writechar blank c 15) cs s"

fun print_loop :: "u8 \<Rightarrow> u32 \<Rightarrow> nat \<Rightarrow> nat \<Rightarrow> 'a screen_scheme \<Rightarrow> 'a screen_scheme" where
  "print_loop blank str i 0 s = s"
| "print_loop blank str i (Suc n) s =
     print_loop blank str (Suc i) n (terminal_writechar blank (mem s (str + of_nat i)) 15 s)"

definition print :: "u8 \<Rightarrow> u32 \<Rightarrow> 'a screen_scheme \<Rightarrow> 'a screen_scheme outcome" where
  "print blank str s =
     (case strlen (mem s) str of None \<Rightarrow> Inl Hang | Some len \<Rightarrow> Inr (print_loop blank str 0 (nat len) s))"

end
