(* ===== verification/Terminal_Props.thy ===== *)
theory Terminal_Props
  imports Terminal
begin

text \<open>
  What the terminal writes: cell number \<open>n\<close> of the video memory is row \<open>n div 80\<close>, column
  \<open>n mod 80\<close>, and an ordinary character goes to the cell at the cursor.
\<close>

unbundle bit_operations_syntax

definition cursor_cell :: "'a screen_scheme \<Rightarrow> nat" where
  "cursor_cell s = 80 * unat (terminal_row s) + unat (terminal_col s)"

definition cell_addr :: "'a screen_scheme \<Rightarrow> nat \<Rightarrow> u32" where
  "cell_addr s n = video_mem s + of_nat (2 * n)"

text \<open>A character that is neither a line feed nor a backspace.\<close>

definition ordinary :: "u8 \<Rightarrow> bool" where
  "ordinary c \<longleftrightarrow> c \<noteq> 10 \<and> c \<noteq> 8"


lemma cell_number: "(of_nat (2 * (80 * a + b)) :: u32) = 2 * (of_nat a * 80 + of_nat b)"
  by (simp add: algebra_simps)

lemma putchar_at_cursor:
  "mem (terminal_putchar (terminal_col s) (terminal_row s) c colour s) =
    store16 (mem s) (cell_addr s (cursor_cell s)) (terminal_make_char c colour)"
proof -
  have "ucast VGA_WIDTH = (80 :: u32)" by (simp add: c_defs)
  moreover have "cell_addr s (cursor_cell s) =
      video_mem s + 2 * (of_nat (unat (terminal_row s)) * 80 + of_nat (unat (terminal_col s)))"
    by (simp only: cell_addr_def cursor_cell_def cell_number)
  ultimately show ?thesis by (simp add: terminal_putchar_def)
qed

lemma putchar_fields [simp]:
  "terminal_row (terminal_putchar x y c colour s) = terminal_row s"
  "terminal_col (terminal_putchar x y c colour s) = terminal_col s"
  "video_mem (terminal_putchar x y c colour s) = video_mem s"
  by (simp_all add: terminal_putchar_def)


lemma cell_addr_cong: "video_mem t = video_mem s \<Longrightarrow> cell_addr t n = cell_addr s n"
  by (simp add: cell_addr_def)

lemma cursor_row:
  "unat (terminal_col s) < 80 \<Longrightarrow> unat (terminal_row s) = cursor_cell s div 80"
  by (simp add: cursor_cell_def)

definition cells :: "u8 \<Rightarrow> u8 list \<Rightarrow> u8 list" where
  "cells colour cs = concat (map (\<lambda>c. word_bytes (terminal_make_char c colour)) cs)"

lemma length_cells [simp]: "length (cells colour cs) = 2 * length cs"
  by (induction cs) (simp_all add: cells_def)

section \<open>The page as a list of writes\<close>

text \<open>
  Backspace. Not at the start of a line, it steps back and blanks the cell it reaches. At
  the start of a line other than the first it does not return to the end of the
  previous line: it ends in column 65535, because writing the blank already wrapped the cursor.
\<close>

theorem terminal_backspace_effect:
  assumes "ordinary blank" and "unat (terminal_col s) < 80"
  shows "if terminal_row s = 0 \<and> terminal_col s = 0 then terminal_backspace blank s = s
    else if terminal_col s \<noteq> 0
    then terminal_row (terminal_backspace blank s) = terminal_row s \<and>
      terminal_col (terminal_backspace blank s) = terminal_col s - 1 \<and>
      mem (terminal_backspace blank s) =
        store16 (mem s) (cell_addr s (cursor_cell s - 1)) (terminal_make_char blank 15)
    else terminal_row (terminal_backspace blank s) = terminal_row s \<and>
      terminal_col (terminal_backspace blank s) = 65535"
proof (cases "terminal_col s = 0")
  case True
  then show ?thesis
    using assms(1)
    by (auto simp: terminal_backspace.simps [of blank s] terminal_writechar.simps [of blank blank]
        ordinary_def Let_def VGA_WIDTH_def)
next
  case False
  let ?s = "s\<lparr>terminal_col := terminal_col s - 1\<rparr>"
  have dec: "unat (terminal_col s - 1) = unat (terminal_col s) - 1" using False by (rule unat_dec_u16)
  have "0 < unat (terminal_col s)" using False by (rule unat_u16_pos)
  then have cell: "cursor_cell ?s = cursor_cell s - 1" "cell_addr ?s = cell_addr s"
    by (auto simp: cursor_cell_def dec cell_addr_def fun_eq_iff)
  have lt: "\<not> 80 \<le> terminal_col s" using assms(2) by (simp add: word_le_nat_alt)
  have w: "terminal_writechar blank blank 15 ?s =
      (terminal_putchar (terminal_col ?s) (terminal_row ?s) blank 15 ?s)\<lparr>terminal_col := terminal_col s\<rparr>"
    using assms(1) lt by (simp add: terminal_writechar.simps [of blank blank] ordinary_def Let_def VGA_WIDTH_def)
  show ?thesis
    using False putchar_at_cursor [of ?s blank 15]
    by (simp add: terminal_backspace.simps [of blank s] w [unfolded screen.simps] cell Let_def)
qed










section \<open>Printing\<close>



definition demo_screen :: screen where
  "demo_screen = \<lparr>mem = store_bytes (\<lambda>_. 0) 16 [72, 105, 10, 0], kernel_heap = demo_heap, cr3 = 0,
     current_directory = 0, video_mem = 0xB8000, terminal_row = 1843, terminal_col = 15\<rparr>"


text \<open>\<open>demo_screen\<close> with the cursor at the start of line 5.\<close>

theorem terminal_backspace_effect_witness:
  "terminal_col (terminal_backspace 32 (demo_screen\<lparr>terminal_row := 5, terminal_col := 0\<rparr>)) = 65535 \<and>
   terminal_col (terminal_backspace 32 (demo_screen\<lparr>terminal_row := 5, terminal_col := 7\<rparr>)) = 6"
  using terminal_backspace_effect [of 32 "demo_screen\<lparr>terminal_row := 5, terminal_col := 0\<rparr>"]
    terminal_backspace_effect [of 32 "demo_screen\<lparr>terminal_row := 5, terminal_col := 7\<rparr>"]
  by (simp add: ordinary_def)

end
