(* ===== verification/Keyboard.thy ===== *)
theory Keyboard
  imports Prelude
begin

text \<open>
  \<^verbatim>\<open>src/keyboard/keyboard.c\<close> and \<^verbatim>\<open>ps2.c\<close>: the ring buffer every process has for its keys,
  the list of keyboard drivers, and the translation of scan codes.
\<close>

unbundle bit_operations_syntax

section \<open>The ring buffer of a process (process.h)\<close>

definition SLOBOS_KEYBOARD_BUFFER_SIZE :: nat where [c_defs]: "SLOBOS_KEYBOARD_BUFFER_SIZE = 1024"

record keyboard_buffer =
  kb_buffer :: "u8 list"
  kb_tail :: u32
  kb_head :: u32

text \<open>
  \<open>tail\<close> and \<open>head\<close> are \<open>int\<close>s; the remainder is taken with \<open>sizeof\<close>, so on unsigned words.
\<close>

definition keyboard_get_tail_index :: "keyboard_buffer \<Rightarrow> nat" where
  "keyboard_get_tail_index kb = unat (kb_tail kb) mod SLOBOS_KEYBOARD_BUFFER_SIZE"

definition keyboard_backspace :: "keyboard_buffer \<Rightarrow> keyboard_buffer" where
  "keyboard_backspace kb =
     (let kb = kb\<lparr>kb_tail := kb_tail kb - 1\<rparr>;
          real_index = keyboard_get_tail_index kb
      in kb\<lparr>kb_buffer := (kb_buffer kb)[real_index := 0]\<rparr>)"

text \<open>
  \<open>keyboard_push\<close> works on the buffer of \<open>process_current()\<close>, when there is one;
  \<open>keyboard_pop\<close> on that of the current task's process. Pop tests \<open>!task_current\<close>, the address
  of the function, which is never null.
\<close>

definition keyboard_push :: "u8 \<Rightarrow> keyboard_buffer \<Rightarrow> keyboard_buffer" where
  "keyboard_push c kb =
     (if c = 0 then kb
      else
        let real_index = keyboard_get_tail_index kb
        in kb\<lparr>kb_buffer := (kb_buffer kb)[real_index := c], kb_tail := kb_tail kb + 1\<rparr>)"

definition keyboard_pop :: "keyboard_buffer \<Rightarrow> u8 \<times> keyboard_buffer" where
  "keyboard_pop kb =
     (let real_index = unat (kb_head kb) mod SLOBOS_KEYBOARD_BUFFER_SIZE;
          c = kb_buffer kb ! real_index
      in if c = 0 then (0, kb)
         else (c, kb\<lparr>kb_buffer := (kb_buffer kb)[real_index := 0], kb_head := kb_head kb + 1\<rparr>))"

section \<open>The list of drivers\<close>

text \<open>
  A driver is a structure at an address: its init function (null or one that returns a status)
  and the next driver.
\<close>

record keyboard =
  kbd_init :: "int option"
  kbd_next :: u32

record keyboard_list =
  kbds :: "u32 \<rightharpoonup> keyboard"
  keyboard_list_head :: u32
  keyboard_list_tail :: u32

definition keyboard_insert :: "u32 \<Rightarrow> keyboard_list \<Rightarrow> (int \<times> keyboard_list) outcome" where
  "keyboard_insert keyboard s =
     (case kbds s keyboard of None \<Rightarrow> Inl (BadPointer keyboard)
      | Some k \<Rightarrow>
        (case kbd_init k of None \<Rightarrow> Inr (- EINVARG, s)
         | Some status \<Rightarrow>
           if keyboard_list_tail s \<noteq> 0 then
             (case kbds s (keyboard_list_tail s) of None \<Rightarrow> Inl (BadPointer (keyboard_list_tail s))
              | Some t \<Rightarrow> Inr (status, s\<lparr>kbds := (kbds s)(keyboard_list_tail s \<mapsto> t\<lparr>kbd_next := keyboard\<rparr>),
                                        keyboard_list_tail := keyboard\<rparr>))
           else Inr (status, s\<lparr>keyboard_list_head := keyboard, keyboard_list_tail := keyboard\<rparr>)))"

section \<open>Scan codes (ps2.c)\<close>

definition keyboard_scan_set1 :: "u8 list" where
  "keyboard_scan_set1 =
     [0x00, 0x1B, 0x31, 0x32, 0x33, 0x34, 0x35,
      0x36, 0x37, 0x38, 0x39, 0x30, 0x2D, 0x3D,
      0x08, 0x09, 0x51, 0x57, 0x45, 0x52, 0x54,
      0x59, 0x55, 0x49, 0x4F, 0x50, 0x5B, 0x5D,
      0x0D, 0x00, 0x41, 0x53, 0x44, 0x46, 0x47,
      0x48, 0x4A, 0x4B, 0x4C, 0x3B, 0x27, 0x60,
      0x00, 0x5C, 0x5A, 0x58, 0x43, 0x56, 0x42,
      0x4E, 0x4D, 0x2C, 0x2E, 0x2F, 0x00, 0x2A,
      0x00, 0x20, 0x00, 0x00, 0x00, 0x00,
      0x00, 0x00, 0x00, 0x00, 0x00, 0x00,
      0x00, 0x37, 0x38, 0x39, 0x2D, 0x34, 0x35,
      0x36, 0x2B, 0x31, 0x32, 0x33, 0x30, 0x2E]"

definition ps2_keyboard_scancode_to_char :: "u8 \<Rightarrow> u8 outcome" where
  "ps2_keyboard_scancode_to_char scancode =
     (if unat scancode > length keyboard_scan_set1 then Inr 0
      else if unat scancode < length keyboard_scan_set1 then Inr (keyboard_scan_set1 ! unat scancode)
      else Inl (OutOfBounds (int (unat scancode))))"

definition PS2_KEYBOARD_KEY_RELEASED :: u8 where "PS2_KEYBOARD_KEY_RELEASED = 0x80"

text \<open>
  The handler without the page switches around it: the scan code it read from port 0x60, and
  the buffer of the current process if there is one.
\<close>

definition ps2_keyboard_handle_interrupt :: "u8 \<Rightarrow> keyboard_buffer option \<Rightarrow> keyboard_buffer option outcome" where
  "ps2_keyboard_handle_interrupt scancode kb =
     (if scancode AND PS2_KEYBOARD_KEY_RELEASED \<noteq> 0 then Inr kb
      else andthen (ps2_keyboard_scancode_to_char scancode) (\<lambda>c.
        Inr (if c \<noteq> 0 then map_option (keyboard_push c) kb else kb)))"

text \<open>\<open>n\<close> pops in a row, with what they returned.\<close>

fun pops :: "('q \<Rightarrow> u8 \<times> 'q) \<Rightarrow> nat \<Rightarrow> 'q \<Rightarrow> u8 list \<times> 'q" where
  "pops p 0 q = ([], q)"
| "pops p (Suc n) q = (let (c, q) = p q; (cs, q) = pops p n q in (c # cs, q))"

section \<open>The contract of a bounded queue\<close>

text \<open>
  What the system calls rely on: characters come out in the order they went in, none is lost
  while fewer than \<open>cap\<close> wait, and an empty queue gives 0.
\<close>

locale key_queue =
  fixes inv :: "'q \<Rightarrow> bool"
    and contents :: "'q \<Rightarrow> u8 list"
    and cap :: nat
    and push :: "u8 \<Rightarrow> 'q \<Rightarrow> 'q"
    and pop :: "'q \<Rightarrow> u8 \<times> 'q"
    and erase :: "'q \<Rightarrow> 'q"
  assumes push_inv: "inv q \<Longrightarrow> c \<noteq> 0 \<Longrightarrow> length (contents q) < cap \<Longrightarrow> inv (push c q)"
    and push_contents: "inv q \<Longrightarrow> c \<noteq> 0 \<Longrightarrow> length (contents q) < cap \<Longrightarrow> contents (push c q) = contents q @ [c]"
    and pop_empty: "inv q \<Longrightarrow> contents q = [] \<Longrightarrow> pop q = (0, q)"
    and pop_inv: "inv q \<Longrightarrow> inv (snd (pop q))"
    and pop_contents: "inv q \<Longrightarrow> contents q = c # cs \<Longrightarrow> fst (pop q) = c \<and> contents (snd (pop q)) = cs"
    and erase_inv: "inv q \<Longrightarrow> contents q \<noteq> [] \<Longrightarrow> inv (erase q)"
    and erase_contents: "inv q \<Longrightarrow> contents q \<noteq> [] \<Longrightarrow> contents (erase q) = butlast (contents q)"
begin

lemma push_all:
  assumes "inv q" and "0 \<notin> set cs" and "length (contents q) + length cs \<le> cap"
  shows "inv (fold push cs q) \<and> contents (fold push cs q) = contents q @ cs"
  using assms
proof (induction cs arbitrary: q)
  case Nil
  then show ?case by simp
next
  case (Cons c cs)
  then have "inv (push c q)" "contents (push c q) = contents q @ [c]"
    using push_inv push_contents by auto
  with Cons show ?case by simp
qed

text \<open>What went into an empty queue comes out in the same order.\<close>

lemma pops_contents:
  assumes "inv q" and "contents q = cs"
  shows "fst (pops pop (length cs) q) = cs \<and> contents (snd (pops pop (length cs) q)) = [] \<and>
    inv (snd (pops pop (length cs) q))"
  using assms
proof (induction cs arbitrary: q)
  case Nil
  then show ?case by simp
next
  case (Cons c cs)
  then have "inv (snd (pop q))" "fst (pop q) = c" "contents (snd (pop q)) = cs"
    using pop_inv pop_contents by auto
  with Cons.IH [of "snd (pop q)"] show ?case by (simp add: case_prod_unfold Let_def)
qed

lemma fifo:
  assumes "inv q" and "contents q = []" and "0 \<notin> set cs" and "length cs \<le> cap"
  shows "fst (pops pop (length cs) (fold push cs q)) = cs \<and>
    contents (snd (pops pop (length cs) (fold push cs q))) = []"
  using push_all [OF assms(1,3)] pops_contents [of "fold push cs q" cs] assms(2,4) by simp

lemma erase_undoes_push:
  assumes "inv q" and "c \<noteq> 0" and "length (contents q) < cap"
  shows "contents (erase (push c q)) = contents q"
  using push_inv [OF assms] push_contents [OF assms] erase_contents [of "push c q"] by simp

end

section \<open>The ring buffer is such a queue\<close>

definition kb_len :: "keyboard_buffer \<Rightarrow> nat" where
  "kb_len kb = unat (kb_tail kb - kb_head kb)"

definition kb_at :: "keyboard_buffer \<Rightarrow> nat \<Rightarrow> u8" where
  "kb_at kb k = kb_buffer kb ! ((unat (kb_head kb) + k) mod 1024)"

text \<open>The non-zero cells are exactly those from \<open>head\<close> up to \<open>tail\<close>.\<close>

definition kb_inv :: "keyboard_buffer \<Rightarrow> bool" where
  "kb_inv kb \<longleftrightarrow> length (kb_buffer kb) = 1024 \<and> kb_len kb \<le> 1024 \<and>
     (\<forall>k<1024. kb_at kb k \<noteq> 0 \<longleftrightarrow> k < kb_len kb)"

definition kb_contents :: "keyboard_buffer \<Rightarrow> u8 list" where
  "kb_contents kb = map (kb_at kb) [0..<kb_len kb]"

lemma ring_index_eq:
  assumes "k < 1024" and "l < 1024"
  shows "(h + k) mod 1024 = (h + l) mod (1024 :: nat) \<longleftrightarrow> k = l"
proof -
  have "i = j" if "(h + i) mod 1024 = (h + j) mod (1024 :: nat)" "j \<le> i" "i < 1024" for i j
  proof -
    have "1024 dvd (h + i) - (h + j)" using that by (subst mod_eq_dvd_iff_nat [symmetric]) auto
    then show ?thesis using that by (auto dest!: dvd_imp_le)
  qed
  from this [of k l] this [of l k] assms show ?thesis by (cases "k \<le> l") auto
qed

lemma unat_mod_ring: "unat (a + b :: u32) mod 1024 = (unat a + unat b) mod 1024"
  by (simp add: unat_word_ariths mod_mod_cancel)

lemma tail_index: "keyboard_get_tail_index kb = (unat (kb_head kb) + kb_len kb) mod 1024"
proof -
  have "kb_tail kb = kb_head kb + (kb_tail kb - kb_head kb)" by simp
  then show ?thesis
    unfolding keyboard_get_tail_index_def kb_len_def SLOBOS_KEYBOARD_BUFFER_SIZE_def
    by (metis unat_mod_ring)
qed

lemma kb_push:
  assumes "kb_inv kb" and "c \<noteq> 0" and "kb_len kb < 1024"
  shows "kb_len (keyboard_push c kb) = kb_len kb + 1"
    and "k < 1024 \<Longrightarrow> kb_at (keyboard_push c kb) k = (if k = kb_len kb then c else kb_at kb k)"
    and "length (kb_buffer (keyboard_push c kb)) = 1024"
proof -
  have e: "kb_tail kb + 1 - kb_head kb = (kb_tail kb - kb_head kb) + 1" by simp
  show "kb_len (keyboard_push c kb) = kb_len kb + 1"
    using assms(2,3) unat_add_u32 [of "kb_tail kb - kb_head kb" 1]
    by (simp add: kb_len_def keyboard_push_def Let_def e del: add_diff_eq)
  show "length (kb_buffer (keyboard_push c kb)) = 1024"
    using assms by (simp add: keyboard_push_def kb_inv_def Let_def)
  show "k < 1024 \<Longrightarrow> kb_at (keyboard_push c kb) k = (if k = kb_len kb then c else kb_at kb k)"
    using assms ring_index_eq [of k "kb_len kb" "unat (kb_head kb)"]
    by (auto simp: kb_at_def keyboard_push_def kb_inv_def tail_index Let_def nth_list_update)
qed

lemma kb_pop:
  assumes "kb_inv kb" and "0 < kb_len kb"
  shows "fst (keyboard_pop kb) = kb_at kb 0" and "kb_len (snd (keyboard_pop kb)) = kb_len kb - 1"
    and "k < 1024 \<Longrightarrow> kb_at (snd (keyboard_pop kb)) k = (if k = 1023 then 0 else kb_at kb (Suc k))"
    and "length (kb_buffer (snd (keyboard_pop kb))) = 1024"
proof -
  have nz: "kb_buffer kb ! (unat (kb_head kb) mod 1024) \<noteq> 0"
    using assms by (auto simp: kb_inv_def kb_at_def dest!: spec [of _ 0])
  have pop: "keyboard_pop kb = (kb_buffer kb ! (unat (kb_head kb) mod 1024),
      kb\<lparr>kb_buffer := (kb_buffer kb)[unat (kb_head kb) mod 1024 := 0], kb_head := kb_head kb + 1\<rparr>)"
    using nz by (simp add: keyboard_pop_def c_defs Let_def)
  show "fst (keyboard_pop kb) = kb_at kb 0" by (simp add: pop kb_at_def)
  show "length (kb_buffer (snd (keyboard_pop kb))) = 1024" using assms by (simp add: pop kb_inv_def)
  have e: "kb_tail kb - (kb_head kb + 1) = (kb_tail kb - kb_head kb) - 1" by simp
  have "kb_len (snd (keyboard_pop kb)) = unat (kb_tail kb - (kb_head kb + 1))" by (simp add: pop kb_len_def)
  then show "kb_len (snd (keyboard_pop kb)) = kb_len kb - 1"
    unfolding e using assms(2) unat_dec_u32 [of "kb_tail kb - kb_head kb"] by (simp add: kb_len_def)
  assume k: "k < 1024"
  have "(unat (kb_head kb + 1) + k) mod 1024 = (unat (kb_head kb) + Suc k) mod 1024"
    using unat_mod_ring [of "kb_head kb" 1] by (simp add: mod_add_left_eq [symmetric, of "unat (kb_head kb + 1)"])
      (simp add: mod_add_left_eq mod_Suc_eq)
  then show "kb_at (snd (keyboard_pop kb)) k = (if k = 1023 then 0 else kb_at kb (Suc k))"
    using k assms(1) ring_index_eq [of "Suc k" 0 "unat (kb_head kb)"]
    by (auto simp: pop kb_at_def kb_inv_def nth_list_update)
qed

lemma kb_erase:
  assumes "kb_inv kb" and "0 < kb_len kb"
  shows "kb_len (keyboard_backspace kb) = kb_len kb - 1"
    and "k < 1024 \<Longrightarrow> kb_at (keyboard_backspace kb) k = (if k = kb_len kb - 1 then 0 else kb_at kb k)"
    and "length (kb_buffer (keyboard_backspace kb)) = 1024"
proof -
  let ?k = "kb\<lparr>kb_tail := kb_tail kb - 1\<rparr>"
  have e: "kb_tail kb - 1 - kb_head kb = (kb_tail kb - kb_head kb) - 1" by simp
  have "kb_len ?k = unat (kb_tail kb - 1 - kb_head kb)" by (simp add: kb_len_def)
  then have len: "kb_len ?k = kb_len kb - 1"
    unfolding e using assms(2) unat_dec_u32 [of "kb_tail kb - kb_head kb"] by (simp add: kb_len_def)
  then have i: "keyboard_get_tail_index ?k = (unat (kb_head kb) + (kb_len kb - 1)) mod 1024"
    by (simp add: tail_index)
  have bk: "keyboard_backspace kb = ?k\<lparr>kb_buffer := (kb_buffer kb)[keyboard_get_tail_index ?k := 0]\<rparr>"
    by (simp add: keyboard_backspace_def Let_def)
  show "kb_len (keyboard_backspace kb) = kb_len kb - 1"
    unfolding bk using len by (simp add: kb_len_def)
  show "length (kb_buffer (keyboard_backspace kb)) = 1024"
    unfolding bk using assms by (simp add: kb_inv_def)
  have "kb_len kb - 1 < 1024" using assms unfolding kb_inv_def by linarith
  then show "k < 1024 \<Longrightarrow> kb_at (keyboard_backspace kb) k = (if k = kb_len kb - 1 then 0 else kb_at kb k)"
    unfolding bk i using assms(1) ring_index_eq [of k "kb_len kb - 1" "unat (kb_head kb)"]
    by (auto simp: kb_at_def kb_inv_def nth_list_update)
qed

interpretation ring: key_queue kb_inv kb_contents 1024 keyboard_push keyboard_pop keyboard_backspace
proof (unfold_locales, goal_cases)
  case (1 q c)
  then show ?case
    using kb_push [of q c] by (auto simp: kb_contents_def kb_inv_def less_Suc_eq)
next
  case (2 q c)
  then show ?case
    using kb_push [of q c] by (auto simp: kb_contents_def intro!: map_cong)
next
  case (3 q)
  then have "kb_at q 0 = 0" by (simp add: kb_contents_def kb_inv_def)
  then show ?case by (simp add: keyboard_pop_def kb_at_def c_defs)
next
  case (4 q)
  show ?case
  proof (cases "0 < kb_len q")
    case True
    then show ?thesis using 4 kb_pop [of q] by (auto simp: kb_inv_def)
  next
    case False
    then have "kb_at q 0 = 0" using 4 by (simp add: kb_inv_def)
    then show ?thesis using 4 by (simp add: keyboard_pop_def kb_at_def c_defs)
  qed
next
  case (5 q c cs)
  then have pos: "0 < kb_len q" by (cases "kb_len q") (simp_all add: kb_contents_def)
  have le: "kb_len q \<le> 1024" using 5 by (simp add: kb_inv_def)
  have "kb_contents q = kb_at q 0 # map (\<lambda>k. kb_at q (Suc k)) [0..<kb_len q - 1]"
  proof -
    obtain j where j: "kb_len q = Suc j" using pos by (cases "kb_len q") auto
    have "[0..<Suc j] = 0 # map Suc [0..<j]" by (simp add: upt_conv_Cons map_Suc_upt del: upt_Suc)
    then show ?thesis by (simp add: kb_contents_def j comp_def del: upt_Suc)
  qed
  moreover have "kb_contents (snd (keyboard_pop q)) = map (\<lambda>k. kb_at q (Suc k)) [0..<kb_len q - 1]"
    using 5 pos le kb_pop [of q] by (auto simp: kb_contents_def)
  ultimately show ?case using 5 pos kb_pop(1) [of q] by simp
next
  case (6 q)
  then show ?case using kb_erase [of q] by (auto simp: kb_contents_def kb_inv_def)
next
  case (7 q)
  then have pos: "0 < kb_len q" by (simp add: kb_contents_def)
  have le: "kb_len q \<le> 1024" using 7 by (simp add: kb_inv_def)
  have "butlast (map (kb_at q) [0..<kb_len q]) = map (kb_at q) [0..<kb_len q - 1]"
    using pos by (cases "kb_len q") simp_all
  then show ?case using 7 pos le kb_erase [of q] by (auto simp: kb_contents_def)
qed

section \<open>Properties of the keyboard\<close>

text \<open>
  C21: the ring buffer is a first-in first-out queue. Up to 1024 keys pushed into an empty buffer
  are popped in the order they were typed, and then the buffer is empty again; nothing is
  lost at the wrap-around of the indices.
\<close>

theorem keyboard_fifo:
  assumes "kb_inv kb" and "kb_contents kb = []" and "0 \<notin> set cs" and "length cs \<le> 1024"
  shows "fst (pops keyboard_pop (length cs) (fold keyboard_push cs kb)) = cs \<and>
    kb_contents (snd (pops keyboard_pop (length cs) (fold keyboard_push cs kb))) = []"
  using assms by (rule ring.fifo)

text \<open>An empty buffer whose indices are about to wrap around the array and the word.\<close>

definition demo_keys :: keyboard_buffer where
  "demo_keys = \<lparr>kb_buffer = replicate 1024 0, kb_tail = 0xFFFFFFFF, kb_head = 0xFFFFFFFF\<rparr>"

lemma demo_keys_empty: "kb_inv demo_keys" "kb_contents demo_keys = []"
  by (simp_all add: kb_inv_def kb_contents_def kb_len_def kb_at_def demo_keys_def)

theorem keyboard_fifo_witness:
  "fst (pops keyboard_pop 3 (fold keyboard_push [65, 66, 67] demo_keys)) = [65, 66, 67]"
  using keyboard_fifo [OF demo_keys_empty, of "[65, 66, 67]"] by (simp add: numeral_3_eq_3 del: pops.simps)

text \<open>
  Backspace undoes the last key, and only on an empty buffer goes wrong: it moves the tail
  below the head, so the next key is stored where \<open>keyboard_pop\<close> does not look and is lost.
\<close>

theorem keyboard_backspace_effect:
  assumes "kb_inv kb" and "c \<noteq> 0"
  shows "(kb_len kb < 1024 \<longrightarrow> kb_contents (keyboard_backspace (keyboard_push c kb)) = kb_contents kb) \<and>
    (kb_contents kb = [] \<longrightarrow> fst (keyboard_pop (keyboard_push c (keyboard_backspace kb))) = 0)"
proof (intro conjI impI)
  show "kb_contents (keyboard_backspace (keyboard_push c kb)) = kb_contents kb" if "kb_len kb < 1024"
    using ring.erase_undoes_push [OF assms] that by (simp add: kb_contents_def)
  assume "kb_contents kb = []"
  then have l0: "kb_len kb = 0" by (simp add: kb_contents_def)
  then have "kb_tail kb - kb_head kb = 0" unfolding kb_len_def by (metis unsigned_eq_0_iff)
  then have z: "kb_at kb 0 = 0" "kb_tail kb = kb_head kb"
    using assms(1) l0 by (simp_all add: kb_inv_def)
  have len: "length (kb_buffer kb) = 1024" using assms(1) by (simp add: kb_inv_def)
  have ne: "unat (kb_head kb - 1) mod 1024 \<noteq> unat (kb_head kb) mod 1024"
    using ring_index_eq [of 0 1 "unat (kb_head kb - 1)"] unat_mod_ring [of "kb_head kb - 1" 1] by simp
  have b: "keyboard_backspace kb = kb\<lparr>kb_tail := kb_head kb - 1,
      kb_buffer := (kb_buffer kb)[unat (kb_head kb - 1) mod 1024 := 0]\<rparr>"
    by (simp add: keyboard_backspace_def keyboard_get_tail_index_def z(2) c_defs Let_def)
  show "fst (keyboard_pop (keyboard_push c (keyboard_backspace kb))) = 0"
    unfolding b using assms(2) z(1) ne len
    by (simp add: keyboard_pop_def keyboard_push_def keyboard_get_tail_index_def c_defs Let_def kb_at_def)
qed

theorem keyboard_backspace_effect_witness:
  "fst (keyboard_pop (keyboard_push 65 (keyboard_backspace demo_keys))) = 0 \<and>
   kb_contents (keyboard_backspace (keyboard_push 65 demo_keys)) = []"
  using keyboard_backspace_effect [OF demo_keys_empty(1), of 65] demo_keys_empty(2)
  by (simp add: kb_contents_def)

text \<open>
  the scan code table. A code below 82 is translated by the table, one above 82 gives 0, and
  82 itself passes the bounds check and reads past the end of the table.
\<close>

theorem ps2_scancode_bounds:
  "ps2_keyboard_scancode_to_char sc =
     (if unat sc < 82 then Inr (keyboard_scan_set1 ! unat sc)
      else if sc = 82 then Inl (OutOfBounds 82) else Inr 0)"
proof -
  have len: "length keyboard_scan_set1 = 82" by (simp add: keyboard_scan_set1_def)
  have eq: "sc = 82 \<longleftrightarrow> unat sc = 82" by (simp add: word_unat_eq_iff)
  consider "unat sc < 82" | "unat sc = 82" | "82 < unat sc" by linarith
  then show ?thesis
    unfolding ps2_keyboard_scancode_to_char_def len eq by cases simp_all
qed

end
