(* ===== verification/Pparser.thy ===== *)
theory Pparser
  imports Terminal
begin

text \<open>
  \<^verbatim>\<open>src/fs/pparser.c\<close>: a path such as \<open>0:/bin/shell.elf\<close> becomes a drive number and a list of
  names. The structures are objects at heap addresses; a pointer to no object faults.
\<close>

unbundle bit_operations_syntax

section \<open>State (pparser.h)\<close>

definition SLOBOS_MAX_PATH :: int where [c_defs]: "SLOBOS_MAX_PATH = 108"

record path_root =
  drive_no :: int
  first_part :: u32

record path_part =
  part_str :: u32
  part_next :: u32

record paths = screen +
  path_roots :: "u32 \<rightharpoonup> path_root"
  path_parts :: "u32 \<rightharpoonup> path_part"

text \<open>Following a pointer to an object.\<close>

definition deref :: "('a \<Rightarrow> u32 \<rightharpoonup> 'o) \<Rightarrow> u32 \<Rightarrow> 'a \<Rightarrow> 'o outcome" where
  "deref store p s = (case store s p of None \<Rightarrow> Inl (BadPointer p) | Some x \<Rightarrow> Inr x)"

text \<open>A loop that may not end, as an outcome.\<close>

definition hang_or :: "'a outcome option \<Rightarrow> 'a outcome" where
  "hang_or x = (case x of None \<Rightarrow> Inl Hang | Some r \<Rightarrow> r)"

section \<open>The drive\<close>

definition pathparser_path_valid_format :: "byte_mem \<Rightarrow> u32 \<Rightarrow> bool" where
  "pathparser_path_valid_format m filename \<longleftrightarrow>
     strnlen m filename SLOBOS_MAX_PATH \<ge> 3 \<and> isdigit (m filename) \<and>
     m (filename + 1) = 58 \<and> m (filename + 2) = 47"

text \<open>The second component is the advanced path.\<close>

definition pathparser_get_drive_by_path :: "byte_mem \<Rightarrow> u32 \<Rightarrow> int \<times> u32" where
  "pathparser_get_drive_by_path m path =
     (if \<not> pathparser_path_valid_format m path then (- EBADPATH, path)
      else (tonumericdigit (m path), path + 3))"

text \<open>The new structure is written to before anything checks that it exists.\<close>

definition pathparser_create_root :: "int \<Rightarrow> 'a paths_scheme \<Rightarrow> (u32 \<times> 'a paths_scheme) outcome" where
  "pathparser_create_root drive_number s =
     (let (path_r, s) = kzalloc 8 s
      in if path_r = 0 then Inl (BadPointer 0)
         else Inr (path_r, s\<lparr>path_roots := (path_roots s)(path_r \<mapsto> \<lparr>drive_no = drive_number, first_part = 0\<rparr>)\<rparr>))"

section \<open>The names\<close>

partial_function (option) copy_part :: "byte_mem \<Rightarrow> u32 \<Rightarrow> u32 \<Rightarrow> nat \<Rightarrow> (byte_mem \<times> u32 \<times> nat) option" where
  "copy_part m result_path_part path i =
     (if m path \<noteq> 47 \<and> m path \<noteq> 0
      then copy_part (m(result_path_part + of_nat i := m path)) result_path_part (path + 1) (i + 1)
      else Some (m, path, i))"

text \<open>The results are the name (null when it is empty), the rest of the path and the state.\<close>

definition pathparser_get_path_part :: "u32 \<Rightarrow> 'a paths_scheme \<Rightarrow> (u32 \<times> u32 \<times> 'a paths_scheme) outcome" where
  "pathparser_get_path_part path s =
     (let (result_path_part, s) = kzalloc (word_of_int SLOBOS_MAX_PATH) s
      in case copy_part (mem s) result_path_part path 0 of
           None \<Rightarrow> Inl Hang
         | Some (m, path, i) \<Rightarrow>
             let s = s\<lparr>mem := m\<rparr>;
                 path = (if m path = 47 then path + 1 else path)
             in if i = 0 then Inr (0, path, kfree result_path_part s) else Inr (result_path_part, path, s))"

definition pathparser_parse_path_part ::
    "u32 \<Rightarrow> u32 \<Rightarrow> 'a paths_scheme \<Rightarrow> (u32 \<times> u32 \<times> 'a paths_scheme) outcome" where
  "pathparser_parse_path_part last_part path s =
     andthen (pathparser_get_path_part path s) (\<lambda>(path_part_str, path, s).
       if path_part_str = 0 then Inr (0, path, s)
       else
         let (part, s) = kzalloc 8 s
         in if part = 0 then Inl (BadPointer 0)
            else
              let s = s\<lparr>path_parts := (path_parts s)(part \<mapsto> \<lparr>part_str = path_part_str, part_next = 0\<rparr>)\<rparr>
              in if last_part \<noteq> 0
                 then andthen (deref path_parts last_part s) (\<lambda>l.
                   Inr (part, path, s\<lparr>path_parts := (path_parts s)(last_part \<mapsto> l\<lparr>part_next := part\<rparr>)\<rparr>))
                 else Inr (part, path, s))"

partial_function (option) parse_rest :: "u32 \<Rightarrow> u32 \<Rightarrow> 'a paths_scheme \<Rightarrow> 'a paths_scheme outcome option" where
  "parse_rest part path s =
     (if part = 0 then Some (Inr s)
      else case pathparser_parse_path_part part path s of
             Inl e \<Rightarrow> Some (Inl e)
           | Inr (part, path, s) \<Rightarrow> parse_rest part path s)"

definition pathparser_parse :: "u32 \<Rightarrow> 'a paths_scheme \<Rightarrow> (u32 \<times> 'a paths_scheme) outcome" where
  "pathparser_parse path s =
     (case strlen (mem s) path of
        None \<Rightarrow> Inl Hang
      | Some len \<Rightarrow>
        if len > SLOBOS_MAX_PATH then Inr (0, s)
        else
          let (res, tmp_path) = pathparser_get_drive_by_path (mem s) path
          in if res < 0 then Inr (0, s)
             else
               andthen (pathparser_create_root res s) (\<lambda>(path_root, s).
                 andthen (pathparser_parse_path_part 0 tmp_path s) (\<lambda>(first, tmp_path, s).
                   if first = 0 then Inr (path_root, s)
                   else
                     andthen (deref path_roots path_root s) (\<lambda>r.
                       let s = s\<lparr>path_roots := (path_roots s)(path_root \<mapsto> r\<lparr>first_part := first\<rparr>)\<rparr>
                       in andthen (pathparser_parse_path_part first tmp_path s) (\<lambda>(part, tmp_path, s).
                            andthen (hang_or (parse_rest part tmp_path s)) (\<lambda>s. Inr (path_root, s)))))))"

section \<open>Freeing a path\<close>

text \<open>A freed structure is no longer an object.\<close>

definition free_part :: "u32 \<Rightarrow> 'a paths_scheme \<Rightarrow> 'a paths_scheme" where
  "free_part p s = (let s = kfree p s in s\<lparr>path_parts := (path_parts s)(p := None)\<rparr>)"

partial_function (option) free_parts :: "u32 \<Rightarrow> 'a paths_scheme \<Rightarrow> 'a paths_scheme outcome option" where
  "free_parts part s =
     (if part = 0 then Some (Inr s)
      else case deref path_parts part s of
             Inl e \<Rightarrow> Some (Inl e)
           | Inr p \<Rightarrow> free_parts (part_next p) (free_part part (kfree (part_str p) s)))"

definition pathparser_free :: "u32 \<Rightarrow> 'a paths_scheme \<Rightarrow> 'a paths_scheme outcome" where
  "pathparser_free root s =
     andthen (deref path_roots root s) (\<lambda>r.
       andthen (hang_or (free_parts (first_part r) s)) (\<lambda>s.
         let s = kfree root s in Inr (s\<lparr>path_roots := (path_roots s)(root := None)\<rparr>)))"

end
