(* ===== verification/Pparser_Props.thy ===== *)
theory Pparser_Props
  imports Pparser CString_Props
begin

text \<open>
  The path parser against a split of the string: \<open>pathparser_parse\<close> builds the list of the
  names between slashes, up to the first empty one, out of fresh heap blocks, and
  \<open>pathparser_free\<close> gives all of them back.
\<close>

unbundle bit_operations_syntax

section \<open>Splitting\<close>

definition name_of :: "u8 list \<Rightarrow> u8 list" where
  "name_of t = takeWhile (\<lambda>c. c \<noteq> 47) t"

definition rest_of :: "u8 list \<Rightarrow> u8 list" where
  "rest_of t = tl (dropWhile (\<lambda>c. c \<noteq> 47) t)"

lemma rest_shorter: "t \<noteq> [] \<Longrightarrow> length (rest_of t) < length t"
  using length_dropWhile_le [of "\<lambda>c. c \<noteq> 47" t] by (cases t) (auto simp: rest_of_def)

lemma name_of_Nil [simp]: "name_of [] = []"
  by (simp add: name_of_def)

function split_path :: "u8 list \<Rightarrow> u8 list list" where
  "split_path t = (if name_of t = [] then [] else name_of t # split_path (rest_of t))"
  by pat_completeness auto
termination
proof (relation "measure length", goal_cases)
  case 1
  then show ?case by simp
next
  case (2 t)
  then show ?case using rest_shorter [of t] by (cases t) auto
qed

declare split_path.simps [simp del]

lemma name_rest: "t = name_of t \<or> t = name_of t @ 47 # rest_of t"
proof -
  have t: "name_of t @ dropWhile (\<lambda>c. c \<noteq> 47) t = t" by (simp add: name_of_def)
  show ?thesis
  proof (cases "dropWhile (\<lambda>c. c \<noteq> 47) t")
    case Nil
    then have "t = name_of t" using t by (metis append_Nil2)
    then show ?thesis ..
  next
    case (Cons x r)
    then have "x = 47" using hd_dropWhile [of "\<lambda>c. c \<noteq> 47" t] by simp
    then show ?thesis using t Cons by (simp add: rest_of_def)
  qed
qed

section \<open>Copying a name\<close>

lemma copy_part_cstr:
  assumes "cstr m path t" and "length t < 4294967295"
    and "\<And>k j. k \<le> length t \<Longrightarrow> j < length (name_of t) \<Longrightarrow> path + of_nat k \<noteq> q + of_nat i + of_nat j"
  shows "copy_part m q path i =
    Some (store_bytes m (q + of_nat i) (name_of t), path + of_nat (length (name_of t)), i + length (name_of t))"
  using assms
proof (induction t arbitrary: m path i)
  case Nil
  then show ?case by (subst copy_part.simps) (simp add: name_of_def)
next
  case (Cons c t)
  show ?case
  proof (cases "c = 47")
    case True
    then show ?thesis using Cons.prems(1) by (subst copy_part.simps) (simp add: name_of_def)
  next
    case False
    then have n: "name_of (c # t) = c # name_of t" by (simp add: name_of_def)
    let ?m = "m(q + of_nat i := c)"
    have "cstr ?m (path + 1) t = cstr m (path + 1) t"
    proof (rule cstr_cong)
      fix k assume "k \<le> length t"
      then have "path + of_nat (Suc k) \<noteq> q + of_nat i + of_nat 0" by (intro Cons.prems(3)) (simp_all add: n)
      then show "?m (path + 1 + of_nat k) = m (path + 1 + of_nat k)" by (simp add: add.assoc)
    qed
    then have t: "cstr ?m (path + 1) t" using Cons.prems(1) by simp
    have "copy_part ?m q (path + 1) (i + 1) =
      Some (store_bytes ?m (q + of_nat (i + 1)) (name_of t), path + 1 + of_nat (length (name_of t)), i + 1 + length (name_of t))"
    proof (rule Cons.IH [OF t])
      show "length t < 4294967295" using Cons.prems(2) by simp
      fix k j assume "k \<le> length t" "j < length (name_of t)"
      then have "path + of_nat (Suc k) \<noteq> q + of_nat i + of_nat (Suc j)" by (intro Cons.prems(3)) (simp_all add: n)
      then show "path + 1 + of_nat k \<noteq> q + of_nat (i + 1) + of_nat j" by (simp add: ac_simps)
    qed
    moreover have "length (name_of t) < 4294967296"
      using Cons.prems(2) length_takeWhile_le [of "\<lambda>c. c \<noteq> 47" t] by (simp add: name_of_def)
    ultimately show ?thesis
      using Cons.prems(1) False by (subst copy_part.simps) (simp add: n store_bytes_Cons ac_simps)
  qed
qed

section \<open>One name\<close>

text \<open>A path still to be parsed, at addresses that allocation leaves alone.\<close>

definition path_at :: "'a paths_scheme \<Rightarrow> u32 \<Rightarrow> u8 list \<Rightarrow> bool" where
  "path_at s p t \<longleftrightarrow> cstr (mem s) p t \<and> length t < 108 \<and> (\<forall>k \<le> length t. stable s (p + of_nat k))"

lemma path_at_cong:
  assumes "path_at s p t" and "\<And>a. stable s a \<Longrightarrow> stable s' a \<and> mem s' a = mem s a"
  shows "path_at s' p t"
  using assms cstr_cong [of t "mem s'" p "mem s"] by (auto simp: path_at_def)

lemma path_at_rest:
  assumes "path_at s p t"
  defines "p' \<equiv> p + of_nat (length (name_of t))"
  shows "if mem s p' = 47 then path_at s (p' + 1) (rest_of t) else path_at s p' [] \<and> rest_of t = []"
proof -
  have t: "cstr (mem s) p t" "length t < 108" and st: "k \<le> length t \<Longrightarrow> stable s (p + of_nat k)" for k
    using assms(1) by (auto simp: path_at_def)
  from name_rest [of t] show ?thesis
  proof
    assume whole: "t = name_of t"
    then have z: "mem s p' = 0" using t(1) unfolding p'_def by (metis cstr_nth)
    moreover have "rest_of t = []"
      using whole by (metis append_self_conv name_of_def rest_of_def takeWhile_dropWhile_id tl_Nil)
    moreover have "stable s p'" using st [of "length t"] whole p'_def by simp
    ultimately show ?thesis by (simp add: path_at_def)
  next
    assume split: "t = name_of t @ 47 # rest_of t"
    then have c: "cstr (mem s) p' (47 # rest_of t)" unfolding p'_def using t(1) by (metis cstr_append)
    have l: "length t = length (name_of t) + Suc (length (rest_of t))"
      using arg_cong [OF split, of length] by simp
    have "stable s (p' + 1 + of_nat k)" if "k \<le> length (rest_of t)" for k
      using st [of "length (name_of t) + Suc k"] that l by (simp add: p'_def ac_simps)
    then show ?thesis using c t(2) l by (auto simp: path_at_def)
  qed
qed

lemma length_name_le: "length (name_of t) \<le> length t"
  by (simp add: name_of_def length_takeWhile_le)

lemma name_nonzero: "0 \<notin> set t \<Longrightarrow> 0 \<notin> set (name_of t)"
  unfolding name_of_def by (meson set_takeWhileD)

text \<open>What stays the same for everybody else when names are added.\<close>

definition keeps :: "'a paths_scheme \<Rightarrow> 'a paths_scheme \<Rightarrow> bool" where
  "keeps s s' \<longleftrightarrow> kheap_ok s' \<and> kernel_heap s' = kernel_heap s \<and>
     (\<forall>a. stable s a \<longrightarrow> stable s' a \<and> mem s' a = mem s a)"

lemma keeps_refl: "kheap_ok s \<Longrightarrow> keeps s s"
  by (simp add: keeps_def)

lemma keeps_trans: "keeps s t \<Longrightarrow> keeps t u \<Longrightarrow> keeps s u"
  by (auto simp: keeps_def)

lemma kzalloc_more: "paths.more (snd (kzalloc sz s)) = paths.more s"
  "path_roots (snd (kzalloc sz s)) = path_roots s" "path_parts (snd (kzalloc sz s)) = path_parts s"
  by (simp_all add: kzalloc_def kmalloc_def case_prod_unfold Let_def)

lemma get_part_alloc:
  assumes ok: "kheap_ok s" and spare: "0 < kheap_spare s" and path: "path_at s p t"
  defines "q \<equiv> fst (kzalloc 108 s)"
  defines "u \<equiv> (snd (kzalloc 108 s))\<lparr>mem := store_bytes (mem (snd (kzalloc 108 s))) q (name_of t)\<rparr>"
  shows "copy_part (mem (snd (kzalloc 108 s))) q p 0 =
      Some (mem u, p + of_nat (length (name_of t)), length (name_of t))"
    and "keeps s u" and "live u = (live s)(q \<mapsto> 1)" and "live s q = None" and "q \<noteq> 0"
    and "kheap_spare u = kheap_spare s - 1" and "cstr (mem u) q (name_of t)"
    and "path_parts u = path_parts s" and "path_roots u = path_roots s"
proof -
  let ?s = "snd (kzalloc 108 s)"
  note A = kzalloc.alloc_page [OF ok spare, of 108, simplified, folded q_def]
  note C = kzalloc.alloc_page_contents [OF ok spare, of 108, simplified, folded q_def]
  note S = stable_kzalloc [OF ok spare, of 108, simplified, folded q_def]
  have t: "cstr (mem s) p t" "length t < 108" and st: "k \<le> length t \<Longrightarrow> stable s (p + of_nat k)" for k
    using path by (auto simp: path_at_def)
  have n: "length (name_of t) < 108" using length_name_le [of t] t(2) by simp
  have lq: "live ?s q = Some 1" using A(3) by simp
  have "cstr (mem ?s) p t"
    using cstr_cong [of t "mem ?s" p "mem s"] t(1) S(1) [OF st] by blast
  then have "copy_part (mem ?s) q p 0 = Some (store_bytes (mem ?s) (q + of_nat 0) (name_of t),
      p + of_nat (length (name_of t)), 0 + length (name_of t))"
  proof (rule copy_part_cstr)
    show "length t < 4294967295" using t(2) by simp
    fix k j assume k: "k \<le> length t" and j: "j < length (name_of t)"
    have "4096 \<le> unat (p + of_nat k - q)" using S(3) [OF st [OF k]] .
    then show "p + of_nat k \<noteq> q + of_nat 0 + of_nat j"
      using j n by (auto simp: unat_of_nat_u32)
  qed
  then show "copy_part (mem ?s) q p 0 = Some (mem u, p + of_nat (length (name_of t)), length (name_of t))"
    by (simp add: u_def)
  have out: "4096 * 1 \<le> unat (a - q) \<Longrightarrow> store_bytes (mem ?s) q (name_of t) a = mem ?s a" for a
    using n by (simp add: store_bytes_outside)
  note W = own_write [OF A(1) lq, OF out]
  show l: "live u = (live s)(q \<mapsto> 1)" using W(2) A(3) by (simp add: u_def)
  show "live s q = None" and "q \<noteq> 0" and "kheap_spare u = kheap_spare s - 1"
    using A(2,4,5) W(3) by (simp_all add: u_def)
  show "path_parts u = path_parts s" and "path_roots u = path_roots s"
    by (simp_all add: u_def kzalloc_more)
  have "stable u = stable ?s" using W(2) by (intro stable_cong) (simp_all add: u_def)
  then show "keeps s u"
    using W(1) S out by (simp add: keeps_def u_def kzalloc_kernel_heap)
  show "cstr (mem u) q (name_of t)"
    unfolding cstr_nth
  proof (intro conjI allI impI)
    fix i assume i: "i < length (name_of t)"
    then show "mem u (q + of_nat i) = name_of t ! i" using n by (simp add: u_def)
    show "name_of t ! i \<noteq> 0" using name_nonzero [OF cstr_nonzero [OF t(1)]] i by (metis nth_mem)
  next
    have "unat (q + of_nat (length (name_of t)) - q) = length (name_of t)" using n by (simp add: unat_of_nat_u32)
    then show "mem u (q + of_nat (length (name_of t))) = 0"
      using C(1) [of "q + of_nat (length (name_of t))"] n by (simp add: u_def store_bytes_def)
  qed
qed

lemma paths_update [simp]:
  "live (s\<lparr>path_parts := P\<rparr>) = live s" "kheap_spare (s\<lparr>path_parts := P\<rparr>) = kheap_spare s"
  "stable (s\<lparr>path_parts := P\<rparr>) = stable s"
  "live (s\<lparr>path_roots := R\<rparr>) = live s" "kheap_spare (s\<lparr>path_roots := R\<rparr>) = kheap_spare s"
  "stable (s\<lparr>path_roots := R\<rparr>) = stable s"
  by (rule same_heap; simp)+

lemma kfree_fields [simp]:
  "path_parts (kfree p s) = path_parts s" "path_roots (kfree p s) = path_roots s"
  "kernel_heap (kfree p s) = kernel_heap s"
  by (simp_all add: kfree_def)

lemma keeps_kfree_new:
  assumes "kheap_ok s" and "keeps s u" and "live u = (live s)(q \<mapsto> 1)" and "live s q = None"
  shows "keeps s (kfree q u)" and "live (kfree q u) = live s" and "kheap_spare (kfree q u) = kheap_spare u + 1"
proof -
  have ok: "kheap_ok u" and kh: "kernel_heap u = kernel_heap s"
    and st: "stable s a \<Longrightarrow> stable u a \<and> mem u a = mem s a" for a
    using assms(2) by (auto simp: keeps_def)
  have lq: "live u q = Some 1" using assms(3) by simp
  note f = kzalloc.release_ok [OF ok lq] kzalloc.release_owned [OF ok lq] kzalloc.release_frame [OF ok lq]
  show l: "live (kfree q u) = live s" using f(2) assms(3,4) by auto
  show "kheap_spare (kfree q u) = kheap_spare u + 1" using kzalloc.spare_release [OF ok lq] .
  have "stable (kfree q u) = stable s" using l kh by (intro stable_cong) simp_all
  moreover have "mem (kfree q u) a = mem s a" if "stable s a" for a
  proof -
    have "\<not> kheap_table u a"
      using that kh kzalloc.owned_meta [OF assms(1), of _ _ a] unfolding stable_def by auto
    then show ?thesis using f(3) [of a] st [OF that] by simp
  qed
  ultimately show "keeps s (kfree q u)" using f(1) kh by (simp add: keeps_def)
qed

definition rest_ptr :: "'a paths_scheme \<Rightarrow> u32 \<Rightarrow> u8 list \<Rightarrow> u32" where
  "rest_ptr s p t = (let p' = p + of_nat (length (name_of t)) in if mem s p' = 47 then p' + 1 else p')"

lemma path_at_rest_ptr: "path_at s p t \<Longrightarrow> path_at s (rest_ptr s p t) (rest_of t)"
  using path_at_rest [of s p t] by (auto simp: rest_ptr_def Let_def split: if_splits)

lemma get_path_part_eq:
  assumes ok: "kheap_ok s" and spare: "0 < kheap_spare s" and path: "path_at s p t"
  obtains q u where "pathparser_get_path_part p s =
      Inr (if name_of t = [] then (0, rest_ptr s p t, kfree q u) else (q, rest_ptr s p t, u))"
    and "keeps s u" and "live u = (live s)(q \<mapsto> 1)" and "live s q = None" and "q \<noteq> 0"
    and "kheap_spare u = kheap_spare s - 1" and "cstr (mem u) q (name_of t)"
    and "path_parts u = path_parts s" and "path_roots u = path_roots s"
proof -
  note G = get_part_alloc [OF assms]
  let ?q = "fst (kzalloc 108 s)" and ?s = "snd (kzalloc 108 s)"
  let ?u = "?s\<lparr>mem := store_bytes (mem ?s) ?q (name_of t)\<rparr>"
  have "stable s (p + of_nat (length (name_of t)))"
    using path length_name_le [of t] by (auto simp: path_at_def)
  then have "mem ?u (p + of_nat (length (name_of t))) = mem s (p + of_nat (length (name_of t)))"
    using G(2) by (auto simp: keeps_def)
  moreover have "mem ?s p = mem s p"
    using stable_kzalloc(1) [OF ok spare, of 108 p] path by (auto simp: path_at_def dest: spec [of _ 0])
  moreover have "?s\<lparr>mem := mem ?u\<rparr> = ?u" by simp
  ultimately have "pathparser_get_path_part p s =
      Inr (if name_of t = [] then (0, rest_ptr s p t, kfree ?q ?u) else (?q, rest_ptr s p t, ?u))"
    using G(1) by (simp add: pathparser_get_path_part_def case_prod_unfold Let_def c_defs rest_ptr_def)
  then show thesis using G(2-9) by (rule that)
qed

definition link_last :: "u32 \<Rightarrow> u32 \<Rightarrow> (u32 \<rightharpoonup> path_part) \<Rightarrow> (u32 \<rightharpoonup> path_part)" where
  "link_last lst n P =
     (if lst = 0 then P
      else case P lst of None \<Rightarrow> P | Some l \<Rightarrow> P(lst \<mapsto> l\<lparr>part_next := n\<rparr>))"

lemma parse_part_empty:
  assumes ok: "kheap_ok s" and spare: "0 < kheap_spare s" and path: "path_at s p t" and "name_of t = []"
  shows "\<exists>s'. pathparser_parse_path_part lst p s = Inr (0, rest_ptr s p t, s') \<and> keeps s s' \<and>
    live s' = live s \<and> kheap_spare s' = kheap_spare s \<and> path_parts s' = path_parts s \<and> path_roots s' = path_roots s"
proof -
  obtain q u where q0: "pathparser_get_path_part p s =
      Inr (if name_of t = [] then (0, rest_ptr s p t, kfree q u) else (q, rest_ptr s p t, u))"
    and q: "keeps s u" "live u = (live s)(q \<mapsto> 1)" "live s q = None" "q \<noteq> 0"
    "kheap_spare u = kheap_spare s - 1" "cstr (mem u) q (name_of t)"
    "path_parts u = path_parts s" "path_roots u = path_roots s"
    by (rule get_path_part_eq [OF ok spare path])
  show ?thesis
    using q q0 keeps_kfree_new [OF ok q(1-3)] spare assms(4)
    by (intro exI [of _ "kfree q u"]) (simp add: pathparser_parse_path_part_def)
qed

lemma parse_part_name:
  assumes ok: "kheap_ok s" and spare: "2 \<le> kheap_spare s" and path: "path_at s p t" and name: "name_of t \<noteq> []"
    and lst: "lst = 0 \<or> path_parts s lst \<noteq> None \<and> live s lst \<noteq> None"
  shows "\<exists>n q s'. pathparser_parse_path_part lst p s = Inr (n, rest_ptr s p t, s') \<and> keeps s s' \<and>
    n \<noteq> 0 \<and> q \<noteq> 0 \<and> live s n = None \<and> live s q = None \<and> n \<noteq> q \<and> live s' = (live s)(q \<mapsto> 1, n \<mapsto> 1) \<and>
    kheap_spare s' + 2 = kheap_spare s \<and> cstr (mem s') q (name_of t) \<and>
    path_parts s' = link_last lst n ((path_parts s)(n \<mapsto> \<lparr>part_str = q, part_next = 0\<rparr>)) \<and>
    path_roots s' = path_roots s"
proof -
  have s0: "0 < kheap_spare s" using spare by simp
  obtain q u where q0: "pathparser_get_path_part p s =
      Inr (if name_of t = [] then (0, rest_ptr s p t, kfree q u) else (q, rest_ptr s p t, u))"
    and q: "keeps s u" "live u = (live s)(q \<mapsto> 1)" "live s q = None" "q \<noteq> 0"
    "kheap_spare u = kheap_spare s - 1" "cstr (mem u) q (name_of t)"
    "path_parts u = path_parts s" "path_roots u = path_roots s"
    by (rule get_path_part_eq [OF ok s0 path])
  have oku: "kheap_ok u" using q(1) unfolding keeps_def by (rule conjunct1)
  have u0: "0 < kheap_spare u" using q(5) spare by simp
  define n where "n = fst (kzalloc 8 u)"
  define v where "v = snd (kzalloc 8 u)"
  note A = kzalloc.alloc_page [OF oku u0, of 8, simplified, folded n_def v_def]
  note S = stable_kzalloc [OF oku u0, of 8, simplified, folded n_def v_def]
  have nl: "live s n = None" "n \<noteq> q" using A(2) q(2) by (auto split: if_splits)
  let ?P = "(path_parts s)(n \<mapsto> \<lparr>part_str = q, part_next = 0\<rparr>)"
  let ?w = "v\<lparr>path_parts := link_last lst n ?P\<rparr>"
  have Pv: "path_parts v = path_parts s" "path_roots v = path_roots s"
    using q(7,8) by (simp_all add: v_def kzalloc_more)
  have "pathparser_parse_path_part lst p s = Inr (n, rest_ptr s p t, ?w)"
  proof -
    have k: "kzalloc 8 u = (n, v)" by (simp add: n_def v_def)
    show ?thesis
      using q0 name q(4) A(5) lst nl(1)
      by (auto simp: pathparser_parse_path_part_def k Pv link_last_def deref_def)
  qed
  moreover have "keeps s ?w"
  proof -
    have "keeps u v" using A(1) S by (simp add: keeps_def v_def kzalloc_kernel_heap)
    then have "keeps u ?w" by (auto simp: keeps_def)
    with q(1) show ?thesis by (rule keeps_trans)
  qed
  moreover have "live ?w = (live s)(q \<mapsto> 1, n \<mapsto> 1)"
    using A(3) q(2) by simp
  moreover have "cstr (mem ?w) q (name_of t)"
  proof -
    have "length (name_of t) < 108" using length_name_le [of t] path by (simp add: path_at_def)
    then have "stable u (q + of_nat k)" if "k \<le> length (name_of t)" for k
      using q(2) that by (auto simp: stable_def unat_of_nat_u32 intro!: exI [of _ q])
    then show ?thesis using cstr_cong [of "name_of t" "mem v" q "mem u"] q(6) S(1) by auto
  qed
  moreover have "kheap_spare ?w + 2 = kheap_spare s"
    using A(4) q(5) spare by simp
  ultimately show ?thesis
    using A(5) q(3,4) nl Pv by (intro exI [of _ n] exI [of _ q] exI [of _ ?w]) simp
qed

section \<open>Lists of names\<close>

text \<open>
  A segment of the list from \<open>p\<close> to \<open>e\<close>: for every node its address, the address of its name
  and the name.
\<close>

type_synonym node = "u32 \<times> u32 \<times> u8 list"

fun seg :: "'a paths_scheme \<Rightarrow> u32 \<Rightarrow> node list \<Rightarrow> u32 \<Rightarrow> bool" where
  "seg s p [] e \<longleftrightarrow> p = e"
| "seg s p ((n, q, w) # xs) e \<longleftrightarrow> p = n \<and> n \<noteq> 0 \<and> q \<noteq> 0 \<and> cstr (mem s) q w \<and>
     (\<exists>nx. path_parts s n = Some \<lparr>part_str = q, part_next = nx\<rparr> \<and> seg s nx xs e)"

definition nodes :: "node list \<Rightarrow> u32 list" where
  "nodes xs = map fst xs"

definition strs :: "node list \<Rightarrow> u32 list" where
  "strs xs = map (fst \<circ> snd) xs"

definition names :: "node list \<Rightarrow> u8 list list" where
  "names xs = map (snd \<circ> snd) xs"

lemma node_lists [simp]:
  "nodes [] = []" "strs [] = []" "names [] = []"
  "nodes ((n, q, w) # xs) = n # nodes xs" "strs ((n, q, w) # xs) = q # strs xs"
  "names ((n, q, w) # xs) = w # names xs"
  "nodes (xs @ ys) = nodes xs @ nodes ys" "strs (xs @ ys) = strs xs @ strs ys"
  "names (xs @ ys) = names xs @ names ys"
  by (simp_all add: nodes_def strs_def names_def)

lemma seg_append: "seg s p (xs @ ys) e \<longleftrightarrow> (\<exists>m. seg s p xs m \<and> seg s m ys e)"
proof (induction xs arbitrary: p)
  case Nil
  then show ?case by simp
next
  case (Cons x xs)
  then show ?case by (cases x) auto
qed

lemma seg_cong:
  assumes "seg s p xs e" and "\<And>n. n \<in> set (nodes xs) \<Longrightarrow> path_parts s' n = path_parts s n"
    and "\<And>q w. q \<in> set (strs xs) \<Longrightarrow> cstr (mem s) q w \<Longrightarrow> w \<in> set (names xs) \<Longrightarrow> cstr (mem s') q w"
  shows "seg s' p xs e"
  using assms
proof (induction xs arbitrary: p)
  case Nil
  then show ?case by simp
next
  case (Cons x xs)
  obtain n q w where x: "x = (n, q, w)" by (cases x)
  then show ?case using Cons by auto
qed

text \<open>The nodes and names are blocks of the heap, all different; names fit in their block.\<close>

definition owned_list :: "'a paths_scheme \<Rightarrow> node list \<Rightarrow> bool" where
  "owned_list s xs \<longleftrightarrow> distinct (nodes xs @ strs xs) \<and>
     (\<forall>p \<in> set (nodes xs) \<union> set (strs xs). live s p = Some 1) \<and> (\<forall>w \<in> set (names xs). length w < 4096)"

lemma owned_cstr_keeps:
  assumes "keeps s s'" and "live s q = Some 1" and "cstr (mem s) q w" and "length w < 4096"
  shows "cstr (mem s') q w"
proof -
  have "stable s (q + of_nat k)" if "k \<le> length w" for k
    using assms(2,4) that by (auto simp: stable_def unat_of_nat_u32 intro!: exI [of _ q])
  then have "mem s' (q + of_nat k) = mem s (q + of_nat k)" if "k \<le> length w" for k
    using assms(1) that by (simp add: keeps_def)
  then show ?thesis using assms(3) cstr_cong [of w "mem s'" q "mem s"] by blast
qed

lemma seg_keeps:
  assumes "keeps s s'" and "seg s p xs e" and "owned_list s xs"
    and "\<And>n. n \<in> set (nodes xs) \<Longrightarrow> path_parts s' n = path_parts s n"
  shows "seg s' p xs e"
  using assms(2)
proof (rule seg_cong)
  fix q w assume "q \<in> set (strs xs)" "cstr (mem s) q w" "w \<in> set (names xs)"
  then show "cstr (mem s') q w"
    using assms(3) by (intro owned_cstr_keeps [OF assms(1)]) (auto simp: owned_list_def)
qed (rule assms(4))

lemma seg_node: "seg s p xs e \<Longrightarrow> n \<in> set (nodes xs) \<Longrightarrow> path_parts s n \<noteq> None \<and> n \<noteq> 0"
  by (induction xs arbitrary: p) auto

section \<open>The loop\<close>

lemma parse_rest_builds:
  assumes "kheap_ok s" and "path_at s p t" and "2 * length (split_path t) + 1 \<le> kheap_spare s"
    and "seg s first (xs @ [(L, q, w)]) 0" and "owned_list s (xs @ [(L, q, w)])"
  shows "\<exists>s' ys. parse_rest L p s = Some (Inr s') \<and> seg s' first (xs @ [(L, q, w)] @ ys) 0 \<and>
    names ys = split_path t \<and> keeps s s' \<and> owned_list s' (xs @ [(L, q, w)] @ ys) \<and>
    live s' = (\<lambda>a. if a \<in> set (nodes ys) \<union> set (strs ys) then Some 1 else live s a) \<and>
    (\<forall>a \<in> set (nodes ys) \<union> set (strs ys). live s a = None) \<and>
    kheap_spare s' + 2 * length ys = kheap_spare s \<and> path_roots s' = path_roots s"
  using assms
proof (induction t arbitrary: s p xs L q w rule: split_path.induct)
  case (1 t)
  note ok = 1(2) and path = 1(3) and spare = 1(4) and sg = 1(5) and own = 1(6)
  have Ln: "L \<noteq> 0" "path_parts s L = Some \<lparr>part_str = q, part_next = 0\<rparr>"
    using sg by (auto simp: seg_append)
  have Ll: "live s L = Some 1" using own by (simp add: owned_list_def)
  show ?case
  proof (cases "name_of t = []")
    case True
    have "0 < kheap_spare s" using spare by simp
    then obtain s' where s': "pathparser_parse_path_part L p s = Inr (0, rest_ptr s p t, s')" "keeps s s'"
      "live s' = live s" "kheap_spare s' = kheap_spare s" "path_parts s' = path_parts s" "path_roots s' = path_roots s"
      using parse_part_empty [OF ok _ path True, of L] by blast
    have "parse_rest L p s = Some (Inr s')"
      using Ln(1) s'(1) by (subst parse_rest.simps) (simp add: parse_rest.simps [of 0])
    moreover have "seg s' first (xs @ [(L, q, w)]) 0"
      using seg_keeps [OF s'(2) sg own] s'(5) by simp
    moreover have "owned_list s' (xs @ [(L, q, w)])" using own s'(3) by (simp add: owned_list_def)
    moreover have "split_path t = []" using True by (subst split_path.simps) simp
    ultimately show ?thesis using s' by (intro exI [of _ s'] exI [of _ "[]"]) simp
  next
    case False
    have split: "split_path t = name_of t # split_path (rest_of t)"
      using False by (subst split_path.simps) simp
    have sp2: "2 \<le> kheap_spare s" using spare split by simp
    obtain n q' s1 where s1: "pathparser_parse_path_part L p s = Inr (n, rest_ptr s p t, s1)" "keeps s s1"
      "n \<noteq> 0" "q' \<noteq> 0" "live s n = None" "live s q' = None" "n \<noteq> q'" "live s1 = (live s)(q' \<mapsto> 1, n \<mapsto> 1)"
      "kheap_spare s1 + 2 = kheap_spare s" "cstr (mem s1) q' (name_of t)"
      "path_parts s1 = link_last L n ((path_parts s)(n \<mapsto> \<lparr>part_str = q', part_next = 0\<rparr>))"
      "path_roots s1 = path_roots s"
      using parse_part_name [OF ok sp2 path False, of L] Ln Ll by blast
    have nL: "n \<noteq> L" using s1(5) Ll by auto
    have P1: "path_parts s1 = (path_parts s)(n \<mapsto> \<lparr>part_str = q', part_next = 0\<rparr>, L \<mapsto> \<lparr>part_str = q, part_next = n\<rparr>)"
      using s1(11) Ln nL by (simp add: link_last_def)
    have small: "length (name_of t) < 4096" using path length_name_le [of t] by (simp add: path_at_def)
    have own_xs: "owned_list s xs" "L \<notin> set (nodes xs)" "n \<notin> set (nodes xs)"
      using own s1(5) by (auto simp: owned_list_def)
    obtain m where m: "seg s first xs m" "m = L" using sg by (auto simp: seg_append)
    have "path_parts s1 k = path_parts s k" if "k \<in> set (nodes xs)" for k
    proof -
      have "k \<noteq> L" "k \<noteq> n" using that own_xs by auto
      then show ?thesis by (simp add: P1)
    qed
    then have sg_xs: "seg s1 first xs L"
      using seg_keeps [OF s1(2) m(1) own_xs(1)] m(2) by simp
    have "cstr (mem s1) q w"
      using owned_cstr_keeps [OF s1(2), of q w] own sg by (auto simp: owned_list_def seg_append)
    moreover have "q \<noteq> 0" using sg by (auto simp: seg_append)
    ultimately have sg1: "seg s1 first ((xs @ [(L, q, w)]) @ [(n, q', name_of t)]) 0"
      using sg_xs P1 nL Ln(1) s1(3,4,10) by (auto simp: seg_append)
    have own1: "owned_list s1 ((xs @ [(L, q, w)]) @ [(n, q', name_of t)])"
      using own s1(5-8) small by (auto simp: owned_list_def)
    have path1: "path_at s1 (rest_ptr s p t) (rest_of t)"
      by (rule path_at_cong [OF path_at_rest_ptr [OF path]]) (use s1(2) in \<open>auto simp: keeps_def\<close>)
    have spare1: "2 * length (split_path (rest_of t)) + 1 \<le> kheap_spare s1" using spare s1(9) split by simp
    have ok1: "kheap_ok s1" using s1(2) unfolding keeps_def by (rule conjunct1)
    obtain s' ys where ys: "parse_rest n (rest_ptr s p t) s1 = Some (Inr s')"
      "seg s' first ((xs @ [(L, q, w)]) @ [(n, q', name_of t)] @ ys) 0"
      "names ys = split_path (rest_of t)" "keeps s1 s'"
      "owned_list s' ((xs @ [(L, q, w)]) @ [(n, q', name_of t)] @ ys)"
      "live s' = (\<lambda>a. if a \<in> set (nodes ys) \<union> set (strs ys) then Some 1 else live s1 a)"
      "\<forall>a \<in> set (nodes ys) \<union> set (strs ys). live s1 a = None"
      "kheap_spare s' + 2 * length ys = kheap_spare s1" "path_roots s' = path_roots s1"
      using 1(1) [OF False ok1 path1 spare1 sg1 own1] by blast
    have "parse_rest L p s = Some (Inr s')"
      using Ln(1) s1(1) ys(1) by (subst parse_rest.simps) simp
    moreover have "live s' = (\<lambda>a. if a \<in> set (nodes ((n, q', name_of t) # ys)) \<union> set (strs ((n, q', name_of t) # ys))
        then Some 1 else live s a)"
      using ys(6) s1(8) by auto
    moreover have "\<forall>a \<in> set (nodes ((n, q', name_of t) # ys)) \<union> set (strs ((n, q', name_of t) # ys)). live s a = None"
      using ys(7) s1(5,6,8) by (auto split: if_splits)
    ultimately show ?thesis
      using ys keeps_trans [OF s1(2) ys(4)] s1(9,12) split
      by (intro exI [of _ s'] exI [of _ "(n, q', name_of t) # ys"]) simp
  qed
qed

section \<open>The whole path\<close>

text \<open>
  A path object: the root at \<open>r\<close> with its drive, the list of names, and every structure a heap
  block of its own.
\<close>

definition path_object :: "'a paths_scheme \<Rightarrow> u32 \<Rightarrow> int \<Rightarrow> node list \<Rightarrow> bool" where
  "path_object s r d ns \<longleftrightarrow>
     (\<exists>f. path_roots s r = Some \<lparr>drive_no = d, first_part = f\<rparr> \<and> seg s f ns 0) \<and>
     owned_list s ns \<and> live s r = Some 1 \<and> r \<notin> set (nodes ns) \<union> set (strs ns)"

definition path_blocks :: "u32 \<Rightarrow> node list \<Rightarrow> u32 set" where
  "path_blocks r ns = insert r (set (nodes ns) \<union> set (strs ns))"

lemma create_root_eq:
  assumes ok: "kheap_ok s" and spare: "0 < kheap_spare s"
  obtains r u where "pathparser_create_root d s = Inr (r, u)" and "keeps s u" and "live s r = None"
    and "live u = (live s)(r \<mapsto> 1)" and "kheap_spare u + 1 = kheap_spare s"
    and "path_roots u = (path_roots s)(r \<mapsto> \<lparr>drive_no = d, first_part = 0\<rparr>)"
    and "path_parts u = path_parts s"
proof -
  let ?r = "fst (kzalloc 8 s)" and ?v = "snd (kzalloc 8 s)"
  note A = kzalloc.alloc_page [OF ok spare, of 8, simplified]
  note S = stable_kzalloc [OF ok spare, of 8, simplified]
  let ?u = "?v\<lparr>path_roots := (path_roots s)(?r \<mapsto> \<lparr>drive_no = d, first_part = 0\<rparr>)\<rparr>"
  have v: "keeps s ?v"
    unfolding keeps_def using A(1) S(1,2) kzalloc_kernel_heap [of 8 s] by blast
  show thesis
  proof (rule that [of ?r ?u])
    show "pathparser_create_root d s = Inr (?r, ?u)"
      using A(5) by (simp add: pathparser_create_root_def case_prod_unfold Let_def kzalloc_more)
    show "keeps s ?u" using v by (auto simp: keeps_def)
    show "kheap_spare ?u + 1 = kheap_spare s" using A(4) spare by simp
  qed (use A in \<open>simp_all add: kzalloc_more\<close>)
qed

lemma valid_format_cstr:
  assumes "cstr m p (c # 58 # 47 # t)" and "isdigit c"
  shows "pathparser_path_valid_format m p"
  using assms strnlen_cstr [OF assms(1), of 108]
  by (simp add: pathparser_path_valid_format_def c_defs add.assoc)

lemma parse_start:
  assumes path: "cstr (mem s) p (c # 58 # 47 # t)" and digit: "isdigit c" and len: "length t \<le> 105"
  shows "pathparser_parse p s =
    andthen (pathparser_create_root (tonumericdigit c) s) (\<lambda>(r, s).
      andthen (pathparser_parse_path_part 0 (p + 3) s) (\<lambda>(f, q, s).
        if f = 0 then Inr (r, s)
        else andthen (deref path_roots r s) (\<lambda>x.
          let s = s\<lparr>path_roots := (path_roots s)(r \<mapsto> x\<lparr>first_part := f\<rparr>)\<rparr>
          in andthen (pathparser_parse_path_part f q s) (\<lambda>(part, q, s).
               andthen (hang_or (parse_rest part q s)) (\<lambda>s. Inr (r, s))))))"
proof -
  have "mem s p = c" using path by simp
  then show ?thesis
    using valid_format_cstr [OF path digit] strlen_cstr [OF path] len digit
    by (simp add: pathparser_parse_def pathparser_get_drive_by_path_def c_defs isdigit_def tonumericdigit_def Let_def)
qed

text \<open>After a first node the loop of the code is the loop \<open>parse_rest\<close> entered at that node.\<close>

lemma parse_rest_step:
  assumes "f \<noteq> 0"
  shows "andthen (pathparser_parse_path_part f q s) (\<lambda>(part, q, s). hang_or (parse_rest part q s)) =
    hang_or (parse_rest f q s)"
  using assms by (subst (2) parse_rest.simps)
    (auto simp: hang_or_def split: sum.splits prod.splits)

lemma andthen_case_assoc:
  "andthen x (\<lambda>(a, b, c). andthen (F a b c) G) = andthen (andthen x (\<lambda>(a, b, c). F a b c)) G"
  by (cases x) (auto split: prod.splits)

lemma parse_builds:
  assumes ok: "kheap_ok s" and path: "cstr (mem s) p (c # 58 # 47 # t)" and digit: "isdigit c"
    and len: "length t \<le> 105" and st: "\<And>k. k \<le> length t \<Longrightarrow> stable s (p + 3 + of_nat k)"
    and spare: "2 * length (split_path t) + 2 \<le> kheap_spare s"
  obtains r s' ns where "pathparser_parse p s = Inr (r, s')" and "path_object s' r (tonumericdigit c) ns"
    and "names ns = split_path t" and "keeps s s'" and "\<forall>a \<in> path_blocks r ns. live s a = None"
    and "live s' = (\<lambda>a. if a \<in> path_blocks r ns then Some 1 else live s a)"
    and "kheap_spare s' + (2 * length ns + 1) = kheap_spare s"
proof -
  have "0 < kheap_spare s" using spare by simp
  then obtain r u where u: "pathparser_create_root (tonumericdigit c) s = Inr (r, u)" "keeps s u"
    "live s r = None" "live u = (live s)(r \<mapsto> 1)" "kheap_spare u + 1 = kheap_spare s"
    "path_roots u = (path_roots s)(r \<mapsto> \<lparr>drive_no = tonumericdigit c, first_part = 0\<rparr>)"
    "path_parts u = path_parts s"
    using create_root_eq [OF ok] by blast
  have oku: "kheap_ok u" using u(2) unfolding keeps_def by (rule conjunct1)
  have "path_at s (p + 3) t" using path len st by (simp add: path_at_def add.assoc)
  then have pu: "path_at u (p + 3) t"
    by (rule path_at_cong) (use u(2) in \<open>auto simp: keeps_def\<close>)
  note start = parse_start [OF path digit len] u(1)
  show thesis
  proof (cases "name_of t = []")
    case True
    have "0 < kheap_spare u" using u(5) spare by simp
    then obtain s' where s': "pathparser_parse_path_part 0 (p + 3) u = Inr (0, rest_ptr u (p + 3) t, s')"
      "keeps u s'" "live s' = live u" "kheap_spare s' = kheap_spare u" "path_parts s' = path_parts u"
      "path_roots s' = path_roots u"
      using parse_part_empty [OF oku _ pu True, of 0] by blast
    show thesis
    proof (rule that [of r s' "[]"])
      show "pathparser_parse p s = Inr (r, s')" using start s'(1) by simp
      show "path_object s' r (tonumericdigit c) []"
        using s' u by (simp add: path_object_def owned_list_def)
      show "names [] = split_path t" using True by (subst split_path.simps) simp
      show "keeps s s'" using u(2) s'(2) by (rule keeps_trans)
    qed (use s' u in \<open>auto simp: path_blocks_def\<close>)
  next
    case False
    have split: "split_path t = name_of t # split_path (rest_of t)"
      using False by (subst split_path.simps) simp
    have sp2: "2 \<le> kheap_spare u" using u(5) spare split by simp
    obtain n q s1 where s1: "pathparser_parse_path_part 0 (p + 3) u = Inr (n, rest_ptr u (p + 3) t, s1)" "keeps u s1"
      "n \<noteq> 0" "q \<noteq> 0" "live u n = None" "live u q = None" "n \<noteq> q" "live s1 = (live u)(q \<mapsto> 1, n \<mapsto> 1)"
      "kheap_spare s1 + 2 = kheap_spare u" "cstr (mem s1) q (name_of t)"
      "path_parts s1 = link_last 0 n ((path_parts u)(n \<mapsto> \<lparr>part_str = q, part_next = 0\<rparr>))"
      "path_roots s1 = path_roots u"
      using parse_part_name [OF oku sp2 pu False, of 0] by blast
    define s2 where "s2 = s1\<lparr>path_roots := (path_roots u)(r \<mapsto> \<lparr>drive_no = tonumericdigit c, first_part = n\<rparr>)\<rparr>"
    have k2: "keeps u s2" using s1(2) by (auto simp: keeps_def s2_def)
    have ok2: "kheap_ok s2" using k2 unfolding keeps_def by (rule conjunct1)
    have p2: "path_at s2 (rest_ptr u (p + 3) t) (rest_of t)"
      by (rule path_at_cong [OF path_at_rest_ptr [OF pu]]) (use k2 in \<open>auto simp: keeps_def\<close>)
    have l2: "live s2 = (live u)(q \<mapsto> 1, n \<mapsto> 1)" "kheap_spare s2 + 2 = kheap_spare u"
      using s1(8,9) by (simp_all add: s2_def)
    have spare2: "2 * length (split_path (rest_of t)) + 1 \<le> kheap_spare s2"
      using spare split u(5) l2(2) by simp
    have sg: "seg s2 n ([] @ [(n, q, name_of t)]) 0"
      using s1(3,4,10,11) by (simp add: s2_def link_last_def)
    have own: "owned_list s2 ([] @ [(n, q, name_of t)])"
      using s1(7) l2(1) length_name_le [of t] len by (simp add: owned_list_def)
    obtain s' ys where ys: "parse_rest n (rest_ptr u (p + 3) t) s2 = Some (Inr s')"
      "seg s' n ([] @ [(n, q, name_of t)] @ ys) 0" "names ys = split_path (rest_of t)" "keeps s2 s'"
      "owned_list s' ([] @ [(n, q, name_of t)] @ ys)"
      "live s' = (\<lambda>a. if a \<in> set (nodes ys) \<union> set (strs ys) then Some 1 else live s2 a)"
      "\<forall>a \<in> set (nodes ys) \<union> set (strs ys). live s2 a = None"
      "kheap_spare s' + 2 * length ys = kheap_spare s2" "path_roots s' = path_roots s2"
      using parse_rest_builds [OF ok2 p2 spare2 sg own] by blast
    let ?ns = "(n, q, name_of t) # ys"
    have loop: "andthen (pathparser_parse_path_part n (rest_ptr u (p + 3) t) s2)
        (\<lambda>(part, q, s). andthen (hang_or (parse_rest part q s)) (\<lambda>s. Inr (r, s))) = Inr (r, s')"
      unfolding andthen_case_assoc parse_rest_step [OF s1(3)] ys(1) by (simp add: hang_or_def)
    have fresh: "r \<noteq> n" "r \<noteq> q" "r \<notin> set (nodes ys) \<union> set (strs ys)"
      using s1(5,6) u(4) ys(7) l2(1) by (auto split: if_splits)
    show thesis
    proof (rule that [of r s' ?ns])
      show "pathparser_parse p s = Inr (r, s')"
        using start s1(1,3) loop u(6) s1(12) by (simp add: deref_def Let_def s2_def)
      show "path_object s' r (tonumericdigit c) ?ns"
        using ys u(4) l2(1) fresh by (auto simp: path_object_def s2_def)
      show "names ?ns = split_path t" using ys(3) split by simp
      show "keeps s s'" using u(2) keeps_trans [OF k2 ys(4)] by (rule keeps_trans)
      show "\<forall>a \<in> path_blocks r ?ns. live s a = None"
        using ys(7) l2(1) s1(5,6) u(3,4) by (auto simp: path_blocks_def split: if_splits)
      show "live s' = (\<lambda>a. if a \<in> path_blocks r ?ns then Some 1 else live s a)"
        using ys(6) l2(1) u(4) by (auto simp: path_blocks_def)
      show "kheap_spare s' + (2 * length ?ns + 1) = kheap_spare s"
        using ys(8) l2(2) u(5) by simp
    qed
  qed
qed

section \<open>Freeing\<close>

lemma cstr_kfree:
  assumes "kheap_ok s" and "live s p = Some n" and "live s q = Some 1" and "cstr (mem s) q w" and "length w < 4096"
  shows "cstr (mem (kfree p s)) q w"
proof -
  have "mem (kfree p s) (q + of_nat k) = mem s (q + of_nat k)" if "k \<le> length w" for k
    using that assms(5) kzalloc.owned_meta [OF assms(1,3), of "q + of_nat k"]
    by (intro kzalloc.release_frame [OF assms(1,2)]) (simp add: unat_of_nat_u32)
  then show ?thesis using cstr_cong [of w "mem (kfree p s)" q "mem s"] assms(4) by blast
qed

lemma free_parts_frees:
  assumes "kheap_ok s" and "seg s f ns 0" and "owned_list s ns"
  shows "\<exists>s'. free_parts f s = Some (Inr s') \<and> kheap_ok s' \<and> path_roots s' = path_roots s \<and>
    live s' = (\<lambda>a. if a \<in> set (nodes ns) \<union> set (strs ns) then None else live s a) \<and>
    kheap_spare s' = kheap_spare s + 2 * length ns \<and>
    path_parts s' = (\<lambda>a. if a \<in> set (nodes ns) then None else path_parts s a)"
  using assms
proof (induction ns arbitrary: f s)
  case Nil
  then show ?case by (subst free_parts.simps) simp
next
  case (Cons x ns)
  obtain n q w where x: "x = (n, q, w)" by (cases x)
  note ok = Cons.prems(1)
  obtain nx where sg: "f = n" "n \<noteq> 0" "path_parts s n = Some \<lparr>part_str = q, part_next = nx\<rparr>" "seg s nx ns 0"
    using Cons.prems(2) x by auto
  have own: "live s n = Some 1" "live s q = Some 1" "n \<noteq> q" "n \<notin> set (nodes ns) \<union> set (strs ns)"
    "q \<notin> set (nodes ns) \<union> set (strs ns)" "owned_list s ns"
    using Cons.prems(3) x by (auto simp: owned_list_def)
  let ?a = "kfree q s"
  have oka: "kheap_ok ?a" and la: "live ?a = (live s)(q := None)" and spa: "kheap_spare ?a = kheap_spare s + 1"
    using kzalloc.release_ok [OF ok own(2)] kzalloc.release_owned [OF ok own(2)] kzalloc.spare_release [OF ok own(2)] by simp_all
  have lan: "live ?a n = Some 1" using own(1,3) la by simp
  let ?b = "free_part n ?a"
  have b: "kheap_ok ?b" "live ?b = (live s)(q := None, n := None)" "kheap_spare ?b = kheap_spare s + 2"
    "path_parts ?b = (path_parts s)(n := None)" "path_roots ?b = path_roots s" "mem ?b = mem (kfree n ?a)"
    using kzalloc.release_ok [OF oka lan] kzalloc.release_owned [OF oka lan] kzalloc.spare_release [OF oka lan] la spa
    by (simp_all add: free_part_def)
  have "seg ?b nx ns 0"
    using sg(4)
  proof (rule seg_cong)
    show "path_parts ?b k = path_parts s k" if "k \<in> set (nodes ns)" for k
      using that own(4) b(4) by auto
    fix q' w' assume q': "q' \<in> set (strs ns)" "cstr (mem s) q' w'" "w' \<in> set (names ns)"
    then have l: "live s q' = Some 1" "length w' < 4096" "q' \<noteq> q" using own by (auto simp: owned_list_def)
    have "cstr (mem ?a) q' w'" by (rule cstr_kfree [OF ok own(2) l(1) q'(2) l(2)])
    then show "cstr (mem ?b) q' w'"
      unfolding b(6) using l la by (intro cstr_kfree [OF oka lan]) simp_all
  qed
  moreover have "owned_list ?b ns" using own b(2) by (auto simp: owned_list_def)
  ultimately obtain s' where s': "free_parts nx ?b = Some (Inr s')" "kheap_ok s'" "path_roots s' = path_roots s"
    "live s' = (\<lambda>a. if a \<in> set (nodes ns) \<union> set (strs ns) then None else live ?b a)"
    "kheap_spare s' = kheap_spare s + 2 + 2 * length ns"
    "path_parts s' = (\<lambda>a. if a \<in> set (nodes ns) then None else path_parts ?b a)"
    using Cons.IH [OF b(1), of nx] b(3,5) by auto
  have "free_parts f s = Some (Inr s')"
    using sg(1-3) s'(1) by (subst free_parts.simps) (simp add: deref_def)
  then show ?case using s' b x by (intro exI [of _ s']) auto
qed

lemma free_path_object:
  assumes "kheap_ok s" and "path_object s r d ns"
  shows "\<exists>s'. pathparser_free r s = Inr s' \<and> kheap_ok s' \<and> path_roots s' = (path_roots s)(r := None) \<and>
    live s' = (\<lambda>a. if a \<in> path_blocks r ns then None else live s a) \<and>
    kheap_spare s' = kheap_spare s + 2 * length ns + 1 \<and>
    path_parts s' = (\<lambda>a. if a \<in> set (nodes ns) then None else path_parts s a)"
proof -
  obtain f where f: "path_roots s r = Some \<lparr>drive_no = d, first_part = f\<rparr>" "seg s f ns 0"
    and own: "owned_list s ns" "live s r = Some 1" "r \<notin> set (nodes ns) \<union> set (strs ns)"
    using assms(2) by (auto simp: path_object_def)
  obtain s1 where s1: "free_parts f s = Some (Inr s1)" "kheap_ok s1" "path_roots s1 = path_roots s"
    "live s1 = (\<lambda>a. if a \<in> set (nodes ns) \<union> set (strs ns) then None else live s a)"
    "kheap_spare s1 = kheap_spare s + 2 * length ns"
    "path_parts s1 = (\<lambda>a. if a \<in> set (nodes ns) then None else path_parts s a)"
    using free_parts_frees [OF assms(1) f(2) own(1)] by blast
  have l1: "live s1 r = Some 1" using own s1(4) by simp
  let ?s' = "(kfree r s1)\<lparr>path_roots := (path_roots s1)(r := None)\<rparr>"
  have "pathparser_free r s = Inr ?s'"
    using f(1) s1(1) by (simp add: pathparser_free_def deref_def hang_or_def Let_def)
  then show ?thesis
    using kzalloc.release_ok [OF s1(2) l1] kzalloc.release_owned [OF s1(2) l1] kzalloc.spare_release [OF s1(2) l1] s1
    by (intro exI [of _ ?s']) (auto simp: path_blocks_def)
qed

section \<open>The properties\<close>

text \<open>
  C10: parsing a well-formed path. For a string \<open>d:/...\<close> of at most 108 characters, in memory that
  the heap does not hand out, \<open>pathparser_parse\<close> returns a root with the drive number and
  the list of names between the slashes, up to the first empty name. Root, nodes and names are
  fresh heap pages of their own, two for every name and one for the root; nothing else is left
  allocated and no other memory changes.
\<close>

theorem pathparser_parse_correct:
  assumes "kheap_ok s" and "cstr (mem s) p (c # 58 # 47 # t)" and "48 \<le> c \<and> c \<le> 57"
    and "length t \<le> 105" and "\<forall>k \<le> length t. stable s (p + 3 + of_nat k)"
    and "2 * length (split_path t) + 2 \<le> kheap_spare s"
  shows "\<exists>r s' ns. pathparser_parse p s = Inr (r, s') \<and> r \<noteq> 0 \<and>
    path_object s' r (int (unat c) - 48) ns \<and> names ns = split_path t \<and> kheap_ok s' \<and>
    live s' = (\<lambda>a. if a \<in> path_blocks r ns then Some 1 else live s a) \<and>
    (\<forall>a \<in> path_blocks r ns. live s a = None) \<and> kheap_spare s' + 2 * length ns + 1 = kheap_spare s \<and>
    (\<forall>a. stable s a \<longrightarrow> mem s' a = mem s a)"
proof -
  have c: "unat c < 128" "48 \<le> unat c" "unat c \<le> 57" using assms(3) by (simp_all add: word_le_nat_alt)
  have "sint c = int (unat c)"
    using c by (intro sint_small_u8)
  then have digit: "isdigit c" "tonumericdigit c = int (unat c) - 48"
    using c by (simp_all add: isdigit_def tonumericdigit_def del: of_nat_unat)
  obtain r s' ns where r: "pathparser_parse p s = Inr (r, s')" "path_object s' r (tonumericdigit c) ns"
    "names ns = split_path t" "keeps s s'" "\<forall>a \<in> path_blocks r ns. live s a = None"
    "live s' = (\<lambda>a. if a \<in> path_blocks r ns then Some 1 else live s a)"
    "kheap_spare s' + (2 * length ns + 1) = kheap_spare s"
    using parse_builds [OF assms(1,2) digit(1) assms(4) _ assms(6)] assms(5) by blast
  have ok: "kheap_ok s'" and st: "stable s a \<longrightarrow> mem s' a = mem s a" for a
    using r(4) unfolding keeps_def by blast+
  have "live s' r = Some 1" using r(2) by (simp add: path_object_def)
  then have "r \<noteq> 0" using kzalloc.owned_aligned [OF ok] by blast
  then show ?thesis
    using r ok st digit(2) by (intro exI [of _ r] exI [of _ s'] exI [of _ ns]) simp
qed

definition demo_paths :: paths where
  "demo_paths = snd (kheap_init \<lparr>mem = demo_text, kernel_heap = demo_heap, cr3 = 0,
     current_directory = 0, video_mem = 0xB8000,
     terminal_row = 0, terminal_col = 0, path_roots = Map.empty, path_parts = Map.empty\<rparr>)"

lemma demo_paths_ok:
  "kheap_ok demo_paths" "cstr (mem demo_paths) 16 [48, 58, 47, 97]" "kheap_spare demo_paths = 25600"
  "\<forall>k \<le> 1. stable demo_paths (16 + 3 + of_nat k)"
proof -
  show "kheap_ok demo_paths" and "kheap_spare demo_paths = 25600"
    unfolding demo_paths_def by (rule booted_client)+
  show "\<forall>k \<le> 1. stable demo_paths (16 + 3 + of_nat k)"
    unfolding demo_paths_def by (intro allI impI booted_stable_low) (auto simp: le_Suc_eq)
  have "mem demo_paths a = demo_text a" if "unat a < 100" for a
    using that unfolding demo_paths_def
    by (simp add: kheap_init_eq memset_apply unat_sub_if_size word_size word_le_nat_alt)
  then show "cstr (mem demo_paths) 16 [48, 58, 47, 97]"
    using demo_text_cstr by simp
qed

lemma split_demo: "split_path [97] = [[97]]"
  by (subst split_path.simps) (simp add: name_of_def rest_of_def, subst split_path.simps, simp)

theorem pathparser_parse_correct_witness:
  "\<exists>r s' ns. pathparser_parse 16 demo_paths = Inr (r, s') \<and> path_object s' r 0 ns \<and> names ns = [[97]] \<and>
     kheap_spare s' = 25597"
proof -
  obtain r s' ns where "pathparser_parse 16 demo_paths = Inr (r, s')" "path_object s' r 0 ns"
    "names ns = [[97]]" "kheap_spare s' + 2 * length ns + 1 = 25600"
    using pathparser_parse_correct [OF demo_paths_ok(1,2)] demo_paths_ok(3,4) split_demo by auto
  moreover from this(3) have "length ns = 1" by (simp add: names_def) (metis length_map length_Cons list.size(3) One_nat_def)
  ultimately show ?thesis by auto
qed

text \<open>
  C36: a path that is too long, or that does not start with a digit, a colon and a slash, is
  refused: the result is the null pointer and nothing changes, nothing is allocated.
\<close>

theorem pathparser_parse_refuses:
  assumes "cstr (mem s) p t" and "length t > 108 \<or> length t < 3 \<or> \<not> (48 \<le> hd t \<and> hd t \<le> 57) \<or>
    t ! 1 \<noteq> 58 \<or> t ! 2 \<noteq> 47"
  shows "pathparser_parse p s = Inr (0, s)"
proof -
  have len: "strlen (mem s) p = Some (int (length t))" by (rule strlen_cstr [OF assms(1)])
  show ?thesis
  proof (cases "length t > 108")
    case True
    then show ?thesis by (simp add: pathparser_parse_def len c_defs)
  next
    case False
    have "\<not> pathparser_path_valid_format (mem s) p"
    proof
      assume v: "pathparser_path_valid_format (mem s) p"
      have l3: "length t \<ge> 3"
        using v strnlen_cstr [OF assms(1), of 108] False by (simp add: pathparser_path_valid_format_def c_defs)
      then obtain x y z r where t: "t = x # y # z # r"
        by (metis Suc_le_length_iff numeral_3_eq_3)
      then have m: "mem s p = x" "mem s (p + 1) = y" "mem s (p + 2) = z" using assms(1) by (simp_all add: add.assoc)
      have x: "48 \<le> sint x" "sint x \<le> 57" and yz: "y = 58" "z = 47"
        using v m by (auto simp: pathparser_path_valid_format_def isdigit_def)
      have "uint x = sint x mod 256" using uint_word_of_int [of "sint x", where ?'a = 8] by simp
      then have "uint x = sint x" using x by simp
      then have "48 \<le> x" "x \<le> 57" using x by (simp_all add: word_le_def)
      then show False using assms(2) t yz False by auto
    qed
    then show ?thesis by (simp add: pathparser_parse_def len pathparser_get_drive_by_path_def c_defs)
  qed
qed

theorem pathparser_parse_refuses_witness: "pathparser_parse 17 demo_paths = Inr (0, demo_paths)"
  using pathparser_parse_refuses [of demo_paths 17 "[58, 47, 97]"] demo_paths_ok(2) by simp

text \<open>
  \<open>pathparser_free\<close> gives back everything a parsed path took: the live allocations, the
  number of free blocks and the objects are those before the path was parsed.
\<close>

theorem pathparser_free_roundtrip:
  assumes "kheap_ok s" and "path_object s r d ns"
  shows "\<exists>s'. pathparser_free r s = Inr s' \<and> kheap_ok s' \<and> path_roots s' r = None \<and>
    (\<forall>n \<in> set (nodes ns). path_parts s' n = None) \<and>
    live s' = (\<lambda>a. if a \<in> path_blocks r ns then None else live s a) \<and>
    kheap_spare s' = kheap_spare s + 2 * length ns + 1"
  using free_path_object [OF assms] by auto

theorem pathparser_free_roundtrip_witness:
  "\<exists>r s1 s2. pathparser_parse 16 demo_paths = Inr (r, s1) \<and> pathparser_free r s1 = Inr s2 \<and>
     live s2 = live demo_paths \<and> kheap_spare s2 = kheap_spare demo_paths"
proof -
  have digit: "isdigit 48" by (simp add: isdigit_def)
  have st: "\<And>k. k \<le> length [97 :: u8] \<Longrightarrow> stable demo_paths (16 + 3 + of_nat k)"
    and spare: "2 * length (split_path [97]) + 2 \<le> kheap_spare demo_paths" and short: "length [97 :: u8] \<le> 105"
    using demo_paths_ok(3,4) by (simp_all add: split_demo)
  obtain r s1 ns where r: "pathparser_parse 16 demo_paths = Inr (r, s1)"
    "path_object s1 r (tonumericdigit 48) ns" "keeps demo_paths s1"
    "\<forall>a \<in> path_blocks r ns. live demo_paths a = None"
    "live s1 = (\<lambda>a. if a \<in> path_blocks r ns then Some 1 else live demo_paths a)"
    "kheap_spare s1 + (2 * length ns + 1) = kheap_spare demo_paths"
    by (rule parse_builds [OF demo_paths_ok(1,2) digit short st spare])
  have "kheap_ok s1" using r(3) unfolding keeps_def by (rule conjunct1)
  then obtain s2 where s2: "pathparser_free r s1 = Inr s2"
    "live s2 = (\<lambda>a. if a \<in> path_blocks r ns then None else live s1 a)"
    "kheap_spare s2 = kheap_spare s1 + 2 * length ns + 1"
    using pathparser_free_roundtrip [OF _ r(2)] by blast
  have "live s2 = live demo_paths"
    using s2(2) r(4,5) by (intro ext) simp
  then show ?thesis using r(1,6) s2 by auto
qed

end
