(* ===== verification/Volume.thy ===== *)
theory Volume
  imports Pparser Disk
begin

text \<open>
  The \<open>struct disk\<close> of \<^verbatim>\<open>src/disk/disk.c\<close> and the stream objects of \<^verbatim>\<open>streamer.c\<close> as parts
  of the kernel's state. What the linker and the hardware fix is collected in \<open>platform\<close>:
  the controller, the addresses of the static objects, the low byte of the address of a string
  literal, the place of a local array that is passed on by its address, and what an
  uninitialised variable or a missing \<open>return\<close> leaves.
\<close>

unbundle bit_operations_syntax

section \<open>The platform\<close>

record platform =
  pl_ata :: ata
  pl_disk :: u32
  pl_fat16_fs :: u32
  pl_blank :: u8
  pl_path :: u32
  pl_undefined :: u32

section \<open>int arithmetic\<close>

text \<open>A 32-bit \<open>int\<close>: the result of an operation cut back to 32 bits, as the target computes it.\<close>

definition i32 :: "int \<Rightarrow> int" where
  "i32 x = signed_take_bit 31 x"

lemma i32_small: "- 2147483648 \<le> x \<Longrightarrow> x < 2147483648 \<Longrightarrow> i32 x = x"
  unfolding i32_def by (rule signed_take_bit_int_eq_self) simp_all

section \<open>State (disk.h)\<close>

record disk =
  disk_type :: u32
  disk_sector_size :: int
  disk_id :: int
  disk_filesystem :: u32
  disk_fs_private :: u32

record volumes = paths +
  the_disk :: disk
  streams :: "u32 \<rightharpoonup> disk_stream"

text \<open>There is one \<open>struct disk\<close>; a pointer to a disk is its address.\<close>

definition deref_disk :: "platform \<Rightarrow> u32 \<Rightarrow> 'a volumes_scheme \<Rightarrow> disk outcome" where
  "deref_disk pl p s = (if p = pl_disk pl then Inr (the_disk s) else Inl (BadPointer p))"

section \<open>Streams as objects\<close>

definition diskstreamer_new :: "platform \<Rightarrow> int \<Rightarrow> 'a volumes_scheme \<Rightarrow> (u32 \<times> 'a volumes_scheme) outcome" where
  "diskstreamer_new pl number s =
     (let disk = disk_get (pl_disk pl) number
      in if disk = 0 then Inr (0, s)
         else
           let (streamer, s) = kzalloc 8 s
           in if streamer = 0 then Inl (BadPointer 0)
              else Inr (streamer, s\<lparr>streams := (streams s)(streamer \<mapsto> \<lparr>stream_pos = 0, stream_disk = disk\<rparr>)\<rparr>))"

definition stream_seek :: "u32 \<Rightarrow> int \<Rightarrow> 'a volumes_scheme \<Rightarrow> (int \<times> 'a volumes_scheme) outcome" where
  "stream_seek stream pos s =
     andthen (deref streams stream s) (\<lambda>x.
       let (res, x) = diskstreamer_seek x pos in Inr (res, s\<lparr>streams := (streams s)(stream \<mapsto> x)\<rparr>))"

text \<open>The bytes read are returned; the caller says where they go.\<close>

definition stream_read ::
    "platform \<Rightarrow> u32 \<Rightarrow> int \<Rightarrow> 'a volumes_scheme \<Rightarrow> (int \<times> u8 list \<times> 'a volumes_scheme) outcome" where
  "stream_read pl stream n s =
     andthen (deref streams stream s) (\<lambda>x.
       andthen (diskstreamer_read (pl_ata pl) (pl_disk pl) x n) (\<lambda>(res, bytes, x).
         Inr (res, bytes, s\<lparr>streams := (streams s)(stream \<mapsto> x)\<rparr>)))"

definition diskstreamer_close :: "u32 \<Rightarrow> 'a volumes_scheme \<Rightarrow> 'a volumes_scheme" where
  "diskstreamer_close stream s =
     (let s = kfree stream s in s\<lparr>streams := (streams s)(stream := None)\<rparr>)"

end
