(* ===== verification/Fat16.thy ===== *)
theory Fat16
  imports Volume
begin

text \<open>
  \<^verbatim>\<open>src/fs/fat/fat16.c\<close>: the FAT16 driver. Its structures are objects at heap addresses; what
  comes from the disk (the header, the 32-byte directory items) stays bytes and is decoded where
  the code reads a field.
\<close>

unbundle bit_operations_syntax

section \<open>Constants and structures\<close>

definition SLOBOS_FAT16_SIGNATURE :: u8 where [c_defs]: "SLOBOS_FAT16_SIGNATURE = 0x29"
definition SLOBOS_FAT16_FAT_ENTRY_SIZE :: int where [c_defs]: "SLOBOS_FAT16_FAT_ENTRY_SIZE = 2"
definition SLOBOS_FAT16_BAD_SECTOR :: int where [c_defs]: "SLOBOS_FAT16_BAD_SECTOR = 0xFF7"
definition FAT_ITEM_TYPE_DIRECTORY :: u32 where [c_defs]: "FAT_ITEM_TYPE_DIRECTORY = 0"
definition FAT_ITEM_TYPE_FILE :: u32 where [c_defs]: "FAT_ITEM_TYPE_FILE = 1"
definition FAT_FILE_READ_ONLY :: u8 where [c_defs]: "FAT_FILE_READ_ONLY = 0x01"
definition FAT_FILE_SUBDIRECTORY :: u8 where [c_defs]: "FAT_FILE_SUBDIRECTORY = 0x10"

text \<open>file.h: how a file is opened, where a seek starts from, what \<open>stat\<close> reports.\<close>

definition SEEK_SET :: u32 where [c_defs]: "SEEK_SET = 0"
definition SEEK_CUR :: u32 where [c_defs]: "SEEK_CUR = 1"
definition SEEK_END :: u32 where [c_defs]: "SEEK_END = 2"
definition FILE_MODE_READ :: u32 where [c_defs]: "FILE_MODE_READ = 0"
definition FILE_MODE_WRITE :: u32 where [c_defs]: "FILE_MODE_WRITE = 1"
definition FILE_MODE_APPEND :: u32 where [c_defs]: "FILE_MODE_APPEND = 2"
definition FILE_MODE_INVALID :: u32 where [c_defs]: "FILE_MODE_INVALID = 3"
definition FILE_STAT_READ_ONLY :: u32 where [c_defs]: "FILE_STAT_READ_ONLY = 1"

record file_stat =
  stat_flags :: u32
  stat_filesize :: u32

record fat_directory =
  dir_item :: u32
  dir_total :: int
  dir_sector_pos :: int
  dir_ending_sector_pos :: int

text \<open>The union of \<open>fat_item\<close> is one pointer, to an item or to a directory.\<close>

record fat_item =
  item_ptr :: u32
  item_type :: u32

record fat_file_descriptor =
  desc_item :: u32
  desc_pos :: u32

text \<open>The 62 bytes of \<open>struct fat_h\<close> are kept as they were read.\<close>

record fat_private =
  fat_header :: "u8 list"
  root_directory :: fat_directory
  cluster_read_stream :: u32
  fat_read_stream :: u32
  directory_stream :: u32

record fat_volumes = volumes +
  fat_privates :: "u32 \<rightharpoonup> fat_private"
  fat_directories :: "u32 \<rightharpoonup> fat_directory"
  fat_items :: "u32 \<rightharpoonup> fat_item"
  fat_descriptors :: "u32 \<rightharpoonup> fat_file_descriptor"

section \<open>Fields of the header and of a directory item\<close>

definition header8 :: "fat_private \<Rightarrow> nat \<Rightarrow> int" where
  "header8 p i = uint (fat_header p ! i)"

definition header16 :: "fat_private \<Rightarrow> nat \<Rightarrow> int" where
  "header16 p i = uint (fat_header p ! i) + 256 * uint (fat_header p ! (i + 1))"

definition sectors_per_cluster :: "fat_private \<Rightarrow> int" where
  "sectors_per_cluster p = header8 p 13"

definition reserved_sectors :: "fat_private \<Rightarrow> int" where
  "reserved_sectors p = header16 p 14"

definition fat_copies :: "fat_private \<Rightarrow> int" where
  "fat_copies p = header8 p 16"

definition root_dir_entries :: "fat_private \<Rightarrow> int" where
  "root_dir_entries p = header16 p 17"

definition sectors_per_fat :: "fat_private \<Rightarrow> int" where
  "sectors_per_fat p = header16 p 22"

definition header_signature :: "fat_private \<Rightarrow> u8" where
  "header_signature p = fat_header p ! 38"

definition item_attribute :: "byte_mem \<Rightarrow> u32 \<Rightarrow> u8" where
  "item_attribute m item = m (item + 11)"

definition item_filesize :: "byte_mem \<Rightarrow> u32 \<Rightarrow> u32" where
  "item_filesize m item = load32 m (item + 28)"

definition item_at :: "u32 \<Rightarrow> int \<Rightarrow> u32" where
  "item_at items i = items + word_of_int (32 * i)"

section \<open>Mounting a disk\<close>

definition fat16_sector_to_absolute :: "disk \<Rightarrow> int \<Rightarrow> int" where
  "fat16_sector_to_absolute disk sector = i32 (sector * disk_sector_size disk)"

text \<open>A fresh \<open>fat_private\<close> is all zero before its three streams are made.\<close>

definition fat16_init_private :: "platform \<Rightarrow> disk \<Rightarrow> u32 \<Rightarrow> 'a fat_volumes_scheme \<Rightarrow> 'a fat_volumes_scheme outcome" where
  "fat16_init_private pl disk private s =
     (if private = 0 then Inl (BadPointer 0)
      else
       andthen (diskstreamer_new pl (disk_id disk) s) (\<lambda>(c, s).
       andthen (diskstreamer_new pl (disk_id disk) s) (\<lambda>(f, s).
       andthen (diskstreamer_new pl (disk_id disk) s) (\<lambda>(d, s).
         Inr (s\<lparr>fat_privates := (fat_privates s)(private \<mapsto>
           \<lparr>fat_header = replicate 62 0,
            root_directory = \<lparr>dir_item = 0, dir_total = 0, dir_sector_pos = 0, dir_ending_sector_pos = 0\<rparr>,
            cluster_read_stream = c, fat_read_stream = f, directory_stream = d\<rparr>)\<rparr>)))))"

text \<open>The scan of a directory ends at an item whose name starts with 0; 0xE5 marks an unused item.\<close>

partial_function (option) count_items ::
    "platform \<Rightarrow> u32 \<Rightarrow> int \<Rightarrow> 'a fat_volumes_scheme \<Rightarrow> (int \<times> 'a fat_volumes_scheme) outcome option" where
  "count_items pl stream i s =
     (case stream_read pl stream 32 s of
        Inl e \<Rightarrow> Some (Inl e)
      | Inr (res, item, s) \<Rightarrow>
          if res \<noteq> SLOBOS_ALL_OK then Some (Inr (- EIO, s))
          else if item ! 0 = 0 then Some (Inr (i, s))
          else if item ! 0 = 0xE5 then count_items pl stream i s
          else count_items pl stream (i + 1) s)"

definition fat16_get_total_items_for_directory ::
    "platform \<Rightarrow> disk \<Rightarrow> u32 \<Rightarrow> 'a fat_volumes_scheme \<Rightarrow> (int \<times> 'a fat_volumes_scheme) outcome" where
  "fat16_get_total_items_for_directory pl disk directory_start_sector s =
     andthen (deref fat_privates (disk_fs_private disk) s) (\<lambda>private.
       let directory_start_pos = sint (directory_start_sector * word_of_int (disk_sector_size disk));
           stream = directory_stream private
       in andthen (stream_seek stream directory_start_pos s) (\<lambda>(res, s).
          if res \<noteq> SLOBOS_ALL_OK then Inr (- EIO, s)
          else hang_or (count_items pl stream 0 s)))"

text \<open>The directory is returned; on an error it is what it was.\<close>

definition fat16_get_root_directory ::
    "platform \<Rightarrow> disk \<Rightarrow> fat_private \<Rightarrow> 'a fat_volumes_scheme \<Rightarrow> (int \<times> fat_directory \<times> 'a fat_volumes_scheme) outcome" where
  "fat16_get_root_directory pl disk private s =
     (let directory = root_directory private;
          root_dir_sector_pos = fat_copies private * sectors_per_fat private + reserved_sectors private;
          root_dir_size = root_dir_entries private * 32
      in if disk_sector_size disk = 0 then Inl DivByZero
      else
        andthen (fat16_get_total_items_for_directory pl disk (word_of_int root_dir_sector_pos) s) (\<lambda>(total_items, s).
          let (dir, s) = kzalloc (word_of_int root_dir_size) s
          in if dir = 0 then Inr (- ENOMEM, directory, s)
          else
            andthen (stream_seek (directory_stream private) (fat16_sector_to_absolute disk root_dir_sector_pos) s) (\<lambda>(res, s).
              if res \<noteq> SLOBOS_ALL_OK then Inr (- EIO, directory, s)
              else
                andthen (stream_read pl (directory_stream private) root_dir_size s) (\<lambda>(res, bytes, s).
                  let s = s\<lparr>mem := store_bytes (mem s) dir bytes\<rparr>
                  in if res \<noteq> SLOBOS_ALL_OK then Inr (- EIO, directory, s)
                     else Inr (0, \<lparr>dir_item = dir, dir_total = total_items, dir_sector_pos = root_dir_sector_pos,
                            dir_ending_sector_pos = root_dir_sector_pos + root_dir_size sdiv disk_sector_size disk\<rparr>, s)))))"

text \<open>
  \<open>fat16_resolve\<close> up to its label \<open>out\<close>, and what follows it. The header is written into the
  private structure byte by byte from its start.
\<close>

definition fat16_resolve_body ::
    "platform \<Rightarrow> u32 \<Rightarrow> u32 \<Rightarrow> 'a fat_volumes_scheme \<Rightarrow> (int \<times> 'a fat_volumes_scheme) outcome" where
  "fat16_resolve_body pl private stream s =
     (if stream = 0 then Inr (- ENOMEM, s)
      else
        andthen (stream_read pl stream 62 s) (\<lambda>(res, bytes, s).
          andthen (deref fat_privates private s) (\<lambda>p.
            let p = p\<lparr>fat_header := bytes @ drop (length bytes) (fat_header p)\<rparr>;
                s = s\<lparr>fat_privates := (fat_privates s)(private \<mapsto> p)\<rparr>
            in if res \<noteq> SLOBOS_ALL_OK then Inr (- EIO, s)
            else if header_signature p \<noteq> 0x29 then Inr (- EFSNOTUS, s)
            else
              andthen (fat16_get_root_directory pl (the_disk s) p s) (\<lambda>(res, directory, s).
                let s = s\<lparr>fat_privates := (fat_privates s)(private \<mapsto> p\<lparr>root_directory := directory\<rparr>)\<rparr>
                in if res \<noteq> SLOBOS_ALL_OK then Inr (- EIO, s) else Inr (0, s)))))"

definition fat16_resolve :: "platform \<Rightarrow> u32 \<Rightarrow> 'a fat_volumes_scheme \<Rightarrow> (int \<times> 'a fat_volumes_scheme) outcome" where
  "fat16_resolve pl disk s =
     (let (private, s) = kzalloc 92 s
      in andthen (deref_disk pl disk s) (\<lambda>d.
         andthen (fat16_init_private pl d private s) (\<lambda>s.
           let s = s\<lparr>the_disk := d\<lparr>disk_fs_private := private, disk_filesystem := pl_fat16_fs pl\<rparr>\<rparr>
           in andthen (diskstreamer_new pl (disk_id d) s) (\<lambda>(stream, s).
              andthen (fat16_resolve_body pl private stream s) (\<lambda>(res, s).
                let s = (if stream \<noteq> 0 then diskstreamer_close stream s else s)
                in if res < 0
                   then
                     let s = kfree private s
                     in Inr (res, s\<lparr>fat_privates := (fat_privates s)(private := None),
                               the_disk := (the_disk s)\<lparr>disk_fs_private := 0\<rparr>\<rparr>)
                   else Inr (res, s))))))"

section \<open>Names\<close>

text \<open>
  The characters up to a 0 or a space, and the character that ended them. Nothing else bounds
  the scan: a name that fills its eight bytes runs on into the extension and beyond.
\<close>

partial_function (option) proper_chars :: "byte_mem \<Rightarrow> u32 \<Rightarrow> u8 list \<Rightarrow> (u8 list \<times> u8) option" where
  "proper_chars m inp acc =
     (if m inp \<noteq> 0x00 \<and> m inp \<noteq> 0x20 then proper_chars m (inp + 1) (acc @ [m inp]) else Some (acc, m inp))"

text \<open>Writing to a local buffer of fixed length.\<close>

definition buffer_write :: "u8 list \<Rightarrow> nat \<Rightarrow> u8 list \<Rightarrow> u8 list outcome" where
  "buffer_write buf i bytes =
     (if i + length bytes \<le> length buf then Inr (take i buf @ bytes @ drop (i + length bytes) buf)
      else Inl (OutOfBounds (int (length buf))))"

definition fat16_to_proper_string :: "u8 list \<Rightarrow> nat \<Rightarrow> byte_mem \<Rightarrow> u32 \<Rightarrow> (u8 list \<times> nat) outcome" where
  "fat16_to_proper_string buf out m inp =
     (case proper_chars m inp [] of
        None \<Rightarrow> Inl Hang
      | Some (chars, stop) \<Rightarrow>
          andthen (buffer_write buf out chars) (\<lambda>buf.
            let out = out + length chars
            in if stop = 0x20 then andthen (buffer_write buf out [0]) (\<lambda>buf. Inr (buf, out))
               else Inr (buf, out)))"

definition fat16_get_full_relative_filename :: "byte_mem \<Rightarrow> u32 \<Rightarrow> nat \<Rightarrow> u8 list outcome" where
  "fat16_get_full_relative_filename m item max_len =
     andthen (fat16_to_proper_string (replicate max_len 0) 0 m item) (\<lambda>(buf, out).
       if m (item + 8) \<noteq> 0x00 \<and> m (item + 8) \<noteq> 0x20
       then andthen (buffer_write buf out [46]) (\<lambda>buf.
              andthen (fat16_to_proper_string buf (out + 1) m (item + 8)) (\<lambda>(buf, out). Inr buf))
       else Inr buf)"

text \<open>\<open>istrncmp\<close> with a whole local buffer as its first string.\<close>

fun istrncmp_buffer :: "u8 list \<Rightarrow> byte_mem \<Rightarrow> u32 \<Rightarrow> int" where
  "istrncmp_buffer [] m s2 = 0"
| "istrncmp_buffer (u1 # buf) m s2 =
     (let u2 = m s2
      in if u1 \<noteq> u2 \<and> tolower u1 \<noteq> tolower u2 then uint u1 - uint u2
         else if u1 = 0 then 0
         else istrncmp_buffer buf m (s2 + 1))"

definition fat16_clone_directory_item :: "u32 \<Rightarrow> u32 \<Rightarrow> 'a fat_volumes_scheme \<Rightarrow> u32 \<times> 'a fat_volumes_scheme" where
  "fat16_clone_directory_item item sz s =
     (if sz < 32 then (0, s)
      else
        let (item_copy, s) = kzalloc sz s
        in if item_copy = 0 then (0, s)
           else (item_copy, s\<lparr>mem := memcpy (mem s) item_copy item sz\<rparr>))"

section \<open>Clusters\<close>

definition fat16_get_first_cluster :: "byte_mem \<Rightarrow> u32 \<Rightarrow> u32" where
  "fat16_get_first_cluster m item = ucast (load16 m (item + 20) OR load16 m (item + 26))"

definition fat16_cluster_to_sector :: "fat_private \<Rightarrow> int \<Rightarrow> int" where
  "fat16_cluster_to_sector private cluster =
     i32 (dir_ending_sector_pos (root_directory private) + (cluster - 2) * sectors_per_cluster private)"

definition fat16_get_first_fat_sector :: "fat_private \<Rightarrow> u32" where
  "fat16_get_first_fat_sector private = word_of_int (reserved_sectors private)"

text \<open>The position multiplies where it should add.\<close>

definition fat16_get_fat_entry ::
    "platform \<Rightarrow> disk \<Rightarrow> int \<Rightarrow> 'a fat_volumes_scheme \<Rightarrow> (int \<times> 'a fat_volumes_scheme) outcome" where
  "fat16_get_fat_entry pl disk cluster s =
     andthen (deref fat_privates (disk_fs_private disk) s) (\<lambda>private.
       let stream = fat_read_stream private
       in if stream = 0 then Inr (- 1, s)
       else
         let fat_table_position = fat16_get_first_fat_sector private * word_of_int (disk_sector_size disk)
         in andthen (stream_seek stream
              (sint (fat_table_position * word_of_int (cluster * SLOBOS_FAT16_FAT_ENTRY_SIZE))) s) (\<lambda>(res, s).
            if res < 0 then Inr (res, s)
            else
              andthen (stream_read pl stream 2 s) (\<lambda>(res, bytes, s).
                if res < 0 then Inr (res, s)
                else Inr (uint (bytes ! 0) + 256 * uint (bytes ! 1), s))))"

fun follow_clusters ::
    "platform \<Rightarrow> disk \<Rightarrow> nat \<Rightarrow> int \<Rightarrow> 'a fat_volumes_scheme \<Rightarrow> (int \<times> 'a fat_volumes_scheme) outcome" where
  "follow_clusters pl disk 0 cluster_to_use s = Inr (cluster_to_use, s)"
| "follow_clusters pl disk (Suc n) cluster_to_use s =
     andthen (fat16_get_fat_entry pl disk cluster_to_use s) (\<lambda>(entry, s).
       if entry = 0xFF8 \<or> entry = 0xFFF then Inr (- EIO, s)
       else if entry = SLOBOS_FAT16_BAD_SECTOR then Inr (- EIO, s)
       else if entry = 0xFF0 \<or> entry = 0xFF6 then Inr (- EIO, s)
       else if entry = 0 then Inr (- EIO, s)
       else follow_clusters pl disk n entry s)"

definition size_of_cluster_bytes :: "fat_private \<Rightarrow> disk \<Rightarrow> int" where
  "size_of_cluster_bytes private disk = i32 (sectors_per_cluster private * disk_sector_size disk)"

definition fat16_get_cluster_for_offset ::
    "platform \<Rightarrow> disk \<Rightarrow> int \<Rightarrow> int \<Rightarrow> 'a fat_volumes_scheme \<Rightarrow> (int \<times> 'a fat_volumes_scheme) outcome" where
  "fat16_get_cluster_for_offset pl disk starting_cluster offset s =
     andthen (deref fat_privates (disk_fs_private disk) s) (\<lambda>private.
       let cluster_bytes = size_of_cluster_bytes private disk
       in if cluster_bytes = 0 then Inl DivByZero
          else follow_clusters pl disk (nat (offset sdiv cluster_bytes)) starting_cluster s)"

text \<open>One piece of a read: at most a cluster, from the position of \<open>offset\<close> on.\<close>

definition read_piece ::
    "platform \<Rightarrow> disk \<Rightarrow> u32 \<Rightarrow> int \<Rightarrow> int \<Rightarrow> int \<Rightarrow> u32 \<Rightarrow> 'a fat_volumes_scheme \<Rightarrow>
     (int \<times> int \<times> 'a fat_volumes_scheme) outcome" where
  "read_piece pl disk stream cluster offset n out s =
     andthen (deref fat_privates (disk_fs_private disk) s) (\<lambda>private.
       let cluster_bytes = size_of_cluster_bytes private disk
       in andthen (fat16_get_cluster_for_offset pl disk cluster offset s) (\<lambda>(cluster_to_use, s).
          if cluster_to_use < 0 then Inr (cluster_to_use, 0, s)
          else
            let offset_from_cluster = offset smod cluster_bytes;
                starting_sector = fat16_cluster_to_sector private cluster_to_use;
                starting_pos = i32 (starting_sector * disk_sector_size disk + offset_from_cluster);
                total_to_read = (if n > cluster_bytes then cluster_bytes else n)
            in andthen (stream_seek stream starting_pos s) (\<lambda>(res, s).
               if res \<noteq> SLOBOS_ALL_OK then Inr (res, 0, s)
               else
                 andthen (stream_read pl stream total_to_read s) (\<lambda>(res, bytes, s).
                   Inr (res, total_to_read, s\<lparr>mem := store_bytes (mem s) out bytes\<rparr>)))))"

partial_function (option) fat16_read_internal_from_stream ::
    "platform \<Rightarrow> disk \<Rightarrow> u32 \<Rightarrow> int \<Rightarrow> int \<Rightarrow> int \<Rightarrow> u32 \<Rightarrow> 'a fat_volumes_scheme \<Rightarrow>
     (int \<times> 'a fat_volumes_scheme) outcome option" where
  "fat16_read_internal_from_stream pl disk stream cluster offset n out s =
     (case read_piece pl disk stream cluster offset n out s of
        Inl e \<Rightarrow> Some (Inl e)
      | Inr (res, total_to_read, s) \<Rightarrow>
          if res \<noteq> SLOBOS_ALL_OK then Some (Inr (res, s))
          else if n - total_to_read > 0
          then fat16_read_internal_from_stream pl disk stream cluster (offset + total_to_read)
                 (n - total_to_read) (out + word_of_int total_to_read) s
          else Some (Inr (res, s)))"

definition fat16_read_internal ::
    "platform \<Rightarrow> disk \<Rightarrow> int \<Rightarrow> int \<Rightarrow> int \<Rightarrow> u32 \<Rightarrow> 'a fat_volumes_scheme \<Rightarrow>
     (int \<times> 'a fat_volumes_scheme) outcome" where
  "fat16_read_internal pl disk starting_cluster offset n out s =
     andthen (deref fat_privates (disk_fs_private disk) s) (\<lambda>fs_private.
       hang_or (fat16_read_internal_from_stream pl disk (cluster_read_stream fs_private)
         starting_cluster offset n out s))"

section \<open>Items and directories\<close>

definition fat16_free_directory :: "u32 \<Rightarrow> 'a fat_volumes_scheme \<Rightarrow> 'a fat_volumes_scheme outcome" where
  "fat16_free_directory directory s =
     (if directory = 0 then Inr s
      else
        andthen (deref fat_directories directory s) (\<lambda>d.
          let s = (if dir_item d \<noteq> 0 then kfree (dir_item d) s else s);
              s = kfree directory s
          in Inr (s\<lparr>fat_directories := (fat_directories s)(directory := None)\<rparr>)))"

definition fat16_fat_item_free :: "u32 \<Rightarrow> 'a fat_volumes_scheme \<Rightarrow> 'a fat_volumes_scheme outcome" where
  "fat16_fat_item_free item s =
     andthen (deref fat_items item s) (\<lambda>i.
       andthen (if item_type i = FAT_ITEM_TYPE_DIRECTORY then fat16_free_directory (item_ptr i) s
                else if item_type i = FAT_ITEM_TYPE_FILE then Inr (kfree (item_ptr i) s)
                else Inr s) (\<lambda>s.
         let s = kfree item s in Inr (s\<lparr>fat_items := (fat_items s)(item := None)\<rparr>)))"

text \<open>On an error the directory has been freed when its address is returned.\<close>

definition fat16_load_fat_directory ::
    "platform \<Rightarrow> disk \<Rightarrow> u32 \<Rightarrow> 'a fat_volumes_scheme \<Rightarrow> (u32 \<times> 'a fat_volumes_scheme) outcome" where
  "fat16_load_fat_directory pl disk item s =
     andthen (deref fat_privates (disk_fs_private disk) s) (\<lambda>private.
       if item_attribute (mem s) item AND FAT_FILE_SUBDIRECTORY = 0 then Inr (0, s)
       else
         let (directory, s) = kzalloc 16 s
         in if directory = 0 then Inr (0, s)
         else
           let cluster = sint (fat16_get_first_cluster (mem s) item);
               cluster_sector = fat16_cluster_to_sector private cluster
           in andthen (fat16_get_total_items_for_directory pl disk (word_of_int cluster_sector) s) (\<lambda>(total_items, s).
              let directory_size = i32 (total_items * 32);
                  (items, s) = kzalloc (word_of_int directory_size) s;
                  d = \<lparr>dir_item = items, dir_total = total_items, dir_sector_pos = 0, dir_ending_sector_pos = 0\<rparr>;
                  s = s\<lparr>fat_directories := (fat_directories s)(directory \<mapsto> d)\<rparr>
              in andthen (if items = 0 then Inr (- ENOMEM, s)
                          else fat16_read_internal pl disk cluster 0 directory_size items s) (\<lambda>(res, s).
                 if res \<noteq> SLOBOS_ALL_OK
                 then andthen (fat16_free_directory directory s) (\<lambda>s. Inr (directory, s))
                 else Inr (directory, s))))"

text \<open>A directory is loaded, and then the item is made a file all the same.\<close>

definition fat16_new_fat_item_for_directory_item ::
    "platform \<Rightarrow> disk \<Rightarrow> u32 \<Rightarrow> 'a fat_volumes_scheme \<Rightarrow> (u32 \<times> 'a fat_volumes_scheme) outcome" where
  "fat16_new_fat_item_for_directory_item pl disk item s =
     (let (f_item, s) = kzalloc 8 s
      in if f_item = 0 then Inr (0, s)
      else
        andthen (if item_attribute (mem s) item AND FAT_FILE_SUBDIRECTORY \<noteq> 0
                 then fat16_load_fat_directory pl disk item s else Inr (0, s)) (\<lambda>(directory, s).
          let (copy, s) = fat16_clone_directory_item item 32 s
          in Inr (f_item, s\<lparr>fat_items := (fat_items s)(f_item \<mapsto>
               \<lparr>item_ptr = copy, item_type = FAT_ITEM_TYPE_FILE\<rparr>)\<rparr>)))"

text \<open>\<open>n\<close> items are left to look at; a match does not end the loop.\<close>

fun find_item_loop ::
    "platform \<Rightarrow> disk \<Rightarrow> fat_directory \<Rightarrow> u32 \<Rightarrow> int \<Rightarrow> nat \<Rightarrow> u32 \<Rightarrow> 'a fat_volumes_scheme \<Rightarrow>
     (u32 \<times> 'a fat_volumes_scheme) outcome" where
  "find_item_loop pl disk directory name i 0 f_item s = Inr (f_item, s)"
| "find_item_loop pl disk directory name i (Suc n) f_item s =
     andthen (fat16_get_full_relative_filename (mem s) (item_at (dir_item directory) i) 108) (\<lambda>tmp_filename.
       if istrncmp_buffer tmp_filename (mem s) name = 0
       then andthen (fat16_new_fat_item_for_directory_item pl disk (item_at (dir_item directory) i) s) (\<lambda>(f_item, s).
              find_item_loop pl disk directory name (i + 1) n f_item s)
       else find_item_loop pl disk directory name (i + 1) n f_item s)"

definition fat16_find_item_in_directory ::
    "platform \<Rightarrow> disk \<Rightarrow> fat_directory \<Rightarrow> u32 \<Rightarrow> 'a fat_volumes_scheme \<Rightarrow>
     (u32 \<times> 'a fat_volumes_scheme) outcome" where
  "fat16_find_item_in_directory pl disk directory name s =
     find_item_loop pl disk directory name 0 (nat (dir_total directory)) 0 s"

text \<open>The loop over the rest of the path.\<close>

partial_function (option) descend ::
    "platform \<Rightarrow> disk \<Rightarrow> u32 \<Rightarrow> u32 \<Rightarrow> 'a fat_volumes_scheme \<Rightarrow> (u32 \<times> 'a fat_volumes_scheme) outcome option" where
  "descend pl disk next_part current_item s =
     (if next_part = 0 then Some (Inr (current_item, s))
      else
        case deref fat_items current_item s of
          Inl e \<Rightarrow> Some (Inl e)
        | Inr i \<Rightarrow>
            if item_type i \<noteq> FAT_ITEM_TYPE_DIRECTORY then Some (Inr (0, s))
            else
              case andthen (deref path_parts next_part s) (\<lambda>part.
                     andthen (deref fat_directories (item_ptr i) s) (\<lambda>directory.
                       andthen (fat16_find_item_in_directory pl disk directory (part_str part) s) (\<lambda>(tmp_item, s).
                         andthen (fat16_fat_item_free current_item s) (\<lambda>s.
                           Inr (part_next part, tmp_item, s))))) of
                Inl e \<Rightarrow> Some (Inl e)
              | Inr (next_part, tmp_item, s) \<Rightarrow> descend pl disk next_part tmp_item s)"

definition fat16_get_directory_entry ::
    "platform \<Rightarrow> disk \<Rightarrow> u32 \<Rightarrow> 'a fat_volumes_scheme \<Rightarrow> (u32 \<times> 'a fat_volumes_scheme) outcome" where
  "fat16_get_directory_entry pl disk path s =
     andthen (deref fat_privates (disk_fs_private disk) s) (\<lambda>private.
       andthen (deref path_parts path s) (\<lambda>part.
         andthen (fat16_find_item_in_directory pl disk (root_directory private) (part_str part) s) (\<lambda>(root_item, s).
           if root_item = 0 then Inr (0, s)
           else hang_or (descend pl disk (part_next part) root_item s))))"

section \<open>The operations of the file system\<close>

definition fat16_open ::
    "platform \<Rightarrow> u32 \<Rightarrow> u32 \<Rightarrow> u32 \<Rightarrow> 'a fat_volumes_scheme \<Rightarrow> (u32 \<times> 'a fat_volumes_scheme) outcome" where
  "fat16_open pl disk path mode s =
     (if mode \<noteq> FILE_MODE_READ then Inr (word_of_int (- ERDONLY), s)
      else
        let (descriptor, s) = kzalloc 8 s
        in if descriptor = 0 then Inr (word_of_int (- ENOMEM), s)
        else
          andthen (deref_disk pl disk s) (\<lambda>d.
          andthen (fat16_get_directory_entry pl d path s) (\<lambda>(item, s).
            let s = s\<lparr>fat_descriptors := (fat_descriptors s)(descriptor \<mapsto> \<lparr>desc_item = item, desc_pos = 0\<rparr>)\<rparr>
            in if item = 0 then Inr (word_of_int (- EIO), s) else Inr (descriptor, s))))"

definition fat16_free_file_descriptor :: "u32 \<Rightarrow> 'a fat_volumes_scheme \<Rightarrow> 'a fat_volumes_scheme outcome" where
  "fat16_free_file_descriptor desc s =
     andthen (deref fat_descriptors desc s) (\<lambda>d.
       andthen (fat16_fat_item_free (desc_item d) s) (\<lambda>s.
         let s = kfree desc s in Inr (s\<lparr>fat_descriptors := (fat_descriptors s)(desc := None)\<rparr>)))"

definition fat16_close :: "u32 \<Rightarrow> 'a fat_volumes_scheme \<Rightarrow> (int \<times> 'a fat_volumes_scheme) outcome" where
  "fat16_close private s = andthen (fat16_free_file_descriptor private s) (\<lambda>s. Inr (0, s))"

definition fat16_stat :: "u32 \<Rightarrow> file_stat \<Rightarrow> 'a fat_volumes_scheme \<Rightarrow> (int \<times> file_stat) outcome" where
  "fat16_stat private stat s =
     andthen (deref fat_descriptors private s) (\<lambda>descriptor.
       andthen (deref fat_items (desc_item descriptor) s) (\<lambda>i.
         if item_type i \<noteq> FAT_ITEM_TYPE_FILE then Inr (- EINVARG, stat)
         else
           let ritem = item_ptr i;
               flags = (if item_attribute (mem s) ritem AND FAT_FILE_READ_ONLY \<noteq> 0
                        then FILE_STAT_READ_ONLY else 0)
           in Inr (0, \<lparr>stat_flags = flags, stat_filesize = item_filesize (mem s) ritem\<rparr>)))"

fun read_members ::
    "platform \<Rightarrow> disk \<Rightarrow> u32 \<Rightarrow> u32 \<Rightarrow> nat \<Rightarrow> int \<Rightarrow> u32 \<Rightarrow> 'a fat_volumes_scheme \<Rightarrow>
     (int \<times> 'a fat_volumes_scheme) outcome" where
  "read_members pl disk item sz 0 offset out_ptr s = Inr (0, s)"
| "read_members pl disk item sz (Suc n) offset out_ptr s =
     andthen (fat16_read_internal pl disk (sint (fat16_get_first_cluster (mem s) item)) offset (sint sz) out_ptr s)
       (\<lambda>(res, s).
         if res < 0 then Inr (res, s)
         else read_members pl disk item sz n (sint (word_of_int offset + sz)) (out_ptr + sz) s)"

text \<open>The position of the descriptor is read and never advanced.\<close>

definition fat16_read ::
    "platform \<Rightarrow> u32 \<Rightarrow> u32 \<Rightarrow> u32 \<Rightarrow> u32 \<Rightarrow> u32 \<Rightarrow> 'a fat_volumes_scheme \<Rightarrow>
     (int \<times> 'a fat_volumes_scheme) outcome" where
  "fat16_read pl disk descriptor sz nmemb out_ptr s =
     andthen (deref_disk pl disk s) (\<lambda>d.
       andthen (deref fat_descriptors descriptor s) (\<lambda>fat_desc.
         andthen (deref fat_items (desc_item fat_desc) s) (\<lambda>i.
           andthen (read_members pl d (item_ptr i) sz (unat nmemb) (sint (desc_pos fat_desc)) out_ptr s)
             (\<lambda>(res, s). Inr (if res < 0 then res else sint nmemb, s)))))"

definition fat16_seek :: "u32 \<Rightarrow> u32 \<Rightarrow> u32 \<Rightarrow> 'a fat_volumes_scheme \<Rightarrow> (int \<times> 'a fat_volumes_scheme) outcome" where
  "fat16_seek private offset seek_mode s =
     andthen (deref fat_descriptors private s) (\<lambda>desc.
       andthen (deref fat_items (desc_item desc) s) (\<lambda>i.
         if item_type i \<noteq> FAT_ITEM_TYPE_FILE then Inr (- EINVARG, s)
         else if offset \<ge> item_filesize (mem s) (item_ptr i) then Inr (- EIO, s)
         else if seek_mode = SEEK_SET
         then Inr (0, s\<lparr>fat_descriptors := (fat_descriptors s)(private \<mapsto> desc\<lparr>desc_pos := offset\<rparr>)\<rparr>)
         else if seek_mode = SEEK_END then Inr (- EUNIMP, s)
         else if seek_mode = SEEK_CUR
         then Inr (0, s\<lparr>fat_descriptors := (fat_descriptors s)(private \<mapsto> desc\<lparr>desc_pos := desc_pos desc + offset\<rparr>)\<rparr>)
         else Inr (- EINVARG, s)))"

end
