(* ===== verification/File.thy ===== *)
theory File
  imports Fat16
begin

text \<open>
  \<^verbatim>\<open>src/fs/file.c\<close> and \<^verbatim>\<open>disk_search_and_init\<close>: the layer between the kernel and the file
  systems. The calls through the function pointers of a \<open>struct filesystem\<close> go to the driver
  whose structure the pointer designates; FAT16's is the only one.
\<close>

unbundle bit_operations_syntax

section \<open>State\<close>

definition SLOBOS_MAX_FILESYSTEMS :: nat where [c_defs]: "SLOBOS_MAX_FILESYSTEMS = 12"
definition SLOBOS_MAX_FILE_DESCRIPTORS :: nat where [c_defs]: "SLOBOS_MAX_FILE_DESCRIPTORS = 512"

record file_descriptor =
  fd_index :: int
  fd_filesystem :: u32
  fd_private :: u32
  fd_disk :: u32

text \<open>\<open>file_objects\<close> are the descriptor structures on the heap.\<close>

record vfs = fat_volumes +
  filesystems :: "u32 list"
  file_descriptors :: "u32 list"
  file_objects :: "u32 \<rightharpoonup> file_descriptor"

section \<open>File systems\<close>

text \<open>\<open>fs_call pl fs x\<close>: the call \<open>x\<close> of the FAT16 driver, when \<open>fs\<close> designates it.\<close>

definition fs_call :: "platform \<Rightarrow> u32 \<Rightarrow> 'r outcome \<Rightarrow> 'r outcome" where
  "fs_call pl fs x = (if fs = pl_fat16_fs pl then x else Inl (BadPointer fs))"

fun free_index :: "nat \<Rightarrow> u32 list \<Rightarrow> nat option" where
  "free_index i [] = None"
| "free_index i (x # xs) = (if x = 0 then Some i else free_index (Suc i) xs)"

definition fs_get_free_filesystem :: "'a vfs_scheme \<Rightarrow> nat option" where
  "fs_get_free_filesystem s = free_index 0 (filesystems s)"

text \<open>When no slot is free the kernel prints a message and stops.\<close>

definition fs_insert_filesystem :: "u32 \<Rightarrow> 'a vfs_scheme \<Rightarrow> 'a vfs_scheme outcome" where
  "fs_insert_filesystem filesystem s =
     (case fs_get_free_filesystem s of
        None \<Rightarrow> Inl (Panic ''Problem inserting filesystem'')
      | Some i \<Rightarrow> Inr (s\<lparr>filesystems := (filesystems s)[i := filesystem]\<rparr>))"

definition fs_load :: "platform \<Rightarrow> 'a vfs_scheme \<Rightarrow> 'a vfs_scheme outcome" where
  "fs_load pl s =
     fs_insert_filesystem (pl_fat16_fs pl) (s\<lparr>filesystems := replicate SLOBOS_MAX_FILESYSTEMS 0\<rparr>)"

definition fs_init :: "platform \<Rightarrow> 'a vfs_scheme \<Rightarrow> 'a vfs_scheme outcome" where
  "fs_init pl s = fs_load pl (s\<lparr>file_descriptors := replicate SLOBOS_MAX_FILE_DESCRIPTORS 0\<rparr>)"

fun resolve_loop :: "platform \<Rightarrow> u32 \<Rightarrow> u32 list \<Rightarrow> 'a vfs_scheme \<Rightarrow> (u32 \<times> 'a vfs_scheme) outcome" where
  "resolve_loop pl disk [] s = Inr (0, s)"
| "resolve_loop pl disk (fs # rest) s =
     (if fs \<noteq> 0
      then andthen (fs_call pl fs (fat16_resolve pl disk s)) (\<lambda>(res, s).
             if res = 0 then Inr (fs, s) else resolve_loop pl disk rest s)
      else resolve_loop pl disk rest s)"

definition fs_resolve :: "platform \<Rightarrow> u32 \<Rightarrow> 'a vfs_scheme \<Rightarrow> (u32 \<times> 'a vfs_scheme) outcome" where
  "fs_resolve pl disk s = resolve_loop pl disk (filesystems s) s"

definition disk_search_and_init :: "platform \<Rightarrow> 'a vfs_scheme \<Rightarrow> 'a vfs_scheme outcome" where
  "disk_search_and_init pl s =
     (let s = s\<lparr>the_disk := \<lparr>disk_type = SLOBOS_DISK_TYPE_REAL, disk_sector_size = SLOBOS_SECTOR_SIZE,
                disk_id = 0, disk_filesystem = 0, disk_fs_private = 0\<rparr>\<rparr>
      in andthen (fs_resolve pl (pl_disk pl) s) (\<lambda>(fs, s).
           Inr (s\<lparr>the_disk := (the_disk s)\<lparr>disk_filesystem := fs\<rparr>\<rparr>)))"

section \<open>Descriptors\<close>

text \<open>The index is stored off by one: descriptor \<open>i + 1\<close> is in element \<open>i\<close>.\<close>

definition file_free_descriptor :: "u32 \<Rightarrow> 'a vfs_scheme \<Rightarrow> 'a vfs_scheme outcome" where
  "file_free_descriptor desc s =
     andthen (deref file_objects desc s) (\<lambda>d.
       let i = fd_index d - 1
       in if i < 0 \<or> i \<ge> int (length (file_descriptors s)) then Inl (OutOfBounds i)
          else
            let s = kfree desc (s\<lparr>file_descriptors := (file_descriptors s)[nat i := 0]\<rparr>)
            in Inr (s\<lparr>file_objects := (file_objects s)(desc := None)\<rparr>))"

definition file_new_descriptor :: "'a vfs_scheme \<Rightarrow> (int \<times> u32 \<times> 'a vfs_scheme) outcome" where
  "file_new_descriptor s =
     (case free_index 0 (file_descriptors s) of
        None \<Rightarrow> Inr (- ENOMEM, 0, s)
      | Some i \<Rightarrow>
          let (desc, s) = kzalloc 16 s
          in if desc = 0 then Inl (BadPointer 0)
             else Inr (0, desc, s\<lparr>file_descriptors := (file_descriptors s)[i := desc],
                    file_objects := (file_objects s)(desc \<mapsto>
                      \<lparr>fd_index = int i + 1, fd_filesystem = 0, fd_private = 0, fd_disk = 0\<rparr>)\<rparr>))"

definition file_get_descriptor :: "int \<Rightarrow> 'a vfs_scheme \<Rightarrow> u32" where
  "file_get_descriptor fd s =
     (if fd \<le> 0 \<or> fd \<ge> int SLOBOS_MAX_FILE_DESCRIPTORS then 0 else file_descriptors s ! nat (fd - 1))"

text \<open>The modes are string literals of the program; \<open>c\<close> is the first character.\<close>

definition file_get_mode_by_string :: "u8 \<Rightarrow> u32" where
  "file_get_mode_by_string c =
     (if c = 114 then FILE_MODE_READ else if c = 119 then FILE_MODE_WRITE
      else if c = 97 then FILE_MODE_APPEND else FILE_MODE_INVALID)"

section \<open>fopen and the operations on an open file\<close>

text \<open>\<open>fopen\<close> up to its label \<open>out\<close>. The parsed path is not freed on any way out.\<close>

definition fopen_body :: "platform \<Rightarrow> u32 \<Rightarrow> u8 \<Rightarrow> 'a vfs_scheme \<Rightarrow> (int \<times> 'a vfs_scheme) outcome" where
  "fopen_body pl filename mode_str s =
     andthen (pathparser_parse filename s) (\<lambda>(root_path, s).
       if root_path = 0 then Inr (- EINVARG, s)
       else
        andthen (deref path_roots root_path s) (\<lambda>r.
        if first_part r = 0 then Inr (- EINVARG, s)
        else
          let disk = disk_get (pl_disk pl) (drive_no r)
          in if disk = 0 then Inr (- EIO, s)
          else
           andthen (deref_disk pl disk s) (\<lambda>d.
           if disk_filesystem d = 0 then Inr (- EIO, s)
           else
            let mode = file_get_mode_by_string mode_str
            in if mode = FILE_MODE_INVALID then Inr (- EINVARG, s)
            else
             andthen (fs_call pl (disk_filesystem d) (fat16_open pl disk (first_part r) mode s)) (\<lambda>(private, s).
             if sint private < 0 then Inr (sint private, s)
             else
              andthen (file_new_descriptor s) (\<lambda>(res, desc, s).
              if res < 0 then Inr (res, s)
              else
               andthen (deref file_objects desc s) (\<lambda>x.
                 Inr (fd_index x, s\<lparr>file_objects := (file_objects s)(desc \<mapsto>
                   x\<lparr>fd_filesystem := disk_filesystem d, fd_private := private, fd_disk := disk\<rparr>)\<rparr>)))))))"

definition fopen :: "platform \<Rightarrow> u32 \<Rightarrow> u8 \<Rightarrow> 'a vfs_scheme \<Rightarrow> (int \<times> 'a vfs_scheme) outcome" where
  "fopen pl filename mode_str s =
     andthen (fopen_body pl filename mode_str s) (\<lambda>(res, s). Inr (if res < 0 then 0 else res, s))"

definition fstat :: "platform \<Rightarrow> int \<Rightarrow> file_stat \<Rightarrow> 'a vfs_scheme \<Rightarrow> (int \<times> file_stat) outcome" where
  "fstat pl fd stat s =
     (let desc = file_get_descriptor fd s
      in if desc = 0 then Inr (- EIO, stat)
         else andthen (deref file_objects desc s) (\<lambda>d.
                fs_call pl (fd_filesystem d) (fat16_stat (fd_private d) stat s)))"

definition fclose :: "platform \<Rightarrow> int \<Rightarrow> 'a vfs_scheme \<Rightarrow> (int \<times> 'a vfs_scheme) outcome" where
  "fclose pl fd s =
     (let desc = file_get_descriptor fd s
      in if desc = 0 then Inr (- EIO, s)
         else andthen (deref file_objects desc s) (\<lambda>d.
                andthen (fs_call pl (fd_filesystem d) (fat16_close (fd_private d) s)) (\<lambda>(res, s).
                  if res = SLOBOS_ALL_OK then andthen (file_free_descriptor desc s) (\<lambda>s. Inr (res, s))
                  else Inr (res, s))))"

definition fseek :: "platform \<Rightarrow> int \<Rightarrow> int \<Rightarrow> u32 \<Rightarrow> 'a vfs_scheme \<Rightarrow> (int \<times> 'a vfs_scheme) outcome" where
  "fseek pl fd offset whence s =
     (let desc = file_get_descriptor fd s
      in if desc = 0 then Inr (- EIO, s)
         else andthen (deref file_objects desc s) (\<lambda>d.
                fs_call pl (fd_filesystem d) (fat16_seek (fd_private d) (word_of_int offset) whence s)))"

definition fread :: "platform \<Rightarrow> u32 \<Rightarrow> u32 \<Rightarrow> u32 \<Rightarrow> int \<Rightarrow> 'a vfs_scheme \<Rightarrow> (int \<times> 'a vfs_scheme) outcome" where
  "fread pl ptr sz nmemb fd s =
     (if sz = 0 \<or> nmemb = 0 \<or> fd < 1 then Inr (- EINVARG, s)
      else
        let desc = file_get_descriptor fd s
        in if desc = 0 then Inr (- EINVARG, s)
           else andthen (deref file_objects desc s) (\<lambda>d.
                  fs_call pl (fd_filesystem d) (fat16_read pl (fd_disk d) (fd_private d) sz nmemb ptr s)))"

end
