(* ===== verification/Elf.thy ===== *)
theory Elf
  imports File
begin

text \<open>
  \<^verbatim>\<open>src/loader/formats\<close>: loading a static ELF executable. The file is read into one block of
  memory; its headers are decoded from the bytes there. The \<open>struct elf_file\<close> with the bounds
  of the loaded segments is an object on the heap.
\<close>

unbundle bit_operations_syntax

section \<open>Structures (elf.h, elfloader.h)\<close>

definition PF_W :: u32 where [c_defs]: "PF_W = 2"
definition PT_LOAD :: u32 where [c_defs]: "PT_LOAD = 1"
definition ET_EXEC :: u16 where [c_defs]: "ET_EXEC = 2"
definition ELFCLASSNONE :: u8 where [c_defs]: "ELFCLASSNONE = 0"
definition ELFCLASS32 :: u8 where [c_defs]: "ELFCLASS32 = 1"
definition ELFDATANONE :: u8 where [c_defs]: "ELFDATANONE = 0"
definition ELFDATA2LSB :: u8 where [c_defs]: "ELFDATA2LSB = 1"
definition EI_CLASS :: u32 where [c_defs]: "EI_CLASS = 4"
definition EI_DATA :: u32 where [c_defs]: "EI_DATA = 5"
definition SLOBOS_PROGRAM_VIRTUAL_ADDRESS :: u32 where [c_defs]: "SLOBOS_PROGRAM_VIRTUAL_ADDRESS = 0x400000"

record elf_file =
  in_memory_size :: int
  ef_memory :: u32
  virtual_base_address :: u32
  virtual_end_address :: u32
  physical_base_address :: u32
  physical_end_address :: u32

record loader = vfs +
  elf_files :: "u32 \<rightharpoonup> elf_file"

text \<open>The fields of the packed headers, by their offsets.\<close>

definition e_type :: "byte_mem \<Rightarrow> u32 \<Rightarrow> u16" where "e_type m header = load16 m (header + 16)"
definition e_entry :: "byte_mem \<Rightarrow> u32 \<Rightarrow> u32" where "e_entry m header = load32 m (header + 24)"
definition e_phoff :: "byte_mem \<Rightarrow> u32 \<Rightarrow> u32" where "e_phoff m header = load32 m (header + 28)"
definition e_shoff :: "byte_mem \<Rightarrow> u32 \<Rightarrow> u32" where "e_shoff m header = load32 m (header + 32)"
definition e_phnum :: "byte_mem \<Rightarrow> u32 \<Rightarrow> u16" where "e_phnum m header = load16 m (header + 44)"
definition e_shstrndx :: "byte_mem \<Rightarrow> u32 \<Rightarrow> u16" where "e_shstrndx m header = load16 m (header + 50)"
definition p_type :: "byte_mem \<Rightarrow> u32 \<Rightarrow> u32" where "p_type m phdr = load32 m phdr"
definition p_offset :: "byte_mem \<Rightarrow> u32 \<Rightarrow> u32" where "p_offset m phdr = load32 m (phdr + 4)"
definition p_vaddr :: "byte_mem \<Rightarrow> u32 \<Rightarrow> u32" where "p_vaddr m phdr = load32 m (phdr + 8)"
definition p_filesz :: "byte_mem \<Rightarrow> u32 \<Rightarrow> u32" where "p_filesz m phdr = load32 m (phdr + 16)"
definition p_memsz :: "byte_mem \<Rightarrow> u32 \<Rightarrow> u32" where "p_memsz m phdr = load32 m (phdr + 20)"
definition p_flags :: "byte_mem \<Rightarrow> u32 \<Rightarrow> u32" where "p_flags m phdr = load32 m (phdr + 24)"
definition sh_offset :: "byte_mem \<Rightarrow> u32 \<Rightarrow> u32" where "sh_offset m shdr = load32 m (shdr + 16)"

section \<open>Validation\<close>

definition elf_signature :: "u8 list" where "elf_signature = [0x7F, 0x45, 0x4C, 0x46]"

text \<open>The comparison with a constant array, byte by byte.\<close>

definition elf_valid_signature :: "byte_mem \<Rightarrow> u32 \<Rightarrow> bool" where
  "elf_valid_signature m buffer \<longleftrightarrow> map (\<lambda>i. m (buffer + of_nat i)) [0..<4] = elf_signature"

definition elf_valid_class :: "byte_mem \<Rightarrow> u32 \<Rightarrow> bool" where
  "elf_valid_class m header \<longleftrightarrow> m (header + EI_CLASS) = ELFCLASSNONE \<or> m (header + EI_CLASS) = ELFCLASS32"

definition elf_valid_encoding :: "byte_mem \<Rightarrow> u32 \<Rightarrow> bool" where
  "elf_valid_encoding m header \<longleftrightarrow> m (header + EI_DATA) = ELFDATANONE \<or> m (header + EI_DATA) = ELFDATA2LSB"

text \<open>Defined by the loader and used nowhere.\<close>

definition elf_is_executable :: "byte_mem \<Rightarrow> u32 \<Rightarrow> bool" where
  "elf_is_executable m header \<longleftrightarrow> e_type m header = ET_EXEC \<and> e_entry m header \<ge> SLOBOS_PROGRAM_VIRTUAL_ADDRESS"

definition elf_has_program_header :: "byte_mem \<Rightarrow> u32 \<Rightarrow> bool" where
  "elf_has_program_header m header \<longleftrightarrow> e_phoff m header \<noteq> 0"

definition elf_validate_loaded :: "byte_mem \<Rightarrow> u32 \<Rightarrow> int" where
  "elf_validate_loaded m header =
     (if elf_valid_signature m header \<and> elf_valid_class m header \<and> elf_valid_encoding m header \<and>
         elf_has_program_header m header then SLOBOS_ALL_OK else - EINFORMAT)"

section \<open>Where things are\<close>

definition elf_memory :: "elf_file \<Rightarrow> u32" where "elf_memory f = ef_memory f"
definition elf_header :: "elf_file \<Rightarrow> u32" where "elf_header f = ef_memory f"

definition elf_sheader :: "byte_mem \<Rightarrow> u32 \<Rightarrow> u32" where
  "elf_sheader m header = header + e_shoff m header"

definition elf_pheader :: "byte_mem \<Rightarrow> u32 \<Rightarrow> u32" where
  "elf_pheader m header = (if e_phoff m header = 0 then 0 else header + e_phoff m header)"

definition elf_program_header :: "byte_mem \<Rightarrow> u32 \<Rightarrow> nat \<Rightarrow> u32" where
  "elf_program_header m header i = elf_pheader m header + 32 * of_nat i"

definition elf_section :: "byte_mem \<Rightarrow> u32 \<Rightarrow> nat \<Rightarrow> u32" where
  "elf_section m header i = elf_sheader m header + 40 * of_nat i"

definition elf_phdr_phys_addr :: "byte_mem \<Rightarrow> elf_file \<Rightarrow> u32 \<Rightarrow> u32" where
  "elf_phdr_phys_addr m f phdr = elf_memory f + p_offset m phdr"

definition elf_str_table :: "byte_mem \<Rightarrow> u32 \<Rightarrow> u32" where
  "elf_str_table m header = header + sh_offset m (elf_section m header (unat (e_shstrndx m header)))"

definition elf_virtual_base :: "elf_file \<Rightarrow> u32" where "elf_virtual_base f = virtual_base_address f"
definition elf_virtual_end :: "elf_file \<Rightarrow> u32" where "elf_virtual_end f = virtual_end_address f"
definition elf_phys_base :: "elf_file \<Rightarrow> u32" where "elf_phys_base f = physical_base_address f"
definition elf_phys_end :: "elf_file \<Rightarrow> u32" where "elf_phys_end f = physical_end_address f"
definition elf_get_entry_ptr :: "byte_mem \<Rightarrow> u32 \<Rightarrow> u32" where "elf_get_entry_ptr m header = e_entry m header"

section \<open>The program headers\<close>

definition elf_process_phdr_pt_load :: "byte_mem \<Rightarrow> u32 \<Rightarrow> elf_file \<Rightarrow> elf_file" where
  "elf_process_phdr_pt_load m phdr f =
     (let f = (if virtual_base_address f \<ge> p_vaddr m phdr \<or> virtual_base_address f = 0
               then f\<lparr>virtual_base_address := p_vaddr m phdr,
                      physical_base_address := elf_memory f + p_offset m phdr\<rparr> else f);
          end_virtual_address = p_vaddr m phdr + p_filesz m phdr
      in if virtual_end_address f \<le> end_virtual_address \<or> virtual_end_address f = 0
         then f\<lparr>virtual_end_address := end_virtual_address,
                physical_end_address := elf_memory f + p_offset m phdr + p_filesz m phdr\<rparr>
         else f)"

definition elf_process_pheader :: "byte_mem \<Rightarrow> u32 \<Rightarrow> elf_file \<Rightarrow> elf_file" where
  "elf_process_pheader m phdr f =
     (if p_type m phdr = PT_LOAD then elf_process_phdr_pt_load m phdr f else f)"

definition elf_process_pheaders :: "byte_mem \<Rightarrow> elf_file \<Rightarrow> elf_file" where
  "elf_process_pheaders m f =
     fold (\<lambda>i. elf_process_pheader m (elf_program_header m (elf_header f) i))
       [0..<unat (e_phnum m (elf_header f))] f"

definition elf_process_loaded :: "byte_mem \<Rightarrow> elf_file \<Rightarrow> int \<times> elf_file" where
  "elf_process_loaded m f =
     (let res = elf_validate_loaded m (elf_header f)
      in if res < 0 then (res, f) else (0, elf_process_pheaders m f))"

section \<open>Loading and closing\<close>

text \<open>Up to the label \<open>out\<close>: status, descriptor and \<open>*file_out\<close> (null when not set).\<close>

definition elf_load_body ::
    "platform \<Rightarrow> u32 \<Rightarrow> u32 \<Rightarrow> 'a loader_scheme \<Rightarrow> (int \<times> int \<times> u32 \<times> 'a loader_scheme) outcome" where
  "elf_load_body pl filename elf_file s =
     andthen (fopen pl filename 114 s) (\<lambda>(res, s).
       if res \<le> 0 then Inr (- EIO, 0, 0, s)
       else
         let fd = res
         in andthen (fstat pl fd \<lparr>stat_flags = 0, stat_filesize = 0\<rparr> s) (\<lambda>(res, stat).
            if res < 0 then Inr (res, fd, 0, s)
            else
             andthen (deref elf_files elf_file s) (\<lambda>f.
              let (memory, s) = kzalloc (stat_filesize stat) s;
                  f = f\<lparr>ef_memory := memory\<rparr>;
                  s = s\<lparr>elf_files := (elf_files s)(elf_file \<mapsto> f)\<rparr>
              in andthen (fread pl memory (stat_filesize stat) 1 fd s) (\<lambda>(res, s).
                 if res < 0 then Inr (res, fd, 0, s)
                 else
                   let (res, f) = elf_process_loaded (mem s) f;
                       s = s\<lparr>elf_files := (elf_files s)(elf_file \<mapsto> f)\<rparr>
                   in if res < 0 then Inr (res, fd, 0, s) else Inr (res, fd, elf_file, s)))))"

text \<open>A failed allocation of the structure shows when it is first written to.\<close>

definition elf_load :: "platform \<Rightarrow> u32 \<Rightarrow> 'a loader_scheme \<Rightarrow> (int \<times> u32 \<times> 'a loader_scheme) outcome" where
  "elf_load pl filename s =
     (let (elf_file, s) = kzalloc 132 s;
          s = (if elf_file = 0 then s
               else s\<lparr>elf_files := (elf_files s)(elf_file \<mapsto> \<lparr>in_memory_size = 0, ef_memory = 0,
                      virtual_base_address = 0, virtual_end_address = 0,
                      physical_base_address = 0, physical_end_address = 0\<rparr>)\<rparr>)
      in andthen (elf_load_body pl filename elf_file s) (\<lambda>(res, fd, out, s).
           andthen (fclose pl fd s) (\<lambda>(_, s). Inr (res, out, s))))"

definition elf_close :: "u32 \<Rightarrow> 'a loader_scheme \<Rightarrow> 'a loader_scheme outcome" where
  "elf_close f s =
     (if f = 0 then Inr s
      else
        andthen (deref elf_files f s) (\<lambda>x.
          let s = kfree f (kfree (ef_memory x) s)
          in Inr (s\<lparr>elf_files := (elf_files s)(f := None)\<rparr>)))"

end
