(* ===== verification/Task.thy ===== *)
theory Task
  imports Elf Keyboard
begin

text \<open>
  \<^verbatim>\<open>src/task/task.c\<close>: tasks, their page directories and registers, and the doubly linked list
  they form. Processes and tasks point to each other, so the structures of \<^verbatim>\<open>process.h\<close> are
  here too. Both are objects on the heap; a freed one is no longer an object.
\<close>

unbundle bit_operations_syntax

section \<open>Structures (task.h, process.h, idt.h)\<close>

definition SLOBOS_PROGRAM_VIRTUAL_STACK_ADDRESS_START :: u32 where
  [c_defs]: "SLOBOS_PROGRAM_VIRTUAL_STACK_ADDRESS_START = 0x3FF000"
definition USER_DATA_SEGMENT :: u32 where [c_defs]: "USER_DATA_SEGMENT = 0x23"
definition USER_CODE_SEGMENT :: u32 where [c_defs]: "USER_CODE_SEGMENT = 0x1B"
definition KERNEL_DATA_SELECTOR :: u32 where [c_defs]: "KERNEL_DATA_SELECTOR = 0x10"
definition PROCESS_FILETYPE_ELF :: u8 where [c_defs]: "PROCESS_FILETYPE_ELF = 0"
definition PROCESS_FILETYPE_BINARY :: u8 where [c_defs]: "PROCESS_FILETYPE_BINARY = 1"

record registers =
  edi :: u32
  esi :: u32
  ebp :: u32
  ebx :: u32
  edx :: u32
  ecx :: u32
  eax :: u32
  ip :: u32
  cs :: u32
  flags :: u32
  esp :: u32
  ss :: u32

text \<open>The frame has the same registers and one more word, \<open>reserved\<close>, between \<open>ebp\<close> and \<open>ebx\<close>.\<close>

record interrupt_frame =
  frame_edi :: u32
  frame_esi :: u32
  frame_ebp :: u32
  frame_reserved :: u32
  frame_ebx :: u32
  frame_edx :: u32
  frame_ecx :: u32
  frame_eax :: u32
  frame_ip :: u32
  frame_cs :: u32
  frame_flags :: u32
  frame_esp :: u32
  frame_ss :: u32

record task =
  task_page_directory :: u32
  task_registers :: registers
  task_process :: u32
  task_next_link :: u32
  task_prev_link :: u32

record process_allocation =
  alloc_ptr :: u32
  alloc_size :: u32

text \<open>\<open>proc_ptr\<close> is the union of the address of a binary and the address of an ELF file.\<close>

record process =
  proc_id :: u16
  proc_filename :: "u8 list"
  proc_task :: u32
  proc_allocations :: "process_allocation list"
  proc_filetype :: u8
  proc_ptr :: u32
  proc_stack :: u32
  proc_size :: u32
  proc_keyboard :: keyboard_buffer
  proc_argc :: int
  proc_argv :: u32

text \<open>
  The globals of \<^verbatim>\<open>task.c\<close>, \<^verbatim>\<open>process.c\<close> and \<^verbatim>\<open>kernel.c\<close>, and the selector in the data segment
  registers.
\<close>

record kernel = loader +
  tasks :: "u32 \<rightharpoonup> task"
  process_objects :: "u32 \<rightharpoonup> process"
  current_task :: u32
  task_head :: u32
  task_tail :: u32
  current_process :: u32
  processes :: "u32 list"
  kernel_chunk :: u32
  data_segment :: u32

definition zero_registers :: registers where
  "zero_registers = \<lparr>edi = 0, esi = 0, ebp = 0, ebx = 0, edx = 0, ecx = 0, eax = 0, ip = 0, cs = 0,
     flags = 0, esp = 0, ss = 0\<rparr>"

section \<open>Switching page tables\<close>

definition kernel_registers :: "'a kernel_scheme \<Rightarrow> 'a kernel_scheme" where
  "kernel_registers s = s\<lparr>data_segment := KERNEL_DATA_SELECTOR\<rparr>"

definition user_registers :: "'a kernel_scheme \<Rightarrow> 'a kernel_scheme" where
  "user_registers s = s\<lparr>data_segment := USER_DATA_SEGMENT\<rparr>"

definition kernel_page :: "'a kernel_scheme \<Rightarrow> 'a kernel_scheme" where
  "kernel_page s = (let s = kernel_registers s in paging_switch (kernel_chunk s) s)"

text \<open>
  The processor's translation of a virtual address (Intel SDM, vol. 3, 4.3), for the kernel: no
  access to a page that is not present. The kernel's own directory maps every address to
  itself, so the kernel's accesses under it are accesses to \<open>mem\<close>.
\<close>

definition page_walk :: "byte_mem \<Rightarrow> u32 \<Rightarrow> u32 \<Rightarrow> u32 outcome" where
  "page_walk m directory v =
     (let pde = load32 m (slot directory (unat (v div 4194304)))
      in if pde AND 1 = 0 then Inl (BadPointer v)
         else
           let pte = load32 m (slot (pde AND 0xFFFFF000) (unat (v mod 4194304 div 4096)))
           in if pte AND 1 = 0 then Inl (BadPointer v)
              else Inr ((pte AND 0xFFFFF000) + v mod 4096))"

definition read_virtual :: "u32 \<Rightarrow> 'a kernel_scheme \<Rightarrow> u8 outcome" where
  "read_virtual v s = andthen (page_walk (mem s) (cr3 s) v) (\<lambda>a. Inr (mem s a))"

definition write_virtual :: "u32 \<Rightarrow> u8 \<Rightarrow> 'a kernel_scheme \<Rightarrow> 'a kernel_scheme outcome" where
  "write_virtual v b s = andthen (page_walk (mem s) (cr3 s) v) (\<lambda>a. Inr (s\<lparr>mem := (mem s)(a := b)\<rparr>))"

definition read_virtual32 :: "u32 \<Rightarrow> 'a kernel_scheme \<Rightarrow> u32 outcome" where
  "read_virtual32 v s =
     andthen (read_virtual v s) (\<lambda>b0. andthen (read_virtual (v + 1) s) (\<lambda>b1.
     andthen (read_virtual (v + 2) s) (\<lambda>b2. andthen (read_virtual (v + 3) s) (\<lambda>b3.
       Inr (ucast b0 OR push_bit 8 (ucast b1) OR push_bit 16 (ucast b2) OR push_bit 24 (ucast b3))))))"

definition task_switch :: "u32 \<Rightarrow> 'a kernel_scheme \<Rightarrow> 'a kernel_scheme outcome" where
  "task_switch task s =
     (let s = s\<lparr>current_task := task\<rparr>
      in andthen (deref tasks task s) (\<lambda>t. Inr (paging_switch (task_page_directory t) s)))"

definition task_page :: "'a kernel_scheme \<Rightarrow> 'a kernel_scheme outcome" where
  "task_page s = (let s = user_registers s in task_switch (current_task s) s)"

definition task_page_task :: "u32 \<Rightarrow> 'a kernel_scheme \<Rightarrow> 'a kernel_scheme outcome" where
  "task_page_task task s =
     (let s = user_registers s
      in andthen (deref tasks task s) (\<lambda>t. Inr (paging_switch (task_page_directory t) s)))"

section \<open>The list of tasks\<close>

definition task_get_next :: "'a kernel_scheme \<Rightarrow> u32 outcome" where
  "task_get_next s =
     andthen (deref tasks (current_task s) s) (\<lambda>t.
       Inr (if task_next_link t = 0 then task_head s else task_next_link t))"

text \<open>The \<open>prev\<close> link of the task after the one removed is left as it is.\<close>

definition task_list_remove :: "u32 \<Rightarrow> 'a kernel_scheme \<Rightarrow> 'a kernel_scheme outcome" where
  "task_list_remove task s =
     andthen (deref tasks task s) (\<lambda>t.
       andthen (if task_prev_link t \<noteq> 0
                then andthen (deref tasks (task_prev_link t) s) (\<lambda>p.
                       Inr (s\<lparr>tasks := (tasks s)(task_prev_link t \<mapsto> p\<lparr>task_next_link := task_next_link t\<rparr>)\<rparr>))
                else Inr s) (\<lambda>s.
         let s = (if task = task_head s then s\<lparr>task_head := task_next_link t\<rparr> else s);
             s = (if task = task_tail s then s\<lparr>task_tail := task_prev_link t\<rparr> else s)
         in if task = current_task s
            then andthen (task_get_next s) (\<lambda>n. Inr (s\<lparr>current_task := n\<rparr>))
            else Inr s))"

definition task_free :: "u32 \<Rightarrow> 'a kernel_scheme \<Rightarrow> 'a kernel_scheme outcome" where
  "task_free task s =
     andthen (deref tasks task s) (\<lambda>t.
       let s = paging_free_4gb (task_page_directory t) s
       in andthen (task_list_remove task s) (\<lambda>s.
            let s = kfree task s in Inr (s\<lparr>tasks := (tasks s)(task := None)\<rparr>)))"

text \<open>The new task structure is zeroed and linked nowhere.\<close>

definition task_init :: "u32 \<Rightarrow> u32 \<Rightarrow> 'a kernel_scheme \<Rightarrow> (int \<times> 'a kernel_scheme) outcome" where
  "task_init task process s =
     (let t = \<lparr>task_page_directory = 0, task_registers = zero_registers, task_process = 0,
               task_next_link = 0, task_prev_link = 0\<rparr>;
          (chunk, s) = paging_new_4gb (ucast (PAGING_IS_PRESENT OR PAGING_ACCESS_FROM_ALL)) s;
          t = t\<lparr>task_page_directory := chunk\<rparr>;
          s = s\<lparr>tasks := (tasks s)(task \<mapsto> t)\<rparr>
      in if chunk = 0 then Inr (- EIO, s)
      else
        andthen (deref process_objects process s) (\<lambda>p.
          andthen (if proc_filetype p = PROCESS_FILETYPE_ELF
                   then andthen (deref elf_files (proc_ptr p) s) (\<lambda>f. Inr (e_entry (mem s) (elf_header f)))
                   else Inr SLOBOS_PROGRAM_VIRTUAL_ADDRESS) (\<lambda>entry.
            let r = zero_registers\<lparr>ip := entry, ss := USER_DATA_SEGMENT, cs := USER_CODE_SEGMENT,
                      esp := SLOBOS_PROGRAM_VIRTUAL_STACK_ADDRESS_START\<rparr>
            in Inr (0, s\<lparr>tasks := (tasks s)(task \<mapsto> t\<lparr>task_registers := r, task_process := process\<rparr>)\<rparr>))))"

definition task_new :: "u32 \<Rightarrow> 'a kernel_scheme \<Rightarrow> (u32 \<times> 'a kernel_scheme) outcome" where
  "task_new process s =
     (let (task, s) = kzalloc 64 s
      in andthen (if task = 0 then Inr (- ENOMEM, s)
                  else
                    andthen (task_init task process s) (\<lambda>(res, s).
                      if res \<noteq> SLOBOS_ALL_OK then Inr (res, s)
                      else if task_head s = 0
                      then Inr (res, s\<lparr>task_head := task, task_tail := task, current_task := task\<rparr>)
                      else
                        andthen (deref tasks (task_tail s) s) (\<lambda>l.
                          let s = s\<lparr>tasks := (tasks s)(task_tail s \<mapsto> l\<lparr>task_next_link := task\<rparr>)\<rparr>
                          in andthen (deref tasks task s) (\<lambda>t.
                               Inr (res, s\<lparr>tasks := (tasks s)(task \<mapsto> t\<lparr>task_prev_link := task_tail s\<rparr>),
                                          task_tail := task\<rparr>))))) (\<lambda>(res, s).
           if res < 0 then andthen (task_free task s) (\<lambda>s. Inr (word_of_int res, s))
           else Inr (task, s)))"

section \<open>Entering user mode\<close>

text \<open>
  \<open>task_return\<close> does not return: the result is the structure of registers passed to it, and the
  state of the kernel. The loading itself is assembly.
\<close>

definition task_next :: "'a kernel_scheme \<Rightarrow> (registers \<times> 'a kernel_scheme) outcome" where
  "task_next s =
     andthen (task_get_next s) (\<lambda>next_task.
       if next_task = 0 then Inl (Panic ''No more tasks'')
       else andthen (task_switch next_task s) (\<lambda>s.
         andthen (deref tasks next_task s) (\<lambda>t. Inr (task_registers t, s))))"

definition task_run_first_ever_task :: "'a kernel_scheme \<Rightarrow> (registers \<times> 'a kernel_scheme) outcome" where
  "task_run_first_ever_task s =
     (if current_task s = 0 then Inl (Panic ''task_run_first_ever_task(): NO CURRENT TASK EXISTS BROO WTF'')
      else andthen (task_switch (task_head s) s) (\<lambda>s.
        andthen (deref tasks (task_head s) s) (\<lambda>t. Inr (task_registers t, s))))"

section \<open>Saving the registers\<close>

definition task_save_state :: "task \<Rightarrow> interrupt_frame \<Rightarrow> task" where
  "task_save_state t frame = t\<lparr>task_registers := (task_registers t)
     \<lparr>ip := frame_ip frame, cs := frame_cs frame, flags := frame_flags frame, esp := frame_esp frame,
      ss := frame_ss frame, eax := frame_eax frame, ebp := frame_ebp frame, ebx := frame_ebx frame,
      ecx := frame_ecx frame, edi := frame_edi frame, edx := frame_edx frame, esi := frame_esi frame\<rparr>\<rparr>"

text \<open>The test for a current task is a test of the address of a function, which is never null.\<close>

definition task_current_save_state :: "interrupt_frame \<Rightarrow> 'a kernel_scheme \<Rightarrow> 'a kernel_scheme outcome" where
  "task_current_save_state frame s =
     andthen (deref tasks (current_task s) s) (\<lambda>t.
       Inr (s\<lparr>tasks := (tasks s)(current_task s \<mapsto> task_save_state t frame)\<rparr>))"

section \<open>Reading a task's memory\<close>

text \<open>\<open>strncpy\<close> with both strings at virtual addresses: \<open>n\<close> characters are left to copy.\<close>

fun virtual_strncpy_loop :: "u32 \<Rightarrow> u32 \<Rightarrow> nat \<Rightarrow> 'a kernel_scheme \<Rightarrow> 'a kernel_scheme outcome" where
  "virtual_strncpy_loop dest src 0 s = write_virtual dest 0 s"
| "virtual_strncpy_loop dest src (Suc n) s =
     andthen (read_virtual src s) (\<lambda>c.
       if c = 0 then write_virtual dest 0 s
       else andthen (write_virtual dest c s) (\<lambda>s. virtual_strncpy_loop (dest + 1) (src + 1) n s))"

definition virtual_strncpy :: "u32 \<Rightarrow> u32 \<Rightarrow> int \<Rightarrow> 'a kernel_scheme \<Rightarrow> 'a kernel_scheme outcome" where
  "virtual_strncpy dest src count s = virtual_strncpy_loop dest src (nat (count - 1)) s"

text \<open>What \<open>strncpy\<close> writes to a local buffer.\<close>

definition strncpy_bytes :: "byte_mem \<Rightarrow> u32 \<Rightarrow> int \<Rightarrow> u8 list" where
  "strncpy_bytes m src count = takeWhile (\<lambda>c. c \<noteq> 0) (map (\<lambda>i. m (src + of_nat i)) [0..<nat (count - 1)]) @ [0]"

text \<open>
  The callers pass a local buffer for \<open>phys\<close>: the bytes written to it are the second result. On
  an error nothing is written.
\<close>

definition copy_string_from_task ::
    "u32 \<Rightarrow> u32 \<Rightarrow> int \<Rightarrow> 'a kernel_scheme \<Rightarrow> (int \<times> u8 list \<times> 'a kernel_scheme) outcome" where
  "copy_string_from_task task virt max_len s =
     (if max_len \<ge> uint PAGING_PAGE_SIZE then Inr (- EINVARG, [], s)
      else
        let (tmp, s) = kzalloc (word_of_int max_len) s
        in if tmp = 0 then Inr (- ENOMEM, [], s)
        else
          andthen (deref tasks task s) (\<lambda>t.
            let task_directory = load32 (mem s) (task_page_directory t);
                old_entry = paging_get (mem s) task_directory tmp;
                (_, m) = paging_map (mem s) (task_page_directory t) tmp tmp
                           (PAGING_IS_WRITEABLE OR PAGING_IS_PRESENT OR PAGING_ACCESS_FROM_ALL);
                s = paging_switch (task_page_directory t) (s\<lparr>mem := m\<rparr>)
            in andthen (virtual_strncpy tmp virt max_len s) (\<lambda>s.
               let s = kernel_page s;
                   (res, m) = paging_set (mem s) task_directory tmp old_entry;
                   s = s\<lparr>mem := m\<rparr>
               in if res < 0 then Inr (- EIO, [], kfree tmp s)
                  else Inr (res, strncpy_bytes (mem s) tmp max_len, kfree tmp s))))"

definition task_get_stack_item :: "u32 \<Rightarrow> int \<Rightarrow> 'a kernel_scheme \<Rightarrow> (u32 \<times> 'a kernel_scheme) outcome" where
  "task_get_stack_item task index s =
     andthen (deref tasks task s) (\<lambda>t.
       let sp_ptr = esp (task_registers t)
       in andthen (task_page_task task s) (\<lambda>s.
            andthen (read_virtual32 (sp_ptr + word_of_int (4 * index)) s) (\<lambda>result.
              Inr (result, kernel_page s))))"

definition task_virtual_address_to_physical :: "u32 \<Rightarrow> u32 \<Rightarrow> 'a kernel_scheme \<Rightarrow> u32 outcome" where
  "task_virtual_address_to_physical task virtual_address s =
     andthen (deref tasks task s) (\<lambda>t.
       Inr (paging_get_physical_address (mem s) (load32 (mem s) (task_page_directory t)) virtual_address))"

end
