(* ===== verification/Process.thy ===== *)
theory Process
  imports Task
begin

text \<open>
  \<^verbatim>\<open>src/task/process.c\<close>: loading programs, mapping their memory, the allocations and arguments
  of a process, and ending it.
\<close>

unbundle bit_operations_syntax

section \<open>Constants\<close>

definition SLOBOS_USER_PROGRAM_STACK_SIZE :: u32 where [c_defs]: "SLOBOS_USER_PROGRAM_STACK_SIZE = 16384"
definition SLOBOS_PROGRAM_VIRTUAL_STACK_ADDRESS_END :: u32 where
  [c_defs]: "SLOBOS_PROGRAM_VIRTUAL_STACK_ADDRESS_END = 0x3FF000 - 16384"
definition SLOBOS_MAX_PROGRAM_ALLOCATIONS :: nat where [c_defs]: "SLOBOS_MAX_PROGRAM_ALLOCATIONS = 1024"
definition SLOBOS_MAX_PROCESSES :: nat where [c_defs]: "SLOBOS_MAX_PROCESSES = 12"

definition user_page_flags :: u32 where
  "user_page_flags = PAGING_IS_PRESENT OR PAGING_ACCESS_FROM_ALL OR PAGING_IS_WRITEABLE"

text \<open>\<open>process_init\<close> fills the structure with zero bytes.\<close>

definition process_init :: "process" where
  "process_init = \<lparr>proc_id = 0, proc_filename = replicate 108 0, proc_task = 0,
     proc_allocations = replicate SLOBOS_MAX_PROGRAM_ALLOCATIONS \<lparr>alloc_ptr = 0, alloc_size = 0\<rparr>,
     proc_filetype = 0, proc_ptr = 0, proc_stack = 0, proc_size = 0,
     proc_keyboard = \<lparr>kb_buffer = replicate SLOBOS_KEYBOARD_BUFFER_SIZE 0, kb_tail = 0, kb_head = 0\<rparr>,
     proc_argc = 0, proc_argv = 0\<rparr>"

definition process_get :: "int \<Rightarrow> 'a kernel_scheme \<Rightarrow> u32" where
  "process_get process_id s =
     (if process_id < 0 \<or> process_id \<ge> int SLOBOS_MAX_PROCESSES then 0 else processes s ! nat process_id)"

text \<open>Changing a process structure.\<close>

definition put_process :: "u32 \<Rightarrow> process \<Rightarrow> 'a kernel_scheme \<Rightarrow> 'a kernel_scheme" where
  "put_process p x s = s\<lparr>process_objects := (process_objects s)(p \<mapsto> x)\<rparr>"

section \<open>Loading a program\<close>

definition load_binary_body ::
    "platform \<Rightarrow> u32 \<Rightarrow> int \<Rightarrow> 'a kernel_scheme \<Rightarrow> (int \<times> 'a kernel_scheme) outcome" where
  "load_binary_body pl process fd s =
     (if fd = 0 then Inr (- EIO, s)
      else
        andthen (fstat pl fd \<lparr>stat_flags = 0, stat_filesize = 0\<rparr> s) (\<lambda>(res, stat).
          if res \<noteq> SLOBOS_ALL_OK then Inr (res, s)
          else
            let (program_data_ptr, s) = kzalloc (stat_filesize stat) s
            in if program_data_ptr = 0 then Inr (- ENOMEM, s)
            else
              andthen (fread pl program_data_ptr (stat_filesize stat) 1 fd s) (\<lambda>(n, s).
                if n \<noteq> 1 then Inr (- EIO, s)
                else
                  andthen (deref process_objects process s) (\<lambda>p.
                    Inr (res, put_process process (p\<lparr>proc_filetype := PROCESS_FILETYPE_BINARY,
                      proc_ptr := program_data_ptr, proc_size := stat_filesize stat\<rparr>) s)))))"

definition process_load_binary ::
    "platform \<Rightarrow> u32 \<Rightarrow> u32 \<Rightarrow> 'a kernel_scheme \<Rightarrow> (int \<times> 'a kernel_scheme) outcome" where
  "process_load_binary pl filename process s =
     andthen (fopen pl filename 114 s) (\<lambda>(fd, s).
       andthen (load_binary_body pl process fd s) (\<lambda>(res, s).
         andthen (fclose pl fd s) (\<lambda>(_, s). Inr (res, s))))"

definition process_load_elf ::
    "platform \<Rightarrow> u32 \<Rightarrow> u32 \<Rightarrow> 'a kernel_scheme \<Rightarrow> (int \<times> 'a kernel_scheme) outcome" where
  "process_load_elf pl filename process s =
     andthen (elf_load pl filename s) (\<lambda>(res, elf_file, s).
       if res < 0 then Inr (res, s)
       else
         andthen (deref process_objects process s) (\<lambda>p.
           Inr (res, put_process process (p\<lparr>proc_filetype := PROCESS_FILETYPE_ELF, proc_ptr := elf_file\<rparr>) s)))"

definition process_load_data ::
    "platform \<Rightarrow> u32 \<Rightarrow> u32 \<Rightarrow> 'a kernel_scheme \<Rightarrow> (int \<times> 'a kernel_scheme) outcome" where
  "process_load_data pl filename process s =
     andthen (process_load_elf pl filename process s) (\<lambda>(res, s).
       if res = - EINFORMAT then process_load_binary pl filename process s else Inr (res, s))"

section \<open>Mapping its memory\<close>

text \<open>The directory of the process's task.\<close>

definition process_chunk :: "process \<Rightarrow> 'a kernel_scheme \<Rightarrow> u32 outcome" where
  "process_chunk p s = andthen (deref tasks (proc_task p) s) (\<lambda>t. Inr (task_page_directory t))"

text \<open>The result of the mapping is dropped.\<close>

definition process_map_binary :: "process \<Rightarrow> 'a kernel_scheme \<Rightarrow> (int \<times> 'a kernel_scheme) outcome" where
  "process_map_binary p s =
     andthen (process_chunk p s) (\<lambda>chunk.
       let (_, m) = paging_map_to (mem s) chunk SLOBOS_PROGRAM_VIRTUAL_ADDRESS (proc_ptr p)
                      (paging_align_address (proc_ptr p + proc_size p)) user_page_flags
       in Inr (0, s\<lparr>mem := m\<rparr>))"

text \<open>The segments \<open>i, ..., i + n - 1\<close>; \<open>res\<close> is the last result.\<close>

fun map_elf_loop :: "byte_mem \<Rightarrow> u32 \<Rightarrow> elf_file \<Rightarrow> u32 \<Rightarrow> nat \<Rightarrow> nat \<Rightarrow> int \<Rightarrow> int \<times> byte_mem" where
  "map_elf_loop m chunk f phdrs i 0 res = (res, m)"
| "map_elf_loop m chunk f phdrs i (Suc n) res =
     (let phdr = phdrs + 32 * of_nat i;
          phdr_phys_address = elf_phdr_phys_addr m f phdr;
          flags = PAGING_IS_PRESENT OR PAGING_ACCESS_FROM_ALL;
          flags = (if p_flags m phdr AND PF_W \<noteq> 0 then flags OR PAGING_IS_WRITEABLE else flags);
          (res, m) = paging_map_to m chunk (paging_align_to_lower_page (p_vaddr m phdr))
                       (paging_align_to_lower_page phdr_phys_address)
                       (paging_align_address (phdr_phys_address + p_memsz m phdr)) flags
      in if res < 0 then (res, m) else map_elf_loop m chunk f phdrs (Suc i) n res)"

definition process_map_elf :: "process \<Rightarrow> 'a kernel_scheme \<Rightarrow> (int \<times> 'a kernel_scheme) outcome" where
  "process_map_elf p s =
     andthen (deref elf_files (proc_ptr p) s) (\<lambda>f.
     andthen (process_chunk p s) (\<lambda>chunk.
       let header = elf_header f;
           phdrs = elf_pheader (mem s) header;
           (res, m) = map_elf_loop (mem s) chunk f phdrs 0 (unat (e_phnum (mem s) header)) 0
       in Inr (res, s\<lparr>mem := m\<rparr>)))"

definition process_map_memory :: "u32 \<Rightarrow> 'a kernel_scheme \<Rightarrow> (int \<times> 'a kernel_scheme) outcome" where
  "process_map_memory process s =
     andthen (deref process_objects process s) (\<lambda>p.
     andthen (if proc_filetype p = PROCESS_FILETYPE_ELF then process_map_elf p s
              else if proc_filetype p = PROCESS_FILETYPE_BINARY then process_map_binary p s
              else Inl (Panic ''process_map_memory: Invalid filetype (not binary and not elf)'')) (\<lambda>(res, s).
       if res < 0 then Inr (res, s)
       else
         andthen (process_chunk p s) (\<lambda>chunk.
           let (_, m) = paging_map_to (mem s) chunk SLOBOS_PROGRAM_VIRTUAL_STACK_ADDRESS_END (proc_stack p)
                          (paging_align_address (proc_stack p + SLOBOS_USER_PROGRAM_STACK_SIZE)) user_page_flags
           in Inr (res, s\<lparr>mem := m\<rparr>))))"

section \<open>Creating a process\<close>

text \<open>
  From the point where the structure exists: the result, the process stored for the caller (null
  when it is not) and the state.
\<close>

definition load_for_slot_body ::
    "platform \<Rightarrow> u32 \<Rightarrow> u32 \<Rightarrow> int \<Rightarrow> 'a kernel_scheme \<Rightarrow> (int \<times> u32 \<times> 'a kernel_scheme) outcome" where
  "load_for_slot_body pl filename process process_slot s =
     andthen (process_load_data pl filename process s) (\<lambda>(res, s).
       if res < 0 then Inr (res, 0, s)
       else
         let (program_stack_ptr, s) = kzalloc SLOBOS_USER_PROGRAM_STACK_SIZE s
         in if program_stack_ptr = 0 then Inr (- ENOMEM, 0, s)
         else
           andthen (deref process_objects process s) (\<lambda>p.
             let name = strncpy_bytes (mem s) filename 108;
                 s = put_process process (p\<lparr>proc_filename := name @ drop (length name) (proc_filename p),
                       proc_stack := program_stack_ptr, proc_id := word_of_int process_slot\<rparr>) s
             in andthen (task_new process s) (\<lambda>(task, s).
                if task = 0 then Inr (0, 0, s)
                else
                  andthen (deref process_objects process s) (\<lambda>p.
                    let s = put_process process (p\<lparr>proc_task := task\<rparr>) s
                    in andthen (process_map_memory process s) (\<lambda>(res, s).
                       if res < 0 then Inr (res, 0, s)
                       else Inr (res, process, s\<lparr>processes := (processes s)[nat process_slot := process]\<rparr>))))))"

text \<open>When the slot is taken, the clean-up reads the process pointer before it has been set.\<close>

definition process_load_for_slot ::
    "platform \<Rightarrow> u32 \<Rightarrow> int \<Rightarrow> 'a kernel_scheme \<Rightarrow> (int \<times> u32 \<times> 'a kernel_scheme) outcome" where
  "process_load_for_slot pl filename process_slot s =
     andthen (if process_get process_slot s \<noteq> 0 then Inr (pl_undefined pl, - EISTKN, 0, s)
              else
                let (process, s) = kzalloc 9364 s
                in if process = 0 then Inr (0, - ENOMEM, 0, s)
                   else andthen (load_for_slot_body pl filename process process_slot
                                  (put_process process process_init s)) (\<lambda>(res, out, s).
                          Inr (process, res, out, s))) (\<lambda>(process, res, out, s).
       if res < 0 \<and> process \<noteq> 0
       then andthen (deref process_objects process s) (\<lambda>p.
              if proc_task p \<noteq> 0
              then andthen (task_free (proc_task p) s) (\<lambda>s. Inr (res, out, s))
              else Inr (res, out, s))
       else Inr (res, out, s))"

definition process_get_free_slot :: "'a kernel_scheme \<Rightarrow> int" where
  "process_get_free_slot s = (case free_index 0 (processes s) of None \<Rightarrow> - EISTKN | Some i \<Rightarrow> int i)"

definition process_load ::
    "platform \<Rightarrow> u32 \<Rightarrow> 'a kernel_scheme \<Rightarrow> (int \<times> u32 \<times> 'a kernel_scheme) outcome" where
  "process_load pl filename s =
     (let process_slot = process_get_free_slot s
      in if process_slot < 0 then Inr (- EISTKN, 0, s)
         else process_load_for_slot pl filename process_slot s)"

definition process_switch :: "u32 \<Rightarrow> 'a kernel_scheme \<Rightarrow> 'a kernel_scheme" where
  "process_switch process s = s\<lparr>current_process := process\<rparr>"

text \<open>The callers start with a null process pointer.\<close>

definition process_load_switch ::
    "platform \<Rightarrow> u32 \<Rightarrow> 'a kernel_scheme \<Rightarrow> (int \<times> u32 \<times> 'a kernel_scheme) outcome" where
  "process_load_switch pl filename s =
     andthen (process_load pl filename s) (\<lambda>(res, process, s).
       Inr (res, process, if res = 0 then process_switch process s else s))"

section \<open>Allocations of a process\<close>

text \<open>The index of the first allocation at an address, counted from \<open>i\<close>.\<close>

fun allocation_index :: "nat \<Rightarrow> u32 \<Rightarrow> process_allocation list \<Rightarrow> nat option" where
  "allocation_index i ptr [] = None"
| "allocation_index i ptr (a # as) = (if alloc_ptr a = ptr then Some i else allocation_index (Suc i) ptr as)"

definition process_find_free_allocation_index :: "process \<Rightarrow> int" where
  "process_find_free_allocation_index p =
     (case allocation_index 0 0 (proc_allocations p) of None \<Rightarrow> - ENOMEM | Some i \<Rightarrow> int i)"

definition process_is_process_pointer :: "process \<Rightarrow> u32 \<Rightarrow> bool" where
  "process_is_process_pointer p ptr \<longleftrightarrow> allocation_index 0 ptr (proc_allocations p) \<noteq> None"

definition process_get_allocation_by_addr :: "process \<Rightarrow> u32 \<Rightarrow> process_allocation option" where
  "process_get_allocation_by_addr p addr =
     map_option (\<lambda>i. proc_allocations p ! i) (allocation_index 0 addr (proc_allocations p))"

text \<open>Every element with the address is cleared.\<close>

definition process_unjoin_allocation_array :: "process \<Rightarrow> u32 \<Rightarrow> process" where
  "process_unjoin_allocation_array p ptr = p\<lparr>proc_allocations :=
     map (\<lambda>a. if alloc_ptr a = ptr then \<lparr>alloc_ptr = 0, alloc_size = 0\<rparr> else a) (proc_allocations p)\<rparr>"

definition process_malloc :: "u32 \<Rightarrow> u32 \<Rightarrow> 'a kernel_scheme \<Rightarrow> (u32 \<times> 'a kernel_scheme) outcome" where
  "process_malloc process sz s =
     (let (ptr, s) = kzalloc sz s
      in if ptr = 0 then Inr (0, s)
      else
        andthen (deref process_objects process s) (\<lambda>p.
          let index = process_find_free_allocation_index p
          in if index < 0 then Inr (0, kfree ptr s)
          else
            andthen (process_chunk p s) (\<lambda>chunk.
              let (res, m) = paging_map_to (mem s) chunk ptr ptr (paging_align_address (ptr + sz))
                               (PAGING_IS_WRITEABLE OR PAGING_IS_PRESENT OR PAGING_ACCESS_FROM_ALL);
                  s = s\<lparr>mem := m\<rparr>
              in if res < 0 then Inr (0, kfree ptr s)
                 else Inr (ptr, put_process process (p\<lparr>proc_allocations :=
                        (proc_allocations p)[nat index := \<lparr>alloc_ptr = ptr, alloc_size = sz\<rparr>]\<rparr>) s))))"

definition process_free :: "u32 \<Rightarrow> u32 \<Rightarrow> 'a kernel_scheme \<Rightarrow> 'a kernel_scheme outcome" where
  "process_free process ptr s =
     andthen (deref process_objects process s) (\<lambda>p.
       if \<not> process_is_process_pointer p ptr then Inr s
       else
         case process_get_allocation_by_addr p ptr of
           None \<Rightarrow> Inr s
         | Some allocation \<Rightarrow>
             andthen (process_chunk p s) (\<lambda>chunk.
               let (res, m) = paging_map_to (mem s) chunk (alloc_ptr allocation) (alloc_ptr allocation)
                                (paging_align_address (alloc_ptr allocation + alloc_size allocation)) 0;
                   s = s\<lparr>mem := m\<rparr>
               in if res < 0 then Inr s
                  else Inr (kfree ptr (put_process process (process_unjoin_allocation_array p ptr) s))))"

section \<open>Arguments\<close>

text \<open>
  A \<open>struct command_argument\<close> is 512 bytes of text and the address of the next one. The list is
  the user program's, so nothing bounds it.
\<close>

definition argument_next :: "byte_mem \<Rightarrow> u32 \<Rightarrow> u32" where
  "argument_next m a = load32 m (a + 512)"

definition process_get_arguments :: "process \<Rightarrow> u32 \<Rightarrow> u32 \<Rightarrow> byte_mem \<Rightarrow> byte_mem" where
  "process_get_arguments p argc argv m = store32 (store32 m argc (word_of_int (proc_argc p))) argv (proc_argv p)"

partial_function (option) count_arguments :: "byte_mem \<Rightarrow> u32 \<Rightarrow> nat \<Rightarrow> nat option" where
  "count_arguments m current i =
     (if current = 0 then Some i else count_arguments m (argument_next m current) (Suc i))"

definition process_count_command_arguments :: "byte_mem \<Rightarrow> u32 \<Rightarrow> nat option" where
  "process_count_command_arguments m root_argument = count_arguments m root_argument 0"

partial_function (option) inject_loop ::
    "u32 \<Rightarrow> u32 \<Rightarrow> u32 \<Rightarrow> nat \<Rightarrow> 'a kernel_scheme \<Rightarrow> (int \<times> 'a kernel_scheme) outcome option" where
  "inject_loop process argv current i s =
     (if current = 0 then Some (Inr (0, s))
      else
        case process_malloc process 512 s of
          Inl e \<Rightarrow> Some (Inl e)
        | Inr (argument_str, s) \<Rightarrow>
            if argument_str = 0 then Some (Inr (- ENOMEM, s))
            else
              let m = strncpy (mem s) argument_str current 512;
                  m = store32 m (argv + 4 * of_nat i) argument_str
              in inject_loop process argv (argument_next m current) (Suc i) (s\<lparr>mem := m\<rparr>))"

definition process_inject_arguments ::
    "u32 \<Rightarrow> u32 \<Rightarrow> 'a kernel_scheme \<Rightarrow> (int \<times> 'a kernel_scheme) outcome" where
  "process_inject_arguments process root_argument s =
     (case process_count_command_arguments (mem s) root_argument of
        None \<Rightarrow> Inl Hang
      | Some argc \<Rightarrow>
          if argc = 0 then Inr (- EIO, s)
          else
            andthen (process_malloc process (4 * of_nat argc) s) (\<lambda>(argv, s).
              if argv = 0 then Inr (- ENOMEM, s)
              else
                andthen (hang_or (inject_loop process argv root_argument 0 s)) (\<lambda>(res, s).
                  if res < 0 then Inr (res, s)
                  else
                    andthen (deref process_objects process s) (\<lambda>p.
                      Inr (res, put_process process (p\<lparr>proc_argc := int argc, proc_argv := argv\<rparr>) s)))))"

section \<open>Ending a process\<close>

text \<open>Every element of the array is passed to \<open>process_free\<close>, the empty ones too.\<close>

fun terminate_loop :: "u32 \<Rightarrow> nat \<Rightarrow> nat \<Rightarrow> 'a kernel_scheme \<Rightarrow> 'a kernel_scheme outcome" where
  "terminate_loop process i 0 s = Inr s"
| "terminate_loop process i (Suc n) s =
     andthen (deref process_objects process s) (\<lambda>p.
       andthen (process_free process (alloc_ptr (proc_allocations p ! i)) s) (\<lambda>s.
         terminate_loop process (Suc i) n s))"

definition process_terminate_allocations :: "u32 \<Rightarrow> 'a kernel_scheme \<Rightarrow> (int \<times> 'a kernel_scheme) outcome" where
  "process_terminate_allocations process s =
     andthen (terminate_loop process 0 SLOBOS_MAX_PROGRAM_ALLOCATIONS s) (\<lambda>s. Inr (0, s))"

definition process_free_binary_data :: "process \<Rightarrow> 'a kernel_scheme \<Rightarrow> (int \<times> 'a kernel_scheme) outcome" where
  "process_free_binary_data p s = Inr (0, kfree (proc_ptr p) s)"

text \<open>There is no \<open>return\<close>: the result is whatever the register holds.\<close>

definition process_free_elf_data ::
    "platform \<Rightarrow> process \<Rightarrow> 'a kernel_scheme \<Rightarrow> (int \<times> 'a kernel_scheme) outcome" where
  "process_free_elf_data pl p s =
     andthen (elf_close (proc_ptr p) s) (\<lambda>s. Inr (sint (pl_undefined pl), s))"

definition process_free_program_data ::
    "platform \<Rightarrow> u32 \<Rightarrow> 'a kernel_scheme \<Rightarrow> (int \<times> 'a kernel_scheme) outcome" where
  "process_free_program_data pl process s =
     andthen (deref process_objects process s) (\<lambda>p.
       if proc_filetype p = PROCESS_FILETYPE_ELF then process_free_elf_data pl p s
       else if proc_filetype p = PROCESS_FILETYPE_BINARY then process_free_binary_data p s
       else Inr (- EINVARG, s))"

fun first_process :: "u32 list \<Rightarrow> u32" where
  "first_process [] = 0"
| "first_process (p # ps) = (if p \<noteq> 0 then p else first_process ps)"

definition process_switch_to_any :: "'a kernel_scheme \<Rightarrow> 'a kernel_scheme outcome" where
  "process_switch_to_any s =
     (if first_process (processes s) = 0 then Inl (Panic ''No processes to switch to'')
      else Inr (process_switch (first_process (processes s)) s))"

definition process_unlink :: "u32 \<Rightarrow> 'a kernel_scheme \<Rightarrow> 'a kernel_scheme outcome" where
  "process_unlink process s =
     andthen (deref process_objects process s) (\<lambda>p.
       if unat (proc_id p) \<ge> length (processes s) then Inl (OutOfBounds (int (unat (proc_id p))))
       else
         let s = s\<lparr>processes := (processes s)[unat (proc_id p) := 0]\<rparr>
         in if current_process s = process then process_switch_to_any s else Inr s)"

text \<open>The structure of the process itself is not freed.\<close>

definition process_terminate :: "platform \<Rightarrow> u32 \<Rightarrow> 'a kernel_scheme \<Rightarrow> (int \<times> 'a kernel_scheme) outcome" where
  "process_terminate pl process s =
     andthen (process_terminate_allocations process s) (\<lambda>(res, s).
       if res < 0 then Inr (res, s)
       else
         andthen (process_free_program_data pl process s) (\<lambda>(res, s).
           if res < 0 then Inr (res, s)
           else
             andthen (deref process_objects process s) (\<lambda>p.
               let s = kfree (proc_stack p) s
               in andthen (task_free (proc_task p) s) (\<lambda>s.
                  andthen (process_unlink process s) (\<lambda>s. Inr (res, s))))))"

end
