(* ===== verification/Syscalls.thy ===== *)
theory Syscalls
  imports Process
begin

text \<open>
  \<^verbatim>\<open>src/isr80h\<close> and \<^verbatim>\<open>src/idt/idt.c\<close>: the system calls, the tables of interrupts and commands,
  and the two handlers the assembly stubs call. The function pointers of the tables are names
  of the functions.
\<close>

unbundle bit_operations_syntax

section \<open>Tables\<close>

definition SLOBOS_TOTAL_INTERRUPTS :: nat where [c_defs]: "SLOBOS_TOTAL_INTERRUPTS = 512"
definition SLOBOS_MAX_ISR80H_COMMANDS :: nat where [c_defs]: "SLOBOS_MAX_ISR80H_COMMANDS = 1024"
definition KERNEL_CODE_SELECTOR :: u16 where [c_defs]: "KERNEL_CODE_SELECTOR = 0x08"

datatype isr80h_command =
    Sum | Print | Getkey | Putchar | Malloc | Free | Process_load_from_shell
  | Invoke_system_command | Get_program_arguments | Exit

datatype interrupt_callback = Handle_exception | Keyboard_interrupt | Timer_interrupt

record idt_desc =
  offset_1 :: u16
  selector :: u16
  zero :: u8
  type_attr :: u8
  offset_2 :: u16

record idtr_desc =
  idtr_limit :: u16
  idtr_base :: u32

record system = kernel +
  idt_descriptors :: "idt_desc list"
  idtr_descriptor :: idtr_desc
  interrupt_callbacks :: "interrupt_callback option list"
  isr80h_commands :: "isr80h_command option list"

text \<open>A call either returns to its caller or has entered user mode with some registers.\<close>

datatype 's control = Returns u32 's | User_mode registers 's

section \<open>The interrupt descriptor table\<close>

definition idt_set :: "nat \<Rightarrow> u32 \<Rightarrow> 'a system_scheme \<Rightarrow> 'a system_scheme" where
  "idt_set interrupt_no address s =
     s\<lparr>idt_descriptors := (idt_descriptors s)[interrupt_no :=
       \<lparr>offset_1 = ucast (address AND 0x0000FFFF), selector = KERNEL_CODE_SELECTOR, zero = 0,
        type_attr = 0xEE, offset_2 = ucast (drop_bit 16 address)\<rparr>]\<rparr>"

definition idt_register_interrupt_callback ::
    "int \<Rightarrow> interrupt_callback \<Rightarrow> 'a system_scheme \<Rightarrow> int \<times> 'a system_scheme" where
  "idt_register_interrupt_callback interrupt callback s =
     (if interrupt < 0 \<or> interrupt \<ge> int SLOBOS_TOTAL_INTERRUPTS then (- EINVARG, s)
      else (0, s\<lparr>interrupt_callbacks := (interrupt_callbacks s)[nat interrupt := Some callback]\<rparr>))"

text \<open>
  \<open>descriptors\<close> is the address of the table, \<open>stubs\<close> are the addresses of the assembly stubs, \<open>idt_zero\<close> and
  \<open>isr80h_wrapper\<close> those of the two routines set by name. A descriptor has 8 bytes. Loading the register is assembly.
\<close>

definition idt_init :: "u32 \<Rightarrow> (nat \<Rightarrow> u32) \<Rightarrow> u32 \<Rightarrow> u32 \<Rightarrow> 'a system_scheme \<Rightarrow> 'a system_scheme" where
  "idt_init descriptors stubs idt_zero isr80h_wrapper s =
     (let s = s\<lparr>idt_descriptors := replicate SLOBOS_TOTAL_INTERRUPTS
                  \<lparr>offset_1 = 0, selector = 0, zero = 0, type_attr = 0, offset_2 = 0\<rparr>\<rparr>;
          s = s\<lparr>idtr_descriptor := \<lparr>idtr_limit = of_nat (8 * SLOBOS_TOTAL_INTERRUPTS) - 1, idtr_base = descriptors\<rparr>\<rparr>;
          s = fold (\<lambda>i. idt_set i (stubs i)) [0..<SLOBOS_TOTAL_INTERRUPTS] s;
          s = idt_set 0 idt_zero s;
          s = idt_set 0x80 isr80h_wrapper s
      in fold (\<lambda>i s. snd (idt_register_interrupt_callback (int i) Handle_exception s)) [0..<0x20] s)"

section \<open>The system calls\<close>

definition isr80h_commando_sum :: "'a system_scheme \<Rightarrow> (u32 \<times> 'a system_scheme) outcome" where
  "isr80h_commando_sum s =
     andthen (task_get_stack_item (current_task s) 1 s) (\<lambda>(v2, s).
     andthen (task_get_stack_item (current_task s) 0 s) (\<lambda>(v1, s). Inr (v1 + v2, s)))"

text \<open>
  The buffer is not initialised and the result of the copy is not looked at; the copy fails only
  when no memory is left, and then what is printed is not determined: a fault here.
\<close>

definition isr80h_command1_print :: "platform \<Rightarrow> 'a system_scheme \<Rightarrow> (u32 \<times> 'a system_scheme) outcome" where
  "isr80h_command1_print pl s =
     andthen (task_get_stack_item (current_task s) 0 s) (\<lambda>(user_space_msg_buffer, s).
     andthen (copy_string_from_task (current_task s) user_space_msg_buffer 1024 s) (\<lambda>(res, buf, s).
       if buf = [] then Inl (OutOfBounds 0)
       else Inr (0, print_chars (pl_blank pl) (butlast buf) s)))"

definition isr80h_command2_getkey :: "'a system_scheme \<Rightarrow> (u32 \<times> 'a system_scheme) outcome" where
  "isr80h_command2_getkey s =
     andthen (deref tasks (current_task s) s) (\<lambda>t.
     andthen (deref process_objects (task_process t) s) (\<lambda>p.
       let (c, kb) = keyboard_pop (proc_keyboard p)
       in Inr (scast c, put_process (task_process t) (p\<lparr>proc_keyboard := kb\<rparr>) s)))"

definition isr80h_command3_putchar :: "platform \<Rightarrow> 'a system_scheme \<Rightarrow> (u32 \<times> 'a system_scheme) outcome" where
  "isr80h_command3_putchar pl s =
     andthen (task_get_stack_item (current_task s) 0 s) (\<lambda>(c, s).
       Inr (0, terminal_writechar (pl_blank pl) (ucast c) 15 s))"

definition isr80h_command4_malloc :: "'a system_scheme \<Rightarrow> (u32 \<times> 'a system_scheme) outcome" where
  "isr80h_command4_malloc s =
     andthen (task_get_stack_item (current_task s) 0 s) (\<lambda>(sz, s).
     andthen (deref tasks (current_task s) s) (\<lambda>t. process_malloc (task_process t) sz s))"

definition isr80h_command5_free :: "'a system_scheme \<Rightarrow> (u32 \<times> 'a system_scheme) outcome" where
  "isr80h_command5_free s =
     andthen (task_get_stack_item (current_task s) 0 s) (\<lambda>(ptr_to_free, s).
     andthen (deref tasks (current_task s) s) (\<lambda>t.
     andthen (process_free (task_process t) ptr_to_free s) (\<lambda>s. Inr (0, s))))"

text \<open>The path is built in a local array; a name that does not fit leaves it.\<close>

definition enter_process :: "u32 \<Rightarrow> 'a system_scheme \<Rightarrow> 'a system_scheme control outcome" where
  "enter_process process s =
     andthen (deref process_objects process s) (\<lambda>p.
     andthen (task_switch (proc_task p) s) (\<lambda>s.
     andthen (deref tasks (proc_task p) s) (\<lambda>t. Inr (User_mode (task_registers t) s))))"

definition isr80h_command6_process_load_from_shell ::
    "platform \<Rightarrow> 'a system_scheme \<Rightarrow> 'a system_scheme control outcome" where
  "isr80h_command6_process_load_from_shell pl s =
     andthen (task_get_stack_item (current_task s) 0 s) (\<lambda>(filename_user_ptr, s).
     andthen (copy_string_from_task (current_task s) filename_user_ptr 108 s) (\<lambda>(res, filename, s).
       if res < 0 then Inr (Returns 0 s)
       else if 3 + length filename > 108 then Inl (OutOfBounds 108)
       else
         let s = s\<lparr>mem := store_bytes (mem s) (pl_path pl) ([48, 58, 47] @ filename)\<rparr>
         in andthen (process_load_switch pl (pl_path pl) s) (\<lambda>(res, process, s).
            if res < 0 then Inr (Returns 0 s) else enter_process process s)))"

text \<open>
  The list of arguments is taken at its physical address. \<open>strncpy\<close> is told the size of the whole
  array, so a long name is copied past its end.
\<close>

definition isr80h_command7_invoke_system_command ::
    "platform \<Rightarrow> 'a system_scheme \<Rightarrow> 'a system_scheme control outcome" where
  "isr80h_command7_invoke_system_command pl s =
     andthen (task_get_stack_item (current_task s) 0 s) (\<lambda>(item, s).
     andthen (task_virtual_address_to_physical (current_task s) item s) (\<lambda>arguments.
     andthen (if arguments = 0 then Inr 0
              else case strlen (mem s) arguments of None \<Rightarrow> Inl Hang | Some len \<Rightarrow> Inr len) (\<lambda>len.
       if arguments = 0 \<or> len = 0 then Inr (Returns (word_of_int (- EINVARG)) s)
       else
         let program_name = strncpy_bytes (mem s) arguments 108
         in if 3 + length program_name > 108 then Inl (OutOfBounds 108)
            else
              let s = s\<lparr>mem := store_bytes (mem s) (pl_path pl) ([48, 58, 47] @ program_name)\<rparr>
              in andthen (process_load_switch pl (pl_path pl) s) (\<lambda>(res, process, s).
                 if res < 0 then Inr (Returns (word_of_int res) s)
                 else
                   andthen (process_inject_arguments process arguments s) (\<lambda>(res, s).
                     if res < 0 then Inr (Returns (word_of_int res) s) else enter_process process s)))))"

definition isr80h_command8_get_program_arguments :: "'a system_scheme \<Rightarrow> (u32 \<times> 'a system_scheme) outcome" where
  "isr80h_command8_get_program_arguments s =
     andthen (deref tasks (current_task s) s) (\<lambda>t.
     andthen (task_get_stack_item (current_task s) 0 s) (\<lambda>(item, s).
     andthen (task_virtual_address_to_physical (current_task s) item s) (\<lambda>arguments.
     andthen (deref process_objects (task_process t) s) (\<lambda>p.
       Inr (0, s\<lparr>mem := process_get_arguments p arguments (arguments + 4) (mem s)\<rparr>)))))"

text \<open>Ending a process and going on with the next task, for the exit call and for exceptions.\<close>

definition end_current_process :: "platform \<Rightarrow> 'a system_scheme \<Rightarrow> 'a system_scheme control outcome" where
  "end_current_process pl s =
     andthen (deref tasks (current_task s) s) (\<lambda>t.
     andthen (process_terminate pl (task_process t) s) (\<lambda>(_, s).
     andthen (task_next s) (\<lambda>(r, s). Inr (User_mode r s))))"

definition irh80h_command9_exit :: "platform \<Rightarrow> 'a system_scheme \<Rightarrow> 'a system_scheme control outcome" where
  "irh80h_command9_exit pl s = end_current_process pl s"

definition idt_handle_exception :: "platform \<Rightarrow> 'a system_scheme \<Rightarrow> 'a system_scheme control outcome" where
  "idt_handle_exception pl s = end_current_process pl s"

section \<open>Dispatch\<close>

definition returning :: "(u32 \<times> 's) outcome \<Rightarrow> 's control outcome" where
  "returning x = andthen x (\<lambda>(r, s). Inr (Returns r s))"

fun run_command :: "platform \<Rightarrow> isr80h_command \<Rightarrow> 'a system_scheme \<Rightarrow> 'a system_scheme control outcome" where
  "run_command pl Sum s = returning (isr80h_commando_sum s)"
| "run_command pl Print s = returning (isr80h_command1_print pl s)"
| "run_command pl Getkey s = returning (isr80h_command2_getkey s)"
| "run_command pl Putchar s = returning (isr80h_command3_putchar pl s)"
| "run_command pl Malloc s = returning (isr80h_command4_malloc s)"
| "run_command pl Free s = returning (isr80h_command5_free s)"
| "run_command pl Process_load_from_shell s = isr80h_command6_process_load_from_shell pl s"
| "run_command pl Invoke_system_command s = isr80h_command7_invoke_system_command pl s"
| "run_command pl Get_program_arguments s = returning (isr80h_command8_get_program_arguments s)"
| "run_command pl Exit s = irh80h_command9_exit pl s"

definition isr80h_register_command ::
    "int \<Rightarrow> isr80h_command \<Rightarrow> 'a system_scheme \<Rightarrow> 'a system_scheme outcome" where
  "isr80h_register_command command_id command s =
     (if command_id < 0 \<or> command_id \<ge> int SLOBOS_MAX_ISR80H_COMMANDS
      then Inl (Panic ''The OS has no more commands free (SLOBOS_MAX_ISR80H_COMMANDS)'')
      else if isr80h_commands s ! nat command_id \<noteq> None
      then Inl (Panic ''Youre attempting to overwrite a existing commands'')
      else Inr (s\<lparr>isr80h_commands := (isr80h_commands s)[nat command_id := Some command]\<rparr>))"

fun register_all :: "(int \<times> isr80h_command) list \<Rightarrow> 'a system_scheme \<Rightarrow> 'a system_scheme outcome" where
  "register_all [] s = Inr s"
| "register_all ((command_id, c) # rest) s = andthen (isr80h_register_command command_id c s) (register_all rest)"

definition isr80h_register_commands :: "'a system_scheme \<Rightarrow> 'a system_scheme outcome" where
  "isr80h_register_commands s = register_all
     [(0, Sum), (1, Print), (2, Getkey), (3, Putchar), (4, Malloc), (5, Free),
      (6, Process_load_from_shell), (7, Invoke_system_command), (8, Get_program_arguments), (9, Exit)] s"

definition isr80h_handle_command :: "platform \<Rightarrow> int \<Rightarrow> 'a system_scheme \<Rightarrow> 'a system_scheme control outcome" where
  "isr80h_handle_command pl command s =
     (if command < 0 \<or> command \<ge> int SLOBOS_MAX_ISR80H_COMMANDS then Inr (Returns 0 s)
      else
        case isr80h_commands s ! nat command of
          None \<Rightarrow> Inr (Returns 0 s)
        | Some c \<Rightarrow> run_command pl c s)"

text \<open>After a command that returned, the handler goes back to the pages of the current task.\<close>

definition isr80h_handler ::
    "platform \<Rightarrow> int \<Rightarrow> interrupt_frame \<Rightarrow> 'a system_scheme \<Rightarrow> 'a system_scheme control outcome" where
  "isr80h_handler pl command frame s =
     andthen (task_current_save_state frame (kernel_page s)) (\<lambda>s.
     andthen (isr80h_handle_command pl command s) (\<lambda>c.
       case c of
         User_mode r s \<Rightarrow> Inr (User_mode r s)
       | Returns res s \<Rightarrow> andthen (task_page s) (\<lambda>s. Inr (Returns res s))))"

text \<open>
  The keyboard interrupt: \<open>scancode\<close> is what port 0x60 delivers. A released key returns before the
  switch back to the task's pages.
\<close>

definition keyboard_interrupt :: "u8 \<Rightarrow> 'a system_scheme \<Rightarrow> 'a system_scheme outcome" where
  "keyboard_interrupt scancode s =
     (let s = kernel_page s
      in if scancode AND PS2_KEYBOARD_KEY_RELEASED \<noteq> 0 then Inr s
      else
        andthen (ps2_keyboard_scancode_to_char scancode) (\<lambda>c.
        andthen (if c \<noteq> 0 \<and> current_process s \<noteq> 0
                 then andthen (deref process_objects (current_process s) s) (\<lambda>p.
                        Inr (put_process (current_process s) (p\<lparr>proc_keyboard := keyboard_push c (proc_keyboard p)\<rparr>) s))
                 else Inr s) task_page))"

definition run_callback ::
    "platform \<Rightarrow> u8 \<Rightarrow> interrupt_callback \<Rightarrow> 'a system_scheme \<Rightarrow> 'a system_scheme control outcome" where
  "run_callback pl scancode cb s =
     (case cb of
        Handle_exception \<Rightarrow> idt_handle_exception pl s
      | Keyboard_interrupt \<Rightarrow> andthen (keyboard_interrupt scancode s) (\<lambda>s. Inr (Returns 0 s))
      | Timer_interrupt \<Rightarrow>
          Inr (Returns 0 (print_chars (pl_blank pl) (map (\<lambda>c. of_char c) ''Timer interrupt works'' @ [10]) s)))"

text \<open>The acknowledgement to the interrupt controller is a port write.\<close>

definition interrupt_handler ::
    "platform \<Rightarrow> u8 \<Rightarrow> nat \<Rightarrow> interrupt_frame \<Rightarrow> 'a system_scheme \<Rightarrow> 'a system_scheme control outcome" where
  "interrupt_handler pl scancode interrupt frame s =
     (let s = kernel_page s
      in case interrupt_callbacks s ! interrupt of
           None \<Rightarrow> andthen (task_page s) (\<lambda>s. Inr (Returns 0 s))
         | Some cb \<Rightarrow>
             andthen (task_current_save_state frame s) (\<lambda>s.
             andthen (run_callback pl scancode cb s) (\<lambda>c.
               case c of
                 User_mode r s \<Rightarrow> Inr (User_mode r s)
               | Returns res s \<Rightarrow> andthen (task_page s) (\<lambda>s. Inr (Returns res s)))))"

end
