(* ===== verification/Kernel.thy ===== *)
theory Kernel
  imports Syscalls Gdt
begin

text \<open>
  \<open>kernel_main\<close> of \<^verbatim>\<open>src/kernel.c\<close>: the order in which the components are started, up to the
  first program in user mode.
\<close>

unbundle bit_operations_syntax

record machine = system +
  keyboard_drivers :: keyboard_list

text \<open>Addresses the linker chooses, and the assembly stubs.\<close>

record layout =
  at_gdt_real :: u32
  at_tss :: u32
  at_ps2_keyboard :: u32
  at_argument :: u32
  at_idt_descriptors :: u32
  at_idt_zero :: u32
  at_isr80h_wrapper :: u32
  at_stub :: "nat \<Rightarrow> u32"

text \<open>\<open>ps2_keyboard_init\<close> registers the handler; enabling the port is a port write.\<close>

definition ps2_keyboard_init :: "'a machine_scheme \<Rightarrow> int \<times> 'a machine_scheme" where
  "ps2_keyboard_init s = (let (_, s) = idt_register_interrupt_callback 0x21 Keyboard_interrupt s in (0, s))"

definition keyboard_init :: "layout \<Rightarrow> 'a machine_scheme \<Rightarrow> 'a machine_scheme outcome" where
  "keyboard_init l s =
     andthen (keyboard_insert (at_ps2_keyboard l) (keyboard_drivers s)) (\<lambda>(_, k).
       Inr (snd (ps2_keyboard_init (s\<lparr>keyboard_drivers := k\<rparr>))))"

text \<open>
  The start of \<open>kernel_main\<close>, up to the keyboard. Loading the descriptor tables and the task
  register, and switching paging on, are assembly.
\<close>

definition kernel_start :: "platform \<Rightarrow> layout \<Rightarrow> 'a machine_scheme \<Rightarrow> 'a machine_scheme outcome" where
  "kernel_start pl l s =
     (let s = terminal_initialize s;
          s = s\<lparr>mem := memset (mem s) (at_gdt_real l) 0 48\<rparr>
      in andthen (gdt_structured_to_gdt (mem s) (at_gdt_real l) (kernel_gdt (at_tss l) 100) SLOBOS_TOTAL_GDT_SEGMENTS) (\<lambda>m.
         let s = snd (kheap_init (s\<lparr>mem := m\<rparr>))
         in andthen (fs_init pl s) (\<lambda>s.
            andthen (disk_search_and_init pl s) (\<lambda>s.
            let s = idt_init (at_idt_descriptors l) (at_stub l) (at_idt_zero l) (at_isr80h_wrapper l) s;
                m = memset (mem s) (at_tss l) 0 100;
                m = store32 m (at_tss l + 4) 0x600000;
                m = store32 m (at_tss l + 8) KERNEL_DATA_SELECTOR;
                (chunk, s) = paging_new_4gb 7 (s\<lparr>mem := m\<rparr>);
                s = s\<lparr>kernel_chunk := chunk\<rparr>;
                s = paging_switch (kernel_chunk s) s
            in andthen (isr80h_register_commands s) (keyboard_init l)))))"

text \<open>
  The rest: load the shell, give it one argument, run it. The path and the argument are literals
  and locals, in memory at addresses of their own.
\<close>

definition shell_path :: "u8 list" where
  "shell_path = [48, 58, 47, 115, 104, 101, 108, 108, 46, 101, 108, 102, 0]"

definition kernel_main :: "platform \<Rightarrow> layout \<Rightarrow> 'a machine_scheme \<Rightarrow> (registers \<times> 'a machine_scheme) outcome" where
  "kernel_main pl l s =
     andthen (kernel_start pl l s) (\<lambda>s.
       let s = s\<lparr>mem := store_bytes (mem s) (pl_path pl) shell_path\<rparr>
       in andthen (process_load_switch pl (pl_path pl) s) (\<lambda>(res, process, s).
          if res \<noteq> SLOBOS_ALL_OK then Inl (Panic ''Failed to load shell.elf'')
          else
            let m = store_bytes (mem s) (at_argument l) [84, 101, 115, 116, 105, 110, 103, 0];
                m = store32 m (at_argument l + 512) 0
            in andthen (process_inject_arguments process (at_argument l) (s\<lparr>mem := m\<rparr>)) (\<lambda>(_, s).
               task_run_first_ever_task s)))"

end
