(* ===== verification/Ulib.thy ===== *)
theory Ulib
  imports CString
begin

text \<open>
  What every user program is linked with, \<^verbatim>\<open>programs/stdlib/src\<close>: \<^verbatim>\<open>string.c\<close> and \<^verbatim>\<open>memory.c\<close> are
  byte for byte the kernel's files (but for one include), here on the memory of the program and
  with its own copy of the static pointer of \<open>strtok\<close>; \<^verbatim>\<open>start.c\<close> calls \<open>main\<close>. The system calls
  are parameters. A pointer that a function returns is the first component of the result. The kernel's
  own state is the third field: only system calls read and change it.
\<close>

record 'k user =
  user_mem :: byte_mem
  strtok_sp :: u32
  user_kernel :: 'k

text \<open>The memory changed by a function that cannot fail.\<close>

definition user_update :: "(byte_mem \<Rightarrow> byte_mem) \<Rightarrow> 'k user \<Rightarrow> 'k user" where
  "user_update f u = u\<lparr>user_mem := f (user_mem u)\<rparr>"

section \<open>memory.c\<close>

definition user_memset :: "u32 \<Rightarrow> u32 \<Rightarrow> u32 \<Rightarrow> 'k user \<Rightarrow> u32 \<times> 'k user" where
  "user_memset ptr c sz u = (ptr, user_update (\<lambda>m. memset m ptr (ucast c) sz) u)"

definition user_memcmp :: "u32 \<Rightarrow> u32 \<Rightarrow> int \<Rightarrow> 'k user \<Rightarrow> int" where
  "user_memcmp s1 s2 count u = memcmp (user_mem u) s1 s2 count"

definition user_memcpy :: "u32 \<Rightarrow> u32 \<Rightarrow> u32 \<Rightarrow> 'k user \<Rightarrow> u32 \<times> 'k user" where
  "user_memcpy dest src len u = (dest, user_update (\<lambda>m. memcpy m dest src len) u)"

section \<open>string.c\<close>

definition user_tolower :: "u8 \<Rightarrow> u8" where
  "user_tolower s1 = (if sint s1 \<ge> 65 \<and> sint s1 \<le> 90 then s1 + 32 else s1)"

definition user_strlen :: "u32 \<Rightarrow> 'k user \<Rightarrow> int outcome" where
  "user_strlen ptr u = (case strlen (user_mem u) ptr of None \<Rightarrow> Inl Hang | Some n \<Rightarrow> Inr n)"

definition user_strnlen_terminator :: "u32 \<Rightarrow> int \<Rightarrow> u8 \<Rightarrow> 'k user \<Rightarrow> int" where
  "user_strnlen_terminator str maxlen terminator u = strnlen_terminator (user_mem u) str maxlen terminator"

definition user_istrncmp :: "u32 \<Rightarrow> u32 \<Rightarrow> int \<Rightarrow> 'k user \<Rightarrow> int" where
  "user_istrncmp s1 s2 n u = istrncmp (user_mem u) s1 s2 n"

definition user_strncmp :: "u32 \<Rightarrow> u32 \<Rightarrow> int \<Rightarrow> 'k user \<Rightarrow> int" where
  "user_strncmp str1 str2 n u = strncmp (user_mem u) str1 str2 n"

definition user_strnlen :: "u32 \<Rightarrow> int \<Rightarrow> 'k user \<Rightarrow> int" where
  "user_strnlen ptr maxlen u = strnlen (user_mem u) ptr maxlen"

definition user_isdigit :: "u8 \<Rightarrow> bool" where
  "user_isdigit c \<longleftrightarrow> sint c \<ge> 48 \<and> sint c \<le> 57"

definition user_tonumericdigit :: "u8 \<Rightarrow> int" where
  "user_tonumericdigit c = sint c - 48"

definition user_strcpy :: "u32 \<Rightarrow> u32 \<Rightarrow> 'k user \<Rightarrow> (u32 \<times> 'k user) outcome" where
  "user_strcpy dest src u =
     (case strcpy (user_mem u) dest src of
        None \<Rightarrow> Inl Hang
      | Some m \<Rightarrow> Inr (dest, u\<lparr>user_mem := m\<rparr>))"

definition user_strncpy :: "u32 \<Rightarrow> u32 \<Rightarrow> int \<Rightarrow> 'k user \<Rightarrow> u32 \<times> 'k user" where
  "user_strncpy dest src count u = (dest, user_update (\<lambda>m. strncpy m dest src count) u)"

definition user_strtok :: "u32 \<Rightarrow> u32 \<Rightarrow> 'k user \<Rightarrow> (u32 \<times> 'k user) outcome" where
  "user_strtok str delimiters u =
     (case strtok (user_mem u) (strtok_sp u) str delimiters of
        None \<Rightarrow> Inl Hang
      | Some (token, sp, m) \<Rightarrow> Inr (token, u\<lparr>user_mem := m, strtok_sp := sp\<rparr>))"

section \<open>malloc and free (stdlib.c)\<close>

text \<open>System calls 4 and 5, as functions on the memory of the program and the state of the kernel.\<close>

type_synonym 'k malloc_call = "u32 \<Rightarrow> byte_mem \<times> 'k \<Rightarrow> u32 \<times> byte_mem \<times> 'k"

definition user_malloc :: "'k malloc_call \<Rightarrow> u32 \<Rightarrow> 'k user \<Rightarrow> u32 \<times> 'k user" where
  "user_malloc slobos_malloc sz u =
     (let (a, m, k) = slobos_malloc sz (user_mem u, user_kernel u) in (a, u\<lparr>user_mem := m, user_kernel := k\<rparr>))"

definition user_free :: "(u32 \<Rightarrow> byte_mem \<times> 'k \<Rightarrow> byte_mem \<times> 'k) \<Rightarrow> u32 \<Rightarrow> 'k user \<Rightarrow> 'k user" where
  "user_free slobos_free ptr u =
     (let (m, k) = slobos_free ptr (user_mem u, user_kernel u) in u\<lparr>user_mem := m, user_kernel := k\<rparr>)"

section \<open>c_start (start.c)\<close>

text \<open>
  \<open>get_arguments\<close> is system call 8, which fills the local structure at \<open>arguments\<close>; \<open>main\<close> is the
  program. Its result is not used.
\<close>

definition c_start ::
    "(u32 \<Rightarrow> byte_mem \<Rightarrow> byte_mem) \<Rightarrow> (int \<Rightarrow> u32 \<Rightarrow> 'k user \<Rightarrow> (int \<times> 'k user) outcome) \<Rightarrow> u32 \<Rightarrow> 'k user \<Rightarrow> 'k user outcome" where
  "c_start get_arguments main arguments u =
     (let u = user_update (get_arguments arguments) u
      in andthen (main (sint (load32 (user_mem u) arguments)) (load32 (user_mem u) (arguments + 4)) u)
           (\<lambda>(res, u). Inr u))"

end
