(* ===== verification/Stdlib.thy ===== *)
theory Stdlib
  imports Ulib
begin

text \<open>
  The library of the user programs, \<^verbatim>\<open>programs/stdlib\<close>. The system calls are parameters: what
  the kernel gives back for a request of memory, and the keys it delivers. What a program writes
  to the terminal is a list of characters.
\<close>

unbundle bit_operations_syntax

section \<open>itoa (stdlib.c)\<close>

text \<open>The number is negative or zero; its digits go into \<open>text\<close> from the end.\<close>

function itoa_loop :: "int \<Rightarrow> nat \<Rightarrow> u8 list \<Rightarrow> (nat \<times> u8 list) outcome" where
  "itoa_loop i loc text =
     (if i = 0 then Inr (loc, text)
      else if loc = 0 then Inl (OutOfBounds (- 1))
      else itoa_loop (i sdiv 10) (loc - 1) (text[loc - 1 := word_of_int (48 - i smod 10)]))"
  by pat_completeness auto
termination by (relation "measure (\<lambda>(i, loc, text). loc)") auto

declare itoa_loop.simps [simp del]

definition put_front :: "u8 \<Rightarrow> nat \<times> u8 list \<Rightarrow> (nat \<times> u8 list) outcome" where
  "put_front c = (\<lambda>(loc, text).
     if loc = 0 then Inl (OutOfBounds (- 1)) else Inr (loc - 1, text[loc - 1 := c]))"

text \<open>The buffer is static and keeps what an earlier call wrote; the result is \<open>&text[loc]\<close>.\<close>

definition itoa :: "int \<Rightarrow> u8 list \<Rightarrow> (nat \<times> u8 list) outcome" where
  "itoa i text =
     (let text = text[11 := 0];
          neg = \<not> i \<ge> 0;
          i = (if i \<ge> 0 then - i else i)
      in andthen (itoa_loop i 11 text) (\<lambda>(loc, text).
         andthen (if loc = 11 then put_front 48 (loc, text) else Inr (loc, text)) (\<lambda>lt.
           if neg then put_front 45 lt else Inr lt)))"

section \<open>printf (stdio.c)\<close>

datatype argument = Int_arg int | String_arg u32

text \<open>
  \<open>print\<close> is system call 1. The kernel copies the string from the program into a buffer of 1024 bytes before it
  writes it (\<open>isr80h_command1_print\<close>): as far as the terminator, and at most 1023 characters.
\<close>

fun string_at :: "byte_mem \<Rightarrow> u32 \<Rightarrow> nat \<Rightarrow> u8 list" where
  "string_at m p 0 = []"
| "string_at m p (Suc n) = (if m p = 0 then [] else m p # string_at m (p + 1) n)"

definition print_call :: "byte_mem \<Rightarrow> u32 \<Rightarrow> u8 list" where
  "print_call m p = string_at m p 1023"

text \<open>
  What one conversion writes, and the arguments left. Too few arguments, or one of the wrong
  type, is undefined.
\<close>

fun convert :: "byte_mem \<Rightarrow> u8 list \<Rightarrow> u8 \<Rightarrow> argument list \<Rightarrow> (u8 list \<times> u8 list \<times> argument list) outcome" where
  "convert m text c args =
     (if c = 105 then
        case args of
          Int_arg ival # args \<Rightarrow>
            andthen (itoa ival text) (\<lambda>(loc, text). Inr (takeWhile (\<lambda>c. c \<noteq> 0) (drop loc text), text, args))
        | _ \<Rightarrow> Inl (OutOfBounds 0)
      else if c = 115 then
        case args of
          String_arg sval # args \<Rightarrow>
            Inr (print_call m sval, text, args)
        | _ \<Rightarrow> Inl (OutOfBounds 0)
      else Inr ([c], text, args))"

text \<open>After a percent sign the next character is consumed even when it is the terminator.\<close>

partial_function (option) printf_loop ::
    "byte_mem \<Rightarrow> u8 list \<Rightarrow> u32 \<Rightarrow> argument list \<Rightarrow> u8 list \<Rightarrow> u8 list outcome option" where
  "printf_loop m text p args out =
     (if m p = 0 then Some (Inr out)
      else if m p \<noteq> 37 then printf_loop m text (p + 1) args (out @ [m p])
      else
        case convert m text (m (p + 1)) args of
          Inl e \<Rightarrow> Some (Inl e)
        | Inr (cs, text, args) \<Rightarrow> printf_loop m text (p + 2) args (out @ cs))"

definition printf :: "byte_mem \<Rightarrow> u8 list \<Rightarrow> u32 \<Rightarrow> argument list \<Rightarrow> u8 list outcome" where
  "printf m text fmt args =
     (case printf_loop m text fmt args [] of None \<Rightarrow> Inl Hang | Some r \<Rightarrow> r)"

section \<open>Reading a line (slobos.c)\<close>

text \<open>The results of successive calls of \<open>slobos_getkey\<close>; 0 means no key yet.\<close>

fun slobos_getkeyblock :: "u8 list \<Rightarrow> (u8 \<times> u8 list) outcome" where
  "slobos_getkeyblock [] = Inl Hang"
| "slobos_getkeyblock (k # ks) = (if k = 0 then slobos_getkeyblock ks else Inr (k, ks))"

lemma getkeyblock_shorter: "slobos_getkeyblock ks = Inr (k, ks') \<Longrightarrow> length ks' < length ks"
  by (induction ks) (auto split: if_splits)

text \<open>\<open>echo\<close> is what has been written to the terminal. A backspace at the start is stored as a key.\<close>

function readline_loop ::
    "u8 list \<Rightarrow> int \<Rightarrow> bool \<Rightarrow> int \<Rightarrow> u8 list \<Rightarrow> u8 list \<Rightarrow> (int \<times> u8 list \<times> u8 list \<times> u8 list) outcome" where
  "readline_loop ks sz output_while_typing i out echo =
     (if i < sz - 1 then
        case slobos_getkeyblock ks of
          Inl e \<Rightarrow> Inl e
        | Inr (key, ks) \<Rightarrow>
            if key = 13 then Inr (i, out, echo, ks)
            else
              let echo = (if output_while_typing then echo @ [key] else echo)
              in if key = 0x08 \<and> i \<ge> 1
                 then readline_loop ks sz output_while_typing (i - 2 + 1) (out[nat (i - 1) := 0]) echo
                 else readline_loop ks sz output_while_typing (i + 1) (out[nat i := key]) echo
      else Inr (i, out, echo, ks))"
  by pat_completeness auto
termination
  by (relation "measure (\<lambda>(ks, sz, b, i, out, echo). length ks)") (auto dest: getkeyblock_shorter)

declare readline_loop.simps [simp del]

text \<open>The result is the buffer, the echo and the keys not yet read.\<close>

definition slobos_terminal_readline ::
    "u8 list \<Rightarrow> u8 list \<Rightarrow> int \<Rightarrow> bool \<Rightarrow> (u8 list \<times> u8 list \<times> u8 list) outcome" where
  "slobos_terminal_readline ks out sz output_while_typing =
     andthen (readline_loop ks sz output_while_typing 0 out []) (\<lambda>(i, out, echo, ks).
       Inr (out[nat i := 0], echo, ks))"

section \<open>Splitting a command line (slobos.c)\<close>

text \<open>
  \<open>malloc\<close> is the system call: the address of a zeroed block, or 0, and the memory afterwards.
\<close>

definition new_argument :: "'k malloc_call \<Rightarrow> u32 \<Rightarrow> 'k user \<Rightarrow> u32 \<times> 'k user" where
  "new_argument malloc token u =
     (let (a, u) = user_malloc malloc 516 u
      in if a = 0 then (0, u)
         else
           let (_, u) = user_strncpy a token 512 u
           in (a, user_update (\<lambda>m. store32 m (a + 512) 0) u))"

partial_function (option) parse_arguments ::
    "'k malloc_call \<Rightarrow> u32 \<Rightarrow> u32 \<Rightarrow> u32 \<Rightarrow> 'k user \<Rightarrow> 'k user outcome option" where
  "parse_arguments malloc space token current u =
     (if token = 0 then Some (Inr u)
      else
        let (new_command, u) = new_argument malloc token u
        in if new_command = 0 then Some (Inr u)
           else
             let u = user_update (\<lambda>m. store32 m (current + 512) new_command) u
             in case user_strtok 0 space u of
                  Inl e \<Rightarrow> Some (Inl e)
                | Inr (token, u) \<Rightarrow> parse_arguments malloc space token new_command u)"

text \<open>\<open>scommand\<close> is the address of the local buffer of 1025 bytes, \<open>space\<close> that of the literal.\<close>

definition slobos_parse_command ::
    "'k malloc_call \<Rightarrow> u32 \<Rightarrow> u32 \<Rightarrow> u32 \<Rightarrow> int \<Rightarrow> 'k user \<Rightarrow> (u32 \<times> 'k user) outcome" where
  "slobos_parse_command malloc scommand space command max_len u =
     (if max_len \<ge> 1025 then Inr (0, u)
      else
        let (_, u) = user_strncpy scommand command 1025 u
        in andthen (user_strtok scommand space u) (\<lambda>(token, u).
           if token = 0 then Inr (0, u)
           else
             let (root_command, u) = new_argument malloc token u
             in if root_command = 0 then Inr (0, u)
                else
                  andthen (user_strtok 0 space u) (\<lambda>(token, u).
                    case parse_arguments malloc space token root_command u of
                      None \<Rightarrow> Inl Hang
                    | Some r \<Rightarrow> andthen r (\<lambda>u. Inr (root_command, u)))))"

text \<open>\<open>system_command\<close> is system call 7 on the list.\<close>

definition slobos_system_run ::
    "'k malloc_call \<Rightarrow> (u32 \<Rightarrow> 'k user \<Rightarrow> int \<times> 'k user) \<Rightarrow> u32 \<Rightarrow> u32 \<Rightarrow> u32 \<Rightarrow> u32 \<Rightarrow>
     'k user \<Rightarrow> (int \<times> 'k user) outcome" where
  "slobos_system_run malloc system_command buf scommand space command u =
     (let (_, u) = user_strncpy buf command 1024 u
      in andthen (slobos_parse_command malloc scommand space buf 1024 u) (\<lambda>(root_command_argument, u).
         if root_command_argument = 0 then Inr (- 1, u)
         else Inr (system_command root_command_argument u)))"

section \<open>The programs (shell.c, blank.c)\<close>

text \<open>
  One round of the shell's endless loop: the prompt, a line, and the command run from the array at
  \<open>buf\<close>, which holds \<open>old\<close> before. \<open>run_buf\<close> is the array of \<open>slobos_system_run\<close>. The result is what
  was written to the terminal, the array, the keys left and the memory.
\<close>

definition shell_round ::
    "'k malloc_call \<Rightarrow> (u32 \<Rightarrow> 'k user \<Rightarrow> int \<times> 'k user) \<Rightarrow> u32 \<Rightarrow> u32 \<Rightarrow> u32 \<Rightarrow> u32 \<Rightarrow>
     u8 list \<Rightarrow> u8 list \<Rightarrow> 'k user \<Rightarrow> (u8 list \<times> u8 list \<times> u8 list \<times> 'k user) outcome" where
  "shell_round malloc system_command buf run_buf scommand space ks old u =
     andthen (slobos_terminal_readline ks old 1024 True) (\<lambda>(line, echo, ks).
       let u = u\<lparr>user_mem := store_bytes (user_mem u) buf line\<rparr>
       in andthen (slobos_system_run malloc system_command run_buf scommand space buf u) (\<lambda>(res, u).
            Inr ([62] @ echo @ [10] @ [10], line, ks, u)))"

text \<open>The blank program prints its \<open>argc\<close> arguments, one per line; \<open>fmt\<close> is the literal for a string and a newline.\<close>

fun print_arguments :: "byte_mem \<Rightarrow> u8 list \<Rightarrow> u32 \<Rightarrow> u32 \<Rightarrow> nat \<Rightarrow> nat \<Rightarrow> u8 list outcome" where
  "print_arguments m text fmt argv i 0 = Inr []"
| "print_arguments m text fmt argv i (Suc n) =
     andthen (printf m text fmt [String_arg (load32 m (argv + 4 * of_nat i))]) (\<lambda>out.
       andthen (print_arguments m text fmt argv (Suc i) n) (\<lambda>rest. Inr (out @ rest)))"

definition blank_main :: "byte_mem \<Rightarrow> u8 list \<Rightarrow> u32 \<Rightarrow> int \<Rightarrow> u32 \<Rightarrow> u8 list outcome" where
  "blank_main m text fmt argc argv = print_arguments m text fmt argv 0 (nat argc)"

end
