(* ===== verification/Stdlib_Props.thy ===== *)
theory Stdlib_Props
  imports Stdlib
begin

text \<open>
  The user library against reference definitions: \<open>itoa\<close> against the decimal numeral of a number,
  and the line editor against a list of characters with backspace.
\<close>

section \<open>Decimal numerals\<close>

fun decimal :: "nat \<Rightarrow> u8 list" where
  "decimal n = (if n < 10 then [48 + of_nat n] else decimal (n div 10) @ [48 + of_nat (n mod 10)])"

declare decimal.simps [simp del]

definition numeral_text :: "int \<Rightarrow> u8 list" where
  "numeral_text i = (if i < 0 then 45 # decimal (nat (- i)) else decimal (nat i))"

lemma decimal_nonempty: "0 < length (decimal n)"
  by (subst decimal.simps) simp

lemma length_decimal: "n < 10 ^ k \<Longrightarrow> 0 < k \<Longrightarrow> length (decimal n) \<le> k"
proof (induction n arbitrary: k rule: decimal.induct)
  case (1 n)
  show ?case
  proof (cases "n < 10")
    case True
    then show ?thesis using 1(3) by (subst decimal.simps) simp
  next
    case False
    then have "k \<noteq> 1" using 1(2) by auto
    then obtain j where j: "k = Suc j" "0 < j" using 1(3) by (cases k) auto
    have "n div 10 < 10 ^ j" using 1(2) j by (simp add: less_mult_imp_div_less mult.commute)
    then show ?thesis using 1(1) [OF False _ j(2)] False j by (subst decimal.simps) simp
  qed
qed

lemma c_div_nat: "int n sdiv 10 = int (n div 10)" "int n smod 10 = int (n mod 10)"
proof -
  show d: "int n sdiv 10 = int (n div 10)"
    by (cases "n = 0") (simp_all add: signed_divide_int_def zdiv_int)
  show "int n smod 10 = int (n mod 10)"
    by (simp add: signed_modulo_int_def d) (simp add: zmod_int minus_mult_div_eq_mod [symmetric] zdiv_int)
qed

lemma update_last_of_take:
  "0 < loc \<Longrightarrow> loc \<le> length xs \<Longrightarrow> xs[loc - 1 := c] = take (loc - 1) xs @ c # drop loc xs"
  by (cases loc) (simp_all add: upd_conv_take_nth_drop)

lemma itoa_loop_decimal:
  assumes "length (decimal n) \<le> loc" and "loc \<le> length buf" and "0 < n"
  shows "itoa_loop (- int n) loc buf =
    Inr (loc - length (decimal n), take (loc - length (decimal n)) buf @ decimal n @ drop loc buf)"
  using assms
proof (induction n arbitrary: loc buf rule: decimal.induct)
  case (1 n)
  have loc: "0 < loc" using 1(2) decimal_nonempty [of n] by linarith
  let ?c = "48 + of_nat (n mod 10) :: u8"
  have step: "itoa_loop (- int n) loc buf = itoa_loop (- int (n div 10)) (loc - 1) (take (loc - 1) buf @ ?c # drop loc buf)"
    using 1(4) loc update_last_of_take [OF loc 1(3)] by (subst itoa_loop.simps) (simp add: c_div_nat)
  show ?case
  proof (cases "n < 10")
    case True
    then have "decimal n = [?c]" by (subst decimal.simps) simp
    then show ?thesis using True step by (simp add: itoa_loop.simps [of 0])
  next
    case False
    then have d: "decimal n = decimal (n div 10) @ [?c]" by (subst decimal.simps) simp
    have "itoa_loop (- int (n div 10)) (loc - 1) (take (loc - 1) buf @ ?c # drop loc buf) =
      Inr (loc - 1 - length (decimal (n div 10)), take (loc - 1 - length (decimal (n div 10))) (take (loc - 1) buf @ ?c # drop loc buf)
        @ decimal (n div 10) @ drop (loc - 1) (take (loc - 1) buf @ ?c # drop loc buf))"
      using False 1(2,3) d loc by (intro 1(1)) auto
    then show ?thesis using step d 1(2,3) by simp
  qed
qed

lemma put_front_drop:
  assumes "0 < loc" and "loc \<le> length text"
  shows "put_front c (loc, text) = Inr (loc - 1, take (loc - 1) text @ c # drop loc text)"
  using assms update_last_of_take [OF assms] by (simp add: put_front_def)

text \<open>
  \<open>itoa\<close> writes the decimal numeral of every 32-bit integer, the smallest one included, and
  its buffer of twelve bytes is always large enough.
\<close>

lemma itoa_numeral:
  assumes "- 2147483648 \<le> i \<and> i < 2147483648" and "length text = 12"
  shows "\<exists>loc text'. itoa i text = Inr (loc, text') \<and> length text' = 12 \<and> drop loc text' = numeral_text i @ [0]"
proof -
  define n where "n = nat \<bar>i\<bar>"
  define t where "t = text[11 := 0]"
  have t: "length t = 12" "drop 11 t = [0]" using assms(2) by (simp_all add: t_def drop_update_swap)
      (simp add: upd_conv_take_nth_drop)
  have len: "length (decimal n) \<le> 10"
    using assms(1) by (intro length_decimal) (simp_all add: n_def nat_less_iff abs_less_iff)
  let ?d = "length (decimal n)"
  have i: "(if i \<ge> 0 then - i else i) = - int n" by (simp add: n_def)
  show ?thesis
  proof (cases "i = 0")
    case True
    then have "itoa i text = Inr (10, take 10 t @ 48 # drop 11 t)"
      using t put_front_drop [of 11 t 48] by (simp add: itoa_def t_def [symmetric] itoa_loop.simps [of 0])
    moreover have "numeral_text i = [48]" using True by (simp add: numeral_text_def decimal.simps)
    ultimately show ?thesis using t by simp
  next
    case False
    then have n: "0 < n" by (simp add: n_def)
    let ?t = "take (11 - ?d) t @ decimal n @ drop 11 t"
    have loop: "itoa_loop (- int n) 11 t = Inr (11 - ?d, ?t)"
      using len t n by (intro itoa_loop_decimal) simp_all
    have pos: "11 - ?d \<noteq> 11" "0 < 11 - ?d" using decimal_nonempty [of n] len by linarith+
    show ?thesis
    proof (cases "i < 0")
      case True
      have "itoa i text = put_front 45 (11 - ?d, ?t)"
        using True loop pos i by (simp add: itoa_def t_def [symmetric] Let_def)
      also have "\<dots> = Inr (11 - ?d - 1, take (11 - ?d - 1) ?t @ 45 # drop (11 - ?d) ?t)"
        using pos len t by (intro put_front_drop) simp_all
      finally show ?thesis
        using True pos len t by (simp add: numeral_text_def n_def)
    next
      case False
      have "itoa i text = Inr (11 - ?d, ?t)"
        using False loop pos i by (simp add: itoa_def t_def [symmetric] Let_def)
      then show ?thesis using False len t by (simp add: numeral_text_def n_def)
    qed
  qed
qed

lemma itoa_least:
  "\<exists>loc text'. itoa (- 2147483648) (replicate 12 7) = Inr (loc, text') \<and>
     drop loc text' = [45, 50, 49, 52, 55, 52, 56, 51, 54, 52, 56, 0]"
proof -
  have "numeral_text (- 2147483648) = [45, 50, 49, 52, 55, 52, 56, 51, 54, 52, 56]"
    by (simp add: numeral_text_def decimal.simps)
  then show ?thesis using itoa_numeral [of "- 2147483648" "replicate 12 7"] by auto
qed

section \<open>The line editor\<close>

definition type_key :: "u8 \<Rightarrow> u8 list \<Rightarrow> u8 list" where
  "type_key k line = (if k = 8 \<and> line \<noteq> [] then butlast line else line @ [k])"

lemma length_typed: "length (fold type_key ks line) \<le> length line + length ks"
proof (induction ks arbitrary: line)
  case Nil
  then show ?case by simp
next
  case (Cons k ks)
  have "length (type_key k line) \<le> Suc (length line)" by (auto simp: type_key_def)
  then show ?case using Cons.IH [of "type_key k line"] by simp
qed

lemma readline_steps:
  assumes "i < sz - 1"
  shows "readline_loop (13 # ks) sz b i out echo = Inr (i, out, echo, ks)"
    and "readline_loop (0 # ks) sz b i out echo = readline_loop ks sz b i out echo"
    and "1 \<le> i \<Longrightarrow> readline_loop (8 # ks) sz b i out echo =
      readline_loop ks sz b (i - 1) (out[nat (i - 1) := 0]) (if b then echo @ [8] else echo)"
    and "k \<noteq> 0 \<Longrightarrow> k \<noteq> 13 \<Longrightarrow> \<not> (k = 8 \<and> 1 \<le> i) \<Longrightarrow> readline_loop (k # ks) sz b i out echo =
      readline_loop ks sz b (i + 1) (out[nat i := k]) (if b then echo @ [k] else echo)"
  using assms
  by (subst readline_loop.simps, simp, (subst (1 2) readline_loop.simps, simp), (subst readline_loop.simps, simp),
      (subst readline_loop.simps, auto))

text \<open>The buffer holds the line so far; zeros in between are keys not there yet.\<close>

lemma readline_loop_types:
  assumes "13 \<notin> set ks" and "length line + length (filter (\<lambda>k. k \<noteq> 0) ks) < nat sz - 1"
    and "nat sz \<le> length out" and "take (length line) out = line"
  shows "\<exists>out'. readline_loop (ks @ 13 # rest) sz b (int (length line)) out echo =
      Inr (int (length (fold type_key (filter (\<lambda>k. k \<noteq> 0) ks) line)), out',
        if b then echo @ filter (\<lambda>k. k \<noteq> 0) ks else echo, rest) \<and>
    length out' = length out \<and>
    take (length (fold type_key (filter (\<lambda>k. k \<noteq> 0) ks) line)) out' = fold type_key (filter (\<lambda>k. k \<noteq> 0) ks) line"
  using assms
proof (induction ks arbitrary: line out echo)
  case Nil
  have "int (length line) < sz - 1" using Nil(2) by simp
  then show ?case using Nil readline_steps(1) by simp
next
  case (Cons k ks)
  have "length line < nat sz - 1" using Cons.prems(2) by linarith
  then have i: "int (length line) < sz - 1" by linarith
  show ?case
  proof (cases "k = 0")
    case True
    have step: "readline_loop ((k # ks) @ 13 # rest) sz b (int (length line)) out echo =
        readline_loop (ks @ 13 # rest) sz b (int (length line)) out echo"
      using True readline_steps(2) [OF i] by simp
    have f: "filter (\<lambda>k. k \<noteq> 0) (k # ks) = filter (\<lambda>k. k \<noteq> 0) ks" using True by simp
    show ?thesis
      unfolding step f using Cons.prems unfolding f by (intro Cons.IH) simp_all
  next
    case k: False
    have n13: "k \<noteq> 13" "13 \<notin> set ks" using Cons.prems(1) by auto
    let ?echo = "if b then echo @ [k] else echo"
    show ?thesis
    proof (cases "k = 8 \<and> line \<noteq> []")
      case True
      let ?out = "out[length line - 1 := 0]"
      have step: "readline_loop ((k # ks) @ 13 # rest) sz b (int (length line)) out echo =
          readline_loop (ks @ 13 # rest) sz b (int (length (butlast line))) ?out ?echo"
      proof -
        have "1 \<le> length line" using True by (cases line) auto
        then have l: "1 \<le> int (length line)" "int (length line) - 1 = int (length (butlast line))"
          "nat (int (length line) - 1) = length line - 1" by auto
        have k8: "k = 8" using True by (rule conjunct1)
        show ?thesis
          unfolding k8 append_Cons l(2,3) [symmetric] by (rule readline_steps(3) [OF i l(1)])
      qed
      have "butlast line = take (length line - 1) (take (length line) out)"
        unfolding Cons.prems(4) by (rule butlast_conv_take)
      then have b: "butlast line = take (length line - 1) out" by (simp add: min_absorb1)
      have "take (length (butlast line)) ?out = butlast line"
        unfolding length_butlast unfolding b by (rule take_update_cancel) simp
      then show ?thesis
        using Cons.IH [of "butlast line" ?out ?echo] Cons.prems True k step n13 by (auto simp: type_key_def)
    next
      case False
      let ?out = "out[length line := k]"
      have lt: "length line < length out" using Cons.prems(2,3) by simp
      have step: "readline_loop ((k # ks) @ 13 # rest) sz b (int (length line)) out echo =
          readline_loop (ks @ 13 # rest) sz b (int (length (line @ [k]))) ?out ?echo"
        using False n13 k readline_steps(4) [OF i, of k] by (auto simp: add.commute)
      have "take (length (line @ [k])) ?out = line @ [k]"
        using Cons.prems(4) lt by (simp add: take_Suc_conv_app_nth take_update_cancel)
      then show ?thesis
        using Cons.IH [of "line @ [k]" ?out ?echo] Cons.prems False k step n13 by (auto simp: type_key_def)
    qed
  qed
qed

text \<open>
  C27: the line editor. Of the keys typed before Enter, a backspace removes the last character of
  the line, every other key is added at its end (a backspace at the start of a line too). When
  fewer keys are typed than fit, \<open>slobos_terminal_readline\<close> leaves exactly this line, terminated, has
  echoed every key, and has not touched the keys after Enter.
\<close>

theorem readline_edits:
  assumes "13 \<notin> set ks" and "length (filter (\<lambda>k. k \<noteq> 0) ks) < nat sz - 1" and "nat sz \<le> length out"
  shows "\<exists>out'. slobos_terminal_readline (ks @ 13 # rest) out sz b =
      Inr (out', if b then filter (\<lambda>k. k \<noteq> 0) ks else [], rest) \<and> length out' = length out \<and>
    take (length (fold type_key (filter (\<lambda>k. k \<noteq> 0) ks) []) + 1) out' =
      fold type_key (filter (\<lambda>k. k \<noteq> 0) ks) [] @ [0]"
proof -
  let ?l = "fold type_key (filter (\<lambda>k. k \<noteq> 0) ks) []"
  obtain out' where o: "readline_loop (ks @ 13 # rest) sz b 0 out [] =
      Inr (int (length ?l), out', if b then filter (\<lambda>k. k \<noteq> 0) ks else [], rest)"
    "length out' = length out" "take (length ?l) out' = ?l"
    using readline_loop_types [of ks "[]" sz out rest b "[]"] assms by auto
  have "length ?l < length out'"
    using length_typed [of "filter (\<lambda>k. k \<noteq> 0) ks" "[]"] assms(2,3) o(2) by simp
  then show ?thesis
    using o by (intro exI [of _ "out'[length ?l := 0]"])
      (simp add: slobos_terminal_readline_def take_Suc_conv_app_nth take_update_cancel)
qed

theorem readline_edits_witness:
  "\<exists>out'. slobos_terminal_readline [65, 0, 66, 8, 67, 13, 68] (replicate 10 7) 10 True = Inr (out', [65, 66, 8, 67], [68]) \<and>
     take 3 out' = [65, 67, 0]"
  using readline_edits [of "[65, 0, 66, 8, 67]" 10 "replicate 10 7" "[68]" True] by (auto simp: type_key_def numeral_3_eq_3)

end
