(* ===== verification/Task_Props.thy ===== *)
theory Task_Props
  imports Task Paging_Chunk
begin

text \<open>
  Scheduling: the tasks form a doubly linked list whose links, head, tail and current task always
  agree; \<open>task_next\<close> goes round it. The steps of the scheduler are a relation on the state of
  the kernel, and the invariant of the list is kept on every path from boot.
\<close>

unbundle bit_operations_syntax

section \<open>Steps that change nothing but memory\<close>

definition mem_only :: "'a kmem_scheme \<Rightarrow> 'a kmem_scheme \<Rightarrow> bool" where
  "mem_only s t \<longleftrightarrow> (\<exists>m. t = s\<lparr>mem := m\<rparr>)"

lemma mem_only_refl [simp]: "mem_only s s"
  unfolding mem_only_def by (rule exI [of _ "mem s"]) simp

lemma mem_only_trans: "mem_only s t \<Longrightarrow> mem_only t u \<Longrightarrow> mem_only s u"
  by (auto simp: mem_only_def)

lemma mem_only_put [simp]: "mem_only s t \<Longrightarrow> mem_only s (t\<lparr>mem := m\<rparr>)"
  by (auto simp: mem_only_def)

lemma mem_only_kzalloc [simp]: "mem_only s t \<Longrightarrow> mem_only s (snd (kzalloc sz t))"
  by (auto simp: kzalloc_def kmalloc_def case_prod_unfold Let_def mem_only_def)

lemma mem_only_kfree [simp]: "mem_only s t \<Longrightarrow> mem_only s (kfree p t)"
  by (simp add: kfree_def)

lemma mem_only_new_loop [simp]: "mem_only s (snd x) \<Longrightarrow> mem_only s (snd (fold (new_4gb_step fl d) is x))"
proof (induction "is" arbitrary: x)
  case (Cons i "is")
  have "mem_only s (snd (new_4gb_step fl d i x))"
    using Cons.prems by (simp add: new_4gb_step_def case_prod_unfold Let_def)
  then show ?case using Cons.IH [of "new_4gb_step fl d i x"] by simp
qed simp

lemma mem_only_paging_new_4gb [simp]: "mem_only s t \<Longrightarrow> mem_only s (snd (paging_new_4gb fl t))"
  by (simp add: paging_new_4gb_def case_prod_unfold Let_def)

lemma mem_only_paging_free_4gb [simp]: "mem_only s t \<Longrightarrow> mem_only s (paging_free_4gb c t)"
proof -
  have "mem_only s t \<Longrightarrow> mem_only s (fold (free_table c) is t)" for "is"
    by (induction "is" arbitrary: t) (simp_all add: free_table_def Let_def)
  then show "mem_only s t \<Longrightarrow> mem_only s (paging_free_4gb c t)"
    by (simp add: paging_free_4gb_def Let_def)
qed

section \<open>The list of tasks\<close>

text \<open>The links of the tasks \<open>ts\<close>, in order.\<close>

definition linked :: "u32 list \<Rightarrow> (u32 \<rightharpoonup> task) \<Rightarrow> bool" where
  "linked ts T \<longleftrightarrow> (\<forall>i < length ts. \<exists>t. T (ts ! i) = Some t \<and>
     task_next_link t = (if Suc i < length ts then ts ! Suc i else 0) \<and>
     task_prev_link t = (if i = 0 then 0 else ts ! (i - 1)))"

definition task_list :: "u32 list \<Rightarrow> 'a kernel_scheme \<Rightarrow> bool" where
  "task_list ts s \<longleftrightarrow> distinct ts \<and> 0 \<notin> set ts \<and> linked ts (tasks s) \<and>
     (if ts = [] then task_head s = 0 \<and> task_tail s = 0 \<and> current_task s = 0
      else task_head s = hd ts \<and> task_tail s = last ts \<and> current_task s \<in> set ts)"

lemma linkedD:
  assumes "linked ts T" and "i < length ts"
  obtains t where "T (ts ! i) = Some t" "task_next_link t = (if Suc i < length ts then ts ! Suc i else 0)"
    "task_prev_link t = (if i = 0 then 0 else ts ! (i - 1))"
  using assms unfolding linked_def by blast

lemma linked_cong:
  assumes "linked ts T" and "\<And>t. t \<in> set ts \<Longrightarrow> map_option (\<lambda>x. (task_next_link x, task_prev_link x)) (U t) =
      map_option (\<lambda>x. (task_next_link x, task_prev_link x)) (T t)"
  shows "linked ts U"
  unfolding linked_def
proof (intro allI impI)
  fix i assume i: "i < length ts"
  obtain t where t: "T (ts ! i) = Some t" "task_next_link t = (if Suc i < length ts then ts ! Suc i else 0)"
    "task_prev_link t = (if i = 0 then 0 else ts ! (i - 1))" by (rule linkedD [OF assms(1) i])
  show "\<exists>t. U (ts ! i) = Some t \<and> task_next_link t = (if Suc i < length ts then ts ! Suc i else 0) \<and>
      task_prev_link t = (if i = 0 then 0 else ts ! (i - 1))"
    using assms(2) [OF nth_mem [OF i]] t by auto
qed

lemma linked_append:
  assumes "linked ts T" and "distinct ts" and "t \<notin> set ts" and "ts \<noteq> []"
    and "T (last ts) = Some l" and "task_next_link x = 0" and "task_prev_link x = last ts"
  shows "linked (ts @ [t]) (T(last ts \<mapsto> l\<lparr>task_next_link := t\<rparr>, t \<mapsto> x))"
  unfolding linked_def
proof (intro allI impI)
  fix i assume "i < length (ts @ [t])"
  then consider "i = length ts" | "i = length ts - 1" "i < length ts" | "Suc i < length ts" by fastforce
  then show "\<exists>y. (T(last ts \<mapsto> l\<lparr>task_next_link := t\<rparr>, t \<mapsto> x)) ((ts @ [t]) ! i) = Some y \<and>
    task_next_link y = (if Suc i < length (ts @ [t]) then (ts @ [t]) ! Suc i else 0) \<and>
    task_prev_link y = (if i = 0 then 0 else (ts @ [t]) ! (i - 1))"
  proof cases
    case 1
    then show ?thesis using assms(4,6,7) by (auto simp: nth_append last_conv_nth)
  next
    case 2
    then have l: "ts ! i = last ts" "Suc i = length ts" using assms(4) by (auto simp: last_conv_nth)
    obtain y where "T (ts ! i) = Some y" "task_prev_link y = (if i = 0 then 0 else ts ! (i - 1))"
      using assms(1) 2(2) by (rule linkedD)
    moreover have "last ts \<noteq> t" using assms(3,4) by auto
    ultimately show ?thesis using l assms(5) 2(2) by (auto simp: nth_append)
  next
    case 3
    then have i: "i < length ts" by simp
    obtain y where y: "T (ts ! i) = Some y" "task_next_link y = (if Suc i < length ts then ts ! Suc i else 0)"
      "task_prev_link y = (if i = 0 then 0 else ts ! (i - 1))" using assms(1) i by (rule linkedD)
    have "ts ! i \<noteq> last ts" using assms(2,4) 3 by (simp add: last_conv_nth nth_eq_iff_index_eq)
    moreover have "ts ! i \<noteq> t" using assms(3) i by (metis nth_mem)
    ultimately show ?thesis using y 3 by (auto simp: nth_append)
  qed
qed

lemma linked_butlast:
  assumes "linked (ts @ [t]) T" and "distinct (ts @ [t])" and "ts \<noteq> []" and "T (last ts) = Some p"
  shows "linked ts (T(last ts \<mapsto> p\<lparr>task_next_link := 0\<rparr>))"
  unfolding linked_def
proof (intro allI impI)
  fix i assume i: "i < length ts"
  obtain y where "T ((ts @ [t]) ! i) = Some y"
    "task_next_link y = (if Suc i < length (ts @ [t]) then (ts @ [t]) ! Suc i else 0)"
    "task_prev_link y = (if i = 0 then 0 else (ts @ [t]) ! (i - 1))"
    by (rule linkedD [OF assms(1), of i]) (use i in simp)
  then have y: "T (ts ! i) = Some y" "task_next_link y = (ts @ [t]) ! Suc i"
    "task_prev_link y = (if i = 0 then 0 else ts ! (i - 1))"
    using i by (auto simp: nth_append)
  have "ts ! i = last ts \<longleftrightarrow> Suc i = length ts"
    using assms(2,3) i by (auto simp: last_conv_nth nth_eq_iff_index_eq)
  then show "\<exists>y. (T(last ts \<mapsto> p\<lparr>task_next_link := 0\<rparr>)) (ts ! i) = Some y \<and>
    task_next_link y = (if Suc i < length ts then ts ! Suc i else 0) \<and>
    task_prev_link y = (if i = 0 then 0 else ts ! (i - 1))"
    using y assms(4) i by (auto simp: nth_append)
qed

lemma task_list_cong:
  assumes "task_list ts s" and "tasks t = tasks s" "task_head t = task_head s" "task_tail t = task_tail s"
    "current_task t = current_task s"
  shows "task_list ts t"
  using assms by (simp add: task_list_def)

lemma task_list_mem_only: "task_list ts s \<Longrightarrow> mem_only s t \<Longrightarrow> task_list ts t"
  by (auto simp: mem_only_def intro: task_list_cong)

section \<open>The scheduler goes round\<close>

lemma task_get_next_at:
  assumes "task_list ts s" and "i < length ts" and "current_task s = ts ! i"
  shows "task_get_next s = Inr (ts ! (Suc i mod length ts))"
proof -
  have "ts \<noteq> []" using assms(2) by (cases ts) simp_all
  then have ts: "ts \<noteq> []" "task_head s = hd ts" "0 \<notin> set ts" "linked ts (tasks s)"
    using assms(1) by (simp_all add: task_list_def)
  obtain t where t: "tasks s (ts ! i) = Some t" "task_next_link t = (if Suc i < length ts then ts ! Suc i else 0)"
    using ts(4) assms(2) by (rule linkedD)
  show ?thesis
  proof (cases "Suc i < length ts")
    case True
    then have "ts ! Suc i \<noteq> 0" using ts(3) by (metis nth_mem)
    then show ?thesis using t True assms(3) by (simp add: task_get_next_def deref_def)
  next
    case False
    then have "Suc i mod length ts = 0" using assms(2) by (metis Suc_lessI mod_self)
    then show ?thesis using t False assms(3) ts(1,2) by (simp add: task_get_next_def deref_def hd_conv_nth)
  qed
qed

lemma task_next_at:
  assumes "task_list ts s" and "i < length ts" and "current_task s = ts ! i"
  shows "\<exists>t. tasks s (ts ! (Suc i mod length ts)) = Some t \<and>
    task_next s = Inr (task_registers t,
      paging_switch (task_page_directory t) (s\<lparr>current_task := ts ! (Suc i mod length ts)\<rparr>))"
proof -
  let ?j = "Suc i mod length ts"
  have "ts \<noteq> []" using assms(2) by (cases ts) simp_all
  then have ts: "ts \<noteq> []" "0 \<notin> set ts" "linked ts (tasks s)"
    using assms(1) by (simp_all add: task_list_def)
  then have j: "?j < length ts" by simp
  have "ts ! ?j \<noteq> 0" using ts(2) nth_mem [OF j] by metis
  moreover obtain t where "tasks s (ts ! ?j) = Some t" using ts(3) j by (rule linkedD)
  ultimately show ?thesis
    using task_get_next_at [OF assms] by (simp add: task_next_def task_switch_def deref_def Let_def paging_switch_def)
qed

text \<open>\<open>k\<close> times \<open>task_next\<close>.\<close>

fun run_tasks :: "nat \<Rightarrow> 'a kernel_scheme \<Rightarrow> 'a kernel_scheme outcome" where
  "run_tasks 0 s = Inr s"
| "run_tasks (Suc k) s = andthen (run_tasks k s) (\<lambda>s. andthen (task_next s) (\<lambda>(_, s). Inr s))"

lemma run_tasks_at:
  assumes "task_list ts s" and "i < length ts" and "current_task s = ts ! i"
  shows "\<exists>s'. run_tasks k s = Inr s' \<and> task_list ts s' \<and> tasks s' = tasks s \<and> mem s' = mem s \<and>
    current_task s' = ts ! ((i + k) mod length ts) \<and>
    (0 < k \<longrightarrow> (\<exists>t. tasks s (current_task s') = Some t \<and> cr3 s' = load32 (mem s) (task_page_directory t)))"
proof (induction k)
  case 0
  then show ?case using assms by simp
next
  case (Suc k)
  let ?i = "(i + k) mod length ts"
  obtain s' where s': "run_tasks k s = Inr s'" "task_list ts s'" "tasks s' = tasks s" "mem s' = mem s"
    "current_task s' = ts ! ?i"
    using Suc by blast
  have n: "?i < length ts" "Suc ?i mod length ts < length ts"
    using assms(2) by (intro mod_less_divisor; linarith)+
  obtain t where t: "tasks s' (ts ! (Suc ?i mod length ts)) = Some t"
    "task_next s' = Inr (task_registers t, paging_switch (task_page_directory t) (s'\<lparr>current_task := ts ! (Suc ?i mod length ts)\<rparr>))"
    using task_next_at [OF s'(2) n(1) s'(5)] by blast
  have "task_list ts (paging_switch (task_page_directory t) (s'\<lparr>current_task := ts ! (Suc ?i mod length ts)\<rparr>))"
    using s'(2) n(2) by (auto simp: task_list_def paging_switch_def)
  then show ?case using s' t by (simp add: mod_Suc_eq paging_switch_def)
qed

section \<open>The pages of a task\<close>

text \<open>The page of the task structure and the 1026 pages of its chunk.\<close>

definition directory_of :: "'a kernel_scheme \<Rightarrow> u32 \<Rightarrow> u32" where
  "directory_of s t = (case tasks s t of None \<Rightarrow> 0 | Some x \<Rightarrow> task_page_directory x)"

definition process_of :: "'a kernel_scheme \<Rightarrow> u32 \<Rightarrow> u32" where
  "process_of s t = (case tasks s t of None \<Rightarrow> 0 | Some x \<Rightarrow> task_process x)"

definition task_pages :: "'a kernel_scheme \<Rightarrow> u32 \<Rightarrow> u32 set" where
  "task_pages s t = insert t (chunk_pages (mem s) (directory_of s t))"

definition spaces_ok :: "u32 set \<Rightarrow> 'a kernel_scheme \<Rightarrow> bool" where
  "spaces_ok T s \<longleftrightarrow>
     (\<forall>t\<in>T. t \<notin> chunk_pages (mem s) (directory_of s t) \<and> chunk_ok (directory_of s t) (mem s) \<and>
       (\<forall>p \<in> task_pages s t. live s p = Some 1)) \<and>
     (\<forall>t\<in>T. \<forall>u\<in>T. t \<noteq> u \<longrightarrow> task_pages s t \<inter> task_pages s u = {})"

text \<open>A chunk stays what it is as long as its pages do.\<close>

lemma chunk_frame:
  assumes "chunk_ok c m" and "\<And>p a. p \<in> chunk_pages m c \<Longrightarrow> 4096 dvd unat p \<Longrightarrow> unat (a - p) < 4096 \<Longrightarrow> m' a = m a"
  shows "chunk_ok c m'" and "chunk_pages m' c = chunk_pages m c" and "load32 m' c = load32 m c"
    and "4096 dvd unat v \<Longrightarrow> paging_get m' (load32 m' c) v = paging_get m (load32 m c) v"
    and "user_dir c m' = user_dir c m"
proof -
  let ?d = "load32 m c"
  have al: "4096 dvd unat c" "4096 dvd unat ?d" and low: "low_dir_ok ?d m"
    using assms(1) by (auto simp: chunk_ok_def low_dir_ok_def dir_ok_def)
  have "load32 m' (slot c 0) = load32 m (slot c 0)"
    using al by (intro load32_slot_cong assms(2)) (auto simp: chunk_pages_def)
  then show d: "load32 m' c = ?d" by (simp add: slot_def)
  have e: "load32 m' (slot ?d i) = load32 m (slot ?d i)" if "i < 1024" for i
    using al that by (intro load32_slot_cong assms(2)) (auto simp: chunk_pages_def)
  then show "user_dir c m' = user_dir c m" by (simp add: user_dir_def d)
  have T: "table_at m' ?d i = table_at m ?d i" if "i < 1024" for i
    using that e by (simp add: table_at_def)
  then have img: "table_at m' ?d ` {..<1024} = table_at m ?d ` {..<1024}" by auto
  have inj: "inj_on (table_at m' ?d) {..<1024} = inj_on (table_at m ?d) {..<1024}"
    using T by (intro inj_on_cong) simp
  show "chunk_pages m' c = chunk_pages m c" by (simp add: chunk_pages_def d img)
  have low': "low_dir_ok ?d m'" using low T inj by (simp add: low_dir_ok_def dir_ok_def)
  show "chunk_ok c m'"
    using assms(1) T low' unfolding chunk_ok_def d by auto
  assume v: "4096 dvd unat v"
  have "load32 m' (slot (table_at m ?d (dir_index v)) (tab_index v)) =
      load32 m (slot (table_at m ?d (dir_index v)) (tab_index v))"
    by (intro load32_slot_cong assms(2)) (auto simp: chunk_pages_def)
  then show "paging_get m' (load32 m' c) v = paging_get m ?d v"
    unfolding d paging_get_eq [OF low v] paging_get_eq [OF low' v] page_entry_def by (simp add: T)
qed

lemma spaces_frame:
  assumes "spaces_ok T s" and "U \<subseteq> T" and "\<And>x. x \<in> U \<Longrightarrow> directory_of t x = directory_of s x"
    and "\<And>x p. x \<in> U \<Longrightarrow> p \<in> task_pages s x \<Longrightarrow> live t p = Some 1"
    and "\<And>x p a. x \<in> U \<Longrightarrow> p \<in> task_pages s x \<Longrightarrow> unat (a - p) < 4096 \<Longrightarrow> mem t a = mem s a"
  shows "spaces_ok U t" and "x \<in> U \<Longrightarrow> task_pages t x = task_pages s x"
proof -
  have c: "chunk_ok (directory_of s x) (mem t)" "chunk_pages (mem t) (directory_of s x) = chunk_pages (mem s) (directory_of s x)"
    if x: "x \<in> U" for x
  proof -
    have ok: "chunk_ok (directory_of s x) (mem s)" using assms(1,2) x by (auto simp: spaces_ok_def)
    have "mem t a = mem s a" if "p \<in> chunk_pages (mem s) (directory_of s x)" "unat (a - p) < 4096" for p a
      using assms(5) [OF x, of p a] that unfolding task_pages_def by blast
    then show "chunk_ok (directory_of s x) (mem t)"
      "chunk_pages (mem t) (directory_of s x) = chunk_pages (mem s) (directory_of s x)"
      using chunk_frame [OF ok, of "mem t"] by blast+
  qed
  then show p: "x \<in> U \<Longrightarrow> task_pages t x = task_pages s x" for x
    using assms(3) by (simp add: task_pages_def)
  show "spaces_ok U t"
    unfolding spaces_ok_def
  proof (intro conjI ballI impI)
    fix x assume x: "x \<in> U"
    show "x \<notin> chunk_pages (mem t) (directory_of t x)"
      using assms(1,2) x c(2) [OF x] assms(3) [OF x] by (auto simp: spaces_ok_def)
    show "chunk_ok (directory_of t x) (mem t)" using c(1) [OF x] assms(3) [OF x] by simp
    show "live t q = Some 1" if "q \<in> task_pages t x" for q using assms(4) [OF x] p [OF x] that by simp
    show "task_pages t x \<inter> task_pages t y = {}" if y: "y \<in> U" "x \<noteq> y" for y
    proof -
      have "task_pages s x \<inter> task_pages s y = {}"
        using assms(1,2) x y unfolding spaces_ok_def by blast
      then show ?thesis by (simp only: p [OF x] p [OF y(1)])
    qed
  qed
qed

section \<open>The invariant of the scheduler\<close>

definition sched_ok :: "u32 list \<Rightarrow> 'a kernel_scheme \<Rightarrow> bool" where
  "sched_ok ts s \<longleftrightarrow> kheap_ok s \<and> kheap_low s \<and> task_list ts s \<and> dom (tasks s) = set ts \<and> spaces_ok (set ts) s"

lemma sched_live: "sched_ok ts s \<Longrightarrow> x \<in> set ts \<Longrightarrow> p \<in> task_pages s x \<Longrightarrow> live s p = Some 1"
  by (auto simp: sched_ok_def spaces_ok_def)

text \<open>The state once the structure and the page directory of a new task are allocated.\<close>

lemma new_task_memory:
  assumes ok: "sched_ok ts s" and spare: "1027 \<le> kheap_spare s"
    and z: "kzalloc 64 s = (t, s1)" and n: "paging_new_4gb fl s1 = (c, s2)"
  shows "kheap_ok s2" and "kheap_low s2" and "kheap_spare s2 + 1027 = kheap_spare s"
    and "t \<notin> set ts" and "t \<noteq> 0" and "c \<noteq> 0" and "mem_only s s2"
    and "chunk_ok c (mem s2)" and "t \<notin> chunk_pages (mem s2) c"
    and "p \<in> insert t (chunk_pages (mem s2) c) \<Longrightarrow> live s p = None \<and> live s2 p = Some 1"
    and "live s p = Some l \<Longrightarrow> live s2 p = Some l \<and> (unat (a - p) < 4096 * l \<longrightarrow> mem s2 a = mem s a)"
    and "4096 dvd unat v \<Longrightarrow> paging_get (mem s2) (load32 (mem s2) c) v = v OR ucast fl"
    and "ucast fl OR 2 = (7 :: u32) \<Longrightarrow> user_dir c (mem s2)" and "foreign s a \<Longrightarrow> mem s2 a = mem s a"
proof -
  have kok: "kheap_ok s" and low: "kheap_low s" and sp: "0 < kheap_spare s"
    using ok spare unfolding sched_ok_def by auto
  have t: "t = fst (kzalloc 64 s)" and s1: "s1 = snd (kzalloc 64 s)" using z by simp_all
  note A = kzalloc.alloc_page [OF kok sp, of 64, simplified, folded t s1]
  note Ac = kzalloc.alloc_page_contents [OF kok sp, of 64, simplified, folded t s1]
  have low1: "kheap_low s1" using low by (simp add: kheap_low_def s1 kzalloc_kernel_heap)
  have sp1: "1026 \<le> kheap_spare s1" using A(4) spare by simp
  note N = new_4gb_contract [OF A(1) low1 sp1 n]
  show ok2: "kheap_ok s2" and "kheap_low s2" and "kheap_spare s2 + 1027 = kheap_spare s"
    and ch: "chunk_ok c (mem s2)"
    using N A(4) sp low1 by (auto simp: kheap_low_def)
  show "ucast fl OR 2 = (7 :: u32) \<Longrightarrow> user_dir c (mem s2)" using N by blast
  have k1: "kernel_heap s1 = kernel_heap s" by (simp add: s1 kzalloc_kernel_heap)
  have l1: "live s1 t = Some 1" using A(3) by simp
  show "foreign s a \<Longrightarrow> mem s2 a = mem s a" for a
    using N foreign_far [OF A(1) _ l1, of a] Ac(3) [of a] by (simp add: foreign_def k1)
  have lv2: "live s2 = (\<lambda>p. if p \<in> chunk_pages (mem s2) c then Some 1 else live s1 p)"
    and fresh: "chunk_pages (mem s2) c \<inter> dom (live s1) = {}" using N by blast+
  show tc: "t \<notin> chunk_pages (mem s2) c" using fresh A(3) by auto
  show lp: "p \<in> insert t (chunk_pages (mem s2) c) \<Longrightarrow> live s p = None \<and> live s2 p = Some 1" for p
    using A(2,3) lv2 fresh tc by (auto simp: dom_def disjoint_iff split: if_splits)
  show "t \<notin> set ts"
  proof
    assume "t \<in> set ts"
    then have "live s t = Some 1" using sched_live [OF ok] by (simp add: task_pages_def)
    then show False using A(2) by simp
  qed
  show "t \<noteq> 0" using A(5) .
  have "live s2 c = Some 1" using lp by (simp add: chunk_pages_def)
  then show "c \<noteq> 0" by (rule live_range(3) [OF ok2])
  have "mem_only s (snd (paging_new_4gb fl s1))" unfolding s1 by simp
  then show "mem_only s s2" using n by simp
  show "live s p = Some l \<Longrightarrow> live s2 p = Some l \<and> (unat (a - p) < 4096 * l \<longrightarrow> mem s2 a = mem s a)"
  proof -
    assume l: "live s p = Some l"
    then have l1: "live s1 p = Some l" using A(2,3) by auto
    then have "live s2 p = Some l" using lv2 fresh by (auto simp: disjoint_iff)
    then show ?thesis using N l1 Ac(2) [OF l, of a] by auto
  qed
  assume v: "4096 dvd unat v"
  then show "paging_get (mem s2) (load32 (mem s2) c) v = v OR ucast fl"
    using N ch paging_get_eq [of "load32 (mem s2) c" "mem s2" v] by (auto simp: chunk_ok_def)
qed

text \<open>The list after \<open>task_new\<close> has linked a new task at its end.\<close>

lemma task_list_new:
  assumes "task_list ts s" and "t \<notin> set ts" and "t \<noteq> 0"
    and "task_next_link x = 0" and "task_prev_link x = 0"
  shows "ts = [] \<Longrightarrow> task_list [t] (s\<lparr>tasks := (tasks s)(t \<mapsto> x), task_head := t, task_tail := t, current_task := t\<rparr>)"
    and "ts \<noteq> [] \<Longrightarrow> tasks s (last ts) = Some l \<Longrightarrow>
      task_list (ts @ [t]) (s\<lparr>tasks := (tasks s)(t \<mapsto> x, last ts \<mapsto> l\<lparr>task_next_link := t\<rparr>,
        t \<mapsto> x\<lparr>task_prev_link := last ts\<rparr>), task_tail := t\<rparr>)"
proof -
  show "ts = [] \<Longrightarrow> task_list [t] (s\<lparr>tasks := (tasks s)(t \<mapsto> x), task_head := t, task_tail := t, current_task := t\<rparr>)"
    using assms by (simp add: task_list_def linked_def)
  assume ne: "ts \<noteq> []" and l: "tasks s (last ts) = Some l"
  have ts: "linked ts (tasks s)" "distinct ts" using assms(1) by (auto simp: task_list_def)
  have "linked (ts @ [t]) ((tasks s)(last ts \<mapsto> l\<lparr>task_next_link := t\<rparr>, t \<mapsto> x\<lparr>task_prev_link := last ts\<rparr>))"
    using linked_append [OF ts assms(2) ne l, of "x\<lparr>task_prev_link := last ts\<rparr>"] assms(4) by simp
  moreover have "(tasks s)(t \<mapsto> x, last ts \<mapsto> l\<lparr>task_next_link := t\<rparr>, t \<mapsto> x\<lparr>task_prev_link := last ts\<rparr>) =
      (tasks s)(last ts \<mapsto> l\<lparr>task_next_link := t\<rparr>, t \<mapsto> x\<lparr>task_prev_link := last ts\<rparr>)" by auto
  ultimately show "task_list (ts @ [t]) (s\<lparr>tasks := (tasks s)(t \<mapsto> x, last ts \<mapsto> l\<lparr>task_next_link := t\<rparr>,
        t \<mapsto> x\<lparr>task_prev_link := last ts\<rparr>), task_tail := t\<rparr>)"
    using assms(1,2,3) ne by (simp add: task_list_def)
qed

lemma sched_new:
  assumes ok: "sched_ok ts s" and "1027 \<le> kheap_spare s"
    and "kzalloc 64 s = (t, s1)" and "paging_new_4gb fl s1 = (c, s2)"
    and list: "task_list (ts @ [t]) s'" and m: "mem s' = mem s2" "kernel_heap s' = kernel_heap s2"
    and d: "directory_of s' t = c" "\<And>x. x \<in> set ts \<Longrightarrow> directory_of s' x = directory_of s x"
    and dom: "dom (tasks s') = insert t (dom (tasks s))"
  shows "sched_ok (ts @ [t]) s'" and "kheap_spare s' + 1027 = kheap_spare s"
proof -
  note M = new_task_memory [OF assms(1-4)]
  have live: "live s' = live s2" and sp: "kheap_spare s' = kheap_spare s2" using same_heap m by blast+
  show "kheap_spare s' + 1027 = kheap_spare s" using M(3) sp by simp
  have sp_ts: "spaces_ok (set ts) s" using ok by (simp add: sched_ok_def)
  have L: "live s' p = Some 1" "unat (a - p) < 4096 \<Longrightarrow> mem s' a = mem s a"
    if "x \<in> set ts" "p \<in> task_pages s x" for x p a
    using M(11) [OF sched_live [OF ok that], of a] by (auto simp: live m)
  have F: "spaces_ok (set ts) s'" "\<And>x. x \<in> set ts \<Longrightarrow> task_pages s' x = task_pages s x"
    by (rule spaces_frame [OF sp_ts subset_refl]; blast intro: d(2) L)+
  have t: "task_pages s' t = insert t (chunk_pages (mem s2) c)" by (simp add: task_pages_def d(1) m)
  have apart: "task_pages s' x \<inter> task_pages s' t = {}" if "x \<in> set ts" for x
  proof -
    have "live s p = Some 1" if "p \<in> task_pages s' x" for p
      using sched_live [OF ok \<open>x \<in> set ts\<close>] that F(2) [OF \<open>x \<in> set ts\<close>] by simp
    moreover have "live s p = None" if "p \<in> task_pages s' t" for p using M(10) that by (simp add: t)
    ultimately show ?thesis by fastforce
  qed
  have self: "t \<notin> chunk_pages (mem s') (directory_of s' t) \<and> chunk_ok (directory_of s' t) (mem s') \<and>
      (\<forall>p \<in> task_pages s' t. live s' p = Some 1)"
    using M(8,9,10) by (simp add: t d(1) m live)
  have "spaces_ok (set (ts @ [t])) s'"
    using F(1) self apart unfolding spaces_ok_def by auto
  moreover have "kheap_ok s'" using M(1) m by simp
  moreover have "kheap_low s'" using M(2) m by (simp add: kheap_low_def)
  ultimately show "sched_ok (ts @ [t]) s'" using list dom ok by (simp add: sched_ok_def)
qed

text \<open>Once the task is set up, it is linked to the end of the list and nothing else happens.\<close>

lemma task_new_appends:
  assumes list: "task_list ts s2" and t: "t \<notin> set ts" "t \<noteq> 0" and z: "kzalloc 64 s = (t, s1)"
    and init: "task_init t process s1 = Inr (0, s2\<lparr>tasks := (tasks s2)(t \<mapsto> x)\<rparr>)"
    and x: "task_next_link x = 0" "task_prev_link x = 0"
  shows "\<exists>s' k. task_new process s = Inr (t, s') \<and> task_list (ts @ [t]) s' \<and> tasks s' t = Some (x\<lparr>task_prev_link := k\<rparr>) \<and>
    dom (tasks s') = insert t (dom (tasks s2)) \<and>
    (\<forall>y \<in> set ts. directory_of s' y = directory_of s2 y \<and> process_of s' y = process_of s2 y) \<and>
    current_task s' = (if ts = [] then t else current_task s2) \<and> mem s' = mem s2 \<and> kernel_heap s' = kernel_heap s2 \<and>
    process_objects s' = process_objects s2 \<and> elf_files s' = elf_files s2 \<and> processes s' = processes s2 \<and>
    current_process s' = current_process s2"
proof -
  note L = task_list_new [OF list t x]
  show ?thesis
  proof (cases "ts = []")
    case True
    let ?s = "s2\<lparr>tasks := (tasks s2)(t \<mapsto> x), task_head := t, task_tail := t, current_task := t\<rparr>"
    have "task_head s2 = 0" using list True by (simp add: task_list_def)
    then have "task_new process s = Inr (t, ?s)"
      using init t(2) by (simp add: task_new_def z c_defs)
    moreover have "x = x\<lparr>task_prev_link := 0\<rparr>" using x by simp
    ultimately show ?thesis using L(1) True by (intro exI [of _ ?s] exI [of _ 0]) simp
  next
    case False
    let ?l = "last ts"
    have tl: "task_head s2 = hd ts" "task_tail s2 = ?l" "0 \<notin> set ts" "linked ts (tasks s2)"
      using list False by (auto simp: task_list_def)
    then obtain l where l: "tasks s2 ?l = Some l"
      using linkedD [OF tl(4), of "length ts - 1"] False by (auto simp: last_conv_nth)
    have tn: "t \<noteq> ?l" "?l \<noteq> t" using t False by auto
    let ?s = "s2\<lparr>tasks := (tasks s2)(t \<mapsto> x, ?l \<mapsto> l\<lparr>task_next_link := t\<rparr>, t \<mapsto> x\<lparr>task_prev_link := ?l\<rparr>), task_tail := t\<rparr>"
    have "task_head s2 \<noteq> 0" using tl(1,3) False by (metis hd_in_set)
    then have "task_new process s = Inr (t, ?s)"
      using init tn l tl(2) t(2) by (simp add: task_new_def z c_defs deref_def Let_def)
    moreover have "directory_of ?s y = directory_of s2 y \<and> process_of ?s y = process_of s2 y" if "y \<in> set ts" for y
      using that t l tn by (auto simp: directory_of_def process_of_def)
    moreover have "dom (tasks ?s) = insert t (dom (tasks s2))" using l by auto
    ultimately show ?thesis
      using L(2) [OF False l] False by (intro exI [of _ ?s] exI [of _ ?l]) simp
  qed
qed

lemma task_new_contract:
  assumes ok: "sched_ok ts s" and spare: "1027 \<le> kheap_spare s"
    and p: "process_objects s process = Some p"
    and elf: "proc_filetype p = PROCESS_FILETYPE_ELF \<longrightarrow> elf_files s (proc_ptr p) \<noteq> None"
  shows "\<exists>t s' x. task_new process s = Inr (t, s') \<and> t \<notin> set ts \<and> sched_ok (ts @ [t]) s' \<and>
    kheap_spare s' + 1027 = kheap_spare s \<and> tasks s' t = Some x \<and> task_process x = process \<and>
    current_task s' = (if ts = [] then t else current_task s) \<and> process_objects s' = process_objects s \<and>
    (\<forall>v. 4096 dvd unat v \<longrightarrow> paging_get (mem s') (load32 (mem s') (task_page_directory x)) v = v OR 5) \<and>
    esp (task_registers x) = 0x3FF000 \<and> cs (task_registers x) = 0x1B \<and> ss (task_registers x) = 0x23 \<and>
    (proc_filetype p \<noteq> PROCESS_FILETYPE_ELF \<longrightarrow> ip (task_registers x) = 0x400000) \<and>
    kernel_heap s' = kernel_heap s \<and> elf_files s' = elf_files s \<and>
    processes s' = processes s \<and> current_process s' = current_process s \<and>
    (\<forall>y \<in> set ts. directory_of s' y = directory_of s y \<and> process_of s' y = process_of s y) \<and>
    (\<forall>q l a. live s q = Some l \<longrightarrow> live s' q = Some l \<and> (unat (a - q) < 4096 * l \<longrightarrow> mem s' a = mem s a)) \<and>
    (\<forall>q \<in> task_pages s' t. live s q = None) \<and> user_dir (task_page_directory x) (mem s') \<and>
    (\<forall>a. foreign s a \<longrightarrow> mem s' a = mem s a)"
proof -
  let ?fl = "ucast (PAGING_IS_PRESENT OR PAGING_ACCESS_FROM_ALL) :: u8"
  obtain t s1 where z: "kzalloc 64 s = (t, s1)" by (cases "kzalloc 64 s")
  obtain c s2 where n: "paging_new_4gb ?fl s1 = (c, s2)" by (cases "paging_new_4gb ?fl s1")
  note M = new_task_memory [OF ok spare z n]
  obtain m where s2: "s2 = s\<lparr>mem := m\<rparr>" using M(7) by (auto simp: mem_only_def)
  have list: "task_list ts s2" using ok M(7) task_list_mem_only by (auto simp: sched_ok_def)
  have fl: "(ucast ?fl :: u32) = 5" by (simp add: c_defs)
  have ud: "user_dir c (mem s2)" by (rule M(13)) (simp add: fl)
  obtain e where e: "(if proc_filetype p = PROCESS_FILETYPE_ELF
      then andthen (deref elf_files (proc_ptr p) s2) (\<lambda>f. Inr (e_entry (mem s2) (elf_header f)))
      else Inr SLOBOS_PROGRAM_VIRTUAL_ADDRESS) = Inr e"
    using that elf
    by (cases "proc_filetype p = PROCESS_FILETYPE_ELF"; cases "elf_files s (proc_ptr p)") (simp_all add: deref_def s2)
  define x where "x = \<lparr>task_page_directory = c, task_registers = zero_registers\<lparr>ip := e, ss := USER_DATA_SEGMENT,
      cs := USER_CODE_SEGMENT, esp := SLOBOS_PROGRAM_VIRTUAL_STACK_ADDRESS_START\<rparr>, task_process = process,
      task_next_link = 0, task_prev_link = 0\<rparr>"
  have init: "task_init t process s1 = Inr (0, s2\<lparr>tasks := (tasks s2)(t \<mapsto> x)\<rparr>)"
    using e M(6) p
    by (cases "proc_filetype p = PROCESS_FILETYPE_ELF")
      (auto simp: task_init_def n Let_def deref_def s2 x_def split: option.splits)
  have x: "task_page_directory x = c" "task_process x = process" "task_next_link x = 0" "task_prev_link x = 0"
    "esp (task_registers x) = 0x3FF000" "cs (task_registers x) = 0x1B" "ss (task_registers x) = 0x23"
    "proc_filetype p \<noteq> PROCESS_FILETYPE_ELF \<Longrightarrow> ip (task_registers x) = 0x400000"
    using e by (auto simp: x_def c_defs)
  obtain s' k where A: "task_new process s = Inr (t, s')" "task_list (ts @ [t]) s'" "tasks s' t = Some (x\<lparr>task_prev_link := k\<rparr>)"
    "dom (tasks s') = insert t (dom (tasks s2))"
    "\<forall>y \<in> set ts. directory_of s' y = directory_of s2 y \<and> process_of s' y = process_of s2 y"
    "current_task s' = (if ts = [] then t else current_task s2)" "mem s' = mem s2" "kernel_heap s' = kernel_heap s2"
    "process_objects s' = process_objects s2" "elf_files s' = elf_files s2" "processes s' = processes s2"
    "current_process s' = current_process s2"
    using task_new_appends [OF list M(4,5) z init x(3,4)] by blast
  have d: "directory_of s' t = c" using A(3) x(1) by (simp add: directory_of_def)
  have "directory_of s' y = directory_of s y" if "y \<in> set ts" for y using A(5) that by (simp add: directory_of_def s2)
  moreover from this have "sched_ok (ts @ [t]) s'" "kheap_spare s' + 1027 = kheap_spare s"
    using sched_new [OF ok spare z n, of s'] A(2,4,7,8) d by (simp_all add: s2)
  moreover have "live s' = live s2" by (rule same_heap) (rule A(7,8))+
  then have "live s q = Some l \<Longrightarrow> live s' q = Some l \<and> (unat (a - q) < 4096 * l \<longrightarrow> mem s' a = mem s a)" for q l a
    using M(11) A(7) by simp
  moreover have "\<forall>q \<in> task_pages s' t. live s q = None" using M(10) d A(7) by (simp add: task_pages_def)
  moreover have "\<forall>v. 4096 dvd unat v \<longrightarrow> paging_get (mem s') (load32 (mem s') c) v = v OR 5" using M(12) fl A(7) by simp
  moreover have "\<forall>y \<in> set ts. process_of s' y = process_of s y" using A(5) by (simp add: process_of_def s2)
  moreover have "current_task s' = (if ts = [] then t else current_task s)" using A(6) by (simp add: s2)
  moreover have "kernel_heap s' = kernel_heap s" "process_objects s' = process_objects s" "elf_files s' = elf_files s"
    "processes s' = processes s" "current_process s' = current_process s" using A(8-12) by (simp_all add: s2)
  moreover have "user_dir c (mem s')" "\<forall>a. foreign s a \<longrightarrow> mem s' a = mem s a" using ud M(14) A(7) by simp_all
  ultimately show ?thesis
    using A(1,3) x M(4) by (intro exI [of _ t] exI [of _ s'] exI [of _ "x\<lparr>task_prev_link := k\<rparr>"]) simp
qed

section \<open>Ending the last task\<close>

lemma directory_of_other: "x \<noteq> t \<Longrightarrow> directory_of (s\<lparr>tasks := (tasks s)(t := y)\<rparr>) x = directory_of s x"
  by (simp add: directory_of_def)

lemma task_list_remove_last:
  assumes list: "task_list (ts @ [t]) s" and ne: "ts \<noteq> []"
  shows "\<exists>s'. task_list_remove t s = Inr s' \<and> mem s' = mem s \<and> kernel_heap s' = kernel_heap s \<and>
    task_list ts (s'\<lparr>tasks := (tasks s')(t := None)\<rparr>) \<and> dom (tasks s') = dom (tasks s) \<and>
    (\<forall>x. directory_of s' x = directory_of s x \<and> process_of s' x = process_of s x) \<and>
    process_objects s' = process_objects s \<and> processes s' = processes s \<and> current_process s' = current_process s"
proof -
  let ?l = "last ts"
  have s: "distinct (ts @ [t])" "0 \<notin> set (ts @ [t])" "linked (ts @ [t]) (tasks s)" "task_head s = hd ts"
    "task_tail s = t" "current_task s \<in> insert t (set ts)"
    using list ne by (auto simp: task_list_def split: if_splits)
  obtain x where x: "tasks s t = Some x" "task_next_link x = 0" "task_prev_link x = ?l"
    using linkedD [OF s(3), of "length ts"] ne by (auto simp: nth_append last_conv_nth)
  have "length ts - 1 < length (ts @ [t])" by simp
  then obtain p where "tasks s ((ts @ [t]) ! (length ts - 1)) = Some p" by (rule linkedD [OF s(3)])
  then have p: "tasks s ?l = Some p" using ne by (simp add: nth_append last_conv_nth)
  have n: "?l \<noteq> 0" "t \<noteq> ?l" "t \<noteq> hd ts" using s(1,2) ne by (auto, metis last_in_set)
  let ?T = "(tasks s)(?l \<mapsto> p\<lparr>task_next_link := 0\<rparr>)"
  let ?c = "if t = current_task s then hd ts else current_task s"
  let ?s = "s\<lparr>tasks := ?T, task_tail := ?l, current_task := ?c\<rparr>"
  have r: "task_list_remove t s = Inr ?s"
    using x p n s(4,5) by (auto simp: task_list_remove_def deref_def Let_def task_get_next_def)
  have "linked ts ?T" by (rule linked_butlast [OF s(3,1) ne p])
  then have "linked ts (?T(t := None))" by (rule linked_cong) (use s(1) in auto)
  then have "task_list ts (?s\<lparr>tasks := (tasks ?s)(t := None)\<rparr>)"
    using s ne by (auto simp: task_list_def)
  moreover have "directory_of ?s x = directory_of s x \<and> process_of ?s x = process_of s x" for x
    using p by (simp add: directory_of_def process_of_def)
  moreover have "dom (tasks ?s) = dom (tasks s)" using p by auto
  ultimately show ?thesis using r by (intro exI [of _ ?s]) simp
qed

lemma sched_drop_last:
  assumes ok: "sched_ok (ts @ [t]) s" and k: "kheap_ok s'" "kernel_heap s' = kernel_heap s"
    and lv: "live s' = live s |` (- task_pages s t)" and fr: "\<forall>a. \<not> kheap_table s a \<longrightarrow> mem s' a = mem s a"
    and list: "task_list ts s'" and d: "\<forall>y \<in> set ts. directory_of s' y = directory_of s y" and dom: "dom (tasks s') = set ts"
  shows "sched_ok ts s'"
proof -
  have kok: "kheap_ok s" and sp: "spaces_ok (set (ts @ [t])) s" and dt: "distinct (ts @ [t])"
    using ok by (auto simp: sched_ok_def task_list_def)
  have own: "live s p = Some 1" if "y \<in> set ts" "p \<in> task_pages s y" for y p
    using sp that unfolding spaces_ok_def by auto
  have keep: "live s' p = Some 1" if "y \<in> set ts" "p \<in> task_pages s y" for y p
  proof -
    have "y \<noteq> t" using dt that(1) by auto
    then have "task_pages s y \<inter> task_pages s t = {}" using sp that(1) unfolding spaces_ok_def by simp
    then show ?thesis using own [OF that] that(2) unfolding lv by (auto simp: restrict_map_def)
  qed
  have mem': "mem s' a = mem s a" if "y \<in> set ts" "p \<in> task_pages s y" "unat (a - p) < 4096" for y p a
    using kzalloc.owned_meta [OF kok own [OF that(1,2)]] that(3) fr by simp
  have "spaces_ok (set ts) s'"
    by (rule spaces_frame [OF sp]; (blast intro: d [rule_format] keep mem')?) auto
  moreover have "kheap_low s'" using ok k(2) by (simp add: sched_ok_def kheap_low_def)
  ultimately show ?thesis using k(1) list dom by (simp add: sched_ok_def)
qed

lemma task_free_last:
  assumes ok: "sched_ok (ts @ [t]) s" and ne: "ts \<noteq> []"
  shows "\<exists>s'. task_free t s = Inr s' \<and> sched_ok ts s' \<and> kheap_spare s' = kheap_spare s + 1027 \<and>
    live s' = live s |` (- task_pages s t) \<and> (\<forall>a. \<not> kheap_table s a \<longrightarrow> mem s' a = mem s a) \<and>
    kernel_heap s' = kernel_heap s \<and> process_objects s' = process_objects s \<and> processes s' = processes s \<and>
    current_process s' = current_process s \<and>
    (\<forall>y \<in> set ts. directory_of s' y = directory_of s y \<and> process_of s' y = process_of s y)"
proof -
  have kok: "kheap_ok s" and low: "kheap_low s" and list: "task_list (ts @ [t]) s"
    and sp: "spaces_ok (set (ts @ [t])) s" using ok by (auto simp: sched_ok_def)
  obtain x where x: "tasks s t = Some x"
    using list linkedD [of "ts @ [t]" "tasks s" "length ts"] by (auto simp: task_list_def)
  let ?c = "task_page_directory x"
  have d: "directory_of s t = ?c" using x by (simp add: directory_of_def)
  have own: "\<forall>p \<in> chunk_pages (mem s) ?c. live s p = Some 1" and ch: "chunk_ok ?c (mem s)"
    and tc: "t \<notin> chunk_pages (mem s) ?c" and lt: "live s t = Some 1"
    using sp d unfolding spaces_ok_def task_pages_def by auto
  note F = free_4gb_contract [OF kok ch own]
  let ?s1 = "paging_free_4gb ?c s"
  have mo: "mem_only s ?s1" by simp
  then have kh: "kernel_heap ?s1 = kernel_heap s" "tasks ?s1 = tasks s" by (auto simp: mem_only_def)
  have "task_list (ts @ [t]) ?s1" using list mo by (rule task_list_mem_only)
  from task_list_remove_last [OF this ne] obtain s2 where s2: "task_list_remove t ?s1 = Inr s2"
    "mem s2 = mem ?s1" "kernel_heap s2 = kernel_heap ?s1" "task_list ts (s2\<lparr>tasks := (tasks s2)(t := None)\<rparr>)"
    "\<And>x. directory_of s2 x = directory_of ?s1 x" "dom (tasks s2) = dom (tasks ?s1)"
    "\<And>x. process_of s2 x = process_of ?s1 x" "process_objects s2 = process_objects ?s1"
    "processes s2 = processes ?s1" "current_process s2 = current_process ?s1" by blast
  have ok2: "kheap_ok s2" using F s2(2,3) by simp
  note same = same_heap [OF s2(2,3)]
  have lt2: "live s2 t = Some 1" using F tc lt same by simp
  let ?s3 = "kfree t s2"
  let ?s4 = "?s3\<lparr>tasks := (tasks ?s3)(t := None)\<rparr>"
  have free: "task_free t s = Inr ?s4"
    using x s2(1) by (simp add: task_free_def deref_def Let_def)
  note R = kzalloc.release_ok [OF ok2 lt2] kzalloc.release_owned [OF ok2 lt2]
    kzalloc.spare_release [OF ok2 lt2] kzalloc.release_frame [OF ok2 lt2]
  have s4: "live ?s4 = live ?s3" "kheap_spare ?s4 = kheap_spare ?s3" using same_heap [of ?s4 ?s3] by simp_all
  have dir4: "directory_of ?s4 y = directory_of s y" if "y \<in> set ts" for y
  proof -
    have "y \<noteq> t" using that list by (auto simp: task_list_def)
    then have "directory_of ?s4 y = directory_of s2 y" by (simp add: directory_of_def kfree_def)
    then show ?thesis using s2(5) [of y] by (simp add: directory_of_def kh(2))
  qed
  have lv: "live ?s4 = live s |` (- task_pages s t)"
    using R(2) s4(1) same(1) F by (auto simp: fun_eq_iff restrict_map_def task_pages_def d)
  have fr: "\<forall>a. \<not> kheap_table s a \<longrightarrow> mem ?s4 a = mem s a"
    using R(4) s2(2,3) kh(1) F by simp
  have h4: "kernel_heap ?s4 = kernel_heap s" using s2(3) kh(1) by (simp add: kfree_def)
  have "dom (tasks s) = set (ts @ [t])" "t \<notin> set ts" using ok by (auto simp: sched_ok_def task_list_def)
  then have dom4: "dom (tasks ?s4) = set ts" using s2(6) kh(2) by (auto simp: kfree_def)
  have list4: "task_list ts ?s4" using s2(4) by (rule task_list_cong) (simp_all add: kfree_def)
  have ok4: "kheap_ok ?s4" using R(1) by simp
  have "sched_ok ts ?s4" by (rule sched_drop_last [OF ok ok4 h4 lv fr list4 _ dom4]) (use dir4 in blast)
  moreover have "kheap_spare ?s4 = kheap_spare s + 1027" using R(3) s4(2) same(2) F by simp
  moreover have "kernel_heap ?s4 = kernel_heap s" "process_objects ?s4 = process_objects s"
    "processes ?s4 = processes s" "current_process ?s4 = current_process s"
    using s2 mo by (auto simp: mem_only_def kfree_def)
  moreover have "process_of ?s4 y = process_of s y" if "y \<in> set ts" for y
  proof -
    have "y \<noteq> t" using that list by (auto simp: task_list_def)
    then have "process_of ?s4 y = process_of s2 y" by (simp add: process_of_def kfree_def)
    then show ?thesis using s2(7) [of y] by (simp add: process_of_def kh(2))
  qed
  moreover note dir4 lv fr
  ultimately show ?thesis using free by (intro exI [of _ ?s4]) blast
qed

section \<open>The steps of the scheduler\<close>

lemma sched_cong:
  assumes "sched_ok ts s" and "mem t = mem s" and "kernel_heap t = kernel_heap s" and "task_list ts t"
    and "\<And>x. directory_of t x = directory_of s x" and "dom (tasks t) = dom (tasks s)"
  shows "sched_ok ts t"
proof -
  have "spaces_ok (set ts) s" using assms(1) by (simp add: sched_ok_def)
  then have "spaces_ok (set ts) t"
    by (simp add: spaces_ok_def task_pages_def assms(2,5) same_heap(1) [OF assms(2,3)])
  then show ?thesis using assms by (simp add: sched_ok_def kheap_low_def)
qed

text \<open>
  A task is made while the heap has room for it; the processor goes on to the next task; an
  interrupt saves the registers and enters and leaves the kernel's pages; the last task of
  several ends. Another task is not freed here: \<open>task_list_remove\<close> leaves a dangling link then.
\<close>

inductive sched_step :: "'a kernel_scheme \<Rightarrow> 'a kernel_scheme \<Rightarrow> bool" where
  create: "1027 \<le> kheap_spare s \<Longrightarrow> process_objects s process = Some p \<Longrightarrow>
    (proc_filetype p = PROCESS_FILETYPE_ELF \<Longrightarrow> elf_files s (proc_ptr p) \<noteq> None) \<Longrightarrow>
    task_new process s = Inr (t, s') \<Longrightarrow> sched_step s s'"
| go_on: "task_next s = Inr (r, s') \<Longrightarrow> sched_step s s'"
| save: "task_current_save_state frame s = Inr s' \<Longrightarrow> sched_step s s'"
| enter: "sched_step s (kernel_page s)"
| leave: "task_page s = Inr s' \<Longrightarrow> sched_step s s'"
| finish: "task_head s \<noteq> task_tail s \<Longrightarrow> task_free (task_tail s) s = Inr s' \<Longrightarrow> sched_step s s'"

inductive sched_reach :: "'a kernel_scheme \<Rightarrow> 'a kernel_scheme \<Rightarrow> bool" for s0 where
  start: "sched_reach s0 s0"
| step: "sched_reach s0 s \<Longrightarrow> sched_step s s' \<Longrightarrow> sched_reach s0 s'"

lemma task_switch_sched:
  assumes "sched_ok ts s" and "task_switch t s = Inr s'" and "t \<in> set ts"
  shows "sched_ok ts s'"
proof -
  obtain x where x: "tasks s t = Some x"
    using assms(2) by (cases "tasks s t") (auto simp: task_switch_def Let_def deref_def)
  have s': "s' = paging_switch (task_page_directory x) (s\<lparr>current_task := t\<rparr>)"
    using assms(2) x by (simp add: task_switch_def Let_def deref_def)
  have "task_list ts s'" using assms(1,3) by (auto simp: sched_ok_def task_list_def s' paging_switch_def)
  then show ?thesis
    by (intro sched_cong [OF assms(1)]) (simp_all add: s' paging_switch_def directory_of_def)
qed

lemma current_in_list:
  assumes "sched_ok ts s" and "tasks s (current_task s) = Some t"
  shows "current_task s \<in> set ts"
proof -
  have "current_task s \<in> dom (tasks s)" using assms(2) by (rule domI)
  then show ?thesis using assms(1) unfolding sched_ok_def by blast
qed

lemma sched_same:
  assumes "sched_ok ts s" and "mem t = mem s" "kernel_heap t = kernel_heap s" "tasks t = tasks s"
    "task_head t = task_head s" "task_tail t = task_tail s" "current_task t = current_task s"
  shows "sched_ok ts t"
proof -
  have "task_list ts t" by (rule task_list_cong [of ts s]) (use assms in \<open>simp_all add: sched_ok_def\<close>)
  then show ?thesis
    by (intro sched_cong [OF assms(1)]) (simp_all add: assms directory_of_def)
qed

lemma data_segment_sched: "sched_ok ts s \<Longrightarrow> sched_ok ts (s\<lparr>data_segment := x\<rparr>)"
  by (erule sched_same) simp_all

lemma task_next_sched:
  assumes ok: "sched_ok ts s" and n: "task_next s = Inr (r, s')"
  shows "sched_ok ts s'"
proof -
  obtain t where "tasks s (current_task s) = Some t"
    using n by (auto simp: task_next_def task_get_next_def andthen_eq_Inr deref_def split: option.splits)
  then have "current_task s \<in> set ts" by (rule current_in_list [OF ok])
  then obtain i where i: "i < length ts" "current_task s = ts ! i" by (metis in_set_conv_nth)
  have list: "task_list ts s" using ok by (simp add: sched_ok_def)
  let ?j = "Suc i mod length ts"
  have j: "?j < length ts" using i(1) by (intro mod_less_divisor) linarith
  obtain x where x: "tasks s (ts ! ?j) = Some x" "task_next s = Inr (task_registers x,
      paging_switch (task_page_directory x) (s\<lparr>current_task := ts ! ?j\<rparr>))"
    using task_next_at [OF list i] by blast
  then have "task_switch (ts ! ?j) s = Inr s'" using n by (simp add: task_switch_def deref_def Let_def)
  then show ?thesis using nth_mem [OF j] by (rule task_switch_sched [OF ok])
qed

lemma save_state_list:
  assumes "task_list ts s" and "tasks s c = Some t"
  shows "task_list ts (s\<lparr>tasks := (tasks s)(c \<mapsto> task_save_state t frame)\<rparr>)"
proof -
  have "linked ts ((tasks s)(c \<mapsto> task_save_state t frame))"
    by (rule linked_cong [of _ "tasks s"])
      (use assms in \<open>auto simp: task_list_def task_save_state_def\<close>)
  then show ?thesis using assms(1) by (simp add: task_list_def)
qed

lemma save_state_sched:
  assumes ok: "sched_ok ts s" and sv: "task_current_save_state frame s = Inr s'"
  shows "sched_ok ts s'"
proof -
  obtain t where t: "tasks s (current_task s) = Some t"
    and s': "s' = s\<lparr>tasks := (tasks s)(current_task s \<mapsto> task_save_state t frame)\<rparr>"
    using sv by (auto simp: task_current_save_state_def andthen_eq_Inr deref_def split: option.splits)
  have "task_list ts s'" using save_state_list [OF _ t] ok by (simp add: sched_ok_def s')
  then show ?thesis
    by (intro sched_cong [OF ok]) (use t in \<open>auto simp: s' directory_of_def task_save_state_def\<close>)
qed

lemma sched_step_ok:
  assumes "sched_step s s'" and ok: "sched_ok ts s"
  shows "\<exists>ts'. sched_ok ts' s'"
  using assms(1)
proof (cases rule: sched_step.cases)
  case (create process p t)
  show ?thesis using task_new_contract [OF ok create(1,2)] create(3,4) by fastforce
next
  case (go_on r)
  then show ?thesis using task_next_sched [OF ok] by blast
next
  case (save frame)
  then show ?thesis using save_state_sched [OF ok] by blast
next
  case enter
  have "sched_ok ts (paging_switch c (s\<lparr>data_segment := x\<rparr>))" for c x
    using ok by (rule sched_same) (simp_all add: paging_switch_def)
  then show ?thesis unfolding enter kernel_page_def kernel_registers_def Let_def by blast
next
  case leave
  let ?s = "s\<lparr>data_segment := USER_DATA_SEGMENT\<rparr>"
  have sw: "task_switch (current_task s) ?s = Inr s'"
    using leave by (simp add: task_page_def user_registers_def Let_def)
  then obtain t where "tasks ?s (current_task ?s) = Some t"
    by (auto simp: task_switch_def Let_def andthen_eq_Inr deref_def split: option.splits)
  then have "current_task s \<in> set ts" using current_in_list [OF data_segment_sched [OF ok]] by simp
  then show ?thesis using task_switch_sched [OF data_segment_sched [OF ok] sw] by blast
next
  case finish
  have ne: "ts \<noteq> []" using ok finish(1) by (auto simp: sched_ok_def task_list_def)
  then obtain us t where ts: "ts = us @ [t]" by (metis rev_exhaust)
  then have t: "task_tail s = t" "us \<noteq> []"
    using ok finish(1) by (auto simp: sched_ok_def task_list_def split: if_splits)
  then show ?thesis using task_free_last [of us t s] ok finish(2) ts by auto
qed

text \<open>At boot the heap is fresh and there is no task.\<close>

lemma booted_sched:
  assumes "task_head s = 0" "task_tail s = 0" "current_task s = 0" "tasks s = Map.empty"
  shows "sched_ok [] (snd (kheap_init s))"
  using booted_client [where s = s] assms booted_spare(2) [of s]
  by (simp add: sched_ok_def task_list_def linked_def spaces_ok_def kheap_init_eq)

section \<open>A small kernel\<close>

text \<open>A kernel at boot, with one process structure that holds a binary; and two tasks linked by hand.\<close>

definition demo_kernel :: kernel where
  "demo_kernel =
     \<lparr>mem = (\<lambda>_. 7), kernel_heap = demo_heap, cr3 = 0, current_directory = 0, video_mem = 0, terminal_row = 0,
      terminal_col = 0, path_roots = Map.empty, path_parts = Map.empty,
      the_disk = \<lparr>disk_type = 0, disk_sector_size = 512, disk_id = 0, disk_filesystem = 0, disk_fs_private = 0\<rparr>,
      streams = Map.empty, fat_privates = Map.empty, fat_directories = Map.empty, fat_items = Map.empty,
      fat_descriptors = Map.empty, filesystems = replicate 12 0, file_descriptors = replicate 512 0,
      file_objects = Map.empty, elf_files = Map.empty, tasks = Map.empty,
      process_objects = [0x5000 \<mapsto> \<lparr>proc_id = 0, proc_filename = [], proc_task = 0,
        proc_allocations = replicate 1024 \<lparr>alloc_ptr = 0, alloc_size = 0\<rparr>, proc_filetype = 1, proc_ptr = 0, proc_stack = 0, proc_size = 0,
        proc_keyboard = \<lparr>kb_buffer = [], kb_tail = 0, kb_head = 0\<rparr>, proc_argc = 0, proc_argv = 0\<rparr>],
      current_task = 0, task_head = 0, task_tail = 0, current_process = 0, processes = replicate 12 0,
      kernel_chunk = 0, data_segment = 0\<rparr>"

definition demo_task :: "u32 \<Rightarrow> u32 \<Rightarrow> u32 \<Rightarrow> task" where
  "demo_task chunk n p = \<lparr>task_page_directory = chunk, task_registers = zero_registers, task_process = 0x5000,
     task_next_link = n, task_prev_link = p\<rparr>"

definition demo_two :: kernel where
  "demo_two = demo_kernel\<lparr>tasks := [0x1000 \<mapsto> demo_task 0x8000 0x2000 0, 0x2000 \<mapsto> demo_task 0x9000 0 0x1000],
     task_head := 0x1000, task_tail := 0x2000, current_task := 0x2000\<rparr>"

lemma demo_two_list: "task_list [0x1000, 0x2000] demo_two"
  by (auto simp: task_list_def linked_def demo_two_def demo_task_def less_2_cases_iff)

text \<open>
  C3: the list of tasks is in order through the steps of \<open>sched_step\<close>. After any sequence of these from boot on - a task made
  while the heap has at least 1027 blocks to spare, the next task, saved registers, the kernel's pages entered and
  left, the task at the end of the list freed while another remains - the tasks
  that exist are exactly those in the list; its links, head and tail agree and the current task is
  one of it; each task has a page directory and tables in live heap pages that no other task uses; and the heap is well formed.
  Freeing another task is no step: it leaves a link that dangles (\<open>task_free_head_dangles\<close>).
\<close>

theorem sched_invariant:
  assumes "sched_reach (snd (kheap_init s0)) s"
    and "task_head s0 = 0" "task_tail s0 = 0" "current_task s0 = 0" "tasks s0 = Map.empty"
  shows "\<exists>ts. sched_ok ts s"
  using assms(1)
proof (induction rule: sched_reach.induct)
  case start
  show ?case using booted_sched [OF assms(2-5)] by blast
next
  case (step s s')
  then show ?case using sched_step_ok by blast
qed

theorem sched_invariant_witness:
  "\<exists>t s' ts. task_new 0x5000 (snd (kheap_init demo_kernel)) = Inr (t, s') \<and> sched_ok ts s'"
proof -
  let ?s = "snd (kheap_init demo_kernel)"
  have d: "task_head demo_kernel = 0" "task_tail demo_kernel = 0" "current_task demo_kernel = 0"
    "tasks demo_kernel = Map.empty" by (simp_all add: demo_kernel_def)
  obtain p where p: "process_objects ?s 0x5000 = Some p" "proc_filetype p \<noteq> PROCESS_FILETYPE_ELF"
    by (simp add: kheap_init_eq demo_kernel_def c_defs)
  have spare: "1027 \<le> kheap_spare ?s" by (simp add: booted_spare)
  obtain t s' where new: "task_new 0x5000 ?s = Inr (t, s')"
    using task_new_contract [OF booted_sched [OF d] spare p(1)] p(2) by blast
  have "sched_step ?s s'" using p(2) by (intro sched_step.create [OF spare p(1) _ new]) simp
  then have "sched_reach ?s s'" by (rule sched_reach.step [OF sched_reach.start])
  then show ?thesis using sched_invariant [OF _ d] new by blast
qed

text \<open>
  C16: every task runs. From any state in which the tasks are linked in a list, each of them is
  the current task, under its own page directory, after at most as many calls of \<open>task_next\<close> as
  there are tasks; none of these calls fails.
\<close>

theorem task_next_reaches_every_task:
  assumes "task_list ts s" and "t \<in> set ts"
  shows "\<exists>k s' x. 0 < k \<and> k \<le> length ts \<and> run_tasks k s = Inr s' \<and> current_task s' = t \<and>
    tasks s t = Some x \<and> cr3 s' = load32 (mem s) (task_page_directory x) \<and> task_list ts s'"
proof -
  obtain j where j: "j < length ts" "t = ts ! j" using assms(2) by (metis in_set_conv_nth)
  have "current_task s \<in> set ts" using assms by (auto simp: task_list_def split: if_splits)
  then obtain i where i: "i < length ts" "current_task s = ts ! i" by (metis in_set_conv_nth)
  define k where "k = (if i < j then j - i else length ts + j - i)"
  have k: "0 < k" "k \<le> length ts" "(i + k) mod length ts = j" using i(1) j(1) by (auto simp: k_def)
  show ?thesis using run_tasks_at [OF assms(1) i, of k] k j(2) by metis
qed

theorem task_next_reaches_every_task_witness:
  "\<exists>k s'. 0 < k \<and> k \<le> 2 \<and> run_tasks k demo_two = Inr s' \<and> current_task s' = 0x1000 \<and> cr3 s' = 0x07070707"
proof -
  have m: "load32 (mem demo_two) 0x8000 = 0x07070707"
    by (simp add: load32_def demo_two_def demo_kernel_def)
  have t: "tasks demo_two 0x1000 = Some (demo_task 0x8000 0x2000 0)" by (simp add: demo_two_def)
  obtain k s' x where "0 < k" "k \<le> length [0x1000 :: u32, 0x2000]" "run_tasks k demo_two = Inr s'" "current_task s' = 0x1000"
    "tasks demo_two 0x1000 = Some x" "cr3 s' = load32 (mem demo_two) (task_page_directory x)"
    using task_next_reaches_every_task [OF demo_two_list, of "0x1000"] by auto
  then show ?thesis using m t by (intro exI [of _ k] exI [of _ s']) (auto simp: demo_task_def)
qed

text \<open>
  C23: an interrupted task resumes with its registers. Whatever frame the interrupt handler saves,
  the scheduler comes back to the same task after one round, and the structure of registers that
  \<open>task_return\<close> is then given is that of the frame, in all twelve of them. (The assembly that loads
  it pops a stale \<open>ebp\<close> over the one just loaded.)
\<close>

theorem interrupted_task_resumes:
  assumes "task_list ts s" and "ts \<noteq> []"
  shows "\<exists>s1 s2 s3. task_current_save_state frame s = Inr s1 \<and> run_tasks (length ts - 1) s1 = Inr s2 \<and>
    task_next s2 = Inr (\<lparr>edi = frame_edi frame, esi = frame_esi frame, ebp = frame_ebp frame,
      ebx = frame_ebx frame, edx = frame_edx frame, ecx = frame_ecx frame, eax = frame_eax frame,
      ip = frame_ip frame, cs = frame_cs frame, flags = frame_flags frame, esp = frame_esp frame,
      ss = frame_ss frame\<rparr>, s3) \<and> current_task s3 = current_task s"
proof -
  have "current_task s \<in> set ts" and l: "linked ts (tasks s)" using assms by (simp_all add: task_list_def)
  then obtain i where i: "i < length ts" "current_task s = ts ! i" by (metis in_set_conv_nth)
  obtain t where t: "tasks s (current_task s) = Some t" unfolding i(2) using l i(1) by (rule linkedD)
  let ?s = "s\<lparr>tasks := (tasks s)(current_task s \<mapsto> task_save_state t frame)\<rparr>"
  have sv: "task_current_save_state frame s = Inr ?s" by (simp add: task_current_save_state_def deref_def t)
  have list: "task_list ts ?s" by (rule save_state_list [OF assms(1) t])
  have c: "current_task ?s = ts ! i" using i(2) by simp
  obtain s2 where s2: "run_tasks (length ts - 1) ?s = Inr s2" "task_list ts s2" "tasks s2 = tasks ?s"
    "current_task s2 = ts ! ((i + (length ts - 1)) mod length ts)"
    using run_tasks_at [OF list i(1) c, of "length ts - 1"] by blast
  let ?j = "(i + (length ts - 1)) mod length ts"
  have "Suc ?j mod length ts = Suc (i + (length ts - 1)) mod length ts" by (rule mod_Suc_eq)
  also have "Suc (i + (length ts - 1)) = i + length ts" using assms(2) by (cases ts) simp_all
  finally have wrap: "Suc ?j mod length ts = i" using i(1) by simp
  have "?j < length ts" using i(1) by (intro mod_less_divisor) linarith
  then obtain x where x: "tasks s2 (ts ! i) = Some x"
    "task_next s2 = Inr (task_registers x, paging_switch (task_page_directory x) (s2\<lparr>current_task := ts ! i\<rparr>))"
    using task_next_at [OF s2(2) _ s2(4)] unfolding wrap by blast
  have "x = task_save_state t frame" using x(1) s2(3) i(2) by simp
  then show ?thesis using sv s2(1) x(2) i(2) by (simp add: task_save_state_def paging_switch_def)
qed

theorem interrupted_task_resumes_witness:
  "\<exists>s1 s2 r s3. task_current_save_state \<lparr>frame_edi = 1, frame_esi = 2, frame_ebp = 3, frame_reserved = 4,
       frame_ebx = 5, frame_edx = 6, frame_ecx = 7, frame_eax = 8, frame_ip = 9, frame_cs = 10,
       frame_flags = 11, frame_esp = 12, frame_ss = 13\<rparr> demo_two = Inr s1 \<and>
     run_tasks 1 s1 = Inr s2 \<and> task_next s2 = Inr (r, s3) \<and> eax r = 8 \<and> ip r = 9 \<and> current_task s3 = 0x2000"
  using interrupted_task_resumes [OF demo_two_list, where frame = "\<lparr>frame_edi = 1, frame_esi = 2, frame_ebp = 3, frame_reserved = 4,
       frame_ebx = 5, frame_edx = 6, frame_ecx = 7, frame_eax = 8, frame_ip = 9, frame_cs = 10,
       frame_flags = 11, frame_esp = 12, frame_ss = 13\<rparr>"]
  by (auto simp: demo_two_def)

text \<open>
  Ending the first of several tasks leaves a dangling link. \<open>task_list_remove\<close> does not clear
  the \<open>prev\<close> link of the task that becomes the head; when that task ends, the freed structure
  of the first one is accessed.
\<close>

theorem task_free_head_dangles:
  assumes "task_list (a # b # ts) s"
  shows "\<exists>s'. task_free a s = Inr s' \<and> task_head s' = b \<and> task_free b s' = Inl (BadPointer a)"
proof -
  have s: "a \<noteq> b" "a \<noteq> 0" "b \<noteq> 0" "linked (a # b # ts) (tasks s)" "task_head s = a"
    "task_tail s = last (b # ts)" "a \<noteq> last (b # ts)"
    using assms by (auto simp: task_list_def)
  obtain x where x: "tasks s a = Some x" "task_next_link x = b" "task_prev_link x = 0"
    using linkedD [OF s(4), of 0] by auto
  obtain y where y: "tasks s b = Some y" "task_prev_link y = a"
    using linkedD [OF s(4), of 1] by auto
  obtain m where m: "paging_free_4gb (task_page_directory x) s = s\<lparr>mem := m\<rparr>"
    using mem_only_paging_free_4gb [OF mem_only_refl, of s "task_page_directory x"]
    unfolding mem_only_def by blast
  obtain s' where s': "task_free a s = Inr s'" "task_head s' = b" "tasks s' = (tasks s)(a := None)"
    using s x by (cases "current_task s = a")
      (auto simp: task_free_def task_list_remove_def task_get_next_def deref_def Let_def m kfree_def)
  obtain m' where m': "paging_free_4gb (task_page_directory y) s' = s'\<lparr>mem := m'\<rparr>"
    using mem_only_paging_free_4gb [OF mem_only_refl, of s' "task_page_directory y"]
    unfolding mem_only_def by blast
  have "task_free b s' = Inl (BadPointer a)"
    using s'(3) y s(1,2) by (simp add: task_free_def task_list_remove_def deref_def Let_def m')
  then show ?thesis using s' by blast
qed

theorem task_free_head_dangles_witness:
  "\<exists>s'. task_free 0x1000 demo_two = Inr s' \<and> task_free 0x2000 s' = Inl (BadPointer 0x1000)"
  using task_free_head_dangles [OF demo_two_list] by blast

end
