(* ===== verification/File_Props.thy ===== *)
theory File_Props
  imports File Task_Props
begin

text \<open>
  The table of open files: element \<open>i\<close> holds the structure of descriptor \<open>i + 1\<close>. Opening takes
  the first free element, closing gives it back.
\<close>

section \<open>The first free element\<close>

lemma free_index_Some:
  "free_index j xs = Some i \<Longrightarrow> j \<le> i \<and> i < j + length xs \<and> xs ! (i - j) = 0 \<and> (\<forall>k < i - j. xs ! k \<noteq> 0)"
proof (induction xs arbitrary: j)
  case (Cons x xs)
  show ?case
  proof (cases "x = 0")
    case False
    then have "free_index (Suc j) xs = Some i" using Cons.prems by simp
    from Cons.IH [OF this] have IH: "Suc j \<le> i" "i < Suc j + length xs" "xs ! (i - Suc j) = 0" "\<forall>k < i - Suc j. xs ! k \<noteq> 0"
      by simp_all
    have d: "i - j = Suc (i - Suc j)" using IH(1) by simp
    show ?thesis unfolding d using IH False by (auto simp: less_Suc_eq_0_disj)
  qed (use Cons.prems in simp)
qed simp

lemma free_index_None: "free_index j xs = None \<longleftrightarrow> 0 \<notin> set xs"
  by (induction xs arbitrary: j) auto

section \<open>The invariant of the table\<close>

definition fd_table_ok :: "'a vfs_scheme \<Rightarrow> bool" where
  "fd_table_ok s \<longleftrightarrow> kheap_ok s \<and> length (file_descriptors s) = SLOBOS_MAX_FILE_DESCRIPTORS \<and>
     (\<forall>i < SLOBOS_MAX_FILE_DESCRIPTORS. file_descriptors s ! i \<noteq> 0 \<longrightarrow> live s (file_descriptors s ! i) = Some 1 \<and>
       (\<exists>d. file_objects s (file_descriptors s ! i) = Some d \<and> fd_index d = int i + 1))"

lemma fd_distinct:
  assumes "fd_table_ok s" and "i < 512" "j < 512" and "file_descriptors s ! i = file_descriptors s ! j"
    and "file_descriptors s ! i \<noteq> 0"
  shows "i = j"
proof -
  obtain d e where "file_objects s (file_descriptors s ! i) = Some d" "fd_index d = int i + 1"
    "file_objects s (file_descriptors s ! j) = Some e" "fd_index e = int j + 1"
    using assms unfolding fd_table_ok_def SLOBOS_MAX_FILE_DESCRIPTORS_def by metis
  then show ?thesis using assms(4) by simp
qed

lemma new_descriptor_contract:
  assumes ok: "fd_table_ok s" and spare: "0 < kheap_spare s"
  shows "if 0 \<notin> set (file_descriptors s) then file_new_descriptor s = Inr (- ENOMEM, 0, s)
    else \<exists>i desc s' d. file_new_descriptor s = Inr (0, desc, s') \<and> desc \<noteq> 0 \<and> i < SLOBOS_MAX_FILE_DESCRIPTORS \<and>
      file_descriptors s ! i = 0 \<and> (\<forall>k<i. file_descriptors s ! k \<noteq> 0) \<and>
      file_descriptors s' = (file_descriptors s)[i := desc] \<and> desc \<notin> set (file_descriptors s) \<and>
      file_objects s' desc = Some d \<and> fd_index d = int i + 1 \<and> fd_table_ok s'"
proof (cases "free_index 0 (file_descriptors s)")
  case None
  then have "0 \<notin> set (file_descriptors s)" by (rule free_index_None [THEN iffD1])
  then show ?thesis by (simp add: file_new_descriptor_def None)
next
  case (Some i)
  have len: "length (file_descriptors s) = 512" and kok: "kheap_ok s"
    using ok by (simp_all add: fd_table_ok_def SLOBOS_MAX_FILE_DESCRIPTORS_def)
  have i: "i < 512" "file_descriptors s ! i = 0" "\<forall>k<i. file_descriptors s ! k \<noteq> 0"
    using free_index_Some [OF Some] len by simp_all
  obtain desc s1 where z: "kzalloc 16 s = (desc, s1)" by (cases "kzalloc 16 s")
  then have d: "desc = fst (kzalloc 16 s)" "s1 = snd (kzalloc 16 s)" by simp_all
  note A = kzalloc.alloc_page [OF kok spare, of 16, simplified, folded d]
  obtain m where m: "s1 = s\<lparr>mem := m\<rparr>"
    using mem_only_kzalloc [OF mem_only_refl, of s 16] unfolding d(2) mem_only_def by blast
  let ?d = "\<lparr>fd_index = int i + 1, fd_filesystem = 0, fd_private = 0, fd_disk = 0\<rparr>"
  let ?s = "s1\<lparr>file_descriptors := (file_descriptors s1)[i := desc], file_objects := (file_objects s1)(desc \<mapsto> ?d)\<rparr>"
  have run: "file_new_descriptor s = Inr (0, desc, ?s)"
    using A(5) by (simp add: file_new_descriptor_def Some z m)
  have new: "desc \<noteq> file_descriptors s ! k" if "k < 512" for k
    using ok A(2,5) that unfolding fd_table_ok_def SLOBOS_MAX_FILE_DESCRIPTORS_def by (metis option.distinct(1))
  then have fresh: "desc \<notin> set (file_descriptors s)" using len by (auto simp: in_set_conv_nth)
  have "live ?s = live s1" by (rule same_heap) simp_all
  moreover have "kheap_ok ?s" using A(1) by simp
  ultimately have "fd_table_ok ?s"
    using ok new A(3) i(1) len
    by (auto simp: fd_table_ok_def SLOBOS_MAX_FILE_DESCRIPTORS_def m nth_list_update)
  moreover have "0 \<in> set (file_descriptors s)" using i(1,2) len by (metis nth_mem)
  ultimately show ?thesis using run A(5) i fresh
    by (intro if_not_P [THEN iffD2] exI [of _ i] exI [of _ desc] exI [of _ ?s] exI [of _ ?d] | simp add: m SLOBOS_MAX_FILE_DESCRIPTORS_def)+
qed

lemma free_descriptor_contract:
  assumes ok: "fd_table_ok s" and i: "i < SLOBOS_MAX_FILE_DESCRIPTORS" and e: "file_descriptors s ! i = desc" "desc \<noteq> 0"
  shows "\<exists>s'. file_free_descriptor desc s = Inr s' \<and> file_descriptors s' = (file_descriptors s)[i := 0] \<and>
    file_objects s' desc = None \<and> fd_table_ok s'"
proof -
  have i2: "i < 512" and len: "length (file_descriptors s) = 512" and kok: "kheap_ok s"
    using ok i by (simp_all add: fd_table_ok_def SLOBOS_MAX_FILE_DESCRIPTORS_def)
  obtain d where d: "file_objects s desc = Some d" "fd_index d = int i + 1" and l: "live s desc = Some 1"
    using ok i e unfolding fd_table_ok_def by auto
  let ?u = "s\<lparr>file_descriptors := (file_descriptors s)[i := 0]\<rparr>"
  let ?s1 = "kfree desc ?u"
  let ?s = "?s1\<lparr>file_objects := (file_objects ?s1)(desc := None)\<rparr>"
  have run: "file_free_descriptor desc s = Inr ?s"
    using d i2 len by (simp add: file_free_descriptor_def deref_def Let_def)
  have l0: "live ?u = live s" by (rule same_heap) simp_all
  have k0: "kheap_ok ?u" and ld: "live ?u desc = Some 1" using kok l l0 by simp_all
  note R = kzalloc.release_ok [OF k0 ld] kzalloc.release_owned [OF k0 ld]
  have "live ?s = live ?s1" by (rule same_heap) simp_all
  then have live: "live ?s = (live s)(desc := None)" using R(2) l0 by (simp only:)
  have other: "file_descriptors s ! k = desc \<longleftrightarrow> k = i" if "k < 512" for k
    using fd_distinct [OF ok that i2] e by auto
  have "fd_table_ok ?s"
    unfolding fd_table_ok_def live
    using ok R(1) other i2 len by (auto simp: fd_table_ok_def SLOBOS_MAX_FILE_DESCRIPTORS_def kfree_def nth_list_update)
  then show ?thesis using run by (intro exI [of _ ?s]) (simp add: kfree_def)
qed

text \<open>
  C22: the table of open files stays in order. On a full table \<open>file_new_descriptor\<close> returns \<open>- ENOMEM\<close> and changes
  nothing. Otherwise, with a free block on the heap, it puts a new structure, which the table did not hold, in the
  first free element and numbers it one above; looking the number up gives that structure, except that the last
  number, 512, is never found; every other number finds what it found before; and closing the descriptor gives the
  old table back. All of this keeps the table well formed: its size, the numbers and the structures agree.
\<close>

theorem descriptor_table:
  assumes "fd_table_ok s" and "0 < kheap_spare s"
  shows "if 0 \<notin> set (file_descriptors s) then file_new_descriptor s = Inr (- ENOMEM, 0, s)
    else \<exists>i desc s1 s2. file_new_descriptor s = Inr (0, desc, s1) \<and> i < 512 \<and>
      file_descriptors s ! i = 0 \<and> (\<forall>k < i. file_descriptors s ! k \<noteq> 0) \<and>
      desc \<noteq> 0 \<and> desc \<notin> set (file_descriptors s) \<and> file_descriptors s1 = (file_descriptors s)[i := desc] \<and>
      fd_table_ok s1 \<and> (\<exists>d. file_objects s1 desc = Some d \<and> fd_index d = int i + 1) \<and>
      file_get_descriptor (int i + 1) s1 = (if i = 511 then 0 else desc) \<and>
      (\<forall>fd. fd \<noteq> int i + 1 \<longrightarrow> file_get_descriptor fd s1 = file_get_descriptor fd s) \<and>
      file_free_descriptor desc s1 = Inr s2 \<and> fd_table_ok s2 \<and> file_descriptors s2 = file_descriptors s"
proof (cases "0 \<in> set (file_descriptors s)")
  case False
  then show ?thesis using new_descriptor_contract [OF assms] by simp
next
  case True
  obtain i desc s1 d where n: "file_new_descriptor s = Inr (0, desc, s1)" "desc \<noteq> 0" "i < SLOBOS_MAX_FILE_DESCRIPTORS"
    "file_descriptors s ! i = 0" "file_descriptors s1 = (file_descriptors s)[i := desc]"
    "file_objects s1 desc = Some d" "fd_index d = int i + 1" "fd_table_ok s1"
    "\<forall>k < i. file_descriptors s ! k \<noteq> 0" "desc \<notin> set (file_descriptors s)"
    using new_descriptor_contract [OF assms] True by auto
  have len: "length (file_descriptors s) = 512" and i: "i < 512"
    using assms(1) n(3) by (simp_all add: fd_table_ok_def SLOBOS_MAX_FILE_DESCRIPTORS_def)
  have at: "file_descriptors s1 ! i = desc" using n(5) len i by simp
  obtain s2 where f: "file_free_descriptor desc s1 = Inr s2" "file_descriptors s2 = (file_descriptors s1)[i := 0]"
    "fd_table_ok s2"
    using free_descriptor_contract [OF n(8,3) at n(2)] by blast
  have "file_descriptors s2 = file_descriptors s" using f(2) n(4,5) by (metis list_update_overwrite list_update_id)
  moreover have "file_get_descriptor fd s1 = file_get_descriptor fd s" if "fd \<noteq> int i + 1" for fd
  proof (cases "fd \<le> 0 \<or> 512 \<le> fd")
    case False
    then have "i \<noteq> nat (fd - 1)" using that by linarith
    then show ?thesis using False n(5) by (simp add: file_get_descriptor_def SLOBOS_MAX_FILE_DESCRIPTORS_def)
  qed (auto simp: file_get_descriptor_def SLOBOS_MAX_FILE_DESCRIPTORS_def)
  moreover have "file_get_descriptor (int i + 1) s1 = (if i = 511 then 0 else desc)"
    using at i by (auto simp: file_get_descriptor_def SLOBOS_MAX_FILE_DESCRIPTORS_def)
  ultimately show ?thesis unfolding if_not_P [OF not_not [THEN iffD2, OF True]] using n i f by blast
qed

theorem descriptor_table_witness:
  "\<exists>desc s1. file_new_descriptor (snd (kheap_init demo_kernel)) = Inr (0, desc, s1) \<and> desc \<noteq> 0 \<and>
     file_get_descriptor 1 s1 = desc \<and> fd_table_ok s1"
proof -
  let ?s = "snd (kheap_init demo_kernel)"
  have fds: "file_descriptors ?s = replicate 512 0" by (simp add: kheap_init_eq demo_kernel_def)
  have "fd_table_ok ?s"
    using booted_client(1) [of demo_kernel] by (simp add: fd_table_ok_def fds c_defs)
  moreover have "0 < kheap_spare ?s" using booted_client(2) [of demo_kernel] by simp
  ultimately obtain i desc s1 where n: "file_new_descriptor ?s = Inr (0, desc, s1)" "i < 512" "desc \<noteq> 0" "fd_table_ok s1"
    "\<forall>k < i. replicate 512 0 ! k \<noteq> (0 :: u32)" "file_get_descriptor (int i + 1) s1 = (if i = 511 then 0 else desc)"
    using descriptor_table [of ?s] unfolding fds by auto
  have "i = 0" using n(2,5) by (cases i) auto
  then show ?thesis using n by auto
qed

end
