(* ===== verification/Fat16_Props.thy ===== *)
theory Fat16_Props
  imports File_Props Disk_Props
begin

text \<open>
  Reading files. The streams of the driver are an interface: a position in an array of bytes. The
  client is the cluster code, and above it \<open>fread\<close>.
\<close>

unbundle bit_operations_syntax

section \<open>The interface of a stream\<close>

text \<open>
  \<open>ok\<close>: the stream is usable; \<open>img\<close> are the bytes behind it, up to \<open>limit\<close>; \<open>same s t\<close>: nothing
  but the stream has changed.
\<close>

locale byte_stream =
  fixes ok :: "'s \<Rightarrow> bool"
    and img :: "nat \<Rightarrow> u8"
    and limit :: int
    and pos :: "'s \<Rightarrow> int"
    and seek :: "int \<Rightarrow> 's \<Rightarrow> (int \<times> 's) outcome"
    and read :: "int \<Rightarrow> 's \<Rightarrow> (int \<times> u8 list \<times> 's) outcome"
    and same :: "'s \<Rightarrow> 's \<Rightarrow> bool"
  assumes seek_at: "ok s \<Longrightarrow> \<exists>t. seek p s = Inr (0, t) \<and> ok t \<and> pos t = p \<and> same s t"
    and read_at: "ok s \<Longrightarrow> 0 \<le> pos s \<Longrightarrow> 0 \<le> n \<Longrightarrow> pos s + n < limit \<Longrightarrow>
      \<exists>t. read n s = Inr (0, map img [nat (pos s)..<nat (pos s + n)], t) \<and> ok t \<and> pos t = pos s + n \<and> same s t"
    and same_trans: "same s t \<Longrightarrow> same t u \<Longrightarrow> same s u"
begin

lemma seek_read:
  assumes "ok s" and "0 \<le> p" and "0 \<le> n" and "p + n < limit"
  shows "\<exists>t u. seek p s = Inr (0, t) \<and> read n t = Inr (0, map img [nat p..<nat (p + n)], u) \<and>
    ok u \<and> pos u = p + n \<and> same s u"
proof -
  obtain t where t: "seek p s = Inr (0, t)" "ok t" "pos t = p" "same s t" using seek_at [OF assms(1)] by blast
  obtain u where "read n t = Inr (0, map img [nat p..<nat (p + n)], u)" "ok u" "pos u = p + n" "same t u"
    using read_at [OF t(2)] t(3) assms(2-4) by auto
  then show ?thesis using t same_trans by blast
qed

text \<open>Two reads one after the other are one read.\<close>

lemma read_twice:
  assumes "ok s" and "0 \<le> pos s" and "0 \<le> k" and "0 \<le> n" and "pos s + k + n < limit"
  shows "\<exists>a b t u. read k s = Inr (0, a, t) \<and> read n t = Inr (0, b, u) \<and>
    a @ b = map img [nat (pos s)..<nat (pos s + k + n)] \<and> ok u \<and> pos u = pos s + k + n"
proof -
  obtain t where t: "read k s = Inr (0, map img [nat (pos s)..<nat (pos s + k)], t)" "ok t" "pos t = pos s + k"
    using read_at [OF assms(1,2,3)] assms(4,5) by auto
  obtain u where u: "read n t = Inr (0, map img [nat (pos t)..<nat (pos t + n)], u)" "ok u" "pos u = pos t + n"
    using read_at [OF t(2), of n] t(3) assms by auto
  have "[nat (pos s)..<nat (pos s + k + n)] = [nat (pos s)..<nat (pos s + k)] @ [nat (pos s + k)..<nat (pos s + k + n)]"
    using assms(2-4) upt_add_eq_append [of "nat (pos s)" "nat (pos s + k)" "nat n"] by (simp add: nat_add_distrib)
  then show ?thesis using t u by auto
qed

end

text \<open>A stream object of the kernel on a drive that follows LBA28.\<close>

definition stream_ok :: "platform \<Rightarrow> (nat \<Rightarrow> u8) \<Rightarrow> u32 \<Rightarrow> 'a volumes_scheme \<Rightarrow> bool" where
  "stream_ok pl img st s \<longleftrightarrow> ata_serves (pl_ata pl) img \<and> (\<exists>x. streams s st = Some x \<and> stream_disk x = pl_disk pl)"

definition stream_at :: "u32 \<Rightarrow> 'a volumes_scheme \<Rightarrow> int" where
  "stream_at st s = (case streams s st of None \<Rightarrow> 0 | Some x \<Rightarrow> stream_pos x)"

definition streams_only :: "'a volumes_scheme \<Rightarrow> 'a volumes_scheme \<Rightarrow> bool" where
  "streams_only s t \<longleftrightarrow> (\<exists>f. t = s\<lparr>streams := f\<rparr> \<and>
     (\<forall>a x. streams s a = Some x \<longrightarrow> (\<exists>y. f a = Some y \<and> stream_disk y = stream_disk x)))"

lemma streams_only_ok: "stream_ok pl img a s \<Longrightarrow> streams_only s t \<Longrightarrow> stream_ok pl img a t"
  unfolding stream_ok_def streams_only_def by fastforce

lemma streams_only_upd:
  "streams s a = Some x \<Longrightarrow> stream_disk y = stream_disk x \<Longrightarrow> streams_only s (s\<lparr>streams := (streams s)(a \<mapsto> y)\<rparr>)"
  unfolding streams_only_def by (intro exI [of _ "(streams s)(a \<mapsto> y)"]) auto

lemma streams_only_trans: "streams_only s t \<Longrightarrow> streams_only t u \<Longrightarrow> streams_only s u"
  unfolding streams_only_def by fastforce

interpretation stream: byte_stream "stream_ok pl img st" img 33554432 "stream_at st"
    "stream_seek st" "\<lambda>n. stream_read pl st n" streams_only
  for pl img st
proof unfold_locales
  fix s :: "'a volumes_scheme" and p n :: int
  assume ok: "stream_ok pl img st s"
  then obtain x where x: "streams s st = Some x" "stream_disk x = pl_disk pl" and d: "ata_serves (pl_ata pl) img"
    unfolding stream_ok_def by blast
  show "\<exists>t. stream_seek st p s = Inr (0, t) \<and> stream_ok pl img st t \<and> stream_at st t = p \<and> streams_only s t"
    using x d streams_only_upd [of s, OF x(1)]
    by (auto simp: stream_seek_def deref_def diskstreamer_seek_def Let_def stream_ok_def stream_at_def)
  assume "0 \<le> stream_at st s" "0 \<le> n" "stream_at st s + n < 33554432"
  then show "\<exists>t. stream_read pl st n s = Inr (0, map img [nat (stream_at st s)..<nat (stream_at st s + n)], t) \<and>
      stream_ok pl img st t \<and> stream_at st t = stream_at st s + n \<and> streams_only s t"
    using x d diskstreamer_read_img [OF d x(2), of n] streams_only_upd [of s, OF x(1)]
    by (auto simp: stream_read_def deref_def Let_def stream_ok_def stream_at_def)
next
  show "streams_only s t \<Longrightarrow> streams_only t u \<Longrightarrow> streams_only s u" for s t u :: "'a volumes_scheme"
    by (rule streams_only_trans)
qed

section \<open>A read within a cluster\<close>

text \<open>Where cluster \<open>c\<close> begins on the disk, in bytes.\<close>

definition cluster_byte :: "fat_private \<Rightarrow> int \<Rightarrow> int" where
  "cluster_byte p c = 512 * (dir_ending_sector_pos (root_directory p) + (c - 2) * sectors_per_cluster p)"

lemma sectors_per_cluster_bounds: "0 \<le> sectors_per_cluster p" "sectors_per_cluster p < 256"
  using unsigned_less [of "fat_header p ! 13", where ?'a = int] by (simp_all add: sectors_per_cluster_def header8_def)

lemma size_of_cluster: "disk_sector_size d = 512 \<Longrightarrow> size_of_cluster_bytes p d = 512 * sectors_per_cluster p"
  unfolding size_of_cluster_bytes_def
  using sectors_per_cluster_bounds [of p] by (subst i32_small) simp_all

lemma sdiv_smod_nonneg:
  fixes off b :: int
  assumes "0 \<le> off" and "0 < b"
  shows "off sdiv b = off div b" and "off smod b = off mod b"
  using assms by (auto simp: signed_divide_int_def signed_modulo_int_def sgn_if)

lemma read_piece_in_cluster:
  assumes p: "fat_privates s (disk_fs_private d) = Some p" and d: "disk_sector_size d = 512" and b: "0 < sectors_per_cluster p"
    and find: "fat16_get_cluster_for_offset pl d c off s = Inr (c', t)" and st: "stream_ok pl img st t"
    and off: "0 \<le> off" and n: "0 \<le> n" "k = min n (512 * sectors_per_cluster p)" and c: "0 \<le> c'"
    and pos: "0 \<le> cluster_byte p c'" "x = cluster_byte p c' + off mod (512 * sectors_per_cluster p)" "x + k < 33554432"
  shows "\<exists>u. streams_only t u \<and> read_piece pl d st c off n out s =
    Inr (0, k, u\<lparr>mem := store_bytes (mem t) out (map img [nat x..<nat (x + k)])\<rparr>)"
proof -
  let ?b = "512 * sectors_per_cluster p"
  have q: "off smod ?b = off mod ?b" using sdiv_smod_nonneg off b by simp
  have k: "0 \<le> k" "0 \<le> off mod ?b" using n b by simp_all
  have sector: "fat16_cluster_to_sector p c' = dir_ending_sector_pos (root_directory p) + (c' - 2) * sectors_per_cluster p"
    unfolding fat16_cluster_to_sector_def by (rule i32_small) (use pos k in \<open>simp_all add: cluster_byte_def\<close>)
  have start: "i32 (fat16_cluster_to_sector p c' * disk_sector_size d + off mod ?b) = x"
  proof -
    have e: "fat16_cluster_to_sector p c' * disk_sector_size d + off mod ?b = x"
      unfolding sector d pos(2) cluster_byte_def by (simp only: mult.commute)
    show ?thesis unfolding e by (rule i32_small) (use pos k in linarith)+
  qed
  have x: "0 \<le> x" using pos(1,2) k by simp
  obtain v u where vu: "stream_seek st x t = Inr (0, v)" "stream_read pl st k v = Inr (0, map img [nat x..<nat (x + k)], u)"
    "streams_only t u"
    using stream.seek_read [OF st x k(1) pos(3)] by auto
  have m: "mem u = mem t" using vu(3) by (auto simp: streams_only_def)
  have r: "(if n > ?b then ?b else n) = k" using n(2) by simp
  show ?thesis
    using vu c unfolding read_piece_def deref_def p option.case andthen.simps Let_def size_of_cluster [OF d] find prod.case q start r
    by (intro exI [of _ u]) (simp add: SLOBOS_ALL_OK_def m)
qed

lemma first_cluster_bounds: "0 \<le> sint (fat16_get_first_cluster m item)"
proof -
  let ?w = "load16 m (item + 20) OR load16 m (item + 26)"
  have "unat (fat16_get_first_cluster m item) = take_bit 32 (unat ?w)"
    unfolding fat16_get_first_cluster_def by (simp add: unsigned_ucast_eq)
  also have "\<dots> \<le> unat ?w" by (rule take_bit_nat_less_eq_self)
  also have "unat ?w < 65536" using unsigned_less [of ?w, where ?'a = nat] by simp
  finally show ?thesis by (subst sint_small) simp_all
qed

text \<open>
  Descriptor \<open>fd\<close> is open for a file whose first cluster is \<open>c\<close>, at position \<open>off\<close>; \<open>p\<close> is the
  driver's structure for the disk, whose image is \<open>img\<close>.
\<close>

definition opened :: "platform \<Rightarrow> (nat \<Rightarrow> u8) \<Rightarrow> int \<Rightarrow> fat_private \<Rightarrow> int \<Rightarrow> int \<Rightarrow> 'a vfs_scheme \<Rightarrow> bool" where
  "opened pl img fd p c off s \<longleftrightarrow> 1 \<le> fd \<and> file_get_descriptor fd s \<noteq> 0 \<and>
     (\<exists>e x i. file_objects s (file_get_descriptor fd s) = Some e \<and> fd_filesystem e = pl_fat16_fs pl \<and>
       fd_disk e = pl_disk pl \<and> fat_descriptors s (fd_private e) = Some x \<and> fat_items s (desc_item x) = Some i \<and>
       c = sint (fat16_get_first_cluster (mem s) (item_ptr i)) \<and> off = sint (desc_pos x)) \<and>
     disk_sector_size (the_disk s) = 512 \<and> fat_privates s (disk_fs_private (the_disk s)) = Some p \<and>
     stream_ok pl img (cluster_read_stream p) s"

text \<open>
  \<open>fread\<close> reads the disk. For an open file and a position in its first cluster, a read of at
  most a cluster returns 1 and puts exactly the bytes of the disk image from that place on into
  the buffer: through the descriptor table, the driver, the stream and the sectors. (It does not stop at
  the end of the cluster.) The position of the file is not advanced.
\<close>

theorem fread_first_cluster:
  assumes "opened pl img fd p c off s" and "0 \<le> off" and "off < 512 * sectors_per_cluster p"
    and "sz \<noteq> 0" and "uint sz \<le> 512 * sectors_per_cluster p"
    and "0 \<le> cluster_byte p c" and "cluster_byte p c + off + uint sz < 33554432"
  shows "\<exists>s'. fread pl ptr sz 1 fd s = Inr (1, s') \<and> fat_descriptors s' = fat_descriptors s \<and>
    mem s' = store_bytes (mem s) ptr (map img [nat (cluster_byte p c + off)..<nat (cluster_byte p c + off + uint sz)])"
proof -
  let ?d = "the_disk s"
  obtain e x i where o: "1 \<le> fd" "file_get_descriptor fd s \<noteq> 0" "file_objects s (file_get_descriptor fd s) = Some e"
    "fd_filesystem e = pl_fat16_fs pl" "fd_disk e = pl_disk pl" "fat_descriptors s (fd_private e) = Some x"
    "fat_items s (desc_item x) = Some i" "c = sint (fat16_get_first_cluster (mem s) (item_ptr i))" "off = sint (desc_pos x)"
    "disk_sector_size ?d = 512" "fat_privates s (disk_fs_private ?d) = Some p" "stream_ok pl img (cluster_read_stream p) s"
    using assms(1) unfolding opened_def by blast
  have c: "0 \<le> c" using o(8) first_cluster_bounds by simp
  have "uint sz < 2147483648" using assms(5) sectors_per_cluster_bounds [of p] by linarith
  then have "nat (uint sz) < 2147483648" by linarith
  then have "unat sz < 2147483648" by (simp only: nat_uint_eq)
  then have sz: "sint sz = uint sz" using sint_small [of sz] by simp
  have b: "0 < sectors_per_cluster p" using assms(2,3) by linarith
  have find: "fat16_get_cluster_for_offset pl ?d c off s = Inr (c, s)"
    using assms(2,3) b sdiv_smod_nonneg [of off "512 * sectors_per_cluster p"]
    by (simp add: fat16_get_cluster_for_offset_def deref_def o(11) size_of_cluster [OF o(10)])
  obtain u where "streams_only s u" "read_piece pl ?d (cluster_read_stream p) c off (uint sz) ptr s = Inr (0, uint sz, u\<lparr>
    mem := store_bytes (mem s) ptr (map img [nat (cluster_byte p c + off)..<nat (cluster_byte p c + off + uint sz)])\<rparr>)"
    using read_piece_in_cluster [OF o(11,10) b find o(12) assms(2), of "uint sz" "uint sz" "cluster_byte p c + off" ptr] assms(2,3,5-7) c
    by auto
  then obtain f where f: "read_piece pl ?d (cluster_read_stream p) c off (uint sz) ptr s = Inr (0, uint sz, s\<lparr>streams := f,
    mem := store_bytes (mem s) ptr (map img [nat (cluster_byte p c + off)..<nat (cluster_byte p c + off + uint sz)])\<rparr>)"
    by (auto simp: streams_only_def)
  let ?s = "s\<lparr>streams := f,
    mem := store_bytes (mem s) ptr (map img [nat (cluster_byte p c + off)..<nat (cluster_byte p c + off + uint sz)])\<rparr>"
  have int: "fat16_read_internal pl ?d c off (sint sz) ptr s = Inr (0, ?s)"
    using f by (simp add: fat16_read_internal_def deref_def o(11) sz hang_or_def
      fat16_read_internal_from_stream.simps SLOBOS_ALL_OK_def)
  have "fat16_read pl (pl_disk pl) (fd_private e) sz 1 ptr s = Inr (1, ?s)"
    using int by (simp add: fat16_read_def deref_disk_def deref_def o(6,7) flip: o(8,9))
  then have "fread pl ptr sz 1 fd s = Inr (1, ?s)"
    using o(1-5) assms(4) by (simp add: fread_def deref_def fs_call_def Let_def)
  then show ?thesis by (intro exI [of _ ?s]) simp
qed

definition demo_platform :: platform where
  "demo_platform = \<lparr>pl_ata = image_drive of_nat, pl_disk = 0x88, pl_fat16_fs = 0x77, pl_blank = 32, pl_path = 0,
     pl_undefined = 0\<rparr>"

text \<open>A mounted disk with one sector per cluster and the data area from sector 10 on, and an open file.\<close>

definition demo_private :: fat_private where
  "demo_private = \<lparr>fat_header = replicate 13 0 @ [1] @ replicate 48 0,
     root_directory = \<lparr>dir_item = 0, dir_total = 0, dir_sector_pos = 1, dir_ending_sector_pos = 10\<rparr>,
     cluster_read_stream = 0xA00, fat_read_stream = 0xA10, directory_stream = 0xA20\<rparr>"

definition demo_mounted :: kernel where
  "demo_mounted = demo_kernel\<lparr>
     the_disk := \<lparr>disk_type = 0, disk_sector_size = 512, disk_id = 0, disk_filesystem = 0x77, disk_fs_private = 0x500\<rparr>,
     streams := [0xA00 \<mapsto> \<lparr>stream_pos = 0, stream_disk = 0x88\<rparr>, 0xA10 \<mapsto> \<lparr>stream_pos = 0, stream_disk = 0x88\<rparr>],
     fat_privates := [0x500 \<mapsto> demo_private],
     file_descriptors := 0x600 # replicate 511 0,
     file_objects := [0x600 \<mapsto> \<lparr>fd_index = 1, fd_filesystem = 0x77, fd_private = 0x700, fd_disk = 0x88\<rparr>],
     fat_descriptors := [0x700 \<mapsto> \<lparr>desc_item = 0x800, desc_pos = 3\<rparr>],
     fat_items := [0x800 \<mapsto> \<lparr>item_ptr = 0x900, item_type = 1\<rparr>]\<rparr>"

lemma demo_opened: "opened demo_platform of_nat 1 demo_private 1799 3 demo_mounted"
proof -
  have "load16 (\<lambda>_. 7) a = 1799" for a :: u32 by (simp add: load16_def)
  then have "sint (fat16_get_first_cluster (\<lambda>_. 7) 0x900) = 1799" by (simp add: fat16_get_first_cluster_def)
  then show ?thesis
    by (simp add: opened_def demo_mounted_def demo_kernel_def file_get_descriptor_def c_defs demo_platform_def
        demo_private_def stream_ok_def image_drive_serves)
qed

theorem fread_first_cluster_witness:
  "\<exists>s'. fread demo_platform 0x3000 2 1 1 demo_mounted = Inr (1, s') \<and> mem s' 0x3000 = 3 \<and> mem s' 0x3001 = 4"
proof -
  have b: "sectors_per_cluster demo_private = 1" "cluster_byte demo_private 1799 = 925184"
    by (simp_all add: sectors_per_cluster_def header8_def demo_private_def cluster_byte_def nth_append)
  obtain s' where s': "fread demo_platform 0x3000 2 1 1 demo_mounted = Inr (1, s')"
    "mem s' = store_bytes (mem demo_mounted) 0x3000 (map of_nat [925187..<925189])"
    using fread_first_cluster [OF demo_opened, of 2 "0x3000"] b by auto
  have "[925187..<925189 :: nat] = [925187, 925188]" by (simp add: upt_rec)
  then show ?thesis using s' by (simp add: store_bytes_def)
qed

section \<open>Every item is a file\<close>

text \<open>
  What the driver does to its items: reading leaves them alone, and every item that is made has
  the type of a file, whatever it stands for.
\<close>

lemma fat_items_mem_only [simp]: "mem_only s t \<Longrightarrow> fat_items t = fat_items s"
  for s t :: "'a fat_volumes_scheme"
  by (auto simp: mem_only_def)

lemma fat_items_kzalloc [simp]: "fat_items (snd (kzalloc n s)) = fat_items s"
  by (rule fat_items_mem_only) simp

lemma fat_items_kfree [simp]: "fat_items (kfree p s) = fat_items s"
  by (rule fat_items_mem_only) simp

lemma fat_items_seek: "stream_seek st p s = Inr (r, t) \<Longrightarrow> fat_items t = fat_items s"
  by (auto simp: stream_seek_def andthen_eq_Inr Let_def case_prod_unfold)

lemma fat_items_read: "stream_read pl st n s = Inr (r, b, t) \<Longrightarrow> fat_items t = fat_items s"
  by (auto simp: stream_read_def andthen_eq_Inr)

lemma fat_items_count: "count_items pl st i s = Some (Inr (r, t)) \<Longrightarrow> fat_items t = fat_items s"
proof -
  have "count_items pl st i s = Some x \<Longrightarrow> (\<forall>r t. x = Inr (r, t) \<longrightarrow> fat_items t = fat_items s)" for x
  proof (induction rule: count_items.raw_induct [rotated, consumes 1])
    case (1 f pl st i s x)
    then show ?case
      by (fastforce dest: fat_items_read split: sum.splits prod.splits if_splits)
  qed
  then show "count_items pl st i s = Some (Inr (r, t)) \<Longrightarrow> fat_items t = fat_items s" by blast
qed

lemma hang_or_Inr: "hang_or x = Inr y \<longleftrightarrow> x = Some (Inr y)"
  by (auto simp: hang_or_def split: option.splits)

lemma fat_items_total:
  "fat16_get_total_items_for_directory pl d n s = Inr (r, t) \<Longrightarrow> fat_items t = fat_items s"
  by (auto simp: fat16_get_total_items_for_directory_def andthen_eq_Inr Let_def hang_or_Inr
      dest!: fat_items_seek fat_items_count split: if_splits)

lemma fat_items_entry: "fat16_get_fat_entry pl d c s = Inr (r, t) \<Longrightarrow> fat_items t = fat_items s"
  by (auto simp: fat16_get_fat_entry_def andthen_eq_Inr Let_def dest!: fat_items_seek fat_items_read split: if_splits)

lemma fat_items_follow: "follow_clusters pl d n c s = Inr (r, t) \<Longrightarrow> fat_items t = fat_items s"
  by (induction n arbitrary: c s) (auto simp: andthen_eq_Inr dest!: fat_items_entry split: if_splits)

lemma fat_items_cluster: "fat16_get_cluster_for_offset pl d c off s = Inr (r, t) \<Longrightarrow> fat_items t = fat_items s"
  by (auto simp: fat16_get_cluster_for_offset_def andthen_eq_Inr Let_def dest!: fat_items_follow split: if_splits)

lemma fat_items_piece:
  assumes "read_piece pl d st c off n out s = Inr (r, k, t)"
  shows "fat_items t = fat_items s"
proof -
  obtain p where p: "fat_privates s (disk_fs_private d) = Some p"
    using assms by (cases "fat_privates s (disk_fs_private d)") (simp_all add: read_piece_def deref_def)
  obtain c1 u where u: "fat16_get_cluster_for_offset pl d c off s = Inr (c1, u)"
    using assms by (auto simp: read_piece_def deref_def p Let_def andthen_eq_Inr)
  show ?thesis
  proof (cases "c1 < 0")
    case True
    then show ?thesis using assms fat_items_cluster [OF u] by (simp add: read_piece_def deref_def p Let_def u)
  next
    case False
    let ?p = "i32 (fat16_cluster_to_sector p c1 * disk_sector_size d + off smod size_of_cluster_bytes p d)"
    let ?n = "if n > size_of_cluster_bytes p d then size_of_cluster_bytes p d else n"
    have b: "andthen (stream_seek st ?p u) (\<lambda>(res, s).
        if res \<noteq> SLOBOS_ALL_OK then Inr (res, 0, s)
        else andthen (stream_read pl st ?n s) (\<lambda>(res, bytes, s).
          Inr (res, ?n, s\<lparr>mem := store_bytes (mem s) out bytes\<rparr>))) = Inr (r, k, t)"
      using assms False by (simp add: read_piece_def deref_def p Let_def u)
    then obtain r1 v where v: "stream_seek st ?p u = Inr (r1, v)" by (auto simp: andthen_eq_Inr)
    have "fat_items t = fat_items v"
      using b unfolding v by (auto simp: andthen_eq_Inr dest: fat_items_read split: if_splits)
    then show ?thesis using fat_items_cluster [OF u] fat_items_seek [OF v] by simp
  qed
qed

lemma fat_items_read_from_stream:
  "fat16_read_internal_from_stream pl d st c off n out s = Some (Inr (r, t)) \<Longrightarrow> fat_items t = fat_items s"
proof -
  have "fat16_read_internal_from_stream pl d st c off n out s = Some x \<Longrightarrow> (\<forall>r t. x = Inr (r, t) \<longrightarrow> fat_items t = fat_items s)" for x
  proof (induction rule: fat16_read_internal_from_stream.raw_induct [rotated, consumes 1])
    case (1 f pl d st c off n out s x)
    then show ?case
      by (fastforce dest: fat_items_piece split: sum.splits prod.splits if_splits)
  qed
  then show "fat16_read_internal_from_stream pl d st c off n out s = Some (Inr (r, t)) \<Longrightarrow> fat_items t = fat_items s" by blast
qed

lemma fat_items_read_internal: "fat16_read_internal pl d c off n out s = Inr (r, t) \<Longrightarrow> fat_items t = fat_items s"
  by (auto simp: fat16_read_internal_def andthen_eq_Inr hang_or_Inr dest!: fat_items_read_from_stream)

lemma fat_items_free_directory: "fat16_free_directory p s = Inr t \<Longrightarrow> fat_items t = fat_items s"
  by (auto simp: fat16_free_directory_def andthen_eq_Inr Let_def split: if_splits)

lemma fat_items_load: "fat16_load_fat_directory pl d item s = Inr (r, t) \<Longrightarrow> fat_items t = fat_items s"
  by (auto simp: fat16_load_fat_directory_def andthen_eq_Inr Let_def case_prod_unfold
      dest!: fat_items_total fat_items_read_internal fat_items_free_directory split: if_splits)

definition only_files :: "'a fat_volumes_scheme \<Rightarrow> bool" where
  "only_files s \<longleftrightarrow> (\<forall>p i. fat_items s p = Some i \<longrightarrow> item_type i = FAT_ITEM_TYPE_FILE)"

lemma only_files_new:
  assumes "fat16_new_fat_item_for_directory_item pl d item s = Inr (r, t)" and "only_files s"
  shows "only_files t"
  using assms
  by (auto simp: fat16_new_fat_item_for_directory_item_def andthen_eq_Inr Let_def case_prod_unfold only_files_def
      fat16_clone_directory_item_def dest!: fat_items_load split: if_splits)

lemma only_files_find: "find_item_loop pl d dir name i n f s = Inr (r, t) \<Longrightarrow> only_files s \<Longrightarrow> only_files t"
  by (induction n arbitrary: i f s) (auto simp: andthen_eq_Inr dest: only_files_new split: if_splits)

lemma entry_needs_root:
  assumes "only_files s" and "path_parts s path = Some part" and "part_next part \<noteq> 0"
    and "fat16_get_directory_entry pl d path s = Inr (item, t)"
  shows "item = 0"
proof -
  obtain p where p: "fat_privates s (disk_fs_private d) = Some p"
    using assms(4) by (cases "fat_privates s (disk_fs_private d)") (simp_all add: fat16_get_directory_entry_def deref_def)
  obtain r u where u: "fat16_find_item_in_directory pl d (root_directory p) (part_str part) s = Inr (r, u)"
    and b: "(if r = 0 then Inr (0, u) else hang_or (descend pl d (part_next part) r u)) = Inr (item, t)"
    using assms(4) by (auto simp: fat16_get_directory_entry_def deref_def p assms(2) andthen_eq_Inr)
  have files: "only_files u"
    using only_files_find u assms(1) unfolding fat16_find_item_in_directory_def by blast
  show ?thesis
  proof (cases "r = 0")
    case False
    then have "descend pl d (part_next part) r u = Some (Inr (item, t))" using b by (simp add: hang_or_Inr)
    then show ?thesis
      using assms(3) files
      by (subst (asm) descend.simps)
        (auto simp: deref_def only_files_def FAT_ITEM_TYPE_FILE_def FAT_ITEM_TYPE_DIRECTORY_def split: option.splits)
  qed (use b in simp)
qed

text \<open>
  C40: nothing below the root can be opened. Every item the driver makes is marked as a file, the
  directories among them too; so as long as it has only such items, opening a path of two or more
  names returns an error, whatever the disk holds.
\<close>

theorem fat16_open_subdirectory_fails:
  assumes "only_files s" and "path_parts s path = Some part" and "part_next part \<noteq> 0"
    and "fat16_open pl disk path mode s = Inr (r, t)"
  shows "sint r < 0"
proof (cases "mode = FILE_MODE_READ")
  case False
  then show ?thesis using assms(4) by (auto simp: fat16_open_def c_defs)
next
  case True
  obtain desc s1 where z: "kzalloc 8 s = (desc, s1)" by (cases "kzalloc 8 s")
  obtain m where m: "s1 = s\<lparr>mem := m\<rparr>"
    using mem_only_kzalloc [OF mem_only_refl, of s 8] z unfolding mem_only_def by auto
  show ?thesis
  proof (cases "desc = 0")
    case True
    then show ?thesis using \<open>mode = FILE_MODE_READ\<close> assms(4) by (auto simp: fat16_open_def z c_defs)
  next
    case False
    obtain d item u where u: "fat16_get_directory_entry pl d path s1 = Inr (item, u)"
      and b: "item = 0 \<Longrightarrow> r = word_of_int (- EIO)"
      using True False assms(4) by (auto simp: fat16_open_def z andthen_eq_Inr Let_def split: if_splits)
    have "only_files s1" "path_parts s1 path = Some part" using assms(1,2) by (simp_all add: m only_files_def)
    then have "item = 0" using entry_needs_root [OF _ _ assms(3) u] by blast
    then show ?thesis using b by (simp add: c_defs)
  qed
qed

definition demo_path :: kernel where
  "demo_path = snd (kheap_init (demo_mounted\<lparr>path_parts := [0x40 \<mapsto> \<lparr>part_str = 0x50, part_next = 0x60\<rparr>]\<rparr>))"

theorem fat16_open_subdirectory_fails_witness:
  "\<exists>r t. fat16_open demo_platform 0x88 0x40 FILE_MODE_READ demo_path = Inr (r, t) \<and> sint r < 0"
proof -
  have f: "the_disk demo_path = the_disk demo_mounted" "fat_privates demo_path = fat_privates demo_mounted"
    "fat_items demo_path = fat_items demo_mounted" "path_parts demo_path = [0x40 \<mapsto> \<lparr>part_str = 0x50, part_next = 0x60\<rparr>]"
    by (simp_all add: demo_path_def kheap_init_eq)
  obtain desc s1 where z: "kzalloc 8 demo_path = (desc, s1)" by (cases "kzalloc 8 demo_path")
  obtain m where m: "s1 = demo_path\<lparr>mem := m\<rparr>"
    using mem_only_kzalloc [OF mem_only_refl, of demo_path 8] z unfolding mem_only_def by auto
  have "\<exists>r t. fat16_open demo_platform 0x88 0x40 FILE_MODE_READ demo_path = Inr (r, t)"
    by (simp add: fat16_open_def z m deref_disk_def demo_platform_def f demo_mounted_def fat16_get_directory_entry_def
        deref_def demo_private_def fat16_find_item_in_directory_def Let_def)
  then obtain r t where r: "fat16_open demo_platform 0x88 0x40 FILE_MODE_READ demo_path = Inr (r, t)" by blast
  have "only_files demo_path" by (simp add: only_files_def f demo_mounted_def FAT_ITEM_TYPE_FILE_def)
  then have "sint r < 0" using fat16_open_subdirectory_fails [OF _ _ _ r] f(4) by simp
  then show ?thesis using r by blast
qed

text \<open>
  The file allocation table is read at the wrong place: the entry of cluster \<open>c\<close> is taken from
  \<open>2 * c\<close> times the position of the table, not from \<open>2 * c\<close> bytes after it.
\<close>

definition entry_position :: "fat_private \<Rightarrow> int \<Rightarrow> int" where
  "entry_position p c = reserved_sectors p * 512 * (2 * c)"

lemma fat_entry_read:
  assumes st: "stream_ok pl img (fat_read_stream p) s" "fat_read_stream p \<noteq> 0"
    and p: "fat_privates s (disk_fs_private d) = Some p" and d: "disk_sector_size d = 512"
    and c: "0 \<le> c" and lim: "entry_position p c + 2 < 33554432"
  shows "\<exists>t. fat16_get_fat_entry pl d c s =
      Inr (uint (img (nat (entry_position p c))) + 256 * uint (img (nat (entry_position p c) + 1)), t) \<and> streams_only s t"
proof -
  let ?q = "entry_position p c"
  have r: "0 \<le> reserved_sectors p" by (simp add: reserved_sectors_def header16_def)
  then have q: "0 \<le> ?q" using c by (simp add: entry_position_def)
  have "sint (word_of_int ?q :: u32) = i32 ?q" by (simp add: i32_def signed_of_int)
  then have pos: "sint (fat16_get_first_fat_sector p * word_of_int (disk_sector_size d) *
      word_of_int (c * SLOBOS_FAT16_FAT_ENTRY_SIZE)) = ?q"
    using q lim i32_small [of ?q]
    by (simp add: fat16_get_first_fat_sector_def entry_position_def d c_defs flip: wi_hom_mult)
  obtain t u where tu: "stream_seek (fat_read_stream p) ?q s = Inr (0, t)"
    "stream_read pl (fat_read_stream p) 2 t = Inr (0, map img [nat ?q..<nat (?q + 2)], u)" "streams_only s u"
    using stream.seek_read [OF st(1) q, of 2] lim by auto
  have "[nat ?q..<nat (?q + 2)] = [nat ?q, nat ?q + 1]" using q by (simp add: nat_add_distrib upt_rec)
  then show ?thesis
    unfolding fat16_get_fat_entry_def deref_def p option.case andthen.simps Let_def pos
    using tu st(2) by simp
qed

theorem fat16_entry_position:
  assumes "stream_ok pl img (fat_read_stream p) s" and "fat_privates s (disk_fs_private d) = Some p"
    and "fat_read_stream p \<noteq> 0" and "disk_sector_size d = 512" and "0 \<le> c"
    and "q = reserved_sectors p * 512 * (2 * c)" and "q + 2 < 33554432"
  shows "\<exists>t. fat16_get_fat_entry pl d c s = Inr (uint (img (nat q)) + 256 * uint (img (nat q + 1)), t)"
  using fat_entry_read [OF assms(1,3,2,4,5)] assms(6,7) by (auto simp: entry_position_def)

theorem fat16_entry_position_witness:
  "\<exists>p s t. reserved_sectors p = 1 \<and> fat16_get_fat_entry demo_platform (the_disk s) 3 (s :: kernel) = Inr (256, t)"
proof -
  let ?p = "demo_private\<lparr>fat_header := replicate 14 0 @ [1] @ replicate 47 0\<rparr>"
  let ?s = "demo_mounted\<lparr>fat_privates := [0x500 \<mapsto> ?p]\<rparr>"
  have r: "reserved_sectors ?p = 1" by (simp add: reserved_sectors_def header16_def nth_append)
  have "\<exists>t. fat16_get_fat_entry demo_platform (the_disk ?s) 3 ?s =
      Inr (uint (of_nat (nat 3072) :: u8) + 256 * uint (of_nat (nat 3072 + 1) :: u8), t)"
    by (rule fat16_entry_position [of _ _ ?p])
      (simp_all only: r, simp_all add: stream_ok_def demo_platform_def image_drive_serves demo_mounted_def demo_private_def)
  then obtain t where "fat16_get_fat_entry demo_platform (the_disk ?s) 3 ?s = Inr (256, t)" by auto
  then show ?thesis using r by blast
qed

end
