(* ===== verification/Elf_Props.thy ===== *)
theory Elf_Props
  imports Elf
begin

text \<open>
  What the pass over the program headers computes: the lowest address and the highest end of the
  segments to be loaded, with the places in the loaded file that belong to them.
\<close>

unbundle bit_operations_syntax

section \<open>The reference definition\<close>

definition load_segments :: "byte_mem \<Rightarrow> u32 list \<Rightarrow> u32 list" where
  "load_segments m phdrs = filter (\<lambda>h. p_type m h = PT_LOAD) phdrs"

definition segment_end :: "byte_mem \<Rightarrow> u32 \<Rightarrow> u32" where
  "segment_end m h = p_vaddr m h + p_filesz m h"

text \<open>
  The code takes a base address of 0 for one that is not set yet, so a segment at address 0 is forgotten when the next
  one comes: only the segments after the last one at 0 count.
\<close>

definition since_zero :: "byte_mem \<Rightarrow> u32 list \<Rightarrow> u32 list" where
  "since_zero m hs = rev (takeWhile (\<lambda>h. p_vaddr m h \<noteq> 0) (rev hs))"

lemma since_zero_snoc: "since_zero m (hs @ [h]) = (if p_vaddr m h = 0 then [] else since_zero m hs @ [h])"
  by (simp add: since_zero_def)

lemma since_zero_all: "\<forall>h \<in> set hs. p_vaddr m h \<noteq> 0 \<Longrightarrow> since_zero m hs = hs"
  unfolding since_zero_def by (subst takeWhile_eq_all_conv [THEN iffD2]) auto

lemma since_zero_nonzero: "h \<in> set (since_zero m hs) \<Longrightarrow> p_vaddr m h \<noteq> 0"
  unfolding since_zero_def by (auto dest: set_takeWhileD)

text \<open>\<open>f\<close> describes the segments \<open>hs\<close>; \<open>base\<close> and \<open>top\<close> are headers where the bounds are reached.\<close>

definition spans :: "byte_mem \<Rightarrow> u32 list \<Rightarrow> elf_file \<Rightarrow> bool" where
  "spans m hs f \<longleftrightarrow>
     virtual_base_address f = (if since_zero m hs = [] then 0 else Min (p_vaddr m ` set (since_zero m hs))) \<and>
     virtual_end_address f = Max (segment_end m ` set hs) \<and>
     (\<exists>base\<in>set hs. p_vaddr m base = virtual_base_address f \<and>
       physical_base_address f = elf_memory f + p_offset m base) \<and>
     (\<exists>top\<in>set hs. segment_end m top = virtual_end_address f \<and>
       physical_end_address f = elf_memory f + p_offset m top + p_filesz m top)"

section \<open>One header\<close>

text \<open>What one segment does to the bounds.\<close>

lemma phdr_fields:
  shows "virtual_base_address (elf_process_phdr_pt_load m h f) =
      (if virtual_base_address f \<ge> p_vaddr m h \<or> virtual_base_address f = 0 then p_vaddr m h else virtual_base_address f)"
    and "virtual_end_address (elf_process_phdr_pt_load m h f) =
      (if virtual_end_address f \<le> segment_end m h \<or> virtual_end_address f = 0 then segment_end m h else virtual_end_address f)"
    and "physical_base_address (elf_process_phdr_pt_load m h f) =
      (if virtual_base_address f \<ge> p_vaddr m h \<or> virtual_base_address f = 0 then elf_memory f + p_offset m h
       else physical_base_address f)"
    and "physical_end_address (elf_process_phdr_pt_load m h f) =
      (if virtual_end_address f \<le> segment_end m h \<or> virtual_end_address f = 0
       then elf_memory f + p_offset m h + p_filesz m h else physical_end_address f)"
    and "elf_memory (elf_process_phdr_pt_load m h f) = elf_memory f"
  by (simp_all add: elf_process_phdr_pt_load_def Let_def segment_end_def elf_memory_def)

lemma spans_first:
  assumes "virtual_base_address f = 0" and "virtual_end_address f = 0"
  shows "spans m [h] (elf_process_phdr_pt_load m h f)"
  using assms by (simp add: spans_def phdr_fields since_zero_def)

lemma spans_next:
  assumes "spans m hs f" and "hs \<noteq> []"
  shows "spans m (hs @ [h]) (elf_process_phdr_pt_load m h f)"
proof -
  let ?g = "elf_process_phdr_pt_load m h f" and ?z = "since_zero m hs"
  have b: "virtual_base_address f = (if ?z = [] then 0 else Min (p_vaddr m ` set ?z))"
    and e: "virtual_end_address f = Max (segment_end m ` set hs)"
    using assms(1) by (simp_all add: spans_def)
  have ne: "segment_end m ` set hs \<noteq> {}" using assms(2) by simp
  have B: "virtual_base_address ?g = (if since_zero m (hs @ [h]) = [] then 0 else Min (p_vaddr m ` set (since_zero m (hs @ [h]))))"
  proof (cases "p_vaddr m h = 0 \<or> ?z = []")
    case True
    then show ?thesis using b by (auto simp: phdr_fields since_zero_snoc)
  next
    case False
    then have "virtual_base_address f \<in> p_vaddr m ` set ?z" unfolding b by (simp add: Min_in)
    then have "virtual_base_address f \<noteq> 0" using since_zero_nonzero by auto
    then show ?thesis using False b by (auto simp: phdr_fields since_zero_snoc min_def)
  qed
  have "Max (segment_end m ` set (hs @ [h])) = max (segment_end m h) (virtual_end_address f)"
    unfolding e using ne by simp
  then have E: "virtual_end_address ?g = Max (segment_end m ` set (hs @ [h]))"
    by (auto simp: phdr_fields max_def)
  have "\<exists>base\<in>set (hs @ [h]). p_vaddr m base = virtual_base_address ?g \<and>
      physical_base_address ?g = elf_memory ?g + p_offset m base"
    using assms(1) by (auto simp: spans_def phdr_fields)
  moreover have "\<exists>top\<in>set (hs @ [h]). segment_end m top = virtual_end_address ?g \<and>
      physical_end_address ?g = elf_memory ?g + p_offset m top + p_filesz m top"
    using assms(1) by (auto simp: spans_def phdr_fields)
  ultimately show ?thesis using B E by (simp only: spans_def)
qed

lemma headers_span:
  assumes "virtual_base_address f = 0" and "virtual_end_address f = 0"
  shows "if load_segments m hs = [] then fold (elf_process_pheader m) hs f = f
    else spans m (load_segments m hs) (fold (elf_process_pheader m) hs f)"
proof (induction hs rule: rev_induct)
  case Nil
  then show ?case by (simp add: load_segments_def)
next
  case (snoc h hs)
  let ?f = "fold (elf_process_pheader m) hs f"
  have IH: "if load_segments m hs = [] then ?f = f else spans m (load_segments m hs) ?f"
    by (rule snoc)
  show ?case
  proof (cases "p_type m h = PT_LOAD")
    case False
    then have "load_segments m (hs @ [h]) = load_segments m hs" "elf_process_pheader m h ?f = ?f"
      by (simp_all add: load_segments_def elf_process_pheader_def)
    then show ?thesis using IH by (simp only: fold_append fold.simps o_apply id_apply)
  next
    case True
    then have l: "load_segments m (hs @ [h]) = load_segments m hs @ [h]"
      and s: "elf_process_pheader m h ?f = elf_process_phdr_pt_load m h ?f"
      by (simp_all add: load_segments_def elf_process_pheader_def)
    show ?thesis
    proof (cases "load_segments m hs = []")
      case True
      then show ?thesis using IH l s spans_first [OF assms(1,2)] by simp
    next
      case False
      then show ?thesis using IH l s False spans_next by simp
    qed
  qed
qed

lemma elf_process_pheaders_fold:
  "elf_process_pheaders m f = fold (elf_process_pheader m)
     (map (elf_program_header m (elf_header f)) [0..<unat (e_phnum m (elf_header f))]) f"
  by (simp add: elf_process_pheaders_def fold_map o_def)

text \<open>
  C25: the bounds of a loaded program. On a new ELF file the pass over the program headers yields the highest end of
  the loadable segments and, when none of them is at address 0, their lowest address, in any order of the headers, with
  the addresses of these in the file's memory; a file without loadable segments keeps its zero bounds. A segment at
  address 0 is taken for none at all: the base is then the lowest address of the segments after the last one at 0
  (\<open>since_zero\<close>), or 0 if there are none.
\<close>

theorem elf_process_pheaders_bounds:
  assumes "virtual_base_address f = 0" and "virtual_end_address f = 0"
    and "hs = load_segments m (map (elf_program_header m (elf_header f)) [0..<unat (e_phnum m (elf_header f))])"
    and "f' = elf_process_pheaders m f"
  shows "if hs = [] then f' = f
    else virtual_base_address f' = (if since_zero m hs = [] then 0 else Min (p_vaddr m ` set (since_zero m hs))) \<and>
      ((\<forall>h \<in> set hs. p_vaddr m h \<noteq> 0) \<longrightarrow> virtual_base_address f' = Min (p_vaddr m ` set hs)) \<and>
      virtual_end_address f' = Max (segment_end m ` set hs) \<and>
      (\<exists>base \<in> set hs. p_vaddr m base = virtual_base_address f' \<and> physical_base_address f' = elf_memory f' + p_offset m base) \<and>
      (\<exists>top \<in> set hs. segment_end m top = virtual_end_address f' \<and>
        physical_end_address f' = elf_memory f' + p_offset m top + p_filesz m top)"
proof -
  have H: "if hs = [] then f' = f else spans m hs f'"
    using headers_span [OF assms(1,2)] unfolding assms(3,4) elf_process_pheaders_fold .
  show ?thesis
  proof (cases "hs = []")
    case False
    then have S: "spans m hs f'" using H by simp
    have all: "(\<forall>h \<in> set hs. p_vaddr m h \<noteq> 0) \<longrightarrow> virtual_base_address f' = Min (p_vaddr m ` set hs)"
      using S since_zero_all [of hs m] False by (simp add: spans_def)
    show ?thesis unfolding if_not_P [OF False] using S all unfolding spans_def by (elim conjE) (intro conjI, assumption+)
  qed (use H in simp)
qed

text \<open>
  A file at 0 with two headers from 64 on: segments at \<open>0x400000\<close> (32 bytes) and \<open>0x300000\<close> (16).
\<close>

definition demo_elf :: byte_mem where
  "demo_elf = store32 (store32 (store32 (store32 (store32 (store32 (store32 (store32 (\<lambda>_. 0)
     28 64) 44 2) 64 1) (64 + 8) 0x400000) (64 + 16) 32) 96 1) (96 + 8) 0x300000) (96 + 16) 16"

theorem elf_process_pheaders_bounds_witness:
  "let f = elf_process_pheaders demo_elf \<lparr>in_memory_size = 0, ef_memory = 0, virtual_base_address = 0,
       virtual_end_address = 0, physical_base_address = 0, physical_end_address = 0\<rparr>
   in virtual_base_address f = 0x300000 \<and> virtual_end_address f = 0x400020"
proof -
  let ?f = "\<lparr>in_memory_size = 0, ef_memory = 0, virtual_base_address = 0,
       virtual_end_address = 0, physical_base_address = 0, physical_end_address = 0\<rparr>"
  have n: "e_phnum demo_elf 0 = 2" and o: "e_phoff demo_elf 0 = 64"
    by (simp_all add: e_phnum_def e_phoff_def demo_elf_def load16_def load32_def store32_def)
  have h: "map (elf_program_header demo_elf (elf_header ?f)) [0..<unat (e_phnum demo_elf (elf_header ?f))] = [64, 96]"
    by (simp add: elf_header_def n elf_program_header_def elf_pheader_def o upt_rec)
  have v: "p_type demo_elf 64 = 1" "p_type demo_elf 96 = 1" "p_vaddr demo_elf 64 = 0x400000" "p_vaddr demo_elf 96 = 0x300000"
    "p_filesz demo_elf 64 = 32" "p_filesz demo_elf 96 = 16"
    by (simp_all add: p_type_def p_vaddr_def p_filesz_def demo_elf_def load32_def store32_def)
  have l: "load_segments demo_elf [64, 96] = [64, 96]" by (simp add: load_segments_def v PT_LOAD_def)
  have z: "since_zero demo_elf [64, 96] = [64, 96]" by (rule since_zero_all) (simp add: v)
  show ?thesis
    using elf_process_pheaders_bounds [of ?f _ demo_elf, OF _ _ refl refl] unfolding h l z by (simp add: segment_end_def v)
qed

end
