(* ===== verification/Process_Props.thy ===== *)
theory Process_Props
  imports Process Task_Props
begin

text \<open>
  The memory of a process: an allocation is a range of kernel heap pages that the page directory
  of the process maps to themselves and that its table of allocations records. \<open>process_malloc\<close>
  makes one, \<open>process_free\<close> takes it back.
\<close>

unbundle bit_operations_syntax

section \<open>What mapping writes to\<close>

definition outside :: "u32 set \<Rightarrow> u32 \<Rightarrow> bool" where
  "outside P a \<longleftrightarrow> (\<forall>p\<in>P. 4096 \<le> unat (a - p))"

lemma paging_set_frame:
  assumes "chunk_ok c m" and "4096 dvd unat v"
  shows "outside (chunk_pages m c) a \<Longrightarrow> snd (paging_set m (load32 m c) v x) a = m a"
    and "chunk_pages (snd (paging_set m (load32 m c) v x)) c = chunk_pages m c"
    and "user_dir c (snd (paging_set m (load32 m c) v x)) = user_dir c m"
proof -
  let ?d = "load32 m c" and ?m = "snd (paging_set m (load32 m c) v x)"
  have d: "dir_ok ?d m" using assms(1) by (simp add: chunk_ok_def low_dir_ok_def)
  show "outside (chunk_pages m c) a \<Longrightarrow> ?m a = m a"
    using assms(2) by (auto simp: outside_def chunk_pages_def paging_set_eq intro!: store32_slot_outside)
  show "user_dir c ?m = user_dir c m"
    using chunk_set(1) [OF assms] dir_word_set [OF d assms(2)] by (simp add: user_dir_def)
  have "table_at ?m ?d i = table_at m ?d i" if "i < 1024" for i
    using page_entry_set(2) [OF d assms(2,2), of x i] that by auto
  then have "table_at ?m ?d ` {..<1024} = table_at m ?d ` {..<1024}" by auto
  then show "chunk_pages ?m c = chunk_pages m c"
    using chunk_set(1) [OF assms] by (simp add: chunk_pages_def)
qed

lemma map_run_frame:
  assumes "chunk_ok c m" and "\<And>k. k < n \<Longrightarrow> 4096 dvd unat (f k)"
  shows "chunk_ok c (fold (\<lambda>k m. snd (paging_set m (load32 m c) (f k) (g k))) [0..<n] m) \<and>
    chunk_pages (fold (\<lambda>k m. snd (paging_set m (load32 m c) (f k) (g k))) [0..<n] m) c = chunk_pages m c \<and>
    user_dir c (fold (\<lambda>k m. snd (paging_set m (load32 m c) (f k) (g k))) [0..<n] m) = user_dir c m \<and>
    (\<forall>a. outside (chunk_pages m c) a \<longrightarrow>
      fold (\<lambda>k m. snd (paging_set m (load32 m c) (f k) (g k))) [0..<n] m a = m a)"
  using assms(2)
proof (induction n)
  case 0
  then show ?case using assms(1) by simp
next
  case (Suc n)
  let ?t = "fold (\<lambda>k m. snd (paging_set m (load32 m c) (f k) (g k))) [0..<n] m"
  have IH: "chunk_ok c ?t" "chunk_pages ?t c = chunk_pages m c" "user_dir c ?t = user_dir c m"
    "\<forall>a. outside (chunk_pages m c) a \<longrightarrow> ?t a = m a" using Suc by simp_all
  have al: "4096 dvd unat (f n)" using Suc.prems by simp
  show ?case using IH paging_set_frame [OF IH(1) al] chunk_set(2) [OF IH(1) al] by simp
qed

text \<open>A range of pages mapped to a range of frames, and what else the mapping changes: nothing.\<close>

lemma map_to_run:
  assumes c: "chunk_ok c m" and v: "4096 dvd unat v" and p: "4096 dvd unat p" and e: "unat e = unat p + 4096 * n"
    and t: "paging_map_to m c v p e fl = (res, t)"
  shows "res = 0" and "chunk_ok c t" and "chunk_pages t c = chunk_pages m c"
    and "k < n \<Longrightarrow> paging_get t (load32 t c) (v + 4096 * of_nat k) = (p + 4096 * of_nat k) OR fl"
    and "4096 dvd unat w \<Longrightarrow> (\<And>k. k < n \<Longrightarrow> w \<noteq> v + 4096 * of_nat k) \<Longrightarrow>
      paging_get t (load32 t c) w = paging_get m (load32 m c) w"
    and "outside (chunk_pages m c) a \<Longrightarrow> t a = m a" and "user_dir c t = user_dir c m"
proof -
  have le: "p \<le> e" using e by (simp add: word_le_nat_alt)
  have n: "(unat e - unat p) div 4096 = n" using e by simp
  have n2: "n \<le> 1048576" using e unat_u32_bound [of e] by linarith
  have ae: "4096 dvd unat e" unfolding e using p by simp
  have r: "paging_map_range m c v p (int n) fl = (res, t)"
    using t map_to_pages [OF le] v p ae le n by (simp add: paging_map_to_def aligned_iff_mod not_less split: if_splits)
  note M = map_range_maps [OF c v p _ _ r]
  show "res = 0" and "chunk_ok c t"
    and "k < n \<Longrightarrow> paging_get t (load32 t c) (v + 4096 * of_nat k) = (p + 4096 * of_nat k) OR fl"
    and "4096 dvd unat w \<Longrightarrow> (\<And>k. k < n \<Longrightarrow> w \<noteq> v + 4096 * of_nat k) \<Longrightarrow>
      paging_get t (load32 t c) w = paging_get m (load32 m c) w"
    using M n2 by simp_all
  have "t = fold (\<lambda>k m. snd (paging_set m (load32 m c) (v + 4096 * of_nat k) ((p + 4096 * of_nat k) OR fl))) [0..<n] m"
    using r unfolding paging_map_range_def map_range_loop_fold [OF v p] by simp
  then show "chunk_pages t c = chunk_pages m c" and "outside (chunk_pages m c) a \<Longrightarrow> t a = m a"
    and "user_dir c t = user_dir c m"
    using map_run_frame [OF c, of n "\<lambda>k. v + 4096 * of_nat k" "\<lambda>k. (p + 4096 * of_nat k) OR fl"]
      page_run_aligned [OF v] by auto
qed

text \<open>The end of a range, rounded up to a page.\<close>

lemma align_end:
  assumes "4096 dvd unat p" and "unat p + unat sz + 4096 \<le> 4294967296"
  shows "unat (paging_align_address (p + sz)) = unat p + 4096 * blocks_for sz"
proof -
  have u: "unat (p + sz) = unat p + unat sz" using assms(2) by (intro unat_add_u32) simp
  have m: "unat ((p + sz) mod 4096) = unat sz mod 4096"
  proof -
    obtain j where "unat p = 4096 * j" using assms(1) by (rule dvdE)
    then show ?thesis by (simp add: unat_mod u)
  qed
  show ?thesis
  proof (cases "unat sz mod 4096 = 0")
    case True
    then have "(p + sz) mod 4096 = 0" using m by (simp add: word_unat_eq_iff)
    moreover have "4096 * blocks_for sz = unat sz" using True ceil_4096 [of "unat sz"] by (simp add: blocks_for_def)
    ultimately show ?thesis using u by (simp add: paging_align_address_def c_defs)
  next
    case False
    have nz: "(p + sz) mod 4096 \<noteq> 0"
    proof
      assume "(p + sz) mod 4096 = 0"
      then have "unat ((p + sz) mod 4096) = 0" by (simp only: unat_0)
      then show False using False unfolding m by (rule notE [rotated])
    qed
    have "unat (p + sz - (p + sz) mod 4096) = unat p + unat sz - unat sz mod 4096"
      using u m by (subst unat_sub) (auto simp: word_le_nat_alt mod_le_divisor intro: order_trans [OF mod_less_eq_dividend])
    moreover have w: "unat (4096 :: u32) = 4096" by simp
    moreover have "unat sz mod 4096 \<le> unat sz" by simp
    ultimately have "unat (p + sz - (p + sz) mod 4096 + 4096) = unat p + (unat sz - unat sz mod 4096) + 4096"
      using assms(2) False w by (subst unat_add_u32; linarith)
    moreover have "4096 * blocks_for sz = unat sz - unat sz mod 4096 + 4096"
      using False ceil_4096 [of "unat sz"] by (simp add: blocks_for_def)
    ultimately show ?thesis using nz by (simp add: paging_align_address_def c_defs algebra_simps)
  qed
qed

section \<open>A process and its memory\<close>

lemma live_low_end:
  assumes "kheap_ok s" and "kheap_low s" and "live s p = Some n"
  shows "unat p + 4096 * n \<le> 0x10000000"
proof -
  obtain i where i: "p = block_addr (kernel_heap s) i" "i < heap_blocks (kernel_heap s)"
    "i + n \<le> heap_blocks (kernel_heap s)"
    using live_SomeD [OF assms(1,3)] by metis
  then show ?thesis
    using unat_block_addr [OF heap_inv_layout [OF assms(1)] i(2)] assms(2) by (simp add: kheap_low_def)
qed

lemma size_in_blocks: "unat sz \<le> 4096 * blocks_for sz"
  unfolding blocks_for_def ceil_4096 by (auto simp: mod_le_divisor less_imp_le)

lemma live_end_aligned:
  assumes "kheap_ok s" and "kheap_low s" and "live s p = Some (blocks_for sz)"
  shows "unat (paging_align_address (p + sz)) = unat p + 4096 * blocks_for sz"
  using live_low_end [OF assms] live_page_aligned [OF assms(1,3)] size_in_blocks [of sz]
  by (intro align_end) simp_all

text \<open>Writing to live pages of a chunk does not disturb the heap.\<close>

lemma write_outside:
  assumes "kheap_ok s" and "\<forall>q\<in>P. live s q = Some 1" and "\<And>a. outside P a \<Longrightarrow> m a = mem s a"
  shows "kheap_ok (s\<lparr>mem := m\<rparr>)" and "live (s\<lparr>mem := m\<rparr>) = live s"
    and "live s p = Some l \<Longrightarrow> p \<notin> P \<Longrightarrow> unat (a - p) < 4096 * l \<Longrightarrow> m a = mem s a"
    and "kheap_spare (s\<lparr>mem := m\<rparr>) = kheap_spare s"
proof -
  have t: "m a = mem s a" if "kheap_table s a" for a
    using that kzalloc.owned_meta [OF assms(1)] assms(2) by (intro assms(3)) (force simp: outside_def)
  show "kheap_ok (s\<lparr>mem := m\<rparr>)" and "live (s\<lparr>mem := m\<rparr>) = live s"
    and "kheap_spare (s\<lparr>mem := m\<rparr>) = kheap_spare s"
    using kzalloc.put_ok [OF assms(1) t] kzalloc.put_owned [OF assms(1) t] kzalloc.spare_put [OF assms(1) t]
    by blast+
  show "live s p = Some l \<Longrightarrow> p \<notin> P \<Longrightarrow> unat (a - p) < 4096 * l \<Longrightarrow> m a = mem s a"
    using live_outside [OF assms(1) _ _ _, of _ 1 p l a] assms(2)
    by (intro assms(3)) (auto simp: outside_def)
qed

text \<open>
  The table of allocations: an empty element has size 0, any other is a live range of the heap
  apart from the page tables, and no address is recorded twice.
\<close>

definition allocations_ok :: "(u32 \<rightharpoonup> nat) \<Rightarrow> u32 set \<Rightarrow> process_allocation list \<Rightarrow> bool" where
  "allocations_ok L P as \<longleftrightarrow> length as = SLOBOS_MAX_PROGRAM_ALLOCATIONS \<and>
     (\<forall>i < length as. if alloc_ptr (as ! i) = 0 then alloc_size (as ! i) = 0
       else L (alloc_ptr (as ! i)) = Some (blocks_for (alloc_size (as ! i))) \<and> alloc_ptr (as ! i) \<notin> P \<and>
         (\<forall>j < length as. alloc_ptr (as ! j) = alloc_ptr (as ! i) \<longrightarrow> j = i))"

definition user_ok :: "u32 \<Rightarrow> process \<Rightarrow> u32 \<Rightarrow> 'a kernel_scheme \<Rightarrow> bool" where
  "user_ok process p c s \<longleftrightarrow> kheap_ok s \<and> kheap_low s \<and> process_objects s process = Some p \<and>
     process_chunk p s = Inr c \<and> chunk_ok c (mem s) \<and> (\<forall>q \<in> chunk_pages (mem s) c. live s q = Some 1) \<and>
     allocations_ok (live s) (chunk_pages (mem s) c) (proc_allocations p)"

lemma allocation_index_Some:
  assumes "allocation_index j ptr as = Some i"
  shows "j \<le> i \<and> i < j + length as \<and> alloc_ptr (as ! (i - j)) = ptr"
  using assms
proof (induction "as" arbitrary: j)
  case (Cons a "as")
  show ?case
  proof (cases "alloc_ptr a = ptr")
    case False
    then show ?thesis using Cons by (force simp: nth_Cons')
  qed (use Cons in auto)
qed simp

lemma allocation_index_None: "allocation_index j ptr as = None \<longleftrightarrow> ptr \<notin> alloc_ptr ` set as"
  by (induction "as" arbitrary: j) auto

lemma allocations_put:
  assumes "allocations_ok L P as" and "i < length as" and "alloc_ptr (as ! i) = 0"
    and "L ptr = None" and "ptr \<noteq> 0" and "ptr \<notin> P"
  shows "allocations_ok (L(ptr \<mapsto> blocks_for sz)) P (as[i := \<lparr>alloc_ptr = ptr, alloc_size = sz\<rparr>])"
proof -
  have other: "alloc_ptr (as ! j) \<noteq> ptr" if "j < length as" for j
    using assms(1,4,5) that unfolding allocations_ok_def by (metis option.distinct(1))
  then show ?thesis
    using assms unfolding allocations_ok_def by (auto simp: nth_list_update)
qed

lemma allocations_remove:
  assumes "allocations_ok L P as" and "i < length as" and "alloc_ptr (as ! i) = ptr" and "ptr \<noteq> 0"
  shows "map (\<lambda>a. if alloc_ptr a = ptr then \<lparr>alloc_ptr = 0, alloc_size = 0\<rparr> else a) as =
      as[i := \<lparr>alloc_ptr = 0, alloc_size = 0\<rparr>]"
    and "allocations_ok (L(ptr := None)) P (as[i := \<lparr>alloc_ptr = 0, alloc_size = 0\<rparr>])"
proof -
  have other: "alloc_ptr (as ! j) = ptr \<longleftrightarrow> j = i" if "j < length as" for j
    using assms that unfolding allocations_ok_def by metis
  then show "map (\<lambda>a. if alloc_ptr a = ptr then \<lparr>alloc_ptr = 0, alloc_size = 0\<rparr> else a) as =
      as[i := \<lparr>alloc_ptr = 0, alloc_size = 0\<rparr>]"
    by (intro nth_equalityI) (simp_all add: nth_list_update)
  show "allocations_ok (L(ptr := None)) P (as[i := \<lparr>alloc_ptr = 0, alloc_size = 0\<rparr>])"
    using assms other unfolding allocations_ok_def by (auto simp: nth_list_update)
qed

section \<open>Allocating\<close>

definition user_flags :: u32 where
  "user_flags = PAGING_IS_WRITEABLE OR PAGING_IS_PRESENT OR PAGING_ACCESS_FROM_ALL"

text \<open>The mapping of the first \<open>n\<close> pages from \<open>v\<close> on to themselves, and of no other.\<close>

definition self_mapped :: "u32 \<Rightarrow> u32 \<Rightarrow> nat \<Rightarrow> u32 \<Rightarrow> byte_mem \<Rightarrow> byte_mem \<Rightarrow> bool" where
  "self_mapped c v n fl m m' \<longleftrightarrow>
     (\<forall>k<n. paging_get m' (load32 m' c) (v + 4096 * of_nat k) = (v + 4096 * of_nat k) OR fl) \<and>
     (\<forall>w. 4096 dvd unat w \<longrightarrow> (\<forall>k<n. w \<noteq> v + 4096 * of_nat k) \<longrightarrow>
       paging_get m' (load32 m' c) w = paging_get m (load32 m c) w)"

lemma process_malloc_contract:
  assumes u: "user_ok process p c s" and sz: "sz \<noteq> 0" "unat sz \<le> 4294963200" and room: "kheap_room s (blocks_for sz)"
    and free: "process_find_free_allocation_index p = int i"
  shows "\<exists>ptr s'. process_malloc process sz s = Inr (ptr, s') \<and> ptr \<noteq> 0 \<and> live s ptr = None \<and>
    live s' = (live s)(ptr \<mapsto> blocks_for sz) \<and> (\<forall>a. unat (a - ptr) < unat sz \<longrightarrow> mem s' a = 0) \<and>
    i < length (proc_allocations p) \<and> proc_allocations p ! i = \<lparr>alloc_ptr = 0, alloc_size = 0\<rparr> \<and>
    user_ok process (p\<lparr>proc_allocations := (proc_allocations p)[i := \<lparr>alloc_ptr = ptr, alloc_size = sz\<rparr>]\<rparr>) c s' \<and>
    self_mapped c ptr (blocks_for sz) user_flags (mem s) (mem s') \<and>
    kheap_spare s' + blocks_for sz = kheap_spare s \<and>
    (\<exists>m. s' = put_process process
      (p\<lparr>proc_allocations := (proc_allocations p)[i := \<lparr>alloc_ptr = ptr, alloc_size = sz\<rparr>]\<rparr>) (s\<lparr>mem := m\<rparr>)) \<and>
    chunk_pages (mem s') c = chunk_pages (mem s) c \<and> user_dir c (mem s') = user_dir c (mem s) \<and>
    (\<forall>a. \<not> kheap_table s a \<longrightarrow> outside (chunk_pages (mem s) c) a \<longrightarrow> 4096 * blocks_for sz \<le> unat (a - ptr) \<longrightarrow>
      mem s' a = mem s a)"
proof -
  let ?as = "proc_allocations p" and ?P = "chunk_pages (mem s) c" and ?n = "blocks_for sz"
  obtain ptr s1 where z: "kzalloc sz s = (ptr, s1)" by (cases "kzalloc sz s")
  then have ptr: "ptr = fst (kzalloc sz s)" and s1: "s1 = snd (kzalloc sz s)" by simp_all
  have ok: "kheap_ok s" and low: "kheap_low s" and p: "process_objects s process = Some p"
    and ch: "process_chunk p s = Inr c" "chunk_ok c (mem s)" and own: "\<forall>q\<in>?P. live s q = Some 1"
    and al: "allocations_ok (live s) ?P ?as" using u by (simp_all add: user_ok_def)
  note sp = kzalloc.spare_alloc [OF ok sz room, folded s1] and fr = kzalloc.alloc_frame [OF ok sz room, folded ptr s1]
  note A = kzalloc.alloc_ok [OF ok sz room, folded s1] kzalloc.alloc_fresh [OF ok sz room, folded ptr]
    kzalloc.alloc_owned [OF ok sz room, folded s1, folded ptr]
    kzalloc.alloc_result [OF ok sz room, folded ptr] kzalloc.alloc_keeps_contents [OF ok sz room, folded s1]
    kzalloc.alloc_zero [OF ok sz room, folded ptr, folded s1]
  obtain m1 where m1: "s1 = s\<lparr>mem := m1\<rparr>"
    using mem_only_kzalloc [OF mem_only_refl, of s sz] unfolding s1 mem_only_def by blast
  have low1: "kheap_low s1" using low by (simp add: m1 kheap_low_def)
  have keep: "mem s1 a = mem s a" if "q \<in> ?P" "unat (a - q) < 4096" for q a
    using A(7) [of q 1 a] own that by simp
  note C = chunk_frame [OF ch(2), of "mem s1"]
  have c1: "chunk_ok c (mem s1)" and P1: "chunk_pages (mem s1) c = ?P" using C(1,2) keep by blast+
  have get1: "paging_get (mem s1) (load32 (mem s1) c) w = paging_get (mem s) (load32 (mem s) c) w"
    if "4096 dvd unat w" for w using C(4) keep that by blast
  have own1: "\<forall>q\<in>?P. live s1 q = Some 1" and fresh: "ptr \<notin> ?P" using own A(2,3) by auto
  have lp: "live s1 ptr = Some ?n" using A(3) by simp
  let ?e = "paging_align_address (ptr + sz)"
  have e: "unat ?e = unat ptr + 4096 * ?n" by (rule live_end_aligned [OF A(1) low1 lp])
  obtain res m2 where m2: "paging_map_to (mem s1) c ptr ptr ?e user_flags = (res, m2)"
    by (cases "paging_map_to (mem s1) c ptr ptr ?e user_flags")
  note M = map_to_run [OF c1 A(5) A(5) e m2, unfolded P1]
  have W: "kheap_ok (s1\<lparr>mem := m2\<rparr>)" "live (s1\<lparr>mem := m2\<rparr>) = live s1"
    "\<And>q l a. live s1 q = Some l \<Longrightarrow> q \<notin> ?P \<Longrightarrow> unat (a - q) < 4096 * l \<Longrightarrow> m2 a = mem s1 a"
    "kheap_spare (s1\<lparr>mem := m2\<rparr>) = kheap_spare s1"
    using write_outside [OF A(1) own1, of m2] M(6) by blast+
  let ?as' = "?as[i := \<lparr>alloc_ptr = ptr, alloc_size = sz\<rparr>]"
  let ?p = "p\<lparr>proc_allocations := ?as'\<rparr>"
  let ?s = "put_process process ?p (s1\<lparr>mem := m2\<rparr>)"
  have "allocation_index 0 0 ?as = Some i"
    using free by (auto simp: process_find_free_allocation_index_def c_defs split: option.splits)
  then have i: "i < length ?as" "alloc_ptr (?as ! i) = 0" using allocation_index_Some [of 0 0 ?as i] by auto
  then have empty: "?as ! i = \<lparr>alloc_ptr = 0, alloc_size = 0\<rparr>"
    using al by (simp add: allocations_ok_def process_allocation.equality)
  have run: "process_malloc process sz s = Inr (ptr, ?s)"
    using z A(4) p free ch(1) m2 M(1)
    by (simp add: process_malloc_def deref_def process_chunk_def m1 Let_def user_flags_def [symmetric])
  have same: "live ?s = live (s1\<lparr>mem := m2\<rparr>)" by (rule same_heap) (simp_all add: put_process_def)
  have live: "live ?s = (live s)(ptr \<mapsto> ?n)" using same W(2) A(3) by simp
  have zero: "mem ?s a = 0" if "unat (a - ptr) < unat sz" for a
  proof -
    have "unat (a - ptr) < 4096 * ?n" using that size_in_blocks [of sz] by linarith
    then have "m2 a = mem s1 a" by (rule W(3) [OF lp fresh])
    then show ?thesis using A(8) that by (simp add: put_process_def)
  qed
  have pages: "self_mapped c ptr ?n user_flags (mem s) (mem ?s)"
    unfolding self_mapped_def using M(4,5) get1 by (simp add: put_process_def)
  have "user_ok process ?p c ?s"
  proof -
    have "allocations_ok (live ?s) (chunk_pages (mem ?s) c) ?as'"
      using allocations_put [OF al i A(2,4) fresh] live M(3) by (simp add: put_process_def)
    moreover have "process_chunk ?p ?s = Inr c"
      using ch(1) by (simp add: process_chunk_def deref_def put_process_def m1)
    moreover have "\<forall>q \<in> chunk_pages (mem ?s) c. live ?s q = Some 1"
      using own1 M(3) same W(2) by (simp add: put_process_def)
    ultimately show ?thesis
      using W(1) low1 M(2) by (simp add: user_ok_def put_process_def kheap_low_def)
  qed
  moreover have "kheap_spare ?s + ?n = kheap_spare s"
    using same_heap(2) [of ?s "s1\<lparr>mem := m2\<rparr>"] W(4) sp by (simp add: put_process_def)
  moreover have "?s = put_process process ?p (s\<lparr>mem := m2\<rparr>)" by (simp add: m1)
  moreover have "chunk_pages (mem ?s) c = ?P" using M(3) by (simp add: put_process_def)
  moreover have "user_dir c (mem ?s) = user_dir c (mem s)"
    using M(7) C(5) keep by (simp add: put_process_def)
  moreover have "mem ?s a = mem s a" if "\<not> kheap_table s a" "outside ?P a" "4096 * ?n \<le> unat (a - ptr)" for a
    using fr [OF that(1)] M(6) [OF that(2)] that(3) size_in_blocks [of sz] by (simp add: put_process_def)
  ultimately show ?thesis using run live zero pages A(2,4) i(1) empty by blast
qed

section \<open>Freeing\<close>

lemma process_free_contract:
  assumes u: "user_ok process p c s" and i: "i < length (proc_allocations p)"
    and a: "proc_allocations p ! i = \<lparr>alloc_ptr = ptr, alloc_size = sz\<rparr>" and nz: "ptr \<noteq> 0"
  shows "\<exists>s'. process_free process ptr s = Inr s' \<and> live s' = (live s)(ptr := None) \<and>
    user_ok process (p\<lparr>proc_allocations := (proc_allocations p)[i := \<lparr>alloc_ptr = 0, alloc_size = 0\<rparr>]\<rparr>) c s' \<and>
    self_mapped c ptr (blocks_for sz) 0 (mem s) (mem s') \<and>
    (\<exists>m. s' = put_process process
      (p\<lparr>proc_allocations := (proc_allocations p)[i := \<lparr>alloc_ptr = 0, alloc_size = 0\<rparr>]\<rparr>) (s\<lparr>mem := m\<rparr>)) \<and>
    kheap_spare s' = kheap_spare s + blocks_for sz \<and>
    chunk_pages (mem s') c = chunk_pages (mem s) c \<and> user_dir c (mem s') = user_dir c (mem s) \<and>
    (\<forall>a. \<not> kheap_table s a \<longrightarrow> outside (chunk_pages (mem s) c) a \<longrightarrow> mem s' a = mem s a)"
proof -
  let ?as = "proc_allocations p" and ?P = "chunk_pages (mem s) c" and ?n = "blocks_for sz"
  have ok: "kheap_ok s" and low: "kheap_low s" and p: "process_objects s process = Some p"
    and ch: "process_chunk p s = Inr c" "chunk_ok c (mem s)" and own: "\<forall>q\<in>?P. live s q = Some 1"
    and al: "allocations_ok (live s) ?P ?as" using u by (simp_all add: user_ok_def)
  have lp: "live s ptr = Some ?n" and notP: "ptr \<notin> ?P" using al i a nz by (auto simp: allocations_ok_def)
  have "allocation_index 0 ptr ?as \<noteq> None"
    unfolding allocation_index_None using nth_mem [OF i] a by force
  then obtain j where j: "allocation_index 0 ptr ?as = Some j" by blast
  then have "j < length ?as" "alloc_ptr (?as ! j) = ptr" using allocation_index_Some [OF j] by auto
  then have "?as ! j = \<lparr>alloc_ptr = ptr, alloc_size = sz\<rparr>"
    using al i a nz unfolding allocations_ok_def by (metis process_allocation.select_convs(1))
  then have get: "process_is_process_pointer p ptr" "process_get_allocation_by_addr p ptr = Some \<lparr>alloc_ptr = ptr, alloc_size = sz\<rparr>"
    using j by (simp_all add: process_is_process_pointer_def process_get_allocation_by_addr_def)
  let ?e = "paging_align_address (ptr + sz)"
  have e: "unat ?e = unat ptr + 4096 * ?n" by (rule live_end_aligned [OF ok low lp])
  obtain res m2 where m2: "paging_map_to (mem s) c ptr ptr ?e 0 = (res, m2)"
    by (cases "paging_map_to (mem s) c ptr ptr ?e 0")
  note M = map_to_run [OF ch(2) live_page_aligned [OF ok lp] live_page_aligned [OF ok lp] e m2]
  have W: "kheap_ok (s\<lparr>mem := m2\<rparr>)" "live (s\<lparr>mem := m2\<rparr>) = live s" "kheap_spare (s\<lparr>mem := m2\<rparr>) = kheap_spare s"
    using write_outside [OF ok own, of m2] M(6) by blast+
  let ?as' = "?as[i := \<lparr>alloc_ptr = 0, alloc_size = 0\<rparr>]"
  let ?p = "p\<lparr>proc_allocations := ?as'\<rparr>"
  have p': "process_unjoin_allocation_array p ptr = ?p"
    using allocations_remove(1) [OF al i _ nz] a by (simp add: process_unjoin_allocation_array_def)
  let ?s1 = "put_process process ?p (s\<lparr>mem := m2\<rparr>)"
  let ?s = "kfree ptr ?s1"
  have run: "process_free process ptr s = Inr ?s"
    using p get ch(1) m2 M(1) p' by (simp add: process_free_def deref_def Let_def)
  have s1: "kheap_ok ?s1" "live ?s1 = live s" using W(1,2) same_heap(1) [of ?s1 "s\<lparr>mem := m2\<rparr>"]
    by (simp_all add: put_process_def)
  have lp1: "live ?s1 ptr = Some ?n" using lp s1(2) by simp
  note R = kzalloc.release_ok [OF s1(1) lp1] kzalloc.release_owned [OF s1(1) lp1] kzalloc.release_frame [OF s1(1) lp1]
    kzalloc.spare_release [OF s1(1) lp1]
  have live: "live ?s = (live s)(ptr := None)" using R(2) s1(2) by simp
  have keep: "mem ?s a = m2 a" if "q \<in> ?P" "unat (a - q) < 4096" for q a
  proof -
    have "live ?s1 q = Some 1" using own that(1) s1(2) by simp
    then have "\<not> kheap_table ?s1 a" using kzalloc.owned_meta [OF s1(1)] that(2) by simp
    then show ?thesis using R(3) [of a] by (simp add: put_process_def)
  qed
  note C = chunk_frame [OF M(2), of "mem ?s", unfolded M(3)]
  have c2: "chunk_ok c (mem ?s)" and P2: "chunk_pages (mem ?s) c = ?P" using C(1,2) keep by blast+
  have "paging_get (mem ?s) (load32 (mem ?s) c) w = paging_get m2 (load32 m2 c) w"
    if "4096 dvd unat w" for w using C(4) keep that by blast
  then have pages: "self_mapped c ptr ?n 0 (mem s) (mem ?s)"
    unfolding self_mapped_def using M(4,5) page_run_aligned [OF live_page_aligned [OF ok lp]] by auto
  have "user_ok process ?p c ?s"
  proof -
    have "allocations_ok (live ?s) (chunk_pages (mem ?s) c) ?as'"
      using allocations_remove(2) [OF al i _ nz] a live P2 by simp
    moreover have "process_chunk ?p ?s = Inr c"
      using ch(1) by (simp add: process_chunk_def deref_def put_process_def kfree_def)
    moreover have "\<forall>q \<in> chunk_pages (mem ?s) c. live ?s q = Some 1"
      using own notP P2 live by auto
    moreover have "kheap_low ?s" using low by (simp add: kheap_low_def put_process_def kfree_def)
    moreover have "process_objects ?s process = Some ?p" by (simp add: put_process_def kfree_def)
    ultimately show ?thesis using R(1) c2 by (simp add: user_ok_def)
  qed
  moreover have "?s = put_process process ?p (s\<lparr>mem := mem ?s\<rparr>)" by (simp add: put_process_def kfree_def)
  moreover have "kheap_spare ?s = kheap_spare s + ?n"
    using R(4) same_heap(2) [of ?s1 "s\<lparr>mem := m2\<rparr>"] W(3) by (simp add: put_process_def)
  moreover have "mem ?s a = mem s a" if "\<not> kheap_table s a" "outside ?P a" for a
    using R(3) [of a] M(6) [OF that(2)] that(1) by (simp add: put_process_def)
  moreover have "user_dir c (mem ?s) = user_dir c (mem s)" using M(7) C(5) keep by blast
  ultimately show ?thesis using run live pages P2 by blast
qed

section \<open>Properties of the allocations of a process\<close>

text \<open>A task of the scheduler whose process has its allocations in order.\<close>

lemma user_of_task:
  assumes "sched_ok ts s" and "t \<in> set ts" and "process_objects s process = Some p" and "proc_task p = t"
    and "allocations_ok (live s) (chunk_pages (mem s) (directory_of s t)) (proc_allocations p)"
  shows "user_ok process p (directory_of s t) s"
proof -
  have "t \<in> dom (tasks s)" using assms(1,2) by (simp add: sched_ok_def)
  then obtain x where "tasks s t = Some x" by blast
  then have "process_chunk p s = Inr (directory_of s t)"
    using assms(4) by (simp add: process_chunk_def deref_def directory_of_def)
  moreover have "chunk_ok (directory_of s t) (mem s)"
    "\<forall>q \<in> chunk_pages (mem s) (directory_of s t). live s q = Some 1"
    using assms(1,2) unfolding sched_ok_def spaces_ok_def task_pages_def by blast+
  ultimately show ?thesis using assms by (simp add: user_ok_def sched_ok_def)
qed

lemma demo_user:
  "\<exists>p c s. user_ok 0x5000 p c (s :: kernel) \<and> kheap_room s (blocks_for 100) \<and>
     process_find_free_allocation_index p = int 0 \<and>
     proc_allocations p = replicate 1024 \<lparr>alloc_ptr = 0, alloc_size = 0\<rparr> \<and> 20000 \<le> kheap_spare s \<and> user_dir c (mem s)"
proof -
  let ?s = "snd (kheap_init demo_kernel)"
  have d: "task_head demo_kernel = 0" "task_tail demo_kernel = 0" "current_task demo_kernel = 0"
    "tasks demo_kernel = Map.empty" by (simp_all add: demo_kernel_def)
  obtain p where p: "process_objects ?s 0x5000 = Some p" "proc_filetype p \<noteq> PROCESS_FILETYPE_ELF"
    "proc_allocations p = replicate 1024 \<lparr>alloc_ptr = 0, alloc_size = 0\<rparr>"
    by (simp add: kheap_init_eq demo_kernel_def c_defs)
  have spare: "1027 \<le> kheap_spare ?s" by (simp add: booted_spare)
  have e: "proc_filetype p = PROCESS_FILETYPE_ELF \<longrightarrow> elf_files ?s (proc_ptr p) \<noteq> None" using p(2) by simp
  obtain t x and s' :: kernel where "sched_ok ([] @ [t]) s'" and sp: "kheap_spare s' + 1027 = kheap_spare ?s"
    and x: "tasks s' t = Some x" "user_dir (task_page_directory x) (mem s')"
    using task_new_contract [OF booted_sched [OF d] spare p(1) e] by blast
  then have ok: "sched_ok [t] s'" by simp
  let ?p = "p\<lparr>proc_task := t\<rparr>" and ?s' = "put_process 0x5000 (p\<lparr>proc_task := t\<rparr>) s'"
  have ok': "sched_ok [t] ?s'" using ok by (rule sched_same) (simp_all add: put_process_def)
  have "user_ok 0x5000 ?p (directory_of ?s' t) ?s'"
    using p(3) by (intro user_of_task [OF ok']) (simp_all add: put_process_def allocations_ok_def c_defs)
  moreover have "kheap_room ?s' (blocks_for 100)"
  proof -
    have "kheap_spare ?s' = kheap_spare s'" by (rule same_heap) (simp_all add: put_process_def)
    then have "0 < kheap_spare ?s'" using sp by (simp add: booted_spare)
    moreover have "kheap_ok ?s'" using ok' by (simp add: sched_ok_def)
    moreover have "blocks_for 100 = 1" by (simp add: blocks_for_def)
    ultimately show ?thesis using kzalloc.spare_room by simp
  qed
  moreover have "proc_allocations ?p = replicate 1024 \<lparr>alloc_ptr = 0, alloc_size = 0\<rparr>" using p(3) by simp
  moreover have "20000 \<le> kheap_spare ?s'"
  proof -
    have "kheap_spare ?s' = kheap_spare s'" by (rule same_heap) (simp_all add: put_process_def)
    then show ?thesis using sp by (simp add: booted_spare)
  qed
  moreover have "user_dir (directory_of ?s' t) (mem ?s')" using x by (simp add: directory_of_def put_process_def)
  moreover have "process_find_free_allocation_index ?p = int 0"
    using p(3) by (simp add: process_find_free_allocation_index_def numeral_eq_Suc)
  ultimately show ?thesis by blast
qed

text \<open>
  C6: \<open>process_malloc\<close> for a process in good order, with room on the heap and a free element in
  its table: the result is a fresh range of the kernel heap, all zero, recorded in the table with
  its size, and mapped in the page directory of the process, page by page, writeable and open to
  the user; no other page of the process changes, and the process stays in good order.
\<close>

theorem process_malloc_allocates:
  assumes "user_ok process p c s" and "sz \<noteq> 0" "unat sz \<le> 4294963200" and "kheap_room s (blocks_for sz)"
    and "process_find_free_allocation_index p = int i"
  shows "\<exists>ptr s'. process_malloc process sz s = Inr (ptr, s') \<and> ptr \<noteq> 0 \<and> live s ptr = None \<and>
    live s' = (live s)(ptr \<mapsto> blocks_for sz) \<and> (\<forall>a. unat (a - ptr) < unat sz \<longrightarrow> mem s' a = 0) \<and>
    user_ok process (p\<lparr>proc_allocations := (proc_allocations p)[i := \<lparr>alloc_ptr = ptr, alloc_size = sz\<rparr>]\<rparr>) c s' \<and>
    self_mapped c ptr (blocks_for sz) user_flags (mem s) (mem s')"
  using process_malloc_contract [OF assms] by blast

theorem process_malloc_allocates_witness:
  "\<exists>s :: kernel. \<exists>ptr s'. process_malloc 0x5000 100 s = Inr (ptr, s') \<and> ptr \<noteq> 0 \<and> mem s' (ptr + 99) = 0"
proof -
  obtain p c and s :: kernel where d: "user_ok 0x5000 p c s" "kheap_room s (blocks_for 100)"
    "process_find_free_allocation_index p = int 0" using demo_user by blast
  obtain ptr s' where r: "process_malloc 0x5000 100 s = Inr (ptr, s')" "ptr \<noteq> 0"
    "\<forall>a. unat (a - ptr) < unat (100 :: u32) \<longrightarrow> mem s' a = 0"
    using process_malloc_allocates [OF d(1) _ _ d(2,3)] by auto
  have "unat (ptr + 99 - ptr) < unat (100 :: u32)" by simp
  then show ?thesis using r by blast
qed

text \<open>
  C18: freeing what \<open>process_malloc\<close> returned undoes it: the heap has the allocations it had, the
  table of the process is what it was, and the pages of the range are no longer present (their
  entries have no flag).
\<close>

theorem process_malloc_free_roundtrip:
  assumes "user_ok process p c s" and "sz \<noteq> 0" "unat sz \<le> 4294963200" and "kheap_room s (blocks_for sz)"
    and "process_find_free_allocation_index p = int i"
  shows "\<exists>ptr s1 s2. process_malloc process sz s = Inr (ptr, s1) \<and> process_free process ptr s1 = Inr s2 \<and>
    live s2 = live s \<and> user_ok process p c s2 \<and>
    (\<forall>k < blocks_for sz. paging_get (mem s2) (load32 (mem s2) c) (ptr + 4096 * of_nat k) = ptr + 4096 * of_nat k)"
proof -
  let ?as = "proc_allocations p"
  obtain ptr s1 where m: "process_malloc process sz s = Inr (ptr, s1)" "ptr \<noteq> 0" "live s ptr = None"
    "live s1 = (live s)(ptr \<mapsto> blocks_for sz)" "i < length ?as" "?as ! i = \<lparr>alloc_ptr = 0, alloc_size = 0\<rparr>"
    and u: "user_ok process (p\<lparr>proc_allocations := ?as[i := \<lparr>alloc_ptr = ptr, alloc_size = sz\<rparr>]\<rparr>) c s1"
    using process_malloc_contract [OF assms] by blast
  obtain s2 where f: "process_free process ptr s1 = Inr s2" "live s2 = (live s1)(ptr := None)"
    "user_ok process (p\<lparr>proc_allocations := ?as[i := \<lparr>alloc_ptr = 0, alloc_size = 0\<rparr>]\<rparr>) c s2"
    "self_mapped c ptr (blocks_for sz) 0 (mem s1) (mem s2)"
    using process_free_contract [OF u, of i ptr sz] m(2,5) by auto
  have "?as[i := \<lparr>alloc_ptr = 0, alloc_size = 0\<rparr>] = ?as"
    using m(5,6) by (metis list_update_id)
  then have "user_ok process p c s2" using f(3) by simp
  moreover have "live s2 = live s" using f(2) m(3,4) by (auto simp: fun_eq_iff)
  ultimately show ?thesis using m(1) f(1,4) by (intro exI [of _ ptr] exI [of _ s1] exI [of _ s2]) (simp add: self_mapped_def)
qed

theorem process_malloc_free_roundtrip_witness:
  "\<exists>s :: kernel. \<exists>ptr s1 s2. process_malloc 0x5000 100 s = Inr (ptr, s1) \<and> process_free 0x5000 ptr s1 = Inr s2 \<and>
     live s2 = live s"
proof -
  obtain p c and s :: kernel where d: "user_ok 0x5000 p c s" "kheap_room s (blocks_for 100)"
    "process_find_free_allocation_index p = int 0" using demo_user by blast
  show ?thesis using process_malloc_free_roundtrip [OF d(1) _ _ d(2,3)] by auto
qed

end
