(* ===== verification/Syscalls_Props.thy ===== *)
theory Syscalls_Props
  imports Syscalls Process_Props
begin

text \<open>
  Interrupts and system calls: the descriptor table the processor reads, the table of commands,
  and the way back to user mode.
\<close>

unbundle bit_operations_syntax

section \<open>A small system\<close>

text \<open>Two tasks, no interrupt and no command registered.\<close>

definition demo_system :: system where
  "demo_system = kernel.extend demo_two (system.fields [] \<lparr>idtr_limit = 0, idtr_base = 0\<rparr> (replicate 512 None) (replicate 1024 None))"

lemma demo_system_simps [simp]:
  "interrupt_callbacks demo_system = replicate 512 None" "isr80h_commands demo_system = replicate 1024 None"
  "tasks demo_system = tasks demo_two" "current_task demo_system = 0x2000" "mem demo_system = (\<lambda>_. 7)"
  by (simp_all add: demo_system_def kernel.defs system.defs demo_two_def demo_kernel_def)

section \<open>The interrupt descriptor table\<close>

text \<open>The address the processor takes from a gate (Intel SDM, vol. 3, 6.11).\<close>

definition gate_address :: "idt_desc \<Rightarrow> u32" where
  "gate_address d = ucast (offset_1 d) OR push_bit 16 (ucast (offset_2 d))"

definition gate :: "u32 \<Rightarrow> idt_desc" where
  "gate address = \<lparr>offset_1 = ucast (address AND 0x0000FFFF), selector = KERNEL_CODE_SELECTOR, zero = 0,
     type_attr = 0xEE, offset_2 = ucast (drop_bit 16 address)\<rparr>"

lemma gate_address_gate: "gate_address (gate a) = a"
proof (rule bit_word_eqI)
  fix n assume n: "n < LENGTH(32)"
  have m: "(0x0000FFFF :: u32) = mask 16" by (simp add: mask_eq_exp_minus_1)
  show "bit (gate_address (gate a)) n = bit a n"
    using n unfolding gate_address_def gate_def m by (cases "n < 16") (auto simp: bit_simps)
qed

lemma idt_set_gate: "idt_set i a s = s\<lparr>idt_descriptors := (idt_descriptors s)[i := gate a]\<rparr>"
  by (simp add: idt_set_def gate_def)

lemma set_gates:
  assumes "n \<le> length (idt_descriptors s)"
  shows "let t = fold (\<lambda>i. idt_set i (f i)) [0..<n] s
    in length (idt_descriptors t) = length (idt_descriptors s) \<and>
       (\<forall>i < length (idt_descriptors s). idt_descriptors t ! i = (if i < n then gate (f i) else idt_descriptors s ! i)) \<and>
       interrupt_callbacks t = interrupt_callbacks s"
  using assms
proof (induction n)
  case (Suc n)
  then show ?case by (auto simp: Let_def idt_set_gate nth_list_update less_Suc_eq)
qed simp

lemma set_callbacks:
  assumes "n \<le> 512"
  shows "let t = fold (\<lambda>i s. snd (idt_register_interrupt_callback (int i) cb s)) [0..<n] s
    in length (interrupt_callbacks t) = length (interrupt_callbacks s) \<and>
       (\<forall>i < length (interrupt_callbacks s). interrupt_callbacks t ! i = (if i < n then Some cb else interrupt_callbacks s ! i)) \<and>
       idt_descriptors t = idt_descriptors s"
  using assms
proof (induction n)
  case (Suc n)
  then show ?case
    by (auto simp: Let_def idt_register_interrupt_callback_def nth_list_update less_Suc_eq c_defs)
qed simp

lemma set_idtr: "idtr_descriptor (fold (\<lambda>i. idt_set i (stubs i)) is s) = idtr_descriptor s"
  by (induction "is" arbitrary: s) (simp_all add: idt_set_def)

lemma register_idtr:
  "idtr_descriptor (fold (\<lambda>i s. snd (idt_register_interrupt_callback (int i) cb s)) is s) = idtr_descriptor s"
  by (induction "is" arbitrary: s) (simp_all add: idt_register_interrupt_callback_def)

text \<open>
  C24: the table the processor reads. After \<open>idt_init\<close> each of the 512 gates leads to its assembly
  stub (0 and 0x80 to the two routines set by name), in the kernel's code segment and callable from
  user mode, exactly the interrupts below 0x20 have been given to the exception handler, and the register the processor
  finds the table by is to be loaded with its address and its size less 1.
\<close>

theorem idt_init_gates:
  assumes "length (interrupt_callbacks s) = SLOBOS_TOTAL_INTERRUPTS" and "i < SLOBOS_TOTAL_INTERRUPTS"
    and "t = idt_init descriptors stubs idt_zero isr80h_wrapper s"
  shows "gate_address (idt_descriptors t ! i) = (if i = 0 then idt_zero else if i = 0x80 then isr80h_wrapper else stubs i) \<and>
    selector (idt_descriptors t ! i) = 8 \<and> type_attr (idt_descriptors t ! i) = 0xEE \<and>
    interrupt_callbacks t ! i = (if i < 0x20 then Some Handle_exception else interrupt_callbacks s ! i) \<and>
    idtr_base (idtr_descriptor t) = descriptors \<and> unat (idtr_limit (idtr_descriptor t)) + 1 = 8 * SLOBOS_TOTAL_INTERRUPTS"
proof -
  define s0 where "s0 = s\<lparr>idt_descriptors := replicate SLOBOS_TOTAL_INTERRUPTS
    \<lparr>offset_1 = 0, selector = 0, zero = 0, type_attr = 0, offset_2 = 0\<rparr>,
    idtr_descriptor := \<lparr>idtr_limit = of_nat (8 * SLOBOS_TOTAL_INTERRUPTS) - 1, idtr_base = descriptors\<rparr>\<rparr>"
  define s1 where "s1 = fold (\<lambda>i. idt_set i (stubs i)) [0..<SLOBOS_TOTAL_INTERRUPTS] s0"
  define s2 where "s2 = idt_set 0x80 isr80h_wrapper (idt_set 0 idt_zero s1)"
  have t: "t = fold (\<lambda>i s. snd (idt_register_interrupt_callback (int i) Handle_exception s)) [0..<0x20] s2"
    unfolding assms(3) idt_init_def Let_def s0_def s1_def s2_def by (rule refl)
  have s1: "length (idt_descriptors s1) = 512" "idt_descriptors s1 ! i = gate (stubs i)"
    "interrupt_callbacks s1 = interrupt_callbacks s"
    using set_gates [of SLOBOS_TOTAL_INTERRUPTS s0 stubs] assms(2) by (simp_all add: s1_def s0_def Let_def c_defs)
  have s2: "idt_descriptors s2 ! i = gate (if i = 0 then idt_zero else if i = 0x80 then isr80h_wrapper else stubs i)"
    "interrupt_callbacks s2 = interrupt_callbacks s"
    using s1 assms(2) by (simp_all add: s2_def idt_set_gate nth_list_update c_defs)
  have "idt_descriptors t ! i = idt_descriptors s2 ! i"
    "interrupt_callbacks t ! i = (if i < 0x20 then Some Handle_exception else interrupt_callbacks s ! i)"
    using set_callbacks [of "0x20" Handle_exception s2] s2(2) assms(1,2) by (simp_all add: t Let_def)
  moreover have "idtr_descriptor t = idtr_descriptor s0"
    unfolding t by (simp add: register_idtr s2_def s1_def set_idtr idt_set_def)
  ultimately show ?thesis
    using s2(1) by (simp add: gate_address_gate s0_def c_defs) (simp add: gate_def KERNEL_CODE_SELECTOR_def)
qed

theorem idt_init_gates_witness:
  "gate_address (idt_descriptors (idt_init 0x3000 of_nat 7 9 demo_system) ! 0x80) = 9 \<and>
   interrupt_callbacks (idt_init 0x3000 of_nat 7 9 demo_system) ! 0x80 = None"
  using idt_init_gates [of demo_system "0x80" "idt_init 0x3000 of_nat 7 9 demo_system" "0x3000" of_nat 7 9]
  by (simp add: c_defs)

section \<open>The table of commands\<close>

definition commands :: "isr80h_command list" where
  "commands = [Sum, Print, Getkey, Putchar, Malloc, Free, Process_load_from_shell, Invoke_system_command,
     Get_program_arguments, Exit]"

lemma registered:
  assumes "isr80h_commands s = replicate SLOBOS_MAX_ISR80H_COMMANDS None"
  shows "isr80h_register_commands s = Inr (s\<lparr>isr80h_commands := map Some commands @ replicate 1014 None\<rparr>)"
proof -
  have r: "isr80h_commands s = replicate 10 None @ replicate 1014 None"
    using assms by (simp add: c_defs flip: replicate_add)
  show ?thesis
    by (simp add: isr80h_register_commands_def isr80h_register_command_def c_defs r numeral_eq_Suc commands_def)
qed

text \<open>
  C31: dispatch. Registering the commands on the empty table succeeds, and from then on the ten
  numbers 0 to 9 run their system calls; every other number, negative or out of range too, returns
  0 and changes nothing.
\<close>

theorem isr80h_dispatch:
  fixes s :: "'a system_scheme"
  assumes "isr80h_commands s = replicate SLOBOS_MAX_ISR80H_COMMANDS None"
  shows "\<exists>s'. isr80h_register_commands s = Inr s' \<and>
    (\<forall>pl c. \<forall>u :: 'a system_scheme. isr80h_commands u = isr80h_commands s' \<longrightarrow>
       isr80h_handle_command pl c u =
         (if 0 \<le> c \<and> c < 10 then run_command pl (commands ! nat c) u else Inr (Returns 0 u)))"
proof -
  have "isr80h_handle_command pl c u =
      (if 0 \<le> c \<and> c < 10 then run_command pl (commands ! nat c) u else Inr (Returns 0 u))"
    if u: "isr80h_commands u = map Some commands @ replicate 1014 None" for pl c and u :: "'a system_scheme"
  proof -
    have l: "length commands = 10" by (simp add: commands_def)
    consider "c < 0 \<or> c \<ge> 1024" | "0 \<le> c" "c < 10" | "10 \<le> c" "c < 1024" by linarith
    then show ?thesis
    proof cases
      case 3
      then have "nat c - 10 < 1014" "\<not> nat c < 10" by linarith+
      then show ?thesis using 3 by (simp add: isr80h_handle_command_def u nth_append l c_defs)
    qed (auto simp: isr80h_handle_command_def u nth_append l c_defs nat_less_iff)
  qed
  then show ?thesis using registered [OF assms] by (intro exI conjI) auto
qed

theorem isr80h_dispatch_witness:
  "\<exists>s'. isr80h_register_commands demo_system = Inr s' \<and>
     (\<forall>pl. isr80h_handle_command pl 10 s' = Inr (Returns 0 s') \<and>
       isr80h_handle_command pl 9 s' = irh80h_command9_exit pl s')"
  using isr80h_dispatch [of demo_system] by (auto simp: c_defs commands_def)

section \<open>The way back to user mode\<close>

text \<open>The page directory in the processor is that of the current task.\<close>

definition on_task_pages :: "'a kernel_scheme \<Rightarrow> bool" where
  "on_task_pages s \<longleftrightarrow> (\<exists>t. tasks s (current_task s) = Some t \<and> cr3 s = load32 (mem s) (task_page_directory t))"

text \<open>
  A handler that returns leaves the data segment registers of user mode; one that enters user mode
  passes on the registers of the current task.
\<close>

definition back_in_user :: "'a system_scheme control \<Rightarrow> bool" where
  "back_in_user c = (case c of
     Returns r s \<Rightarrow> on_task_pages s \<and> data_segment s = USER_DATA_SEGMENT
   | User_mode r s \<Rightarrow> on_task_pages s \<and> (\<exists>t. tasks s (current_task s) = Some t \<and> r = task_registers t))"

lemma task_switch_pages:
  assumes "task_switch t s = Inr s'"
  shows "on_task_pages s'" and "data_segment s' = data_segment s" and "current_task s' = t" and "tasks s' = tasks s"
proof -
  obtain x where x: "tasks s t = Some x"
    using assms by (cases "tasks s t") (auto simp: task_switch_def deref_def Let_def)
  have "s' = paging_switch (task_page_directory x) (s\<lparr>current_task := t\<rparr>)"
    using assms x by (simp add: task_switch_def deref_def Let_def)
  then show "on_task_pages s'" and "data_segment s' = data_segment s" and "current_task s' = t" and "tasks s' = tasks s"
    using x by (simp_all add: on_task_pages_def paging_switch_def)
qed

lemma task_page_user:
  assumes "task_page s = Inr s'"
  shows "on_task_pages s'" and "data_segment s' = USER_DATA_SEGMENT"
  using task_switch_pages [of "current_task s" "user_registers s" s'] assms
  by (simp_all add: task_page_def user_registers_def)

lemma task_next_user:
  assumes "task_next s = Inr (r, s')"
  shows "back_in_user (User_mode r s')"
proof -
  obtain t where t: "task_switch t s = Inr s'" "andthen (deref tasks t s') (\<lambda>x. Inr (task_registers x, s')) = Inr (r, s')"
    using assms by (auto simp: task_next_def andthen_eq_Inr deref_def split: if_splits option.splits)
  then have "on_task_pages s'" "current_task s' = t" using task_switch_pages [OF t(1)] by auto
  then show ?thesis
    using t(2) by (auto simp: back_in_user_def on_task_pages_def deref_def)
qed

lemma enter_process_user:
  assumes "enter_process process s = Inr c"
  shows "back_in_user c"
proof -
  obtain p where p: "process_objects s process = Some p"
    using assms by (cases "process_objects s process") (auto simp: enter_process_def deref_def)
  then obtain s' where sw: "task_switch (proc_task p) s = Inr s'"
    using assms by (auto simp: enter_process_def deref_def andthen_eq_Inr)
  have "\<exists>t. tasks s' (proc_task p) = Some t \<and> c = User_mode (task_registers t) s'"
    using assms by (cases "tasks s' (proc_task p)") (simp_all add: enter_process_def deref_def p sw)
  then show ?thesis using task_switch_pages [OF sw] by (auto simp: back_in_user_def)
qed

lemma end_current_process_user: "end_current_process pl s = Inr c \<Longrightarrow> back_in_user c"
  by (auto simp: end_current_process_def andthen_eq_Inr intro: task_next_user)

lemma returning_not_user: "returning x \<noteq> Inr (User_mode r s)"
  by (auto simp: returning_def andthen_eq_Inr)

lemma run_command_user:
  assumes "run_command pl c s = Inr (User_mode r s')"
  shows "back_in_user (User_mode r s')"
proof (cases c)
  case Process_load_from_shell
  then obtain p u where "enter_process p u = Inr (User_mode r s')"
    using assms by (auto simp: isr80h_command6_process_load_from_shell_def andthen_eq_Inr Let_def split: if_splits)
  then show ?thesis by (rule enter_process_user)
next
  case Invoke_system_command
  then obtain p u where "enter_process p u = Inr (User_mode r s')"
    using assms
    by (auto simp: isr80h_command7_invoke_system_command_def andthen_eq_Inr Let_def split: if_splits option.splits)
  then show ?thesis by (rule enter_process_user)
next
  case Exit
  then show ?thesis using assms end_current_process_user by (simp add: irh80h_command9_exit_def)
qed (use assms in \<open>simp_all add: returning_not_user\<close>)

text \<open>
  C9: user code runs in its own address space. Whatever a system call or an interrupt does, if the
  handler comes to an end then the processor's page directory is that of the current task; a return
  to the interrupted code has the user's data segments, and when user mode is entered anew,
  \<open>task_return\<close> is given exactly the saved registers of the current task.
\<close>

theorem handlers_return_to_user:
  assumes "isr80h_handler pl command frame s = Inr c \<or> interrupt_handler pl scancode i frame s = Inr c"
  shows "back_in_user c"
  using assms
proof
  assume "isr80h_handler pl command frame s = Inr c"
  then obtain u d where d: "isr80h_handle_command pl command u = Inr d"
    "(case d of User_mode r s \<Rightarrow> Inr (User_mode r s) | Returns res s \<Rightarrow> andthen (task_page s) (\<lambda>s. Inr (Returns res s))) = Inr c"
    by (auto simp: isr80h_handler_def andthen_eq_Inr)
  show ?thesis
  proof (cases d)
    case (Returns res v)
    then show ?thesis using d(2) task_page_user by (auto simp: andthen_eq_Inr back_in_user_def)
  next
    case (User_mode r v)
    then have "\<exists>x. run_command pl x u = Inr (User_mode r v)"
      using d(1) by (auto simp: isr80h_handle_command_def split: if_splits option.splits)
    then show ?thesis using d(2) User_mode run_command_user by auto
  qed
next
  assume h: "interrupt_handler pl scancode i frame s = Inr c"
  show ?thesis
  proof (cases "interrupt_callbacks (kernel_page s) ! i")
    case None
    then show ?thesis using h task_page_user
      by (auto simp: interrupt_handler_def Let_def andthen_eq_Inr back_in_user_def)
  next
    case (Some cb)
    then obtain u d where d: "run_callback pl scancode cb u = Inr d"
      "(case d of User_mode r s \<Rightarrow> Inr (User_mode r s) | Returns res s \<Rightarrow> andthen (task_page s) (\<lambda>s. Inr (Returns res s))) = Inr c"
      using h by (auto simp: interrupt_handler_def Let_def andthen_eq_Inr)
    show ?thesis
    proof (cases d)
      case (Returns res v)
      then show ?thesis using d(2) task_page_user by (auto simp: andthen_eq_Inr back_in_user_def)
    next
      case (User_mode r v)
      then have "end_current_process pl u = Inr (User_mode r v)"
        using d(1) by (auto simp: run_callback_def andthen_eq_Inr idt_handle_exception_def split: interrupt_callback.splits)
      then show ?thesis using d(2) User_mode end_current_process_user by auto
    qed
  qed
qed

theorem handlers_return_to_user_witness:
  "\<forall>pl frame. \<exists>u. isr80h_handler pl 42 frame demo_system = Inr (Returns 0 u) \<and> data_segment u = 0x23 \<and>
     cr3 u = 0x07070707"
proof (intro allI)
  fix pl frame
  have t: "tasks demo_two 0x2000 = Some (demo_task 0x9000 0 0x1000)" by (simp add: demo_two_def)
  obtain u where u: "isr80h_handler pl 42 frame demo_system = Inr (Returns 0 u)" "mem u = (\<lambda>_. 7)"
    by (simp add: isr80h_handler_def kernel_page_def kernel_registers_def Let_def paging_switch_def
        task_current_save_state_def deref_def isr80h_handle_command_def c_defs task_page_def user_registers_def
        task_switch_def t)
  have "back_in_user (Returns 0 u)" using handlers_return_to_user u(1) by blast
  then show "\<exists>u. isr80h_handler pl 42 frame demo_system = Inr (Returns 0 u) \<and> data_segment u = 0x23 \<and>
     cr3 u = 0x07070707"
    using u by (auto simp: back_in_user_def on_task_pages_def c_defs load32_def)
qed

end
