(* ===== verification/Process_Life.thy ===== *)
theory Process_Life
  imports Process_Props
begin

text \<open>
  The life of a process: mapping the memory of its program and stack, handing it its arguments,
  and giving back everything it has allocated when it ends.
\<close>

unbundle bit_operations_syntax

section \<open>Ending a process\<close>

abbreviation no_allocation :: process_allocation where
  "no_allocation \<equiv> \<lparr>alloc_ptr = 0, alloc_size = 0\<rparr>"

text \<open>The addresses a process has recorded, and the pages they cover.\<close>

definition recorded :: "process_allocation list \<Rightarrow> u32 set" where
  "recorded as = alloc_ptr ` set as - {0}"

definition recorded_page :: "process_allocation list \<Rightarrow> u32 \<Rightarrow> bool" where
  "recorded_page as w \<longleftrightarrow>
     (\<exists>a \<in> set as. alloc_ptr a \<noteq> 0 \<and> (\<exists>k < blocks_for (alloc_size a). w = alloc_ptr a + 4096 * of_nat k))"

lemma restrict_map_UNIV [simp]: "m |` UNIV = m"
  by (simp add: fun_eq_iff)

lemma recorded_none [simp]: "recorded (replicate n no_allocation) = {}"
  by (auto simp: recorded_def)

lemma recorded_page_none [simp]: "\<not> recorded_page (replicate n no_allocation) w"
  by (auto simp: recorded_page_def)

lemma recorded_cons: "recorded (a # as) = (if alloc_ptr a = 0 then {} else {alloc_ptr a}) \<union> recorded as"
  by (auto simp: recorded_def)

lemma recorded_page_cons:
  "recorded_page (a # as) w \<longleftrightarrow> alloc_ptr a \<noteq> 0 \<and> (\<exists>k < blocks_for (alloc_size a). w = alloc_ptr a + 4096 * of_nat k) \<or>
     recorded_page as w"
  by (auto simp: recorded_page_def)

text \<open>What lies in another live block is outside the table and the pages.\<close>

lemma live_far:
  assumes "kheap_ok s" and "live s q = Some l" and "unat (a - q) < 4096 * l"
    and "\<forall>p\<in>C. live s p = Some 1" and "q \<notin> C"
  shows "\<not> kheap_table s a" and "outside C a"
  using kzalloc.owned_meta [OF assms(1-3)] live_outside [OF assms(1) _ assms(2) _ assms(3), of _ 1] assms(4,5)
  by (fastforce simp: outside_def)+

text \<open>Writing to a block of one's own.\<close>

lemma user_ok_write:
  assumes u: "user_ok process p c s" and b: "live s b = Some n" "b \<notin> chunk_pages (mem s) c"
    and m: "\<forall>a. 4096 * n \<le> unat (a - b) \<longrightarrow> m a = mem s a"
  shows "user_ok process p c (s\<lparr>mem := m\<rparr>)" and "live (s\<lparr>mem := m\<rparr>) = live s"
    and "kheap_spare (s\<lparr>mem := m\<rparr>) = kheap_spare s" and "chunk_pages m c = chunk_pages (mem s) c"
    and "user_dir c m = user_dir c (mem s)"
    and "4096 dvd unat w \<Longrightarrow> paging_get m (load32 m c) w = paging_get (mem s) (load32 (mem s) c) w"
    and "live s q = Some l \<Longrightarrow> q \<noteq> b \<Longrightarrow> unat (a - q) < 4096 * l \<Longrightarrow> m a = mem s a"
proof -
  let ?s = "s\<lparr>mem := m\<rparr>"
  have ok: "kheap_ok s" and ch: "chunk_ok c (mem s)" and own: "\<forall>q \<in> chunk_pages (mem s) c. live s q = Some 1"
    using u by (simp_all add: user_ok_def)
  show far: "m a = mem s a" if "live s q = Some l" "q \<noteq> b" "unat (a - q) < 4096 * l" for q l a
    using live_outside [OF ok b(1) that(1) _ that(3)] that(2) m by simp
  have W: "kheap_ok ?s" "live ?s = live s" "kheap_spare ?s = kheap_spare s"
    using own_write [OF ok b(1), of m] m by blast+
  show "live ?s = live s" "kheap_spare ?s = kheap_spare s" by fact+
  have keep: "m a = mem s a" if "q \<in> chunk_pages (mem s) c" "unat (a - q) < 4096" for q a
    using far [of q 1 a] own that b(2) by auto
  note F = chunk_frame [OF ch, of m]
  show pg: "chunk_pages m c = chunk_pages (mem s) c" using F(2) keep by blast
  show "user_dir c m = user_dir c (mem s)" using F(5) keep by blast
  show "4096 dvd unat w \<Longrightarrow> paging_get m (load32 m c) w = paging_get (mem s) (load32 (mem s) c) w" for w
    using F(4) keep by blast
  have ch': "chunk_ok c m" using F(1) keep by blast
  have "process_chunk p ?s = process_chunk p s" by (simp add: process_chunk_def deref_def)
  then show "user_ok process p c ?s" using u W pg ch' by (simp add: user_ok_def kheap_low_def)
qed

text \<open>The byte that \<open>kfree(0)\<close> clears is below everything the heap uses.\<close>

lemma null_byte_apart:
  assumes "kheap_ok s" and "kernel_heap s = booted_heap"
  shows "\<not> kheap_table s 0x5E00" and "live s p = Some n \<Longrightarrow> 4096 * n \<le> unat (0x5E00 - p)"
proof -
  show "\<not> kheap_table s 0x5E00" by (simp add: assms(2) in_table_def booted_heap_def)
  assume l: "live s p = Some n"
  have "\<not> in_pool booted_heap 0x5E00" by (simp add: in_pool_def booted_heap_def)
  then show "4096 * n \<le> unat (0x5E00 - p)" using live_in_pool [OF assms(1) l] assms(2) by (metis not_le)
qed

lemma user_null_byte:
  assumes u: "user_ok process p c s" and h: "kernel_heap s = booted_heap"
  defines "s' \<equiv> s\<lparr>mem := (mem s)(0x5E00 := 0)\<rparr>"
  shows "user_ok process p c s'" and "live s' = live s" and "kheap_spare s' = kheap_spare s"
    and "chunk_pages (mem s') c = chunk_pages (mem s) c"
    and "4096 dvd unat w \<Longrightarrow> paging_get (mem s') (load32 (mem s') c) w = paging_get (mem s) (load32 (mem s) c) w"
    and "user_dir c (mem s') = user_dir c (mem s)"
proof -
  let ?P = "chunk_pages (mem s) c"
  have ok: "kheap_ok s" and ch: "chunk_ok c (mem s)" and own: "\<forall>q\<in>?P. live s q = Some 1"
    using u by (simp_all add: user_ok_def)
  note N = null_byte_apart [OF ok h]
  have keep: "((mem s)(0x5E00 := 0)) a = mem s a" if "q \<in> ?P" "unat (a - q) < 4096" for q a
    using N(2) [of q 1] own that by auto
  note C = chunk_frame [OF ch, of "(mem s)(0x5E00 := 0)"]
  show "chunk_pages (mem s') c = chunk_pages (mem s) c" using C(2) keep by (simp add: s'_def)
  show "user_dir c (mem s') = user_dir c (mem s)" unfolding s'_def using C(5) keep by simp
  have P: "chunk_pages ((mem s)(0x5E00 := 0)) c = ?P" using C(2) keep by blast
  have W: "kheap_ok s'" "live s' = live s" "kheap_spare s' = kheap_spare s"
    unfolding s'_def using write_outside [OF ok own, of "(mem s)(0x5E00 := 0)"] keep
      kzalloc.put_ok [OF ok] kzalloc.put_owned [OF ok] kzalloc.spare_put [OF ok] N(1) by fastforce+
  show "live s' = live s" and "kheap_spare s' = kheap_spare s" by fact+
  show "4096 dvd unat w \<Longrightarrow> paging_get (mem s') (load32 (mem s') c) w = paging_get (mem s) (load32 (mem s) c) w"
    unfolding s'_def using C(4) keep by simp
  have "process_chunk p s' = process_chunk p s" by (simp add: s'_def process_chunk_def deref_def)
  moreover have "chunk_ok c (mem s')" using C(1) keep by (simp add: s'_def)
  ultimately show "user_ok process p c s'"
    using u W(1,2) P by (simp add: user_ok_def s'_def kheap_low_def)
qed

lemma process_free_null:
  assumes u: "user_ok process p c s" and h: "kernel_heap s = booted_heap" and b: "mem s 0x5E00 AND 0x80 = 0"
    and e: "i < length (proc_allocations p)" "alloc_ptr (proc_allocations p ! i) = 0"
  shows "process_free process 0 s = Inr (s\<lparr>mem := (mem s)(0x5E00 := 0)\<rparr>)"
proof -
  let ?as = "proc_allocations p"
  have p: "process_objects s process = Some p" and ch: "process_chunk p s = Inr c"
    and al: "allocations_ok (live s) (chunk_pages (mem s) c) ?as" using u by (simp_all add: user_ok_def)
  have zero: "?as ! j = no_allocation" if "j < length ?as" "alloc_ptr (?as ! j) = 0" for j
    using al that by (auto simp: allocations_ok_def intro: process_allocation.equality)
  have "allocation_index 0 0 ?as \<noteq> None"
    unfolding allocation_index_None using nth_mem [OF e(1)] e(2) by force
  then obtain j where j: "allocation_index 0 0 ?as = Some j" by blast
  then have get: "process_is_process_pointer p 0" "process_get_allocation_by_addr p 0 = Some no_allocation"
    using allocation_index_Some [OF j] zero [of j]
    by (simp_all add: process_is_process_pointer_def process_get_allocation_by_addr_def)
  have "map (\<lambda>a. if alloc_ptr a = 0 then no_allocation else a) ?as = ?as"
    using zero by (intro nth_equalityI) auto
  then have un: "process_unjoin_allocation_array p 0 = p" by (simp add: process_unjoin_allocation_array_def)
  have none: "paging_map_to (mem s) c 0 0 (paging_align_address (0 + 0)) 0 = (0, mem s)"
    by (simp add: paging_map_to_def paging_map_range_def paging_align_address_def c_defs)
  have "kfree 0 s = s\<lparr>mem := (mem s)(0x5E00 := 0)\<rparr>"
    using kfree_null [OF h] b by (simp add: kfree_def)
  moreover have "put_process process p s = s"
    using p by (simp add: put_process_def fun_upd_idem)
  ultimately show ?thesis
    using p get un none ch by (simp add: process_free_def deref_def Let_def)
qed

text \<open>
  What ending allocations leaves, from a state \<open>s\<close> of a process with the table \<open>as\<close>: none of them is
  live, their pages are not present, and no other memory has changed except the byte that
  \<open>kfree(0)\<close> clears.
\<close>

definition given_back :: "process_allocation list \<Rightarrow> u32 \<Rightarrow> 'a kernel_scheme \<Rightarrow> 'a kernel_scheme \<Rightarrow> bool" where
  "given_back as c s s' \<longleftrightarrow>
     live s' = live s |` (- recorded as) \<and>
     chunk_pages (mem s') c = chunk_pages (mem s) c \<and> user_dir c (mem s') = user_dir c (mem s) \<and>
     (\<forall>w. 4096 dvd unat w \<longrightarrow> paging_get (mem s') (load32 (mem s') c) w =
       (if recorded_page as w then w else paging_get (mem s) (load32 (mem s) c) w)) \<and>
     (mem s' 0x5E00 = mem s 0x5E00 \<or> mem s' 0x5E00 = 0) \<and>
     (\<forall>a. \<not> kheap_table s a \<longrightarrow> outside (chunk_pages (mem s) c) a \<longrightarrow> a \<noteq> 0x5E00 \<longrightarrow> mem s' a = mem s a)"

lemma given_back_null:
  assumes "user_ok process p c s" and "kernel_heap s = booted_heap"
  shows "given_back [no_allocation] c s (s\<lparr>mem := (mem s)(0x5E00 := 0)\<rparr>)"
  using user_null_byte(2,4,5,6) [OF assms]
  by (simp add: given_back_def recorded_cons recorded_page_cons) (simp add: recorded_def recorded_page_def)

lemma given_back_trans:
  assumes g: "given_back [a] c s s1" "given_back as c s1 s2" and h: "kernel_heap s1 = kernel_heap s"
  shows "given_back (a # as) c s s2"
proof -
  have "recorded (a # as) = recorded [a] \<union> recorded as" by (auto simp: recorded_def)
  moreover have "recorded_page (a # as) w \<longleftrightarrow> recorded_page [a] w \<or> recorded_page as w" for w
    by (auto simp: recorded_page_def)
  moreover have "kheap_table s1 = kheap_table s" by (simp add: h)
  ultimately show ?thesis
    using g unfolding given_back_def by (auto simp: restrict_map_def fun_eq_iff)
qed

text \<open>Freeing one recorded allocation.\<close>

lemma given_back_free:
  assumes u: "user_ok process p c s" and h: "kernel_heap s = booted_heap" and b: "mem s 0x5E00 AND 0x80 = 0"
    and i: "i < length (proc_allocations p)"
  shows "\<exists>s'. process_free process (alloc_ptr (proc_allocations p ! i)) s = Inr s' \<and>
    user_ok process (p\<lparr>proc_allocations := (proc_allocations p)[i := no_allocation]\<rparr>) c s' \<and>
    (\<exists>m. s' = put_process process (p\<lparr>proc_allocations := (proc_allocations p)[i := no_allocation]\<rparr>) (s\<lparr>mem := m\<rparr>)) \<and>
    mem s' 0x5E00 AND 0x80 = 0 \<and> given_back [proc_allocations p ! i] c s s' \<and>
    kheap_spare s' = kheap_spare s + (if alloc_ptr (proc_allocations p ! i) = 0 then 0
      else blocks_for (alloc_size (proc_allocations p ! i)))"
proof (cases "alloc_ptr (proc_allocations p ! i) = 0")
  case True
  have "allocations_ok (live s) (chunk_pages (mem s) c) (proc_allocations p)" and p: "process_objects s process = Some p"
    using u by (simp_all add: user_ok_def)
  then have e: "proc_allocations p ! i = no_allocation"
    using True i by (auto simp: allocations_ok_def intro: process_allocation.equality)
  then have "(proc_allocations p)[i := no_allocation] = proc_allocations p" by (metis list_update_id)
  moreover have "s\<lparr>mem := m\<rparr> = put_process process p (s\<lparr>mem := m\<rparr>)" for m
    using p by (simp add: put_process_def fun_upd_idem)
  ultimately show ?thesis
    using process_free_null [OF u h b i True] user_null_byte(1,3) [OF u h] given_back_null [OF u h] e
    by (auto intro!: exI [of _ "s\<lparr>mem := (mem s)(0x5E00 := 0)\<rparr>"])
next
  case False
  let ?a = "proc_allocations p ! i"
  have ok: "kheap_ok s" and own: "\<forall>q\<in>chunk_pages (mem s) c. live s q = Some 1"
    using u by (simp_all add: user_ok_def)
  obtain s' where s': "process_free process (alloc_ptr ?a) s = Inr s'" "live s' = (live s)(alloc_ptr ?a := None)"
    "user_ok process (p\<lparr>proc_allocations := (proc_allocations p)[i := no_allocation]\<rparr>) c s'"
    "self_mapped c (alloc_ptr ?a) (blocks_for (alloc_size ?a)) 0 (mem s) (mem s')"
    "\<exists>m. s' = put_process process (p\<lparr>proc_allocations := (proc_allocations p)[i := no_allocation]\<rparr>) (s\<lparr>mem := m\<rparr>)"
    "kheap_spare s' = kheap_spare s + blocks_for (alloc_size ?a)"
    "chunk_pages (mem s') c = chunk_pages (mem s) c \<and> user_dir c (mem s') = user_dir c (mem s)"
    "\<forall>a. \<not> kheap_table s a \<longrightarrow> outside (chunk_pages (mem s) c) a \<longrightarrow> mem s' a = mem s a"
    using process_free_contract [OF u i _ False, of "alloc_size ?a"] by auto
  have "outside (chunk_pages (mem s) c) 0x5E00"
    using null_byte_apart(2) [OF ok h] own by (fastforce simp: outside_def)
  then have n: "mem s' 0x5E00 = mem s 0x5E00" using s'(8) null_byte_apart(1) [OF ok h] by blast
  moreover have "recorded [?a] = {alloc_ptr ?a}" using False by (auto simp: recorded_def)
  then have "given_back [?a] c s s'"
    using s'(2,4,7,8) n False unfolding given_back_def self_mapped_def
    by (auto simp: recorded_page_def restrict_map_def fun_eq_iff)
  ultimately show ?thesis using s'(1,3,5,6) False b by (intro exI [of _ s']) simp
qed

lemma terminate_loop_contract:
  assumes "user_ok process p c s" and "kernel_heap s = booted_heap" and "mem s 0x5E00 AND 0x80 = 0"
    and "i + n = length (proc_allocations p)"
  shows "\<exists>s'. terminate_loop process i n s = Inr s' \<and>
    user_ok process (p\<lparr>proc_allocations := take i (proc_allocations p) @ replicate n no_allocation\<rparr>) c s' \<and>
    (\<exists>m. s' = put_process process (p\<lparr>proc_allocations := take i (proc_allocations p) @ replicate n no_allocation\<rparr>) (s\<lparr>mem := m\<rparr>)) \<and>
    given_back (drop i (proc_allocations p)) c s s'"
  using assms
proof (induction n arbitrary: i p s)
  case 0
  have p: "process_objects s process = Some p" using 0(1) by (simp add: user_ok_def)
  then have "s = put_process process p (s\<lparr>mem := mem s\<rparr>)" by (simp add: put_process_def fun_upd_idem)
  then have "\<exists>m. s = put_process process p (s\<lparr>mem := m\<rparr>)" by blast
  moreover have "take i (proc_allocations p) = proc_allocations p" "drop i (proc_allocations p) = []"
    using 0(4) by simp_all
  moreover have "given_back [] c s s"
    by (simp add: given_back_def recorded_def recorded_page_def)
  ultimately show ?case using 0(1) by (intro exI [of _ s]) simp
next
  case (Suc n)
  let ?as = "proc_allocations p" let ?p = "p\<lparr>proc_allocations := ?as[i := no_allocation]\<rparr>"
  have i: "i < length ?as" using Suc.prems(4) by simp
  have p: "process_objects s process = Some p" using Suc.prems(1) by (simp add: user_ok_def)
  obtain s1 where s1: "process_free process (alloc_ptr (?as ! i)) s = Inr s1" "user_ok process ?p c s1"
    "\<exists>m. s1 = put_process process ?p (s\<lparr>mem := m\<rparr>)" "mem s1 0x5E00 AND 0x80 = 0" "given_back [?as ! i] c s s1"
    using given_back_free [OF Suc.prems(1-3) i] by blast
  have h: "kernel_heap s1 = kernel_heap s" using s1(3) by (auto simp: put_process_def)
  obtain s2 where s2: "terminate_loop process (Suc i) n s1 = Inr s2"
    "user_ok process (?p\<lparr>proc_allocations := take (Suc i) (proc_allocations ?p) @ replicate n no_allocation\<rparr>) c s2"
    "\<exists>m. s2 = put_process process (?p\<lparr>proc_allocations := take (Suc i) (proc_allocations ?p) @ replicate n no_allocation\<rparr>) (s1\<lparr>mem := m\<rparr>)"
    "given_back (drop (Suc i) (proc_allocations ?p)) c s1 s2"
    using Suc.IH [OF s1(2) _ s1(4), of "Suc i"] h Suc.prems(2,4) by auto
  have t: "take (Suc i) (?as[i := no_allocation]) @ replicate n no_allocation = take i ?as @ replicate (Suc n) no_allocation"
    using i by (simp add: take_Suc_conv_app_nth take_update_cancel replicate_app_Cons_same)
  have d: "drop i ?as = ?as ! i # drop (Suc i) (?as[i := no_allocation])"
    using i by (simp add: Cons_nth_drop_Suc)
  have "given_back (drop i ?as) c s s2"
    unfolding d using given_back_trans [OF s1(5) _ h] s2(4) by simp
  moreover have "terminate_loop process i (Suc n) s = Inr s2"
    using p s1(1) s2(1) by (simp add: deref_def)
  moreover have "\<exists>m. s2 = put_process process (p\<lparr>proc_allocations := take i ?as @ replicate (Suc n) no_allocation\<rparr>) (s\<lparr>mem := m\<rparr>)"
    using s1(3) s2(3) t by (auto simp: put_process_def)
  ultimately show ?case using s2(2) t by (intro exI [of _ s2]) simp
qed

section \<open>Mapping the program and the stack\<close>

text \<open>\<open>n\<close> pages from \<open>v\<close> on mapped to the frames from \<open>p\<close> on, and no other page changed.\<close>

definition mapped :: "u32 \<Rightarrow> u32 \<Rightarrow> u32 \<Rightarrow> nat \<Rightarrow> u32 \<Rightarrow> byte_mem \<Rightarrow> byte_mem \<Rightarrow> bool" where
  "mapped c v p n fl m m' \<longleftrightarrow> (\<forall>w. 4096 dvd unat w \<longrightarrow> paging_get m' (load32 m' c) w =
     (if unat (w - v) < 4096 * n then (p + (w - v)) OR fl else paging_get m (load32 m c) w))"

lemma aligned_minus:
  fixes w v :: u32
  assumes "4096 dvd unat w" and "4096 dvd unat v"
  shows "4096 dvd unat (w - v)"
proof (cases "v \<le> w")
  case True
  then show ?thesis using assms by (simp add: unat_sub dvd_diff_nat)
next
  case False
  then have "unat (w - v) = 4294967296 + unat w - unat v"
    by (simp add: unat_sub_if_size word_size word_le_nat_alt)
  moreover have "4096 dvd 4294967296 + unat w - unat v" using assms by (intro dvd_diff_nat dvd_add) auto
  ultimately show ?thesis by simp
qed

lemma in_run_iff:
  fixes v w :: u32
  assumes v: "4096 dvd unat v" and w: "4096 dvd unat w" and n: "4096 * n \<le> 4294967296"
  shows "unat (w - v) < 4096 * n \<longleftrightarrow> (\<exists>k<n. w = v + 4096 * of_nat k)"
proof
  have e: "w = v + of_nat (4096 * k) \<longleftrightarrow> unat (w - v) = 4096 * k" if "k < n" for k
    using that n by (intro offset_of_nat) simp
  have d: "4096 dvd unat (w - v)" using w v by (rule aligned_minus)
  show "\<exists>k<n. w = v + 4096 * of_nat k" if "unat (w - v) < 4096 * n"
  proof -
    obtain k where k: "unat (w - v) = 4096 * k" using d by (rule dvdE)
    then have "k < n" using that by simp
    then show ?thesis using e k by (intro exI [of _ k]) simp
  qed
  show "unat (w - v) < 4096 * n" if ex: "\<exists>k<n. w = v + 4096 * of_nat k"
  proof -
    obtain k where k: "k < n" "w = v + 4096 * of_nat k" using ex by blast
    then have "w = v + of_nat (4096 * k)" by simp
    then have "unat (w - v) = 4096 * k" using e [OF k(1)] by (simp only:)
    then show ?thesis using k(1) by simp
  qed
qed

lemma map_to_block:
  assumes u: "kheap_ok s" "kheap_low s" "chunk_ok c (mem s)" "\<forall>q \<in> chunk_pages (mem s) c. live s q = Some 1"
    and l: "live s p = Some (blocks_for sz)" and v: "4096 dvd unat v"
    and m: "paging_map_to (mem s) c v p (paging_align_address (p + sz)) fl = (res, m')"
  defines "s' \<equiv> s\<lparr>mem := m'\<rparr>"
  shows "res = 0" and "mapped c v p (blocks_for sz) fl (mem s) m'" and "chunk_ok c m'"
    and "chunk_pages m' c = chunk_pages (mem s) c" and "kheap_ok s'" and "live s' = live s"
    and "kheap_spare s' = kheap_spare s" and "outside (chunk_pages (mem s) c) a \<Longrightarrow> m' a = mem s a"
    and "user_dir c m' = user_dir c (mem s)"
proof -
  have pa: "4096 dvd unat p" by (rule live_page_aligned [OF u(1) l])
  have e: "unat (paging_align_address (p + sz)) = unat p + 4096 * blocks_for sz"
    by (rule live_end_aligned [OF u(1,2) l])
  note M = map_to_run [OF u(3) v pa e m]
  show "res = 0" and "chunk_ok c m'" and "chunk_pages m' c = chunk_pages (mem s) c"
    and fr: "outside (chunk_pages (mem s) c) a \<Longrightarrow> m' a = mem s a"
    and "user_dir c m' = user_dir c (mem s)" for a
    using M by blast+
  have n: "4096 * blocks_for sz \<le> 4294967296" using kzalloc.owned_bound [OF u(1) l] by simp
  show "mapped c v p (blocks_for sz) fl (mem s) m'"
    unfolding mapped_def
  proof (intro allI impI)
    fix w :: u32 assume w: "4096 dvd unat w"
    show "paging_get m' (load32 m' c) w =
      (if unat (w - v) < 4096 * blocks_for sz then (p + (w - v)) OR fl else paging_get (mem s) (load32 (mem s) c) w)"
      using M(4) M(5) [OF w] unfolding in_run_iff [OF v w n] by auto
  qed
  show "kheap_ok s'" and "live s' = live s" and "kheap_spare s' = kheap_spare s"
    unfolding s'_def using write_outside [OF u(1,4), of m'] fr by blast+
qed

lemma stack_blocks: "blocks_for SLOBOS_USER_PROGRAM_STACK_SIZE = 4"
  by (simp add: blocks_for_def c_defs)

lemma user_flags_eq: "user_page_flags = 7" "user_flags = 7"
  by (simp_all add: user_page_flags_def user_flags_def c_defs)

lemma user_ok_put:
  assumes "user_ok process p c s" and "\<And>a. outside (chunk_pages (mem s) c) a \<Longrightarrow> m a = mem s a"
    and "chunk_ok c m" and "chunk_pages m c = chunk_pages (mem s) c"
  shows "user_ok process p c (s\<lparr>mem := m\<rparr>)" and "live (s\<lparr>mem := m\<rparr>) = live s"
    and "kheap_spare (s\<lparr>mem := m\<rparr>) = kheap_spare s"
proof -
  have "kheap_ok s" "\<forall>q \<in> chunk_pages (mem s) c. live s q = Some 1" using assms(1) by (simp_all add: user_ok_def)
  note W = write_outside [OF this assms(2)]
  show "live (s\<lparr>mem := m\<rparr>) = live s" and "kheap_spare (s\<lparr>mem := m\<rparr>) = kheap_spare s" using W by blast+
  have "process_chunk p (s\<lparr>mem := m\<rparr>) = process_chunk p s" by (simp add: process_chunk_def deref_def)
  then show "user_ok process p c (s\<lparr>mem := m\<rparr>)"
    using assms W by (simp add: user_ok_def kheap_low_def)
qed

definition program_entry :: "process \<Rightarrow> u32 \<Rightarrow> u32 \<Rightarrow> u32" where
  "program_entry p old w =
     (if unat (w - SLOBOS_PROGRAM_VIRTUAL_STACK_ADDRESS_END) < 16384
      then (proc_stack p + (w - SLOBOS_PROGRAM_VIRTUAL_STACK_ADDRESS_END)) OR user_page_flags
      else if unat (w - SLOBOS_PROGRAM_VIRTUAL_ADDRESS) < 4096 * blocks_for (proc_size p)
      then (proc_ptr p + (w - SLOBOS_PROGRAM_VIRTUAL_ADDRESS)) OR user_page_flags
      else old)"

lemma process_map_memory_contract:
  assumes u: "user_ok process p c s" and b: "proc_filetype p = PROCESS_FILETYPE_BINARY"
    and l: "live s (proc_ptr p) = Some (blocks_for (proc_size p))" "live s (proc_stack p) = Some 4"
  shows "\<exists>m. process_map_memory process s = Inr (0, s\<lparr>mem := m\<rparr>) \<and> user_ok process p c (s\<lparr>mem := m\<rparr>) \<and>
    live (s\<lparr>mem := m\<rparr>) = live s \<and> kheap_spare (s\<lparr>mem := m\<rparr>) = kheap_spare s \<and>
    chunk_pages m c = chunk_pages (mem s) c \<and> user_dir c m = user_dir c (mem s) \<and>
    (\<forall>w. 4096 dvd unat w \<longrightarrow> paging_get m (load32 m c) w = program_entry p (paging_get (mem s) (load32 (mem s) c) w) w) \<and>
    (\<forall>a. outside (chunk_pages (mem s) c) a \<longrightarrow> m a = mem s a)"
proof -
  have p: "process_objects s process = Some p" and ch: "process_chunk p s = Inr c"
    and k: "kheap_ok s" "kheap_low s" "chunk_ok c (mem s)" "\<forall>q \<in> chunk_pages (mem s) c. live s q = Some 1"
    using u by (simp_all add: user_ok_def)
  obtain r1 m1 where m1: "paging_map_to (mem s) c SLOBOS_PROGRAM_VIRTUAL_ADDRESS (proc_ptr p)
      (paging_align_address (proc_ptr p + proc_size p)) user_page_flags = (r1, m1)" by fastforce
  note M1 = map_to_block [OF k l(1) _ m1]
  have a1: "4096 dvd unat SLOBOS_PROGRAM_VIRTUAL_ADDRESS" by (simp add: c_defs)
  let ?s1 = "s\<lparr>mem := m1\<rparr>"
  have u1: "user_ok process p c ?s1" using user_ok_put(1) [OF u] M1 a1 by blast
  have l2: "live ?s1 (proc_stack p) = Some (blocks_for SLOBOS_USER_PROGRAM_STACK_SIZE)"
    using M1(6) [OF a1] l(2) by (simp add: stack_blocks)
  obtain r2 m2 where m2: "paging_map_to (mem ?s1) c SLOBOS_PROGRAM_VIRTUAL_STACK_ADDRESS_END (proc_stack p)
      (paging_align_address (proc_stack p + SLOBOS_USER_PROGRAM_STACK_SIZE)) user_page_flags = (r2, m2)" by fastforce
  have k1: "kheap_ok ?s1" "kheap_low ?s1" "chunk_ok c (mem ?s1)" "\<forall>q \<in> chunk_pages (mem ?s1) c. live ?s1 q = Some 1"
    using u1 by (simp_all add: user_ok_def)
  have a2: "4096 dvd unat SLOBOS_PROGRAM_VIRTUAL_STACK_ADDRESS_END" by (simp add: c_defs)
  note M2 = map_to_block [OF k1 l2 a2 m2] and M1 = M1 [OF a1]
  have P: "chunk_pages (mem ?s1) c = chunk_pages (mem s) c" using M1(4) by simp
  have ch1: "process_chunk p (s\<lparr>mem := m\<rparr>) = Inr c" for m using ch by (simp add: process_chunk_def deref_def)
  have run: "process_map_memory process s = Inr (0, s\<lparr>mem := m2\<rparr>)"
    using p b ch ch1 m1 m2
    by (simp add: process_map_memory_def process_map_binary_def deref_def Let_def PROCESS_FILETYPE_ELF_def PROCESS_FILETYPE_BINARY_def)
  have "paging_get m2 (load32 m2 c) w = program_entry p (paging_get (mem s) (load32 (mem s) c) w) w"
    if "4096 dvd unat w" for w
    using M1(2) M2(2) that by (simp add: mapped_def program_entry_def stack_blocks)
  moreover have out: "m2 a = mem s a" if "outside (chunk_pages (mem s) c) a" for a
    using M1(8) [OF that] M2(8) that P by simp
  moreover have pages: "chunk_pages m2 c = chunk_pages (mem s) c" using M2(4) P by simp
  moreover have "user_dir c m2 = user_dir c (mem s)" using M1(9) M2(9) by simp
  moreover note user_ok_put [OF u out M2(3) pages]
  ultimately show ?thesis using run by blast
qed

end
