(* ===== verification/Isolation.thy ===== *)
theory Isolation
  imports Process_Life
begin

text \<open>
  Isolation of user programs. In user mode a program writes through the page entries of its task
  that have the write flag. Whatever the programs, the scheduler and the system calls for memory
  do, those entries lead to memory of the task's own process, which no other process shares and
  which holds no page table: a program can change neither another program nor its own mapping.
\<close>

unbundle bit_operations_syntax

section \<open>The memory of a process\<close>

text \<open>Its program, its stack and its allocations: address and number of pages.\<close>

definition blocks_of :: "process \<Rightarrow> (u32 \<times> nat) set" where
  "blocks_of p = {(proc_ptr p, blocks_for (proc_size p)), (proc_stack p, 4)} \<union>
     {(alloc_ptr a, blocks_for (alloc_size a)) | a. a \<in> set (proc_allocations p) \<and> alloc_ptr a \<noteq> 0}"

definition bases :: "process \<Rightarrow> u32 set" where
  "bases p = {proc_ptr p, proc_stack p} \<union> recorded (proc_allocations p)"

definition memory_of :: "process \<Rightarrow> u32 set" where
  "memory_of p = {a. \<exists>(b, n) \<in> blocks_of p. unat (a - b) < 4096 * n}"

lemma fst_blocks: "fst ` blocks_of p = bases p"
  by (auto simp: blocks_of_def bases_def recorded_def image_iff)

section \<open>The invariant\<close>

text \<open>The entry that the page directory of a task has for a page, and whether it may be written.\<close>

definition entry :: "'a kernel_scheme \<Rightarrow> u32 \<Rightarrow> u32 \<Rightarrow> u32" where
  "entry s t w = paging_get (mem s) (load32 (mem s) (directory_of s t)) w"

definition writeable :: "u32 \<Rightarrow> bool" where
  "writeable e \<longleftrightarrow> e AND PAGING_IS_WRITEABLE \<noteq> 0"

definition frame_of :: "u32 \<Rightarrow> u32" where
  "frame_of e = e AND 0xFFFFF000"

text \<open>
  The frames for the pages of a program: its image from \<open>0x400000\<close> on, its stack below
  \<open>0x3FF000\<close>, and its allocations, which are mapped to themselves.
\<close>

definition user_page :: "process \<Rightarrow> u32 \<Rightarrow> u32 \<Rightarrow> bool" where
  "user_page p w f \<longleftrightarrow>
     recorded_page (proc_allocations p) w \<and> f = w \<or>
     unat (w - SLOBOS_PROGRAM_VIRTUAL_ADDRESS) < 4096 * blocks_for (proc_size p) \<and>
       f = proc_ptr p + (w - SLOBOS_PROGRAM_VIRTUAL_ADDRESS) \<or>
     unat (w - SLOBOS_PROGRAM_VIRTUAL_STACK_ADDRESS_END) < 16384 \<and>
       f = proc_stack p + (w - SLOBOS_PROGRAM_VIRTUAL_STACK_ADDRESS_END)"

text \<open>One task: its process is in order, and what it may write is the memory of that process.\<close>

definition confined :: "'a kernel_scheme \<Rightarrow> u32 \<Rightarrow> process \<Rightarrow> bool" where
  "confined s t p \<longleftrightarrow> process_objects s (process_of s t) = Some p \<and> proc_task p = t \<and>
     proc_filetype p = PROCESS_FILETYPE_BINARY \<and>
     allocations_ok (live s) (chunk_pages (mem s) (directory_of s t)) (proc_allocations p) \<and>
     live s (proc_ptr p) = Some (blocks_for (proc_size p)) \<and> live s (proc_stack p) = Some 4 \<and>
     proc_ptr p \<noteq> proc_stack p \<and> proc_ptr p \<notin> recorded (proc_allocations p) \<and>
     proc_stack p \<notin> recorded (proc_allocations p) \<and> user_dir (directory_of s t) (mem s) \<and>
     (\<forall>w. 4096 dvd unat w \<longrightarrow> writeable (entry s t w) \<longrightarrow> user_page p w (frame_of (entry s t w)))"

text \<open>All tasks: their processes have no block in common, and none of them is used for page tables.\<close>

definition isolated :: "u32 list \<Rightarrow> (u32 \<Rightarrow> process) \<Rightarrow> 'a kernel_scheme \<Rightarrow> bool" where
  "isolated ts P s \<longleftrightarrow> sched_ok ts s \<and> (\<forall>t \<in> set ts. confined s t (P t)) \<and>
     (\<forall>t \<in> set ts. \<forall>u \<in> set ts. bases (P t) \<inter> task_pages s u = {} \<and> (t \<noteq> u \<longrightarrow> bases (P t) \<inter> bases (P u) = {}))"

lemma confined_blocks:
  assumes "confined s t p" and "(b, n) \<in> blocks_of p"
  shows "live s b = Some n" and "b \<in> bases p"
proof -
  show "b \<in> bases p" using assms(2) fst_blocks by force
  have al: "\<forall>i < length (proc_allocations p). if alloc_ptr (proc_allocations p ! i) = 0 then alloc_size (proc_allocations p ! i) = 0
      else live s (alloc_ptr (proc_allocations p ! i)) = Some (blocks_for (alloc_size (proc_allocations p ! i))) \<and>
        alloc_ptr (proc_allocations p ! i) \<notin> chunk_pages (mem s) (directory_of s t) \<and>
        (\<forall>j < length (proc_allocations p). alloc_ptr (proc_allocations p ! j) = alloc_ptr (proc_allocations p ! i) \<longrightarrow> j = i)"
    using assms(1) unfolding confined_def allocations_ok_def by blast
  show "live s b = Some n"
    using assms al unfolding confined_def blocks_of_def by (auto simp: in_set_conv_nth)
qed

lemma confined_process_inj:
  assumes "confined s x p" and "confined s y q" and "process_of s x = process_of s y"
  shows "x = y"
proof -
  have "p = q" using assms by (simp add: confined_def)
  moreover have "proc_task p = x" "proc_task q = y" using assms(1,2) by (simp_all add: confined_def)
  ultimately show ?thesis by simp
qed

lemma memory_live:
  assumes "confined s t p" and "a \<in> memory_of p"
  obtains b n where "(b, n) \<in> blocks_of p" "live s b = Some n" "unat (a - b) < 4096 * n"
  using assms confined_blocks(1) [OF assms(1)] unfolding memory_of_def by blast

text \<open>The memory of a process is made of whole pages.\<close>

lemma memory_page:
  assumes ok: "kheap_ok s" and p: "confined s t p" and f: "f \<in> memory_of p" "4096 dvd unat f" and o: "unat x < 4096"
  shows "f + x \<in> memory_of p"
proof -
  obtain b n where b: "(b, n) \<in> blocks_of p" "live s b = Some n" "unat (f - b) < 4096 * n"
    using memory_live [OF p f(1)] .
  have al: "4096 dvd unat b" and n: "4096 * n \<le> 4294967296"
    using kzalloc.owned_aligned [OF ok b(2)] kzalloc.owned_bound [OF ok b(2)] by simp_all
  obtain k where k: "k < n" "f = b + 4096 * of_nat k" using b(3) in_run_iff [OF al f(2) n] by blast
  have "unat (of_nat (4096 * k) :: u32) = 4096 * k" using k(1) n by (intro unat_of_nat_u32) simp
  moreover have "f + x - b = of_nat (4096 * k) + x" using k(2) by simp
  ultimately have "unat (f + x - b) = 4096 * k + unat x"
    using o k(1) n by (subst \<open>f + x - b = _\<close>, subst unat_add_u32) auto
  then have "unat (f + x - b) < 4096 * n" using o k(1) by simp
  then show ?thesis using b(1) by (auto simp: memory_of_def)
qed

lemma user_page_memory:
  assumes ok: "kheap_ok s" and p: "confined s t p" and f: "user_page p w f"
  shows "f \<in> memory_of p"
proof -
  have "f \<in> memory_of p" if r: "recorded_page (proc_allocations p) f"
  proof -
    obtain a k where a: "a \<in> set (proc_allocations p)" "alloc_ptr a \<noteq> 0" "k < blocks_for (alloc_size a)"
      "f = alloc_ptr a + 4096 * of_nat k" using r unfolding recorded_page_def by blast
    have b: "(alloc_ptr a, blocks_for (alloc_size a)) \<in> blocks_of p" using a(1,2) by (auto simp: blocks_of_def)
    have "4096 * blocks_for (alloc_size a) \<le> 4294967296"
      using kzalloc.owned_bound [OF ok confined_blocks(1) [OF p b]] by simp
    then have "unat (of_nat (4096 * k) :: u32) = 4096 * k" using a(3) by (intro unat_of_nat_u32) simp
    then have "unat (f - alloc_ptr a) < 4096 * blocks_for (alloc_size a)" using a(3,4) by simp
    then show ?thesis using b by (auto simp: memory_of_def)
  qed
  then show ?thesis
    using f unfolding user_page_def memory_of_def blocks_of_def by auto
qed

section \<open>Steps of one process\<close>

lemma allocations_cong:
  assumes "allocations_ok L P as" and "\<And>b. b \<in> recorded as \<Longrightarrow> L' b = L b"
  shows "allocations_ok L' P as"
proof -
  have "L' (alloc_ptr (as ! i)) = L (alloc_ptr (as ! i))" if "i < length as" "alloc_ptr (as ! i) \<noteq> 0" for i
    using assms(2) that by (simp add: recorded_def)
  then show ?thesis using assms(1) by (auto simp: allocations_ok_def)
qed

text \<open>A task stays confined as long as its blocks, its page tables and its process do not change.\<close>

lemma confined_frame:
  assumes c: "confined s x p" and ok: "chunk_ok (directory_of s x) (mem s)"
    and live: "\<And>b. b \<in> bases p \<Longrightarrow> live s' b = live s b"
    and obj: "process_objects s' (process_of s' x) = Some p" and dir: "directory_of s' x = directory_of s x"
    and mem: "\<And>q a. q \<in> chunk_pages (mem s) (directory_of s x) \<Longrightarrow> unat (a - q) < 4096 \<Longrightarrow> mem s' a = mem s a"
  shows "confined s' x p"
proof -
  note F = chunk_frame [OF ok, of "mem s'"]
  have e: "entry s' x w = entry s x w" if "4096 dvd unat w" for w
    unfolding entry_def dir using F(4) mem that by blast
  have P: "chunk_pages (mem s') (directory_of s' x) = chunk_pages (mem s) (directory_of s x)"
    unfolding dir using F(2) mem by blast
  have "allocations_ok (live s') (chunk_pages (mem s') (directory_of s' x)) (proc_allocations p)"
  proof -
    have "allocations_ok (live s) (chunk_pages (mem s) (directory_of s x)) (proc_allocations p)"
      using c by (simp add: confined_def)
    then show ?thesis unfolding P by (rule allocations_cong) (rule live, simp add: bases_def)
  qed
  moreover have "live s' (proc_ptr p) = live s (proc_ptr p)" "live s' (proc_stack p) = live s (proc_stack p)"
    using live by (simp_all add: bases_def)
  moreover have "\<forall>w. 4096 dvd unat w \<longrightarrow> writeable (entry s' x w) \<longrightarrow> user_page p w (frame_of (entry s' x w))"
    using c by (simp add: confined_def e)
  moreover have "user_dir (directory_of s' x) (mem s')"
    using c F(5) mem unfolding dir confined_def by blast
  ultimately show ?thesis using c obj by (simp add: confined_def)
qed

text \<open>
  What the system calls of a process and its own writing have in common: they write to the page
  tables of its task, to its blocks and to free memory.
\<close>

definition own_step :: "'a kernel_scheme \<Rightarrow> u32 \<Rightarrow> process \<Rightarrow> process \<Rightarrow> 'a kernel_scheme \<Rightarrow> bool" where
  "own_step s t p p' s' \<longleftrightarrow> (\<exists>m. s' = put_process (process_of s t) p' (s\<lparr>mem := m\<rparr>)) \<and>
     user_ok (process_of s t) p' (directory_of s t) s' \<and>
     chunk_pages (mem s') (directory_of s t) = chunk_pages (mem s) (directory_of s t) \<and>
     (\<forall>q l. live s q = Some l \<longrightarrow> q \<notin> bases p \<longrightarrow> live s' q = Some l \<and>
       (q \<notin> chunk_pages (mem s) (directory_of s t) \<longrightarrow> (\<forall>a. unat (a - q) < 4096 * l \<longrightarrow> mem s' a = mem s a)))"

lemma own_step_sched:
  assumes iso: "isolated ts P s" and t: "t \<in> set ts" and step: "own_step s t (P t) p' s'"
  shows "sched_ok ts s'" and "x \<in> set ts \<Longrightarrow> task_pages s' x = task_pages s x"
    and "x \<in> set ts \<Longrightarrow> q \<in> task_pages s x \<Longrightarrow> live s' q = Some 1"
    and "x \<in> set ts \<Longrightarrow> x \<noteq> t \<Longrightarrow> q \<in> task_pages s x \<Longrightarrow> unat (a - q) < 4096 \<Longrightarrow> mem s' a = mem s a"
    and "tasks s' = tasks s"
proof -
  let ?c = "directory_of s t"
  have ok: "sched_ok ts s" using iso by (simp add: isolated_def)
  then have sp: "spaces_ok (set ts) s" by (simp add: sched_ok_def)
  obtain m where m: "s' = put_process (process_of s t) p' (s\<lparr>mem := m\<rparr>)" using step by (auto simp: own_step_def)
  show ts: "tasks s' = tasks s" by (simp add: m put_process_def)
  have dir: "directory_of s' x = directory_of s x" for x by (simp add: directory_of_def ts)
  have u: "user_ok (process_of s t) p' ?c s'" and pg: "chunk_pages (mem s') ?c = chunk_pages (mem s) ?c"
    using step by (simp_all add: own_step_def)
  have notB: "q \<notin> bases (P t)" if "x \<in> set ts" "q \<in> task_pages s x" for x q
    using iso t that unfolding isolated_def by blast
  show L: "live s' q = Some 1" if "x \<in> set ts" "q \<in> task_pages s x" for x q
    using step sched_live [OF ok that] notB [OF that] unfolding own_step_def by blast
  show M: "mem s' a = mem s a" if "x \<in> set ts" "x \<noteq> t" "q \<in> task_pages s x" "unat (a - q) < 4096" for x q a
  proof -
    have "task_pages s x \<inter> task_pages s t = {}" using sp that(1,2) t unfolding spaces_ok_def by blast
    then have "q \<notin> chunk_pages (mem s) ?c" using that(3) by (auto simp: task_pages_def)
    then show ?thesis
      using step sched_live [OF ok that(1,3)] notB [OF that(1,3)] that(4) unfolding own_step_def by fastforce
  qed
  have "spaces_ok (set ts - {t}) s'" "\<And>x. x \<in> set ts - {t} \<Longrightarrow> task_pages s' x = task_pages s x"
    by (rule spaces_frame [OF sp, of "set ts - {t}" s']; (blast intro: dir L M)?)+
  moreover have pt: "task_pages s' t = task_pages s t" by (simp add: task_pages_def dir pg)
  ultimately show pages: "task_pages s' x = task_pages s x" if "x \<in> set ts" for x using that by (cases "x = t") auto
  have "t \<notin> chunk_pages (mem s') (directory_of s' t)" using sp t pg by (simp add: spaces_ok_def dir)
  moreover have "chunk_ok (directory_of s' t) (mem s')" using u by (simp add: user_ok_def dir)
  moreover have "task_pages s' x \<inter> task_pages s' y = {}" if "x \<in> set ts" "y \<in> set ts" "x \<noteq> y" for x y
    using sp that pages unfolding spaces_ok_def by simp
  ultimately have "spaces_ok (set ts) s'"
    using \<open>spaces_ok (set ts - {t}) s'\<close> L pages t unfolding spaces_ok_def by (auto; metis)
  moreover have "task_list ts s'"
    by (rule task_list_cong [of ts s]) (use ok in \<open>simp_all add: sched_ok_def m put_process_def\<close>)
  ultimately show "sched_ok ts s'" using u ok by (simp add: sched_ok_def user_ok_def ts)
qed

lemma own_step_isolated:
  assumes iso: "isolated ts P s" and t: "t \<in> set ts" and step: "own_step s t (P t) p' s'"
    and new: "confined s' t p'" and bases: "\<And>b. b \<in> bases p' \<Longrightarrow> b \<in> bases (P t) \<or> live s b = None"
  shows "isolated ts (P(t := p')) s'"
proof -
  note S = own_step_sched [OF iso t step]
  have ok: "sched_ok ts s" and cf: "\<And>x. x \<in> set ts \<Longrightarrow> confined s x (P x)"
    and apart: "\<And>x y. x \<in> set ts \<Longrightarrow> y \<in> set ts \<Longrightarrow> bases (P x) \<inter> task_pages s y = {}"
      "\<And>x y. x \<in> set ts \<Longrightarrow> y \<in> set ts \<Longrightarrow> x \<noteq> y \<Longrightarrow> bases (P x) \<inter> bases (P y) = {}"
    using iso unfolding isolated_def by blast+
  obtain m where m: "s' = put_process (process_of s t) p' (s\<lparr>mem := m\<rparr>)" using step by (auto simp: own_step_def)
  have po: "process_of s' x = process_of s x" for x by (simp add: process_of_def S(5))
  have lb: "live s b \<noteq> None" if "x \<in> set ts" "b \<in> bases (P x)" for x b
    using confined_blocks(1) [OF cf [OF that(1)]] that(2) fst_blocks [of "P x"] by force
  have other: "confined s' x (P x)" if x: "x \<in> set ts" "x \<noteq> t" for x
  proof (rule confined_frame [OF cf [OF x(1)]])
    show "chunk_ok (directory_of s x) (mem s)" using ok x by (simp add: sched_ok_def spaces_ok_def)
    show "live s' b = live s b" if "b \<in> bases (P x)" for b
      using lb [OF x(1) that] apart(2) [OF x(1) t x(2)] that step unfolding own_step_def by fastforce
    have "process_of s x \<noteq> process_of s t"
      using confined_process_inj [OF cf [OF x(1)] cf [OF t]] x(2) by blast
    then show "process_objects s' (process_of s' x) = Some (P x)"
      using cf [OF x(1)] by (simp add: po) (simp add: m put_process_def confined_def)
    show "directory_of s' x = directory_of s x" by (simp add: directory_of_def S(5))
    show "mem s' a = mem s a" if "q \<in> chunk_pages (mem s) (directory_of s x)" "unat (a - q) < 4096" for q a
      using S(4) [OF x, of q a] that by (simp add: task_pages_def)
  qed
  have fresh: "b \<notin> task_pages s x" "x \<noteq> t \<Longrightarrow> b \<notin> bases (P x)" if "x \<in> set ts" "b \<in> bases p'" for x b
    using bases [OF that(2)] apart(1) [OF t that(1)] apart(2) [OF t that(1)] lb [OF that(1)] sched_live [OF ok that(1)]
    by fastforce+
  show ?thesis
    unfolding isolated_def
  proof (intro conjI ballI impI)
    show "sched_ok ts s'" by (rule S(1))
    show "confined s' x ((P(t := p')) x)" if "x \<in> set ts" for x using new other that by simp
    show "bases ((P(t := p')) x) \<inter> task_pages s' y = {}" if "x \<in> set ts" "y \<in> set ts" for x y
      using apart(1) fresh(1) S(2) that by auto
    show "bases ((P(t := p')) x) \<inter> bases ((P(t := p')) y) = {}" if "x \<in> set ts" "y \<in> set ts" "x \<noteq> y" for x y
      using apart(2) fresh(2) that by auto
  qed
qed

text \<open>
  Nothing outside the kernel heap is written, except that the byte before the table that \<open>kfree(0)\<close>
  writes to may be cleared.
\<close>

definition spares :: "'a kernel_scheme \<Rightarrow> 'a kernel_scheme \<Rightarrow> bool" where
  "spares s s' \<longleftrightarrow> kernel_heap s' = kernel_heap s \<and>
     (\<forall>a. foreign s a \<longrightarrow> mem s' a = mem s a \<or> a = 0x5E00 \<and> mem s' a = 0)"

lemma spares_trans: "spares s t \<Longrightarrow> spares t u \<Longrightarrow> spares s u"
  unfolding spares_def foreign_def by (metis (mono_tags, lifting))

lemma spares_refl [simp]: "spares s s"
  by (simp add: spares_def)

lemma own_foreign:
  assumes "kheap_ok s" and "\<forall>q \<in> Q. live s q = Some 1" and "foreign s a"
  shows "\<not> kheap_table s a" and "outside Q a"
  using assms(2,3) foreign_far [OF assms(1,3)] by (fastforce simp: foreign_def outside_def)+

section \<open>The system calls for memory\<close>

lemma writeable_flags:
  assumes "4096 dvd unat x"
  shows "writeable (x OR fl) \<longleftrightarrow> writeable fl"
proof -
  have "x AND 2 = 0"
  proof (rule bit_word_eqI)
    fix n show "bit (x AND 2) n = bit (0 :: u32) n"
      using page_low_bits [OF assms, of 1] by (auto simp: bit_simps bit_2_iff)
  qed
  then show ?thesis
    by (simp add: writeable_def c_defs bit.conj_disj_distrib2)
qed

lemma frame_flags: "4096 dvd unat x \<Longrightarrow> fl < 4096 \<Longrightarrow> frame_of (x OR fl) = x"
  by (simp add: frame_of_def entry_mask)

lemma frame_aligned: "4096 dvd unat (frame_of e)"
proof -
  have "take_bit 12 (frame_of e) = 0"
    by (rule bit_word_eqI) (auto simp: frame_of_def page_mask bit_simps)
  then have "unat (take_bit 12 (frame_of e)) = 0" by simp
  then show ?thesis by (simp add: take_bit_eq_mod unat_mod mod_eq_0_iff_dvd)
qed

lemma user_of_confined:
  assumes "isolated ts P s" and "t \<in> set ts"
  shows "user_ok (process_of s t) (P t) (directory_of s t) s"
proof -
  have "sched_ok ts s" "confined s t (P t)" using assms by (simp_all add: isolated_def)
  then show ?thesis using assms(2) by (intro user_of_task) (simp_all add: confined_def)
qed

lemma confined_live: "confined s t p \<Longrightarrow> b \<in> bases p \<Longrightarrow> live s b \<noteq> None"
  using confined_blocks(1) fst_blocks [of p] by force

text \<open>A process step with the same page entries except those of one block.\<close>

lemma recorded_update:
  assumes "i < length as" and "alloc_ptr (as ! i) = 0" and "q \<noteq> 0"
  shows "recorded (as[i := \<lparr>alloc_ptr = q, alloc_size = sz\<rparr>]) = insert q (recorded as)"
    and "recorded_page (as[i := \<lparr>alloc_ptr = q, alloc_size = sz\<rparr>]) w \<longleftrightarrow>
      recorded_page as w \<or> (\<exists>k < blocks_for sz. w = q + 4096 * of_nat k)"
proof -
  have set: "set (as[i := x]) = insert x (set (take i as) \<union> set (drop (Suc i) as))" for x
    using assms(1) by (simp add: upd_conv_take_nth_drop)
  have old: "set as = insert (as ! i) (set (take i as) \<union> set (drop (Suc i) as))"
    using set [of "as ! i"] by simp
  show "recorded (as[i := \<lparr>alloc_ptr = q, alloc_size = sz\<rparr>]) = insert q (recorded as)"
    unfolding recorded_def set old using assms(2,3) by auto
  show "recorded_page (as[i := \<lparr>alloc_ptr = q, alloc_size = sz\<rparr>]) w \<longleftrightarrow>
      recorded_page as w \<or> (\<exists>k < blocks_for sz. w = q + 4096 * of_nat k)"
    unfolding recorded_page_def set old using assms(2,3) by auto
qed

lemma malloc_own_step:
  assumes iso: "isolated ts P s" and t: "t \<in> set ts" and sz: "sz \<noteq> 0" "unat sz \<le> 4294963200"
    and room: "kheap_room s (blocks_for sz)" and free: "process_find_free_allocation_index (P t) = int i"
  shows "\<exists>ptr s' p'. process_malloc (process_of s t) sz s = Inr (ptr, s') \<and> isolated ts (P(t := p')) s' \<and> spares s s'"
proof -
  let ?p = "P t" and ?c = "directory_of s t" and ?n = "blocks_for sz" and ?as = "proc_allocations (P t)"
  have u: "user_ok (process_of s t) ?p ?c s" by (rule user_of_confined [OF iso t])
  have cf: "confined s t ?p" and ok: "kheap_ok s" and own: "\<forall>q \<in> chunk_pages (mem s) ?c. live s q = Some 1"
    using iso t u by (simp_all add: isolated_def user_ok_def)
  obtain ptr s' where m: "process_malloc (process_of s t) sz s = Inr (ptr, s')" "ptr \<noteq> 0" "live s ptr = None"
    "live s' = (live s)(ptr \<mapsto> ?n)" "i < length ?as" "?as ! i = no_allocation"
    and u': "user_ok (process_of s t) (?p\<lparr>proc_allocations := ?as[i := \<lparr>alloc_ptr = ptr, alloc_size = sz\<rparr>]\<rparr>) ?c s'"
    and sm: "self_mapped ?c ptr ?n user_flags (mem s) (mem s')"
    and st: "\<exists>m. s' = put_process (process_of s t) (?p\<lparr>proc_allocations := ?as[i := \<lparr>alloc_ptr = ptr, alloc_size = sz\<rparr>]\<rparr>) (s\<lparr>mem := m\<rparr>)"
    and pg: "chunk_pages (mem s') ?c = chunk_pages (mem s) ?c" and ud: "user_dir ?c (mem s') = user_dir ?c (mem s)"
    and fr: "\<forall>a. \<not> kheap_table s a \<longrightarrow> outside (chunk_pages (mem s) ?c) a \<longrightarrow> 4096 * ?n \<le> unat (a - ptr) \<longrightarrow> mem s' a = mem s a"
    using process_malloc_contract [OF u sz room free] by blast
  let ?p' = "?p\<lparr>proc_allocations := ?as[i := \<lparr>alloc_ptr = ptr, alloc_size = sz\<rparr>]\<rparr>"
  note R = recorded_update [OF m(5) _ m(2), of sz, unfolded m(6), simplified]
  have b': "bases ?p' = insert ptr (bases ?p)" using R(1) by (auto simp: bases_def)
  have ok': "kheap_ok s'" using u' by (simp add: user_ok_def)
  have step: "own_step s t ?p ?p' s'"
    unfolding own_step_def
  proof (intro conjI allI impI)
    fix q l assume q: "live s q = Some l"
    then have nq: "q \<noteq> ptr" and q': "live s' q = Some l" using m(3,4) by auto
    show "live s' q = Some l" by (rule q')
    fix a assume nc: "q \<notin> chunk_pages (mem s) ?c" and a: "unat (a - q) < 4096 * l"
    have "4096 * ?n \<le> unat (a - ptr)" using live_outside [OF ok' _ q' _ a, of ptr ?n] m(4) nq by simp
    then show "mem s' a = mem s a" using fr live_far [OF ok q a own nc] by blast
  qed (use st u' pg in blast)+
  have pl: "ptr \<notin> bases ?p" using confined_live [OF cf] m(3) by blast
  have po: "process_of s' t = process_of s t" and dir: "directory_of s' t = ?c"
    using st by (auto simp: process_of_def directory_of_def put_process_def)
  have "confined s' t ?p'"
    unfolding confined_def po
  proof (intro conjI allI impI)
    have obj: "process_objects s' (process_of s t) = Some ?p'" and
      al: "allocations_ok (live s') (chunk_pages (mem s') ?c) (proc_allocations ?p')" using u' by (simp_all add: user_ok_def)
    show "process_objects s' (process_of s t) = Some ?p'" by (rule obj)
    show "user_dir (directory_of s' t) (mem s')" using cf ud by (simp add: dir confined_def)
    show "allocations_ok (live s') (chunk_pages (mem s') (directory_of s' t)) (proc_allocations ?p')"
      unfolding dir by (rule al)
    show "live s' (proc_ptr ?p') = Some (blocks_for (proc_size ?p'))" "live s' (proc_stack ?p') = Some 4"
      "proc_ptr ?p' \<notin> recorded (proc_allocations ?p')" "proc_stack ?p' \<notin> recorded (proc_allocations ?p')"
      "proc_task ?p' = t" "proc_filetype ?p' = PROCESS_FILETYPE_BINARY" "proc_ptr ?p' \<noteq> proc_stack ?p'"
      using cf m(4) pl R(1) by (auto simp: confined_def bases_def)
    fix w :: u32 assume w: "4096 dvd unat w" "writeable (entry s' t w)"
    show "user_page ?p' w (frame_of (entry s' t w))"
    proof (cases "\<exists>k<?n. w = ptr + 4096 * of_nat k")
      case True
      then have e: "entry s' t w = w OR 7"
        using sm unfolding self_mapped_def entry_def dir by (auto simp: user_flags_eq)
      show ?thesis using True R(2) unfolding user_page_def e frame_flags [OF w(1), of 7, simplified] by simp
    next
      case False
      then have "entry s' t w = entry s t w"
        using sm w(1) unfolding self_mapped_def entry_def dir by simp
      then show ?thesis using cf w R(2) unfolding confined_def user_page_def by auto
    qed
  qed
  then have "isolated ts (P(t := ?p')) s'"
    by (rule own_step_isolated [OF iso t step]) (use b' m(3) in auto)
  moreover have "spares s s'"
    unfolding spares_def
  proof (intro conjI allI impI disjI1)
    show k: "kernel_heap s' = kernel_heap s" using st by (auto simp: put_process_def)
    fix a assume a: "foreign s a"
    then have "foreign s' a" using k by (simp add: foreign_def)
    then have "4096 * ?n \<le> unat (a - ptr)" using foreign_far [OF ok'] m(4) by simp
    then show "mem s' a = mem s a" using fr own_foreign [OF ok own a] by blast
  qed
  ultimately show ?thesis using m(1) by blast
qed

text \<open>Clearing an element of the table.\<close>

lemma recorded_clear:
  assumes i: "i < length as" and q: "alloc_ptr (as ! i) = q" "q \<noteq> 0"
    and d: "\<forall>j < length as. alloc_ptr (as ! j) = q \<longrightarrow> j = i"
  shows "recorded (as[i := no_allocation]) = recorded as - {q}"
    and "recorded_page as w \<Longrightarrow> \<not> (\<exists>k < blocks_for (alloc_size (as ! i)). w = q + 4096 * of_nat k) \<Longrightarrow>
      recorded_page (as[i := no_allocation]) w"
proof -
  have set: "set (as[i := no_allocation]) = insert no_allocation (set (take i as) \<union> set (drop (Suc i) as))"
    using i by (simp add: upd_conv_take_nth_drop)
  have "set as = set (as[i := as ! i])" by simp
  then have old: "set as = insert (as ! i) (set (take i as) \<union> set (drop (Suc i) as))"
    using i by (simp only: upd_conv_take_nth_drop) simp
  have ne: "alloc_ptr a \<noteq> q" if a: "a \<in> set (take i as) \<union> set (drop (Suc i) as)" for a
  proof
    assume e: "alloc_ptr a = q"
    from a show False
    proof
      assume "a \<in> set (take i as)"
      then obtain j where j: "j < i" "a = as ! j" by (auto simp: in_set_conv_nth)
      have "j < length as" using j(1) i by simp
      then have "j = i" using d e j(2) by blast
      then show False using j(1) by simp
    next
      assume "a \<in> set (drop (Suc i) as)"
      then obtain j where j: "j < length as - Suc i" "a = as ! (Suc i + j)" by (auto simp: in_set_conv_nth)
      have "Suc i + j < length as" using j(1) by simp
      then have "Suc i + j = i" using d e j(2) by blast
      then show False by simp
    qed
  qed
  show "recorded (as[i := no_allocation]) = recorded as - {q}"
    unfolding recorded_def set old using q ne by auto
  show "recorded_page as w \<Longrightarrow> \<not> (\<exists>k < blocks_for (alloc_size (as ! i)). w = q + 4096 * of_nat k) \<Longrightarrow>
      recorded_page (as[i := no_allocation]) w"
    unfolding recorded_page_def set old using q by auto
qed

lemma free_recorded_step:
  assumes iso: "isolated ts P s" and t: "t \<in> set ts" and ptr: "ptr \<in> recorded (proc_allocations (P t))"
  shows "\<exists>s' p'. process_free (process_of s t) ptr s = Inr s' \<and> isolated ts (P(t := p')) s' \<and> spares s s'"
proof -
  let ?p = "P t" and ?c = "directory_of s t" and ?as = "proc_allocations (P t)"
  have u: "user_ok (process_of s t) ?p ?c s" by (rule user_of_confined [OF iso t])
  have cf: "confined s t ?p" and ok: "kheap_ok s" and own: "\<forall>q \<in> chunk_pages (mem s) ?c. live s q = Some 1"
    and al: "allocations_ok (live s) (chunk_pages (mem s) ?c) ?as"
    using iso t u by (simp_all add: isolated_def user_ok_def)
  obtain i where i: "i < length ?as" "alloc_ptr (?as ! i) = ptr" and nz: "ptr \<noteq> 0"
    using ptr by (auto simp: recorded_def in_set_conv_nth)
  have d: "\<forall>j < length ?as. alloc_ptr (?as ! j) = ptr \<longrightarrow> j = i"
    using al i nz unfolding allocations_ok_def by metis
  let ?sz = "alloc_size (?as ! i)"
  let ?p' = "?p\<lparr>proc_allocations := ?as[i := no_allocation]\<rparr>"
  have e: "?as ! i = \<lparr>alloc_ptr = ptr, alloc_size = ?sz\<rparr>" using i(2) by simp
  obtain s' where f: "process_free (process_of s t) ptr s = Inr s'" "live s' = (live s)(ptr := None)"
    and u': "user_ok (process_of s t) ?p' ?c s'"
    and sm: "self_mapped ?c ptr (blocks_for ?sz) 0 (mem s) (mem s')"
    and st: "\<exists>m. s' = put_process (process_of s t) ?p' (s\<lparr>mem := m\<rparr>)"
    and pg: "chunk_pages (mem s') ?c = chunk_pages (mem s) ?c" and ud: "user_dir ?c (mem s') = user_dir ?c (mem s)"
    and fr: "\<forall>a. \<not> kheap_table s a \<longrightarrow> outside (chunk_pages (mem s) ?c) a \<longrightarrow> mem s' a = mem s a"
    using process_free_contract [OF u i(1) e nz] by blast
  note R = recorded_clear [OF i nz d]
  have step: "own_step s t ?p ?p' s'"
    unfolding own_step_def
  proof (intro conjI allI impI)
    fix q l assume q: "live s q = Some l" "q \<notin> bases ?p"
    then show "live s' q = Some l" using f(2) ptr by (auto simp: bases_def)
    fix a assume nc: "q \<notin> chunk_pages (mem s) ?c" and a: "unat (a - q) < 4096 * l"
    then show "mem s' a = mem s a" using fr live_far [OF ok q(1) a own nc] by blast
  qed (use st u' pg in blast)+
  have po: "process_of s' t = process_of s t" and dir: "directory_of s' t = ?c"
    using st by (auto simp: process_of_def directory_of_def put_process_def)
  have b': "bases ?p' \<subseteq> bases ?p" using R(1) by (auto simp: bases_def)
  have "confined s' t ?p'"
    unfolding confined_def po
  proof (intro conjI allI impI)
    show "process_objects s' (process_of s t) = Some ?p'"
      "allocations_ok (live s') (chunk_pages (mem s') (directory_of s' t)) (proc_allocations ?p')"
      using u' unfolding user_ok_def dir by blast+
    show "user_dir (directory_of s' t) (mem s')" using cf ud by (simp add: dir confined_def)
    show "live s' (proc_ptr ?p') = Some (blocks_for (proc_size ?p'))" "live s' (proc_stack ?p') = Some 4"
      "proc_ptr ?p' \<notin> recorded (proc_allocations ?p')" "proc_stack ?p' \<notin> recorded (proc_allocations ?p')"
      "proc_task ?p' = t" "proc_filetype ?p' = PROCESS_FILETYPE_BINARY" "proc_ptr ?p' \<noteq> proc_stack ?p'"
      using cf f(2) ptr R(1) by (auto simp: confined_def)
    fix w :: u32 assume w: "4096 dvd unat w" "writeable (entry s' t w)"
    have no: "\<not> (\<exists>k < blocks_for ?sz. w = ptr + 4096 * of_nat k)"
    proof
      assume "\<exists>k < blocks_for ?sz. w = ptr + 4096 * of_nat k"
      then have "entry s' t w = w OR 0"
        using sm unfolding self_mapped_def entry_def dir by auto
      then show False using w writeable_flags [OF w(1), of 0] by (simp add: writeable_def)
    qed
    then have "entry s' t w = entry s t w" using sm w(1) unfolding self_mapped_def entry_def dir by simp
    then show "user_page ?p' w (frame_of (entry s' t w))"
      using cf w R(2) [OF _ no] unfolding confined_def user_page_def by auto
  qed
  then have "isolated ts (P(t := ?p')) s'"
    by (rule own_step_isolated [OF iso t step]) (use b' in auto)
  moreover have "kernel_heap s' = kernel_heap s" using st by (auto simp: put_process_def)
  then have "spares s s'" using fr own_foreign [OF ok own] by (simp add: spares_def)
  ultimately show ?thesis using f(1) by blast
qed

lemma free_step:
  assumes iso: "isolated ts P s" and t: "t \<in> set ts"
    and null: "ptr = 0 \<Longrightarrow> kernel_heap s = booted_heap \<and> mem s 0x5E00 AND 0x80 = 0"
  shows "\<exists>s' p'. process_free (process_of s t) ptr s = Inr s' \<and> isolated ts (P(t := p')) s' \<and> spares s s'"
proof -
  let ?p = "P t" and ?c = "directory_of s t" and ?as = "proc_allocations (P t)"
  have u: "user_ok (process_of s t) ?p ?c s" by (rule user_of_confined [OF iso t])
  have cf: "confined s t ?p" and ok: "kheap_ok s" and own: "\<forall>q \<in> chunk_pages (mem s) ?c. live s q = Some 1"
    and p: "process_objects s (process_of s t) = Some ?p"
    using iso t u by (simp_all add: isolated_def user_ok_def)
  consider "ptr \<in> recorded ?as" | "ptr \<notin> alloc_ptr ` set ?as" | "ptr = 0" "0 \<in> alloc_ptr ` set ?as"
    by (auto simp: recorded_def)
  then show ?thesis
  proof cases
    case 1
    then show ?thesis by (rule free_recorded_step [OF iso t])
  next
    case 2
    then have "\<not> process_is_process_pointer ?p ptr"
      by (simp only: process_is_process_pointer_def allocation_index_None) simp
    then have "process_free (process_of s t) ptr s = Inr s" using p by (simp add: process_free_def deref_def)
    moreover have "isolated ts (P(t := P t)) s" using iso by simp
    ultimately show ?thesis using spares_refl by blast
  next
    case 3
    note h = null [OF 3(1), THEN conjunct1] null [OF 3(1), THEN conjunct2]
    obtain i where "i < length ?as" "alloc_ptr (?as ! i) = 0" using 3(2) by (auto simp: in_set_conv_nth)
    note f = process_free_null [OF u h this]
    note N = user_null_byte [OF u h(1)]
    let ?s = "s\<lparr>mem := (mem s)(0x5E00 := 0)\<rparr>"
    have step: "own_step s t ?p ?p ?s"
      unfolding own_step_def
    proof (intro conjI allI impI)
      show "\<exists>m. ?s = put_process (process_of s t) ?p (s\<lparr>mem := m\<rparr>)"
        using p by (intro exI [of _ "(mem s)(0x5E00 := 0)"]) (simp add: put_process_def fun_upd_idem)
      show "live ?s q = Some l" if "live s q = Some l" for q l using N(2) that by simp
      show "mem ?s a = mem s a" if "live s q = Some l" "unat (a - q) < 4096 * l" for q l a
        using null_byte_apart(2) [OF ok h(1) that(1)] that(2) by auto
    qed (use N in simp_all)
    have "directory_of ?s t = ?c" "process_of ?s t = process_of s t" by (simp_all add: directory_of_def process_of_def)
    moreover have "entry ?s t w = entry s t w" if "4096 dvd unat w" for w
      unfolding entry_def \<open>directory_of ?s t = ?c\<close> using N(5) that by simp
    ultimately have "confined ?s t ?p" using cf N(2,4,6) by (simp add: confined_def)
    then have "isolated ts (P(t := ?p)) ?s" by (rule own_step_isolated [OF iso t step]) simp
    moreover have "spares s ?s" by (simp add: spares_def)
    ultimately show ?thesis using f 3(1) by blast
  qed
qed

section \<open>Writing in user mode\<close>

text \<open>
  The processor's translation for a write in user mode (Intel SDM, vol. 3, 4.6): both entries must
  have the flags present, writeable and user. Everything else is a page fault.
\<close>

definition user_walk :: "byte_mem \<Rightarrow> u32 \<Rightarrow> u32 \<Rightarrow> u32 outcome" where
  "user_walk m directory v =
     (let pde = load32 m (slot directory (unat (v div 4194304)))
      in if pde AND 7 \<noteq> 7 then Inl (BadPointer v)
         else
           let pte = load32 m (slot (pde AND 0xFFFFF000) (unat (v mod 4194304 div 4096)))
           in if pte AND 7 \<noteq> 7 then Inl (BadPointer v)
              else Inr ((pte AND 0xFFFFF000) + v mod 4096))"

definition user_write :: "u32 \<Rightarrow> u8 \<Rightarrow> 'a kernel_scheme \<Rightarrow> 'a kernel_scheme outcome" where
  "user_write v b s = andthen (user_walk (mem s) (cr3 s) v) (\<lambda>a. Inr (s\<lparr>mem := (mem s)(a := b)\<rparr>))"

lemma page_of_address:
  fixes v :: u32
  defines "w \<equiv> v - v mod 4096"
  shows "4096 dvd unat w" and "dir_index w = unat (v div 4194304)" and "tab_index w = unat (v mod 4194304 div 4096)"
proof -
  let ?u = "unat v" and ?q = "unat v div 4096"
  have "unat w = ?u - ?u mod 4096"
    unfolding w_def by (subst unat_sub) (simp_all add: unat_mod word_le_nat_alt)
  then have w: "unat w = 4096 * ?q" by (simp add: minus_mod_eq_mult_div)
  show "4096 dvd unat w" using w by simp
  have n: "(4194304 :: nat) = 4096 * 1024" by simp
  show "dir_index w = unat (v div 4194304)"
    unfolding dir_index_def w n unat_div by (simp only: div_mult_mult1 div_mult2_eq) simp
  show "tab_index w = unat (v mod 4194304 div 4096)"
  proof -
    have "tab_index w = 4096 * ?q mod (4096 * 1024) div 4096" by (simp only: tab_index_def w n)
    also have "\<dots> = 4096 * (?q mod 1024) div 4096" by (subst mult_mod_right) (rule refl)
    also have "\<dots> = (4096 * (?q mod 1024) + ?u mod 4096) div 4096" by simp
    also have "\<dots> = ?u mod (4096 * 1024) div 4096" by (subst mod_mult2_eq) (rule refl)
    also have "\<dots> = unat (v mod 4194304 div 4096)" by (simp add: unat_div unat_mod)
    finally show ?thesis .
  qed
qed

lemma user_walk_entry:
  assumes d: "low_dir_ok d m" and w: "user_walk m d v = Inr a"
  shows "writeable (paging_get m d (v - v mod 4096))" and "a = frame_of (paging_get m d (v - v mod 4096)) + v mod 4096"
proof -
  have e: "paging_get m d (v - v mod 4096) =
      load32 m (slot (load32 m (slot d (unat (v div 4194304))) AND 0xFFFFF000) (unat (v mod 4194304 div 4096)))"
    unfolding paging_get_eq [OF d page_of_address(1)] page_entry_def table_at_def page_of_address by simp
  have b: "x AND 7 = 7 \<Longrightarrow> x AND 2 \<noteq> 0" for x :: u32
  proof
    assume x: "x AND 7 = 7" "x AND 2 = 0"
    have "x AND 2 = (x AND 7) AND 2" by (simp add: and.assoc)
    then show False using x by simp
  qed
  show "writeable (paging_get m d (v - v mod 4096))"
    and "a = frame_of (paging_get m d (v - v mod 4096)) + v mod 4096"
    using w b unfolding e by (auto simp: user_walk_def writeable_def frame_of_def c_defs Let_def split: if_splits)
qed

text \<open>A page with all three flags can be written; the translation is its frame and the offset in it.\<close>

lemma user_walk_page:
  assumes d: "low_dir_ok d m" and u: "\<forall>i<1024. load32 m (slot d i) AND 7 = 7"
    and e: "paging_get m d (v - v mod 4096) = f OR 7" and f: "4096 dvd unat f"
  shows "user_walk m d v = Inr (f + v mod 4096)"
proof -
  have i: "unat (v div 4194304) < 1024" by (simp add: unat_div) (use unat_u32_bound [of v] in linarith)
  have "load32 m (slot (load32 m (slot d (unat (v div 4194304))) AND 0xFFFFF000) (unat (v mod 4194304 div 4096))) = f OR 7"
    using e unfolding paging_get_eq [OF d page_of_address(1)] page_entry_def table_at_def page_of_address by simp
  moreover have "(f OR 7) AND 7 = 7" by (rule bit_word_eqI) (auto simp: bit_simps)
  moreover have "(f OR 7) AND 0xFFFFF000 = f" using frame_flags [OF f, of 7] by (simp add: frame_of_def)
  ultimately show ?thesis using u i by (simp add: user_walk_def Let_def)
qed

text \<open>For the kernel's reads and writes it is enough that the page is present.\<close>

lemma page_walk_page:
  assumes d: "low_dir_ok d m" and u: "\<forall>i<1024. load32 m (slot d i) AND 7 = 7"
    and e: "paging_get m d (v - v mod 4096) = f OR fl" and f: "4096 dvd unat f" and fl: "fl < 4096" "fl AND 1 \<noteq> 0"
  shows "page_walk m d v = Inr (f + v mod 4096)"
proof -
  have i: "unat (v div 4194304) < 1024" by (simp add: unat_div) (use unat_u32_bound [of v] in linarith)
  have "load32 m (slot (load32 m (slot d (unat (v div 4194304))) AND 0xFFFFF000) (unat (v mod 4194304 div 4096))) = f OR fl"
    using e unfolding paging_get_eq [OF d page_of_address(1)] page_entry_def table_at_def page_of_address by simp
  moreover have "(f OR fl) AND 1 \<noteq> 0"
  proof
    assume z: "(f OR fl) AND 1 = 0"
    have "fl AND 1 = ((f OR fl) AND 1) AND fl" by (rule bit_word_eqI) (auto simp: bit_simps)
    then show False using z fl(2) by simp
  qed
  moreover have "(f OR fl) AND 0xFFFFF000 = f" using frame_flags [OF f fl(1)] by (simp add: frame_of_def)
  moreover have "x AND 7 = 7 \<Longrightarrow> x AND 1 \<noteq> 0" for x :: u32
  proof
    assume x: "x AND 7 = 7" "x AND 1 = 0"
    have "x AND 1 = (x AND 7) AND 1" by (simp add: and.assoc)
    then show False using x by simp
  qed
  ultimately show ?thesis using u i by (simp add: page_walk_def Let_def)
qed

text \<open>A page lies in an aligned range of pages if an address in it does.\<close>

lemma page_in_run:
  fixes v b :: u32
  assumes b: "4096 dvd unat b"
  shows "unat (v - v mod 4096 - b) < 4096 * n \<longleftrightarrow> unat (v - b) < 4096 * n"
    and "v - v mod 4096 - b = (v - b) - v mod 4096"
proof -
  let ?d = "v - b"
  have "unat v = (unat b + unat ?d) mod 4294967296" using unat_word_ariths(1) [of b ?d] by simp
  then have "unat v mod 4096 = (unat b + unat ?d) mod 4096" by (simp add: mod_mod_cancel)
  also have "\<dots> = unat ?d mod 4096" using b by (subst mod_add_left_eq [symmetric]) simp
  finally have "v mod 4096 = ?d mod 4096" by (simp add: word_unat_eq_iff unat_mod)
  moreover show e: "v - v mod 4096 - b = ?d - v mod 4096" by simp
  ultimately have "v - v mod 4096 - b = ?d - ?d mod 4096" by simp
  moreover have "unat (?d - ?d mod 4096) = 4096 * (unat ?d div 4096)"
    by (subst unat_sub) (simp_all add: unat_mod word_le_nat_alt minus_mod_eq_mult_div)
  ultimately have "unat (v - v mod 4096 - b) = 4096 * (unat ?d div 4096)" by (simp only:)
  then show "unat (v - v mod 4096 - b) < 4096 * n \<longleftrightarrow> unat ?d < 4096 * n"
    by (simp add: div_less_iff_less_mult mult.commute)
qed

text \<open>A task that runs under its own page directory writes to the memory of its process.\<close>

lemma user_write_memory:
  assumes iso: "isolated ts P s" and t: "t \<in> set ts" and run: "cr3 s = load32 (mem s) (directory_of s t)"
    and w: "user_write v b s = Inr s'"
  obtains a where "s' = s\<lparr>mem := (mem s)(a := b)\<rparr>" "a \<in> memory_of (P t)"
proof -
  have ok: "sched_ok ts s" and cf: "confined s t (P t)" using iso t by (simp_all add: isolated_def)
  then have kok: "kheap_ok s" by (simp add: sched_ok_def)
  have "chunk_ok (directory_of s t) (mem s)" using ok t by (simp add: sched_ok_def spaces_ok_def)
  then have d: "low_dir_ok (cr3 s) (mem s)" by (simp add: run chunk_ok_def)
  obtain a where a: "user_walk (mem s) (cr3 s) v = Inr a" "s' = s\<lparr>mem := (mem s)(a := b)\<rparr>"
    using w by (auto simp: user_write_def andthen_eq_Inr)
  note E = user_walk_entry [OF d a(1)]
  let ?w = "v - v mod 4096"
  have e: "paging_get (mem s) (cr3 s) ?w = entry s t ?w" by (simp add: entry_def run)
  have "frame_of (entry s t ?w) \<in> memory_of (P t)"
    using cf page_of_address(1) E(1) user_page_memory [OF kok cf] unfolding e confined_def by blast
  moreover have "4096 dvd unat (frame_of (entry s t ?w))"
    by (rule frame_aligned)
  moreover have "unat (v mod 4096) < 4096" by (simp add: unat_mod)
  ultimately have "a \<in> memory_of (P t)"
    unfolding E(2) e by (intro memory_page [OF kok cf])
  then show thesis using a(2) by (rule that [rotated])
qed

lemma user_write_step:
  assumes iso: "isolated ts P s" and t: "t \<in> set ts" and a: "a \<in> memory_of (P t)"
  shows "isolated ts P (s\<lparr>mem := (mem s)(a := x)\<rparr>)" and "spares s (s\<lparr>mem := (mem s)(a := x)\<rparr>)"
proof -
  let ?s = "s\<lparr>mem := (mem s)(a := x)\<rparr>" and ?c = "directory_of s t"
  have ok: "sched_ok ts s" and cf: "confined s t (P t)" and apart: "bases (P t) \<inter> task_pages s t = {}"
    using iso t by (simp_all add: isolated_def)
  then have kok: "kheap_ok s" by (simp add: sched_ok_def)
  have u: "user_ok (process_of s t) (P t) ?c s" by (rule user_of_confined [OF iso t])
  obtain b n where b: "(b, n) \<in> blocks_of (P t)" "live s b = Some n" "unat (a - b) < 4096 * n"
    using memory_live [OF cf a] .
  have bb: "b \<in> bases (P t)" using confined_blocks(2) [OF cf b(1)] .
  have nb: "b \<notin> chunk_pages (mem s) ?c" using apart bb by (auto simp: task_pages_def)
  have out: "\<forall>y. 4096 * n \<le> unat (y - b) \<longrightarrow> ((mem s)(a := x)) y = mem s y" using b(3) by auto
  note W = user_ok_write [OF u b(2) nb out]
  have p: "process_objects s (process_of s t) = Some (P t)" using cf by (simp add: confined_def)
  have step: "own_step s t (P t) (P t) ?s"
    unfolding own_step_def
  proof (intro conjI allI impI)
    show "\<exists>m. ?s = put_process (process_of s t) (P t) (s\<lparr>mem := m\<rparr>)"
      using p by (intro exI [of _ "(mem s)(a := x)"]) (simp add: put_process_def fun_upd_idem)
    show "mem ?s y = mem s y" if "live s q = Some l" "q \<notin> bases (P t)" "unat (y - q) < 4096 * l" for q l y
    proof -
      have "q \<noteq> b" using that(2) bb by blast
      then show ?thesis using W(7) [OF that(1) _ that(3)] by simp
    qed
  qed (use W(1,2,4) in \<open>simp_all del: fun_upd_apply\<close>)
  have d: "directory_of ?s t = ?c" "process_of ?s t = process_of s t" by (simp_all add: directory_of_def process_of_def)
  have "entry ?s t w = entry s t w" if "4096 dvd unat w" for w
    unfolding entry_def d using W(6) that by (simp del: fun_upd_apply)
  then have "confined ?s t (P t)" using cf W(2,4,5) d by (simp add: confined_def del: fun_upd_apply)
  from own_step_isolated [OF iso t step this] show "isolated ts P ?s" by simp
  have "y \<noteq> a" if "foreign s y" for y using foreign_far [OF kok that b(2)] b(3) by auto
  then show "spares s ?s" by (simp add: spares_def)
qed

section \<open>Starting a program\<close>

text \<open>Everything that is live stays live, with its contents.\<close>

definition grows :: "'a kernel_scheme \<Rightarrow> 'a kernel_scheme \<Rightarrow> bool" where
  "grows s s' \<longleftrightarrow> (\<forall>q l. live s q = Some l \<longrightarrow>
     live s' q = Some l \<and> (\<forall>a. unat (a - q) < 4096 * l \<longrightarrow> mem s' a = mem s a))"

lemma growsD:
  "grows s s' \<Longrightarrow> live s q = Some l \<Longrightarrow> live s' q = Some l"
  "grows s s' \<Longrightarrow> live s q = Some l \<Longrightarrow> unat (a - q) < 4096 * l \<Longrightarrow> mem s' a = mem s a"
  by (auto simp: grows_def)

lemma isolated_grow:
  assumes iso: "isolated ts P s" and g: "grows s s'" and x: "x \<in> set ts"
    and d: "directory_of s' x = directory_of s x" "process_of s' x = process_of s x"
    and p: "process_objects s' (process_of s x) = Some (P x)"
  shows "confined s' x (P x)" and "task_pages s' x = task_pages s x"
proof -
  have ok: "sched_ok ts s" and cf: "confined s x (P x)" using iso x by (simp_all add: isolated_def)
  have ch: "chunk_ok (directory_of s x) (mem s)" using ok x by (simp add: sched_ok_def spaces_ok_def)
  have keep: "mem s' a = mem s a" if "q \<in> chunk_pages (mem s) (directory_of s x)" "unat (a - q) < 4096" for q a
    using growsD(2) [OF g sched_live [OF ok x, of q], of a] that by (simp add: task_pages_def)
  have lb: "live s' b = live s b" if "b \<in> bases (P x)" for b
    using confined_live [OF cf that] growsD(1) [OF g, of b] by auto
  show "confined s' x (P x)"
    by (rule confined_frame [OF cf ch lb _ d(1) keep]) (simp_all add: p d(2))
  show "task_pages s' x = task_pages s x"
    using chunk_frame(2) [OF ch, of "mem s'"] keep by (simp add: task_pages_def d(1))
qed

lemma grows_trans: "grows s t \<Longrightarrow> grows t u \<Longrightarrow> grows s u"
  unfolding grows_def by metis

lemma kzalloc_isolated:
  assumes iso: "isolated ts P s" and sz: "sz \<noteq> 0" "unat sz \<le> 4294963200" and room: "kheap_room s (blocks_for sz)"
    and z: "kzalloc sz s = (ptr, s')"
  shows "isolated ts P s'" and "grows s s'" and "live s ptr = None" and "live s' ptr = Some (blocks_for sz)"
    and "process_objects s' = process_objects s" and "tasks s' = tasks s" and "spares s s'"
    and "processes s' = processes s" and "current_process s' = current_process s"
proof -
  have ok: "sched_ok ts s" using iso by (simp add: isolated_def)
  then have kok: "kheap_ok s" and sp: "spaces_ok (set ts) s" by (simp_all add: sched_ok_def)
  have e: "ptr = fst (kzalloc sz s)" "s' = snd (kzalloc sz s)" using z by simp_all
  note A = kzalloc.alloc_ok [OF kok sz room, folded e] kzalloc.alloc_fresh [OF kok sz room, folded e]
    kzalloc.alloc_owned [OF kok sz room, folded e] kzalloc.alloc_keeps_contents [OF kok sz room, folded e]
  show "live s ptr = None" "live s' ptr = Some (blocks_for sz)" using A(2,3) by simp_all
  show g: "grows s s'" using A by (auto simp: grows_def)
  have mo: "mem_only s s'" unfolding e by simp
  then show t: "tasks s' = tasks s" and p: "process_objects s' = process_objects s"
    and "processes s' = processes s" "current_process s' = current_process s" by (auto simp: mem_only_def)
  have d: "directory_of s' x = directory_of s x" "process_of s' x = process_of s x" for x
    by (simp_all add: directory_of_def process_of_def t)
  have L: "live s' q = Some 1" "unat (a - q) < 4096 \<Longrightarrow> mem s' a = mem s a" if "x \<in> set ts" "q \<in> task_pages s x" for x q a
    using growsD(1) [OF g sched_live [OF ok that]] growsD(2) [OF g sched_live [OF ok that]] by simp_all
  have cf: "confined s' x (P x)" "task_pages s' x = task_pages s x" if "x \<in> set ts" for x
    using isolated_grow [OF iso g that d] iso that by (auto simp: p isolated_def confined_def)
  have "spaces_ok (set ts) s'" by (rule spaces_frame [OF sp subset_refl]; (blast intro: d L)?)
  moreover have "kheap_low s'" using ok by (simp add: sched_ok_def kheap_low_def e kzalloc_kernel_heap)
  moreover have "task_list ts s'" using task_list_mem_only [OF _ mo] ok by (simp add: sched_ok_def)
  ultimately have "sched_ok ts s'" using A(1) ok by (simp add: sched_ok_def t)
  then show "isolated ts P s'" using iso cf by (simp add: isolated_def)
  show "spares s s'"
    using foreign_kzalloc [OF kok sz room, folded e] by (simp add: spares_def e kzalloc_kernel_heap)
qed

text \<open>Filling a block that no task has yet.\<close>

lemma fill_isolated:
  assumes iso: "isolated ts P s" and l: "live s q = Some n"
    and apart: "\<forall>x \<in> set ts. q \<notin> bases (P x) \<union> task_pages s x"
    and fill: "\<forall>a. 4096 * n \<le> unat (a - q) \<longrightarrow> m a = mem s a"
  shows "isolated ts P (s\<lparr>mem := m\<rparr>)" and "live (s\<lparr>mem := m\<rparr>) = live s"
    and "kheap_spare (s\<lparr>mem := m\<rparr>) = kheap_spare s" and "spares s (s\<lparr>mem := m\<rparr>)"
    and "x \<in> set ts \<Longrightarrow> task_pages (s\<lparr>mem := m\<rparr>) x = task_pages s x"
proof -
  let ?s = "s\<lparr>mem := m\<rparr>"
  have out: "q \<notin> bases (P x) \<union> task_pages s x" if "x \<in> set ts" for x using apart that by blast
  have m: "m a = mem s a" if "4096 * n \<le> unat (a - q)" for a using fill that by blast
  have ok: "sched_ok ts s" using iso by (simp add: isolated_def)
  then have kok: "kheap_ok s" and sp: "spaces_ok (set ts) s" by (simp_all add: sched_ok_def)
  note W = own_write [OF kok l m]
  show lv: "live ?s = live s" and "kheap_spare ?s = kheap_spare s" using W by blast+
  have "mem ?s a = mem s a" if "foreign s a" for a using foreign_far [OF kok that l] m by simp
  then show "spares s ?s" by (simp add: spares_def)
  have d: "directory_of ?s x = directory_of s x" "process_of ?s x = process_of s x" for x
    by (simp_all add: directory_of_def process_of_def)
  have keep: "mem ?s a = mem s a" if "x \<in> set ts" "p \<in> task_pages s x" "unat (a - p) < 4096" for x p a
    using live_outside [OF kok l sched_live [OF ok that(1,2)]] out [OF that(1)] that(2,3) m by auto
  have F: "spaces_ok (set ts) ?s" "\<And>x. x \<in> set ts \<Longrightarrow> task_pages ?s x = task_pages s x"
    by (rule spaces_frame [OF sp subset_refl]; (blast intro: d keep | simp add: lv sched_live [OF ok])?)+
  show "x \<in> set ts \<Longrightarrow> task_pages ?s x = task_pages s x" by (rule F(2))
  have cf: "confined ?s x (P x)" if x: "x \<in> set ts" for x
  proof -
    have c: "confined s x (P x)" and ch: "chunk_ok (directory_of s x) (mem s)"
      using iso sp x by (simp_all add: isolated_def spaces_ok_def)
    show ?thesis
      using c keep [OF x] by (intro confined_frame [OF c ch]) (auto simp: lv d confined_def task_pages_def)
  qed
  have "task_list ts ?s" by (rule task_list_cong [of ts s]) (use ok in \<open>simp_all add: sched_ok_def\<close>)
  moreover have "kheap_low ?s" using ok by (simp add: sched_ok_def kheap_low_def)
  ultimately have "sched_ok ts ?s" using W(1) F(1) ok by (simp add: sched_ok_def)
  then show "isolated ts P ?s" using iso cf F(2) by (simp add: isolated_def)
qed

text \<open>Setting up the structure of a process that no task has.\<close>

lemma put_idle_isolated:
  assumes iso: "isolated ts P s" and idle: "\<forall>x \<in> set ts. process_of s x \<noteq> process"
  shows "isolated ts P (put_process process p s)" and "live (put_process process p s) = live s"
    and "kheap_spare (put_process process p s) = kheap_spare s" and "spares s (put_process process p s)"
    and "task_pages (put_process process p s) x = task_pages s x"
proof -
  let ?s = "put_process process p s"
  have e: "mem ?s = mem s" "kernel_heap ?s = kernel_heap s" "tasks ?s = tasks s" by (simp_all add: put_process_def)
  show lv: "live ?s = live s" and "kheap_spare ?s = kheap_spare s" using same_heap [OF e(1,2)] by blast+
  show "spares s ?s" by (simp add: spares_def e)
  have d: "directory_of ?s x = directory_of s x" "process_of ?s x = process_of s x" for x
    by (simp_all add: directory_of_def process_of_def e)
  show pg: "task_pages ?s x = task_pages s x" for x by (simp add: task_pages_def d e)
  have "sched_ok ts s" using iso by (simp add: isolated_def)
  then have "sched_ok ts ?s" by (rule sched_same) (simp_all add: put_process_def)
  moreover have "confined ?s x (P x)" if "x \<in> set ts" for x
  proof -
    have "process_objects ?s (process_of s x) = process_objects s (process_of s x)"
      using idle that by (simp add: put_process_def)
    moreover have "confined s x (P x)" using iso that by (simp add: isolated_def)
    ultimately show ?thesis by (simp add: confined_def entry_def d e lv)
  qed
  ultimately show "isolated ts P ?s" using iso by (simp add: isolated_def pg)
qed

text \<open>A task joins the list: its pages are new, and its process has memory of its own.\<close>

lemma isolated_join:
  assumes iso: "isolated ts P s" and tn: "t \<notin> set ts" and ok': "sched_ok (ts @ [t]) s'"
    and old: "\<And>y. y \<in> set ts \<Longrightarrow> confined s' y (P y)" "\<And>y. y \<in> set ts \<Longrightarrow> task_pages s' y = task_pages s y"
    and new: "confined s' t p" and fresh: "\<forall>b \<in> task_pages s' t. live s b = None" and lp: "\<forall>b \<in> bases p. live s b \<noteq> None"
    and apart: "\<And>x. x \<in> set ts \<Longrightarrow> bases p \<inter> (bases (P x) \<union> task_pages s x) = {}"
  shows "isolated (ts @ [t]) (P(t := p)) s'"
  unfolding isolated_def
proof (intro conjI ballI impI)
  show "sched_ok (ts @ [t]) s'" by (rule ok')
  show "confined s' y ((P(t := p)) y)" if "y \<in> set (ts @ [t])" for y using that old(1) new tn by auto
  have lb: "live s b \<noteq> None" if "y \<in> set ts" "b \<in> bases (P y)" for y b
    using iso that confined_live unfolding isolated_def by blast
  have ne: "y \<noteq> t" if "y \<in> set ts" for y using tn that by blast
  show "bases ((P(t := p)) y) \<inter> task_pages s' z = {}" if yz: "y \<in> set (ts @ [t])" "z \<in> set (ts @ [t])" for y z
  proof -
    consider "y \<in> set ts" "z \<in> set ts" | "y \<in> set ts" "z = t" | "y = t" "z \<in> set ts" | "y = t" "z = t"
      using yz by auto
    then show ?thesis
    proof cases
      case 1
      then show ?thesis using iso old(2) ne by (auto simp: isolated_def)
    next
      case 2
      then show ?thesis using lb fresh ne by fastforce
    next
      case 3
      then show ?thesis using apart [of z] old(2) by auto
    next
      case 4
      then show ?thesis using fresh lp by auto
    qed
  qed
  show "bases ((P(t := p)) y) \<inter> bases ((P(t := p)) z) = {}" if yz: "y \<in> set (ts @ [t])" "z \<in> set (ts @ [t])" "y \<noteq> z" for y z
  proof -
    consider "y \<in> set ts" "z \<in> set ts" | "y \<in> set ts" "z = t" | "y = t" "z \<in> set ts"
      using yz by auto
    then show ?thesis
    proof cases
      case 1
      then show ?thesis using iso ne yz(3) by (auto simp: isolated_def)
    qed (use apart ne in auto)
  qed
qed

text \<open>The new task, before anything is mapped: it can read everything and write nothing.\<close>

lemma new_task_isolated:
  assumes iso: "isolated ts P s" and spare: "1027 \<le> kheap_spare s"
    and p: "process_objects s process = Some p" "proc_filetype p = PROCESS_FILETYPE_BINARY"
      "proc_allocations p = replicate SLOBOS_MAX_PROGRAM_ALLOCATIONS no_allocation"
      "live s (proc_ptr p) = Some (blocks_for (proc_size p))" "live s (proc_stack p) = Some 4" "proc_ptr p \<noteq> proc_stack p"
    and idle: "\<And>x. x \<in> set ts \<Longrightarrow> process_of s x \<noteq> process"
    and apart: "\<And>x. x \<in> set ts \<Longrightarrow> {proc_ptr p, proc_stack p} \<inter> (bases (P x) \<union> task_pages s x) = {}"
    and n: "task_new process s = Inr (t, s1)"
  defines "p' \<equiv> p\<lparr>proc_task := t\<rparr>" and "s' \<equiv> put_process process (p\<lparr>proc_task := t\<rparr>) s1"
  shows "isolated (ts @ [t]) (P(t := p')) s'" and "process_of s' t = process"
    and "kheap_spare s' + 1027 = kheap_spare s" and "4096 dvd unat w \<Longrightarrow> entry s' t w = w OR 5" and "t \<notin> set ts"
    and "spares s s'" and "processes s' = processes s" and "current_process s' = current_process s"
proof -
  have ok: "sched_ok ts s" using iso by (simp add: isolated_def)
  have "proc_filetype p = PROCESS_FILETYPE_ELF \<longrightarrow> elf_files s (proc_ptr p) \<noteq> None"
    using p(2) by (simp add: c_defs)
  from task_new_contract [OF ok spare p(1) this] n obtain x where N: "t \<notin> set ts" "sched_ok (ts @ [t]) s1"
    "kheap_spare s1 + 1027 = kheap_spare s" "tasks s1 t = Some x" "task_process x = process"
    "process_objects s1 = process_objects s"
    "\<forall>v. 4096 dvd unat v \<longrightarrow> paging_get (mem s1) (load32 (mem s1) (task_page_directory x)) v = v OR 5"
    "\<forall>y \<in> set ts. directory_of s1 y = directory_of s y \<and> process_of s1 y = process_of s y"
    "\<forall>q l a. live s q = Some l \<longrightarrow> live s1 q = Some l \<and> (unat (a - q) < 4096 * l \<longrightarrow> mem s1 a = mem s a)"
    "\<forall>q \<in> task_pages s1 t. live s q = None" "user_dir (task_page_directory x) (mem s1)"
    "kernel_heap s1 = kernel_heap s \<and> (\<forall>a. foreign s a \<longrightarrow> mem s1 a = mem s a)"
    "processes s1 = processes s" "current_process s1 = current_process s" by fastforce
  have m: "mem s' = mem s1" "kernel_heap s' = kernel_heap s1" "tasks s' = tasks s1" by (simp_all add: s'_def put_process_def)
  have live: "live s' = live s1" and sp: "kheap_spare s' = kheap_spare s1" using same_heap [OF m(1,2)] by blast+
  show "kheap_spare s' + 1027 = kheap_spare s" using N(3) sp by simp
  have d: "directory_of s' y = directory_of s1 y" "process_of s' y = process_of s1 y" for y
    by (simp_all add: directory_of_def process_of_def m(3))
  have pages: "task_pages s' y = task_pages s1 y" for y by (simp add: task_pages_def d m(1))
  show "t \<notin> set ts" by (rule N(1))
  show e5: "entry s' t w = w OR 5" if "4096 dvd unat w" for w
    using N(4,7) that by (simp add: entry_def directory_of_def m(1,3))
  show "spares s s'" using N(12) by (simp add: spares_def m(1,2))
  show "processes s' = processes s" "current_process s' = current_process s"
    by (simp_all add: s'_def put_process_def N(13,14))
  show pt: "process_of s' t = process" by (simp add: process_of_def m(3) N(4,5))
  have ok': "sched_ok (ts @ [t]) s'" using N(2) by (rule sched_same) (simp_all add: s'_def put_process_def)
  have g: "grows s s'" using N(9) by (simp add: grows_def live m(1))
  have old: "confined s' y (P y)" "task_pages s' y = task_pages s y" if y: "y \<in> set ts" for y
  proof -
    have "directory_of s' y = directory_of s y" "process_of s' y = process_of s y" using N(8) y by (simp_all add: d)
    moreover have "process_objects s' (process_of s y) = Some (P y)"
      using idle [OF y] iso y by (simp add: s'_def put_process_def N(6) isolated_def confined_def)
    ultimately show "confined s' y (P y)" "task_pages s' y = task_pages s y" using isolated_grow [OF iso g y] by blast+
  qed
  have none: "recorded (proc_allocations p') = {}" by (simp add: p'_def p(3))
  have bp: "bases p' = {proc_ptr p, proc_stack p}" using none by (simp add: bases_def p'_def)
  have new: "confined s' t p'"
    unfolding confined_def pt
  proof (intro conjI allI impI)
    show "process_objects s' process = Some p'" by (simp add: s'_def put_process_def p'_def)
    show "user_dir (directory_of s' t) (mem s')" using N(4,11) by (simp add: directory_of_def m(1,3))
    show "proc_task p' = t" "proc_filetype p' = PROCESS_FILETYPE_BINARY" "proc_ptr p' \<noteq> proc_stack p'"
      by (simp_all add: p'_def p)
    show "live s' (proc_ptr p') = Some (blocks_for (proc_size p'))" "live s' (proc_stack p') = Some 4"
      using growsD(1) [OF g] p(4,5) by (simp_all add: p'_def)
    show "proc_ptr p' \<notin> recorded (proc_allocations p')" "proc_stack p' \<notin> recorded (proc_allocations p')"
      by (simp_all add: none)
    show "allocations_ok (live s') (chunk_pages (mem s') (directory_of s' t)) (proc_allocations p')"
      by (simp add: allocations_ok_def p'_def p(3))
    fix w :: u32 assume w: "4096 dvd unat w" "writeable (entry s' t w)"
    show "user_page p' w (frame_of (entry s' t w))"
      using w e5 [OF w(1)] writeable_flags [OF w(1), of 5] by (simp add: writeable_def c_defs)
  qed
  show "isolated (ts @ [t]) (P(t := p')) s'"
  proof (rule isolated_join [OF iso N(1) ok' old new])
    show "\<forall>b \<in> task_pages s' t. live s b = None" using N(10) by (simp add: pages)
    show "\<forall>b \<in> bases p'. live s b \<noteq> None" using p(4,5) by (simp add: bp)
    show "bases p' \<inter> (bases (P x) \<union> task_pages s x) = {}" if "x \<in> set ts" for x unfolding bp by (rule apart [OF that])
  qed
qed

text \<open>Mapping its memory.\<close>

lemma map_memory_step:
  assumes iso: "isolated ts P s" and t: "t \<in> set ts"
  shows "\<exists>s'. process_map_memory (process_of s t) s = Inr (0, s') \<and> isolated ts P s' \<and> (\<exists>m. s' = s\<lparr>mem := m\<rparr>) \<and>
    kheap_spare s' = kheap_spare s \<and> spares s s' \<and>
    (\<forall>w. 4096 dvd unat w \<longrightarrow> entry s' t w = program_entry (P t) (entry s t w) w)"
proof -
  let ?p = "P t" and ?c = "directory_of s t"
  have u: "user_ok (process_of s t) ?p ?c s" by (rule user_of_confined [OF iso t])
  have cf: "confined s t ?p" and ok: "kheap_ok s" and own: "\<forall>q \<in> chunk_pages (mem s) ?c. live s q = Some 1"
    and p: "process_objects s (process_of s t) = Some ?p"
    using iso t u by (simp_all add: isolated_def user_ok_def)
  obtain m where m: "process_map_memory (process_of s t) s = Inr (0, s\<lparr>mem := m\<rparr>)"
    and u': "user_ok (process_of s t) ?p ?c (s\<lparr>mem := m\<rparr>)"
    and live: "live (s\<lparr>mem := m\<rparr>) = live s" "kheap_spare (s\<lparr>mem := m\<rparr>) = kheap_spare s"
    and pg: "chunk_pages m ?c = chunk_pages (mem s) ?c" and ud: "user_dir ?c m = user_dir ?c (mem s)"
    and e: "\<forall>w. 4096 dvd unat w \<longrightarrow> paging_get m (load32 m ?c) w = program_entry ?p (paging_get (mem s) (load32 (mem s) ?c) w) w"
    and fr: "\<forall>a. outside (chunk_pages (mem s) ?c) a \<longrightarrow> m a = mem s a"
    using process_map_memory_contract [OF u] cf unfolding confined_def by blast
  let ?s = "s\<lparr>mem := m\<rparr>"
  have d: "directory_of ?s t = ?c" "process_of ?s t = process_of s t" by (simp_all add: directory_of_def process_of_def)
  have en: "entry ?s t w = program_entry ?p (entry s t w) w" if "4096 dvd unat w" for w
    using e that by (simp add: entry_def d)
  have step: "own_step s t ?p ?p ?s"
    unfolding own_step_def
  proof (intro conjI allI impI)
    show "\<exists>m. ?s = put_process (process_of s t) ?p (s\<lparr>mem := m\<rparr>)"
      using p by (intro exI [of _ m]) (simp add: put_process_def fun_upd_idem)
    show "mem ?s a = mem s a" if "live s q = Some l" "q \<notin> chunk_pages (mem s) ?c" "unat (a - q) < 4096 * l" for q l a
      using live_far(2) [OF ok that(1,3) own that(2)] fr by simp
  qed (use u' pg live in simp_all)
  have "confined ?s t ?p"
    unfolding confined_def d
  proof (intro conjI allI impI)
    show "process_objects ?s (process_of s t) = Some ?p" using p by simp
    show "user_dir ?c (mem ?s)" using cf ud by (simp add: confined_def)
    show "allocations_ok (live ?s) (chunk_pages (mem ?s) ?c) (proc_allocations ?p)" using u' by (simp add: user_ok_def)
    fix w :: u32 assume w: "4096 dvd unat w" "writeable (entry ?s t w)"
    have al: "4096 dvd unat (b + (w - v))" if "4096 dvd unat b" "4096 dvd unat v" for b v :: u32
    proof -
      have "4096 dvd unat (w - v)" using w(1) that(2) by (rule aligned_minus)
      then show ?thesis using that(1) by (intro aligned_plus)
    qed
    have a: "4096 dvd unat (proc_ptr ?p)" "4096 dvd unat (proc_stack ?p)"
      using live_page_aligned [OF ok] cf by (auto simp: confined_def)
    have v: "4096 dvd unat SLOBOS_PROGRAM_VIRTUAL_ADDRESS" "4096 dvd unat SLOBOS_PROGRAM_VIRTUAL_STACK_ADDRESS_END"
      by (simp_all add: c_defs)
    note f = frame_flags [OF al [OF a(1) v(1)], of 7, simplified] frame_flags [OF al [OF a(2) v(2)], of 7, simplified]
    show "user_page ?p w (frame_of (entry ?s t w))"
      using w cf en [OF w(1)] f unfolding program_entry_def user_page_def user_flags_eq confined_def
      by (auto split: if_splits)
  qed (use cf live in \<open>simp_all add: confined_def\<close>)
  from own_step_isolated [OF iso t step this] have "isolated ts P ?s" by simp
  moreover have "spares s ?s" using fr own_foreign(2) [OF ok own] by (simp add: spares_def)
  ultimately show ?thesis using m live(2) en by blast
qed

section \<open>Ending a program\<close>

lemma kfree_same [simp]:
  "kernel_heap (kfree q s) = kernel_heap s" "tasks (kfree q s) = tasks s"
  "process_objects (kfree q s) = process_objects s" "processes (kfree q s) = processes s"
  "current_process (kfree q s) = current_process s"
  by (simp_all add: kfree_def)

lemma kfree_sched:
  assumes ok: "sched_ok ts s" and l: "live s q = Some n" and q: "\<forall>x \<in> set ts. q \<notin> task_pages s x"
  shows "sched_ok ts (kfree q s)" and "live (kfree q s) = (live s)(q := None)"
    and "\<not> kheap_table s a \<Longrightarrow> mem (kfree q s) a = mem s a"
    and "x \<in> set ts \<Longrightarrow> task_pages (kfree q s) x = task_pages s x"
proof -
  let ?s = "kfree q s"
  have kok: "kheap_ok s" and sp: "spaces_ok (set ts) s" using ok by (simp_all add: sched_ok_def)
  note R = kzalloc.release_ok [OF kok l] kzalloc.release_owned [OF kok l] kzalloc.release_frame [OF kok l]
  show lv: "live ?s = (live s)(q := None)" by (rule R(2))
  show fr: "\<not> kheap_table s a \<Longrightarrow> mem ?s a = mem s a" for a by (rule R(3))
  have d: "directory_of ?s x = directory_of s x" for x by (simp add: directory_of_def)
  have L: "live ?s p = Some 1" "unat (a - p) < 4096 \<Longrightarrow> mem ?s a = mem s a"
    if "x \<in> set ts" "p \<in> task_pages s x" for x p a
  proof -
    note l1 = sched_live [OF ok that]
    have "p \<noteq> q" using q that by blast
    then show "live ?s p = Some 1" using l1 lv by simp
    show "mem ?s a = mem s a" if "unat (a - p) < 4096"
      using kzalloc.owned_meta [OF kok l1, of a] that fr by simp
  qed
  have F: "spaces_ok (set ts) ?s" "\<And>x. x \<in> set ts \<Longrightarrow> task_pages ?s x = task_pages s x"
    by (rule spaces_frame [OF sp subset_refl]; (blast intro: d L)?)+
  show "x \<in> set ts \<Longrightarrow> task_pages ?s x = task_pages s x" by (rule F(2))
  have "task_list ts ?s" by (rule task_list_cong [of ts s]) (use ok in \<open>simp_all add: sched_ok_def kfree_def\<close>)
  then show "sched_ok ts ?s" using ok R(1) F(1) by (simp add: sched_ok_def kheap_low_def kfree_def)
qed

text \<open>Giving back a block that no task has.\<close>

lemma kfree_idle_isolated:
  assumes iso: "isolated ts P s" and l: "live s q = Some n" and apart: "\<forall>x \<in> set ts. q \<notin> bases (P x) \<union> task_pages s x"
  shows "isolated ts P (kfree q s)" and "spares s (kfree q s)"
proof -
  let ?s = "kfree q s"
  have ok: "sched_ok ts s" using iso by (simp add: isolated_def)
  then have kok: "kheap_ok s" by (simp add: sched_ok_def)
  have nq: "\<forall>x \<in> set ts. q \<notin> task_pages s x" using apart by blast
  note K = kfree_sched [OF ok l nq]
  have d: "directory_of ?s x = directory_of s x" "process_of ?s x = process_of s x" for x
    by (simp_all add: directory_of_def process_of_def)
  have cf: "confined ?s x (P x)" if x: "x \<in> set ts" for x
  proof -
    have c: "confined s x (P x)" and ch: "chunk_ok (directory_of s x) (mem s)"
      using iso ok x by (auto simp: isolated_def sched_ok_def spaces_ok_def)
    have keep: "mem ?s a = mem s a" if "p \<in> chunk_pages (mem s) (directory_of s x)" "unat (a - p) < 4096" for p a
      using kzalloc.owned_meta [OF kok sched_live [OF ok x, of p], of a] that K(3) by (simp add: task_pages_def)
    have lv: "live ?s b = live s b" if "b \<in> bases (P x)" for b using that apart x by (auto simp: K(2))
    have "process_objects ?s (process_of ?s x) = Some (P x)" using c by (simp add: d confined_def)
    from confined_frame [OF c ch lv this d(1) keep] show ?thesis .
  qed
  then show "isolated ts P ?s" using iso K(1,4) by (simp add: isolated_def)
  show "spares s ?s" using K(3) by (simp add: spares_def foreign_def)
qed

text \<open>A process whose table of allocations is full gets nothing: the block it was to have is given back.\<close>

lemma malloc_full_step:
  assumes iso: "isolated ts P s" and t: "t \<in> set ts" and sz: "sz \<noteq> 0" "unat sz \<le> 4294963200"
    and room: "kheap_room s (blocks_for sz)" and full: "process_find_free_allocation_index (P t) < 0"
  shows "\<exists>s'. process_malloc (process_of s t) sz s = Inr (0, s') \<and> isolated ts P s' \<and> spares s s'"
proof -
  obtain ptr s1 where z: "kzalloc sz s = (ptr, s1)" by (cases "kzalloc sz s")
  note Z = kzalloc_isolated [OF iso sz room z]
  have ok: "sched_ok ts s" and cf: "\<And>x. x \<in> set ts \<Longrightarrow> confined s x (P x)" using iso by (simp_all add: isolated_def)
  have "process_objects s1 (process_of s t) = Some (P t)" using cf [OF t] Z(5) by (simp add: confined_def)
  then have run: "process_malloc (process_of s t) sz s = Inr (0, if ptr = 0 then s1 else kfree ptr s1)"
    using full by (simp add: process_malloc_def z deref_def)
  have d: "directory_of s1 x = directory_of s x" "process_of s1 x = process_of s x" for x
    by (simp_all add: directory_of_def process_of_def Z(6))
  have "ptr \<notin> bases (P x) \<union> task_pages s1 x" if x: "x \<in> set ts" for x
  proof -
    have "process_objects s1 (process_of s x) = Some (P x)" using cf [OF x] Z(5) by (simp add: confined_def)
    then have "task_pages s1 x = task_pages s x" using isolated_grow [OF iso Z(2) x d] by blast
    then show ?thesis using confined_live [OF cf [OF x], of ptr] sched_live [OF ok x, of ptr] Z(3) by auto
  qed
  then have F: "isolated ts P (kfree ptr s1)" "spares s1 (kfree ptr s1)"
    by (intro kfree_idle_isolated [OF Z(1,4)] ballI; blast)+
  show ?thesis using run F Z(1,7) spares_trans [OF Z(7) F(2)] by (cases "ptr = 0") auto
qed

text \<open>After its allocations are given back the process is still in order.\<close>

lemma terminate_allocations_step:
  assumes iso: "isolated ts P s" and t: "t \<in> set ts" and h: "kernel_heap s = booted_heap" and b: "mem s 0x5E00 AND 0x80 = 0"
  defines "p' \<equiv> (P t)\<lparr>proc_allocations := replicate SLOBOS_MAX_PROGRAM_ALLOCATIONS no_allocation\<rparr>"
  shows "\<exists>s'. process_terminate_allocations (process_of s t) s = Inr (0, s') \<and> isolated ts (P(t := p')) s' \<and>
    own_step s t (P t) p' s' \<and> given_back (proc_allocations (P t)) (directory_of s t) s s'"
proof -
  let ?p = "P t" and ?c = "directory_of s t" and ?as = "proc_allocations (P t)"
  have u: "user_ok (process_of s t) ?p ?c s" by (rule user_of_confined [OF iso t])
  have cf: "confined s t ?p" and ok: "kheap_ok s" and own: "\<forall>q \<in> chunk_pages (mem s) ?c. live s q = Some 1"
    using iso t u by (simp_all add: isolated_def user_ok_def)
  have len: "0 + SLOBOS_MAX_PROGRAM_ALLOCATIONS = length ?as" using cf by (simp add: confined_def allocations_ok_def)
  obtain s' where r: "terminate_loop (process_of s t) 0 SLOBOS_MAX_PROGRAM_ALLOCATIONS s = Inr s'"
    and u': "user_ok (process_of s t) p' ?c s'" and st: "\<exists>m. s' = put_process (process_of s t) p' (s\<lparr>mem := m\<rparr>)"
    and g: "given_back ?as ?c s s'"
    using terminate_loop_contract [OF u h b len] by (auto simp: p'_def)
  have step: "own_step s t ?p p' s'"
    unfolding own_step_def
  proof (intro conjI allI impI)
    show "chunk_pages (mem s') ?c = chunk_pages (mem s) ?c" using g by (simp add: given_back_def)
    fix q l assume q: "live s q = Some l" "q \<notin> bases ?p"
    then show "live s' q = Some l" using g by (simp add: given_back_def bases_def)
    fix a assume nc: "q \<notin> chunk_pages (mem s) ?c" and a: "unat (a - q) < 4096 * l"
    then show "mem s' a = mem s a"
      using g live_far [OF ok q(1) a own nc] null_byte_apart(2) [OF ok h q(1)] unfolding given_back_def by force
  qed (use st u' in blast)+
  have po: "process_of s' t = process_of s t" and dir: "directory_of s' t = ?c"
    using st by (auto simp: process_of_def directory_of_def put_process_def)
  have none: "proc_allocations p' = replicate SLOBOS_MAX_PROGRAM_ALLOCATIONS no_allocation" by (simp add: p'_def)
  have "confined s' t p'"
    unfolding confined_def po
  proof (intro conjI allI impI)
    show "process_objects s' (process_of s t) = Some p'"
      "allocations_ok (live s') (chunk_pages (mem s') (directory_of s' t)) (proc_allocations p')"
      using u' unfolding user_ok_def dir by blast+
    show "user_dir (directory_of s' t) (mem s')" using cf g by (simp add: dir confined_def given_back_def)
    show "live s' (proc_ptr p') = Some (blocks_for (proc_size p'))" "live s' (proc_stack p') = Some 4"
      using cf g by (simp_all add: confined_def given_back_def p'_def)
    show "proc_task p' = t" "proc_filetype p' = PROCESS_FILETYPE_BINARY" "proc_ptr p' \<noteq> proc_stack p'"
      using cf by (simp_all add: confined_def p'_def)
    show "proc_ptr p' \<notin> recorded (proc_allocations p')" "proc_stack p' \<notin> recorded (proc_allocations p')"
      by (simp_all add: none)
    fix w :: u32 assume w: "4096 dvd unat w" "writeable (entry s' t w)"
    have e: "entry s' t w = (if recorded_page ?as w then w else entry s t w)"
      using g w(1) by (simp add: given_back_def entry_def dir)
    have "\<not> recorded_page ?as w"
      using w writeable_flags [OF w(1), of 0] by (auto simp: e writeable_def)
    then show "user_page p' w (frame_of (entry s' t w))"
      using cf w by (auto simp: e confined_def user_page_def p'_def)
  qed
  then have "isolated ts (P(t := p')) s'"
    by (rule own_step_isolated [OF iso t step]) (auto simp: bases_def p'_def)
  then show ?thesis using r step g by (intro exI [of _ s']) (simp add: process_terminate_allocations_def)
qed

text \<open>Ending the process of the last task returns all its memory and does not touch the others.\<close>

text \<open>When the last task is gone with its memory, the others are as they were.\<close>

lemma isolated_drop:
  assumes iso: "isolated (ts @ [t]) P s" and ok': "sched_ok ts s'"
    and lv: "live s' = live s |` (- (bases (P t) \<union> task_pages s t))"
    and fr: "\<forall>q l a. live s q = Some l \<longrightarrow> q \<notin> chunk_pages (mem s) (directory_of s t) \<longrightarrow>
      unat (a - q) < 4096 * l \<longrightarrow> mem s' a = mem s a"
    and dx: "\<forall>x \<in> set ts. directory_of s' x = directory_of s x \<and> process_of s' x = process_of s x"
    and po: "\<forall>z. z \<noteq> process_of s t \<longrightarrow> process_objects s' z = process_objects s z"
  shows "isolated ts P s'" and "\<forall>x \<in> set ts. \<forall>a \<in> memory_of (P x). mem s' a = mem s a"
proof -
  have t: "t \<in> set (ts @ [t])" by simp
  have ok: "sched_ok (ts @ [t]) s" and cf: "confined s t (P t)" using iso by (simp_all add: isolated_def)
  then have tn: "t \<notin> set ts" by (auto simp: sched_ok_def task_list_def)
  have apart: "bases (P x) \<inter> (bases (P t) \<union> task_pages s t) = {}" "task_pages s x \<inter> task_pages s t = {}"
    if "x \<in> set ts" for x
  proof -
    have x: "x \<in> set (ts @ [t])" "x \<noteq> t" using that tn by auto
    show "bases (P x) \<inter> (bases (P t) \<union> task_pages s t) = {}" using iso x t unfolding isolated_def by blast
    have "spaces_ok (set (ts @ [t])) s" using ok by (simp add: sched_ok_def)
    then show "task_pages s x \<inter> task_pages s t = {}" using x t unfolding spaces_ok_def by blast
  qed
  have cx: "confined s' x (P x)" "task_pages s' x = task_pages s x" if x: "x \<in> set ts" for x
  proof -
    have cfx: "confined s x (P x)" and ch: "chunk_ok (directory_of s x) (mem s)"
      using iso ok x by (auto simp: isolated_def sched_ok_def spaces_ok_def)
    have d: "directory_of s' x = directory_of s x" "process_of s' x = process_of s x" using dx x by simp_all
    have keep: "mem s' a = mem s a" if "q \<in> chunk_pages (mem s) (directory_of s x)" "unat (a - q) < 4096" for q a
    proof -
      have q: "q \<in> task_pages s x" using that(1) by (simp add: task_pages_def)
      have "live s q = Some 1" using sched_live [OF ok _ q] x by simp
      moreover have "q \<notin> chunk_pages (mem s) (directory_of s t)" using apart(2) [OF x] q by (auto simp: task_pages_def)
      ultimately show ?thesis using fr that(2) by simp
    qed
    have lb: "live s' b = live s b" if "b \<in> bases (P x)" for b
      unfolding lv using apart(1) [OF x] that by (auto simp: restrict_map_def)
    have "process_of s x \<noteq> process_of s t" using confined_process_inj [OF cfx cf] tn x by blast
    then have "process_objects s' (process_of s' x) = Some (P x)" using cfx po d(2) by (simp add: confined_def)
    from confined_frame [OF cfx ch lb this d(1) keep] show "confined s' x (P x)" .
    show "task_pages s' x = task_pages s x"
      using chunk_frame(2) [OF ch, of "mem s'"] keep by (simp add: task_pages_def d(1))
  qed
  show "isolated ts P s'"
    unfolding isolated_def
  proof (intro conjI ballI impI)
    fix x y assume x: "x \<in> set ts" and y: "y \<in> set ts"
    show "confined s' x (P x)" by (rule cx(1) [OF x])
    show "bases (P x) \<inter> task_pages s' y = {}" "x \<noteq> y \<Longrightarrow> bases (P x) \<inter> bases (P y) = {}"
      using iso x y unfolding cx(2) [OF y] isolated_def by simp_all
  qed (rule ok')
  show "\<forall>x \<in> set ts. \<forall>a \<in> memory_of (P x). mem s' a = mem s a"
  proof (intro ballI)
    fix x a assume x: "x \<in> set ts" and a: "a \<in> memory_of (P x)"
    have cfx: "confined s x (P x)" using iso x by (simp add: isolated_def)
    obtain q l where q: "(q, l) \<in> blocks_of (P x)" "live s q = Some l" "unat (a - q) < 4096 * l"
      using memory_live [OF cfx a] .
    have "q \<notin> chunk_pages (mem s) (directory_of s t)"
      using apart(1) [OF x] confined_blocks(2) [OF cfx q(1)] by (auto simp: task_pages_def)
    then show "mem s' a = mem s a" using fr q(2,3) by blast
  qed
qed

text \<open>Freeing the image, the stack and the task.\<close>

lemma free_program:
  assumes ok: "sched_ok (ts @ [t]) s" and ne: "ts \<noteq> []" and l: "live s b = Some n" "live s k = Some l" "b \<noteq> k"
    and pg: "\<forall>x \<in> set (ts @ [t]). {b, k} \<inter> task_pages s x = {}"
  shows "\<exists>s'. task_free t (kfree k (kfree b s)) = Inr s' \<and> sched_ok ts s' \<and>
    live s' = live s |` (- ({b, k} \<union> task_pages s t)) \<and> (\<forall>a. \<not> kheap_table s a \<longrightarrow> mem s' a = mem s a) \<and>
    kernel_heap s' = kernel_heap s \<and> process_objects s' = process_objects s \<and> processes s' = processes s \<and>
    current_process s' = current_process s \<and>
    (\<forall>y \<in> set ts. directory_of s' y = directory_of s y \<and> process_of s' y = process_of s y)"
proof -
  let ?s2 = "kfree b s" and ?s3 = "kfree k (kfree b s)"
  have "\<forall>x \<in> set (ts @ [t]). b \<notin> task_pages s x" using pg by blast
  note K2 = kfree_sched [OF ok l(1) this]
  have l2: "live ?s2 k = Some l" using K2(2) l(2,3) by simp
  have "\<forall>x \<in> set (ts @ [t]). k \<notin> task_pages ?s2 x" using pg K2(4) by blast
  note K3 = kfree_sched [OF K2(1) l2 this]
  obtain s' where r: "task_free t ?s3 = Inr s'" "sched_ok ts s'" "live s' = live ?s3 |` (- task_pages ?s3 t)"
    "\<forall>a. \<not> kheap_table ?s3 a \<longrightarrow> mem s' a = mem ?s3 a" "kernel_heap s' = kernel_heap ?s3"
    "process_objects s' = process_objects ?s3" "processes s' = processes ?s3" "current_process s' = current_process ?s3"
    "\<forall>y \<in> set ts. directory_of s' y = directory_of ?s3 y \<and> process_of s' y = process_of ?s3 y"
    using task_free_last [OF K3(1) ne] by blast
  have "live s' = live s |` (- ({b, k} \<union> task_pages s t))"
    unfolding r(3) K3(2) K2(2) using K3(4) K2(4) by (auto simp: restrict_map_def fun_eq_iff)
  moreover have "\<forall>a. \<not> kheap_table s a \<longrightarrow> mem s' a = mem s a" using K2(3) K3(3) r(4) by simp
  moreover have "\<forall>y \<in> set ts. directory_of s' y = directory_of s y \<and> process_of s' y = process_of s y"
    using r(9) by (simp add: directory_of_def process_of_def)
  ultimately show ?thesis using r(1,2,5-8) by simp
qed

lemma process_terminate_contract:
  assumes iso: "isolated (ts @ [t]) P s" and ne: "ts \<noteq> []"
    and h: "kernel_heap s = booted_heap" and b: "mem s 0x5E00 AND 0x80 = 0"
    and slot: "unat (proc_id (P t)) < length (processes s)"
    and other: "current_process s \<noteq> process_of s t \<or> first_process ((processes s)[unat (proc_id (P t)) := 0]) \<noteq> 0"
  shows "\<exists>s'. process_terminate pl (process_of s t) s = Inr (0, s') \<and> isolated ts P s' \<and>
    live s' = live s |` (- (bases (P t) \<union> task_pages s t)) \<and>
    processes s' = (processes s)[unat (proc_id (P t)) := 0] \<and> spares s s' \<and>
    (\<forall>x \<in> set ts. \<forall>a \<in> memory_of (P x). mem s' a = mem s a)"
proof -
  let ?p = "P t" and ?c = "directory_of s t" and ?q = "process_of s t"
  have t: "t \<in> set (ts @ [t])" by simp
  have ok: "sched_ok (ts @ [t]) s" and cf: "confined s t ?p" using iso by (simp_all add: isolated_def)
  then have kok: "kheap_ok s" and tn: "t \<notin> set ts" by (auto simp: sched_ok_def task_list_def)
  define p' where "p' = ?p\<lparr>proc_allocations := replicate SLOBOS_MAX_PROGRAM_ALLOCATIONS no_allocation\<rparr>"
  obtain s1 where r1: "process_terminate_allocations ?q s = Inr (0, s1)" and i1: "isolated (ts @ [t]) (P(t := p')) s1"
    and st1: "own_step s t ?p p' s1" and g: "given_back (proc_allocations ?p) ?c s s1"
    using terminate_allocations_step [OF iso t h b] unfolding p'_def by blast
  have ok1: "sched_ok (ts @ [t]) s1" and c1: "confined s1 t p'" using i1 by (simp_all add: isolated_def)
  have m1: "kernel_heap s1 = kernel_heap s" "tasks s1 = tasks s" "process_objects s1 = (process_objects s)(?q \<mapsto> p')"
    "processes s1 = processes s" "current_process s1 = current_process s"
    using st1 by (auto simp: own_step_def put_process_def)
  have pg1: "task_pages s1 x = task_pages s x" if "x \<in> set (ts @ [t])" for x using own_step_sched(2) [OF iso t st1 that] .
  have q1: "process_of s1 t = ?q" by (simp add: process_of_def m1(2))
  have p': "proc_ptr p' = proc_ptr ?p" "proc_stack p' = proc_stack ?p" "proc_filetype p' = PROCESS_FILETYPE_BINARY"
    "proc_task p' = t" "proc_id p' = proc_id ?p" "proc_ptr ?p \<noteq> proc_stack ?p"
    using cf by (simp_all add: p'_def confined_def)
  have notpg: "{proc_ptr ?p, proc_stack ?p} \<inter> task_pages s x = {}" if "x \<in> set (ts @ [t])" for x
  proof -
    have "bases ?p \<inter> task_pages s x = {}" using iso that t unfolding isolated_def by blast
    then show ?thesis by (auto simp: bases_def)
  qed
  have l1: "live s1 (proc_ptr ?p) = Some (blocks_for (proc_size p'))" "live s1 (proc_stack ?p) = Some 4"
    using c1 by (simp_all add: confined_def p')
  have "\<forall>x \<in> set (ts @ [t]). {proc_ptr ?p, proc_stack ?p} \<inter> task_pages s1 x = {}" using notpg pg1 by blast
  from free_program [OF ok1 ne l1 p'(6) this] obtain s4 where
    r4: "task_free t (kfree (proc_stack ?p) (kfree (proc_ptr ?p) s1)) = Inr s4" "sched_ok ts s4"
    "live s4 = live s1 |` (- ({proc_ptr ?p, proc_stack ?p} \<union> task_pages s1 t))"
    "\<forall>a. \<not> kheap_table s1 a \<longrightarrow> mem s4 a = mem s1 a" "kernel_heap s4 = kernel_heap s1"
    "process_objects s4 = process_objects s1" "processes s4 = processes s1" "current_process s4 = current_process s1"
    "\<forall>y \<in> set ts. directory_of s4 y = directory_of s1 y \<and> process_of s4 y = process_of s1 y" by blast
  let ?id = "unat (proc_id ?p)" and ?ps = "(processes s)[unat (proc_id (P t)) := 0]"
  let ?cp = "if current_process s = ?q then first_process ?ps else current_process s"
  let ?s5 = "s4\<lparr>processes := ?ps, current_process := ?cp\<rparr>"
  have un: "process_unlink ?q s4 = Inr ?s5"
    using slot other r4(6,7,8) m1 p'(5)
    by (auto simp: process_unlink_def process_switch_to_any_def process_switch_def deref_def Let_def)
  have run: "process_terminate pl ?q s = Inr (0, ?s5)"
    using r1 r4(1) un m1(3) p'
    by (simp add: process_terminate_def process_free_program_data_def process_free_binary_data_def deref_def
      PROCESS_FILETYPE_ELF_def PROCESS_FILETYPE_BINARY_def Let_def)
  have live5: "live ?s5 = live s4" by (rule same_heap) simp_all
  have lv: "live ?s5 = live s |` (- (bases ?p \<union> task_pages s t))"
    unfolding live5 r4(3) using g pg1 [OF t]
    by (auto simp: given_back_def bases_def restrict_map_def fun_eq_iff)
  have fr: "mem ?s5 a = mem s a" if "live s q = Some l" "unat (a - q) < 4096 * l" "q \<notin> chunk_pages (mem s) ?c" for q l a
  proof -
    have own: "\<forall>q \<in> chunk_pages (mem s) ?c. live s q = Some 1"
      using user_of_confined [OF iso t] by (simp add: user_ok_def)
    note F = live_far [OF kok that(1,2) own that(3)]
    have "a \<noteq> 0x5E00" using null_byte_apart(2) [OF kok h that(1)] that(2) by auto
    then have "mem s1 a = mem s a" using g F by (simp add: given_back_def)
    moreover have "\<not> kheap_table x a" if "kernel_heap x = kernel_heap s" for x :: "'a kernel_scheme" using F(1) that by simp
    ultimately show ?thesis using r4(4) m1(1) by simp
  qed
  have ok5: "sched_ok ts ?s5" using r4(2) by (rule sched_same) simp_all
  have dx: "\<forall>x \<in> set ts. directory_of ?s5 x = directory_of s x \<and> process_of ?s5 x = process_of s x"
    using r4(9) by (simp add: directory_of_def process_of_def m1(2))
  have po: "\<forall>z. z \<noteq> ?q \<longrightarrow> process_objects ?s5 z = process_objects s z" using r4(6) m1(3) by simp
  note D = isolated_drop [OF iso ok5 lv _ dx po]
  have fr': "\<forall>q l a. live s q = Some l \<longrightarrow> q \<notin> chunk_pages (mem s) ?c \<longrightarrow> unat (a - q) < 4096 * l \<longrightarrow> mem ?s5 a = mem s a"
    using fr by blast
  have "spares s ?s5"
    unfolding spares_def
  proof (intro conjI allI impI)
    fix a assume a: "foreign s a"
    have own: "\<forall>q \<in> chunk_pages (mem s) ?c. live s q = Some 1"
      using user_of_confined [OF iso t] by (simp add: user_ok_def)
    note F = own_foreign [OF kok own a]
    have "mem ?s5 a = mem s1 a" using r4(4) m1(1) F(1) by simp
    moreover have "a \<noteq> 0x5E00 \<Longrightarrow> mem s1 a = mem s a" "mem s1 0x5E00 = mem s 0x5E00 \<or> mem s1 0x5E00 = 0"
      using g F by (auto simp: given_back_def)
    ultimately show "mem ?s5 a = mem s a \<or> a = 0x5E00 \<and> mem ?s5 a = 0" by auto
  qed (simp add: r4(5) m1(1))
  with run lv D [OF fr'] show ?thesis by (intro exI [of _ ?s5]) simp
qed

end
