(* ===== verification/Isolation_Props.thy ===== *)
theory Isolation_Props
  imports Isolation Syscalls_Props Fat16_Props
begin

text \<open>
  Isolation as a property of everything the kernel does between boot and any later moment: the
  steps of user programs, of the scheduler and of the system calls for memory, and what they keep.
\<close>

unbundle bit_operations_syntax

section \<open>The steps\<close>

text \<open>
  \<open>launch\<close> is the memory side of loading a flat binary in \<open>process_load_for_slot\<close>, when the heap has room for it: a block
  for the image, which the file fills with anything, one for the stack, the process structure, the task, the mapping; what
  opening and reading the file allocates and gives back is left out. \<open>malloc\<close> and
  \<open>free\<close> are system calls of the current task: \<open>free\<close> of any pointer; \<open>malloc\<close> of a size other than 0 for which the
  heap has a free run, whether or not the process has a free entry in its table. \<open>store\<close> is one byte written in user mode,
  \<open>finish\<close> ends the process at the end of the list, of two or more. Freeing a null pointer writes below the block
  table, and is harmless when the byte there has its highest bit clear: with that the invariant is \<open>running\<close>.

  Some of what a user program can ask for is no step, because the code does not keep the memory of programs apart then:
  \<open>malloc(0)\<close> returns a block it has not marked as taken, a request that no free run fits
  marks entries past the table, ending another task than the last leaves a link that dangles, and
  system call 8 writes without a check. ELF files are not launched here.
\<close>

definition null_harmless :: "'a kernel_scheme \<Rightarrow> bool" where
  "null_harmless s \<longleftrightarrow> kernel_heap s = booted_heap \<and> mem s 0x5E00 AND 0x80 = 0"

definition running :: "u32 list \<Rightarrow> (u32 \<Rightarrow> process) \<Rightarrow> 'a kernel_scheme \<Rightarrow> bool" where
  "running ts P s \<longleftrightarrow> isolated ts P s \<and> null_harmless s"

lemma spares_harmless: "spares s s' \<Longrightarrow> null_harmless s \<Longrightarrow> null_harmless s'"
proof -
  assume s: "spares s s'" and h: "null_harmless s"
  have "foreign s 0x5E00" using h by (simp add: null_harmless_def foreign_def booted_heap_def in_table_def in_pool_def)
  then have "mem s' 0x5E00 = mem s 0x5E00 \<or> mem s' 0x5E00 = 0" using s by (auto simp: spares_def)
  then show "null_harmless s'" using s h by (auto simp: spares_def null_harmless_def)
qed

lemma same_harmless:
  "mem s' = mem s \<Longrightarrow> kernel_heap s' = kernel_heap s \<Longrightarrow> null_harmless s \<Longrightarrow> null_harmless s'"
  by (simp add: null_harmless_def)

definition can_finish :: "'a kernel_scheme \<Rightarrow> process \<Rightarrow> bool" where
  "can_finish s p \<longleftrightarrow> unat (proc_id p) < length (processes s) \<and>
     (current_process s \<noteq> process_of s (proc_task p) \<or> first_process ((processes s)[unat (proc_id p) := 0]) \<noteq> 0)"

inductive os_step :: "platform \<Rightarrow> 'a kernel_scheme \<Rightarrow> 'a kernel_scheme \<Rightarrow> bool" for pl where
  launch: "process \<notin> process_of s ` dom (tasks s) \<Longrightarrow> proc_filetype p = PROCESS_FILETYPE_BINARY \<Longrightarrow>
    proc_allocations p = replicate SLOBOS_MAX_PROGRAM_ALLOCATIONS no_allocation \<Longrightarrow>
    proc_size p \<noteq> 0 \<Longrightarrow> unat (proc_size p) \<le> 4294963200 \<Longrightarrow> kheap_room s (blocks_for (proc_size p)) \<Longrightarrow>
    kzalloc (proc_size p) s = (proc_ptr p, s1) \<Longrightarrow>
    \<forall>a. 4096 * blocks_for (proc_size p) \<le> unat (a - proc_ptr p) \<longrightarrow> m a = mem s1 a \<Longrightarrow>
    kheap_room (s1\<lparr>mem := m\<rparr>) 4 \<Longrightarrow>
    kzalloc SLOBOS_USER_PROGRAM_STACK_SIZE (s1\<lparr>mem := m\<rparr>) = (proc_stack p, s2) \<Longrightarrow> 1027 \<le> kheap_spare s2 \<Longrightarrow>
    task_new process (put_process process p s2) = Inr (t, s3) \<Longrightarrow>
    process_map_memory process (put_process process (p\<lparr>proc_task := t\<rparr>) s3) = Inr (res, s4) \<Longrightarrow> os_step pl s s4"
| malloc: "tasks s (current_task s) = Some t \<Longrightarrow>
    sz \<noteq> 0 \<Longrightarrow> unat sz \<le> 4294963200 \<Longrightarrow> kheap_room s (blocks_for sz) \<Longrightarrow>
    process_malloc (task_process t) sz s = Inr (r, s') \<Longrightarrow> os_step pl s s'"
| free: "tasks s (current_task s) = Some t \<Longrightarrow>
    process_free (task_process t) ptr s = Inr s' \<Longrightarrow> os_step pl s s'"
| store: "tasks s (current_task s) = Some t \<Longrightarrow> cr3 s = load32 (mem s) (task_page_directory t) \<Longrightarrow>
    user_write v b s = Inr s' \<Longrightarrow> os_step pl s s'"
| go_on: "task_next s = Inr (r, s') \<Longrightarrow> os_step pl s s'"
| save: "task_current_save_state frame s = Inr s' \<Longrightarrow> os_step pl s s'"
| enter: "os_step pl s (kernel_page s)"
| leave: "task_page s = Inr s' \<Longrightarrow> os_step pl s s'"
| finish: "task_head s \<noteq> task_tail s \<Longrightarrow> process_objects s (process_of s (task_tail s)) = Some p \<Longrightarrow>
    can_finish s p \<Longrightarrow>
    process_terminate pl (process_of s (task_tail s)) s = Inr (res, s') \<Longrightarrow> os_step pl s s'"

inductive os_reach :: "platform \<Rightarrow> 'a kernel_scheme \<Rightarrow> 'a kernel_scheme \<Rightarrow> bool" for pl s0 where
  start: "os_reach pl s0 s0"
| step: "os_reach pl s0 s \<Longrightarrow> os_step pl s s' \<Longrightarrow> os_reach pl s0 s'"

section \<open>Steps that write no memory\<close>

lemma isolated_same:
  assumes iso: "isolated ts P s" and ok: "sched_ok ts s'" and m: "mem s' = mem s" "kernel_heap s' = kernel_heap s"
    "process_objects s' = process_objects s"
    and d: "\<And>x. directory_of s' x = directory_of s x" "\<And>x. process_of s' x = process_of s x"
  shows "isolated ts P s'"
proof -
  have "live s' = live s" by (rule same_heap) (rule m)+
  then have "confined s' x p = confined s x p" for x p
    by (simp add: confined_def entry_def d m)
  moreover have "task_pages s' x = task_pages s x" for x by (simp add: task_pages_def d m)
  ultimately show ?thesis using iso ok by (simp add: isolated_def)
qed

lemma switch_isolated:
  assumes iso: "isolated ts P s" and sw: "task_switch t s = Inr s'" and t: "t \<in> set ts"
  shows "isolated ts P s'"
proof -
  have "sched_ok ts s'" using iso task_switch_sched [OF _ sw t] by (simp add: isolated_def)
  moreover obtain x where x: "tasks s t = Some x"
    using sw by (cases "tasks s t") (simp_all add: task_switch_def deref_def Let_def)
  moreover have "s' = paging_switch (task_page_directory x) (s\<lparr>current_task := t\<rparr>)"
    using sw x by (simp add: task_switch_def deref_def Let_def)
  ultimately show ?thesis
    using iso by (intro isolated_same [OF iso]) (simp_all add: paging_switch_def directory_of_def process_of_def)
qed

lemma segment_isolated: "isolated ts P s \<Longrightarrow> isolated ts P (s\<lparr>data_segment := x\<rparr>)"
  by (rule isolated_same) (simp_all add: directory_of_def process_of_def isolated_def data_segment_sched)

lemma current_isolated:
  assumes "isolated ts P s" and "tasks s (current_task s) = Some t"
  shows "current_task s \<in> set ts" and "process_of s (current_task s) = task_process t"
    and "process_objects s (task_process t) = Some (P (current_task s))"
    and "directory_of s (current_task s) = task_page_directory t"
proof -
  show c: "current_task s \<in> set ts" using assms current_in_list by (auto simp: isolated_def)
  show p: "process_of s (current_task s) = task_process t" "directory_of s (current_task s) = task_page_directory t"
    using assms(2) by (simp_all add: process_of_def directory_of_def)
  have "confined s (current_task s) (P (current_task s))" using assms(1) c by (simp add: isolated_def)
  then show "process_objects s (task_process t) = Some (P (current_task s))" by (simp add: confined_def p)
qed

section \<open>Every step keeps isolation\<close>

lemma launch_isolated:
  assumes iso: "isolated ts P s" and idle: "process \<notin> process_of s ` dom (tasks s)"
    and p: "proc_filetype p = PROCESS_FILETYPE_BINARY"
      "proc_allocations p = replicate SLOBOS_MAX_PROGRAM_ALLOCATIONS no_allocation"
    and sz: "proc_size p \<noteq> 0" "unat (proc_size p) \<le> 4294963200" and r1: "kheap_room s (blocks_for (proc_size p))"
    and z1: "kzalloc (proc_size p) s = (proc_ptr p, s1)"
    and m: "\<forall>a. 4096 * blocks_for (proc_size p) \<le> unat (a - proc_ptr p) \<longrightarrow> m a = mem s1 a"
    and r2: "kheap_room (s1\<lparr>mem := m\<rparr>) 4"
    and z2: "kzalloc SLOBOS_USER_PROGRAM_STACK_SIZE (s1\<lparr>mem := m\<rparr>) = (proc_stack p, s2)" and sp: "1027 \<le> kheap_spare s2"
    and n: "task_new process (put_process process p s2) = Inr (t, s3)"
  shows "\<exists>P' s4. process_map_memory process (put_process process (p\<lparr>proc_task := t\<rparr>) s3) = Inr (0, s4) \<and>
    isolated (ts @ [t]) P' s4 \<and> P' t = p\<lparr>proc_task := t\<rparr> \<and> t \<notin> set ts \<and> spares s s4 \<and> process_of s4 t = process \<and>
    processes s4 = processes s \<and> current_process s4 = current_process s \<and>
    kheap_spare s4 + 1027 = kheap_spare s2 \<and> (\<forall>w. 4096 dvd unat w \<longrightarrow> entry s4 t w = program_entry p (w OR 5) w)"
proof -
  let ?f = "s1\<lparr>mem := m\<rparr>" and ?s2 = "put_process process p s2"
  note A = kzalloc_isolated [OF iso sz r1 z1]
  have ok: "sched_ok ts s" and ok1: "sched_ok ts s1" using iso A(1) by (simp_all add: isolated_def)
  have pg: "task_pages s1 x = task_pages s x" if x: "x \<in> set ts" for x
    using isolated_grow(2) [OF iso A(2) x] iso x
    by (simp add: directory_of_def process_of_def A(5,6) isolated_def confined_def)
  have new: "q \<notin> bases (P x) \<union> task_pages s x" if "x \<in> set ts" "live s q = None" for x q
    using iso that confined_live [of s x "P x" q] sched_live [OF ok that(1), of q] unfolding isolated_def by auto
  have out: "\<forall>x \<in> set ts. proc_ptr p \<notin> bases (P x) \<union> task_pages s1 x"
    using new [OF _ A(3)] pg by simp
  note F = fill_isolated [OF A(1) A(4) out m]
  have st: "SLOBOS_USER_PROGRAM_STACK_SIZE \<noteq> 0" "unat SLOBOS_USER_PROGRAM_STACK_SIZE \<le> 4294963200"
    "kheap_room ?f (blocks_for SLOBOS_USER_PROGRAM_STACK_SIZE)" using r2 stack_blocks by (simp_all add: c_defs)
  note B = kzalloc_isolated [OF F(1) st z2, unfolded stack_blocks]
  have ok2: "sched_ok ts ?f" using F(1) by (simp add: isolated_def)
  have po: "process_of s2 x = process_of s x" for x by (simp add: process_of_def A(6) B(6))
  have id: "\<forall>x \<in> set ts. process_of s2 x \<noteq> process"
    using idle ok by (auto simp: po sched_ok_def)
  note Q = put_idle_isolated [OF B(1) id, of p]
  have lp: "live s2 (proc_ptr p) = Some (blocks_for (proc_size p))"
    using growsD(1) [OF B(2), of "proc_ptr p"] A(4) F(2) by simp
  have ne: "proc_ptr p \<noteq> proc_stack p" using A(4) B(3) F(2) by auto
  have pg2: "task_pages s2 x = task_pages ?f x" if x: "x \<in> set ts" for x
    using isolated_grow(2) [OF F(1) B(2) x] F(1) x
    by (simp add: directory_of_def process_of_def B(5,6) isolated_def confined_def)
  have ap: "{proc_ptr p, proc_stack p} \<inter> (bases (P x) \<union> task_pages ?s2 x) = {}" if x: "x \<in> set ts" for x
  proof -
    have "live s (proc_stack p) = None" using B(3) F(2) growsD(1) [OF A(2), of "proc_stack p"] by (cases "live s (proc_stack p)") auto
    then have "proc_stack p \<notin> bases (P x) \<union> task_pages s x" by (rule new [OF x])
    moreover have "task_pages ?s2 x = task_pages s x" using Q(5) pg2 [OF x] F(5) [OF x] pg [OF x] by simp
    ultimately show ?thesis using new [OF x A(3)] by simp
  qed
  have ob: "process_objects ?s2 process = Some p" by (simp add: put_process_def)
  have sp': "1027 \<le> kheap_spare ?s2" using sp Q(3) by simp
  have l2: "live ?s2 (proc_ptr p) = Some (blocks_for (proc_size p))" "live ?s2 (proc_stack p) = Some 4"
    using lp B(4) Q(2) by simp_all
  have id': "process_of ?s2 x \<noteq> process" if "x \<in> set ts" for x
    using id that by (simp add: process_of_def put_process_def)
  note N = new_task_isolated [OF Q(1) sp' ob p l2 ne id' ap n]
  have same: "processes s3 = processes s" "current_process s3 = current_process s"
    using N(7,8) A(8,9) B(8,9) by (simp_all add: put_process_def)
  let ?s = "put_process process (p\<lparr>proc_task := t\<rparr>) s3" and ?P = "P(t := p\<lparr>proc_task := t\<rparr>)"
  obtain s4 where s4: "process_map_memory (process_of ?s t) ?s = Inr (0, s4)" "isolated (ts @ [t]) ?P s4"
    "spares ?s s4" "kheap_spare s4 = kheap_spare ?s" "\<exists>m. s4 = ?s\<lparr>mem := m\<rparr>"
    "\<forall>w. 4096 dvd unat w \<longrightarrow> entry s4 t w = program_entry (?P t) (entry ?s t w) w"
    using map_memory_step [OF N(1), of t] by auto
  have "program_entry (?P t) o' w = program_entry p o' w" for o' w by (simp add: program_entry_def)
  moreover have "spares s s4"
    using A(7) F(4) B(7) Q(4) N(6) s4(3) by (blast intro: spares_trans)
  moreover have "process_of s4 t = process" using s4(5) N(2) by (auto simp: process_of_def)
  moreover have "processes s4 = processes s" "current_process s4 = current_process s"
    using s4(5) same by (auto simp: put_process_def)
  ultimately show ?thesis
    using s4(1,2,4,6) N(2-5) Q(3) by (intro exI [of _ ?P] exI [of _ s4]) simp
qed

text \<open>The steps that write no memory, and those of the list of tasks.\<close>

lemma go_on_isolated:
  assumes iso: "isolated ts P s" and r: "task_next s = Inr (r, s')"
  shows "isolated ts P s'" and "mem s' = mem s" and "kernel_heap s' = kernel_heap s"
proof -
  have ok: "sched_ok ts s'" using iso task_next_sched [OF _ r] by (simp add: isolated_def)
  obtain n where sw: "task_switch n s = Inr s'"
    using r by (auto simp: task_next_def andthen_eq_Inr deref_def split: if_splits option.splits)
  then obtain x where x: "tasks s n = Some x"
    by (cases "tasks s n") (simp_all add: task_switch_def deref_def Let_def)
  have s': "s' = paging_switch (task_page_directory x) (s\<lparr>current_task := n\<rparr>)"
    using sw x by (simp add: task_switch_def deref_def Let_def)
  then show "isolated ts P s'"
    using ok by (intro isolated_same [OF iso]) (simp_all add: paging_switch_def directory_of_def process_of_def)
  show "mem s' = mem s" "kernel_heap s' = kernel_heap s" by (simp_all add: s' paging_switch_def)
qed

lemma save_isolated:
  assumes iso: "isolated ts P s" and r: "task_current_save_state frame s = Inr s'"
  shows "isolated ts P s'" and "mem s' = mem s" and "kernel_heap s' = kernel_heap s"
proof -
  have ok: "sched_ok ts s'" using iso save_state_sched [OF _ r] by (simp add: isolated_def)
  obtain t where t: "tasks s (current_task s) = Some t"
    and s': "s' = s\<lparr>tasks := (tasks s)(current_task s \<mapsto> task_save_state t frame)\<rparr>"
    using r by (auto simp: task_current_save_state_def andthen_eq_Inr deref_def split: option.splits)
  show "isolated ts P s'"
    using ok t by (intro isolated_same [OF iso]) (simp_all add: s' directory_of_def process_of_def task_save_state_def)
  show "mem s' = mem s" "kernel_heap s' = kernel_heap s" by (simp_all add: s')
qed

lemma enter_isolated:
  assumes iso: "isolated ts P s"
  shows "isolated ts P (kernel_page s)" and "mem (kernel_page s) = mem s" and "kernel_heap (kernel_page s) = kernel_heap s"
proof -
  have "isolated ts P (paging_switch c (s\<lparr>data_segment := x\<rparr>))" for c x
  proof (rule isolated_same [OF iso])
    show "sched_ok ts (paging_switch c (s\<lparr>data_segment := x\<rparr>))"
      by (rule sched_same [of ts s]) (use iso in \<open>simp_all add: isolated_def paging_switch_def\<close>)
  qed (simp_all add: paging_switch_def directory_of_def process_of_def)
  then show "isolated ts P (kernel_page s)" unfolding kernel_page_def kernel_registers_def Let_def by blast
  show "mem (kernel_page s) = mem s" "kernel_heap (kernel_page s) = kernel_heap s"
    by (simp_all add: kernel_page_def kernel_registers_def paging_switch_def Let_def)
qed

lemma leave_isolated:
  assumes iso: "isolated ts P s" and r: "task_page s = Inr s'"
  shows "isolated ts P s'" and "mem s' = mem s" and "kernel_heap s' = kernel_heap s"
proof -
  let ?s = "s\<lparr>data_segment := USER_DATA_SEGMENT\<rparr>"
  have i: "isolated ts P ?s" by (rule segment_isolated [OF iso])
  have sw: "task_switch (current_task s) ?s = Inr s'"
    using r by (simp add: task_page_def user_registers_def Let_def)
  then obtain t where t: "tasks ?s (current_task ?s) = Some t"
    by (auto simp: task_switch_def Let_def andthen_eq_Inr deref_def split: option.splits)
  then have "current_task s \<in> set ts" using current_isolated(1) [OF i] by simp
  then show "isolated ts P s'" by (rule switch_isolated [OF i sw])
  show "mem s' = mem s" "kernel_heap s' = kernel_heap s"
    using sw t by (auto simp: task_switch_def deref_def paging_switch_def Let_def)
qed

lemma os_step_running:
  assumes run: "running ts P s" and st: "os_step pl s s'"
  shows "\<exists>ts P. running ts P s'"
proof -
  have iso: "isolated ts P s" and h: "null_harmless s" using run by (simp_all add: running_def)
  have S: "isolated us Q s' \<Longrightarrow> spares s s' \<Longrightarrow> ?thesis" for us Q
    using spares_harmless h unfolding running_def by blast
  have M: "isolated us Q s' \<Longrightarrow> mem s' = mem s \<Longrightarrow> kernel_heap s' = kernel_heap s \<Longrightarrow> ?thesis" for us Q
    by (rule S) (simp_all add: spares_def)
  show ?thesis
    using st
  proof (cases rule: os_step.cases)
    case (launch process p s1 m s2 t s3 res)
    obtain P' s5 where "process_map_memory process (put_process process (p\<lparr>proc_task := t\<rparr>) s3) = Inr (0, s5)"
      "isolated (ts @ [t]) P' s5" "spares s s5" using launch_isolated [OF iso launch(1-12)] by blast
    then show ?thesis using launch(13) S by auto
  next
    case (malloc t sz r)
    note C = current_isolated [OF iso malloc(1)]
    let ?p = "P (current_task s)"
    show ?thesis
    proof (cases "process_find_free_allocation_index ?p < 0")
      case True
      from malloc_full_step [OF iso C(1) malloc(2-4) this] malloc(5) S show ?thesis unfolding C(2) by auto
    next
      case False
      then have "process_find_free_allocation_index ?p = int (nat (process_find_free_allocation_index ?p))" by simp
      from malloc_own_step [OF iso C(1) malloc(2-4) this] obtain ptr s1 p'
        where "process_malloc (process_of s (current_task s)) sz s = Inr (ptr, s1)"
          "isolated ts (P(current_task s := p')) s1" "spares s s1" by blast
      then show ?thesis using malloc(5) S unfolding C(2) by auto
    qed
  next
    case (free t ptr)
    note C = current_isolated [OF iso free(1)]
    from free_step [OF iso C(1), of ptr] h obtain s1 p'
      where "process_free (process_of s (current_task s)) ptr s = Inr s1"
        "isolated ts (P(current_task s := p')) s1" "spares s s1" by (auto simp: null_harmless_def)
    then show ?thesis using free(2) S unfolding C(2) by auto
  next
    case (store t v b)
    note C = current_isolated [OF iso store(1)]
    have "cr3 s = load32 (mem s) (directory_of s (current_task s))" using store(2) C(4) by simp
    then obtain a where a: "s' = s\<lparr>mem := (mem s)(a := b)\<rparr>" "a \<in> memory_of (P (current_task s))"
      using user_write_memory [OF iso C(1) _ store(3)] by blast
    show ?thesis using user_write_step [OF iso C(1) a(2), of b] S unfolding a(1) by blast
  next
    case (go_on r)
    then show ?thesis using go_on_isolated [OF iso] M by blast
  next
    case (save frame)
    then show ?thesis using save_isolated [OF iso] M by blast
  next
    case enter
    then show ?thesis using enter_isolated [OF iso] M by blast
  next
    case leave
    then show ?thesis using leave_isolated [OF iso] M by blast
  next
    case (finish p res)
    have ok: "sched_ok ts s" using iso by (simp add: isolated_def)
    then have ne: "ts \<noteq> []" using finish(1) by (auto simp: sched_ok_def task_list_def)
    then obtain us t where ts: "ts = us @ [t]" by (metis rev_exhaust)
    then have t: "task_tail s = t" "us \<noteq> []"
      using ok finish(1) by (auto simp: sched_ok_def task_list_def split: if_splits)
    have "confined s t (P t)" using iso ts by (simp add: isolated_def)
    then have p: "p = P t" "proc_task (P t) = t" using finish(2) t(1) by (simp_all add: confined_def)
    have e: "process_of s (task_tail s) = process_of s t" by (simp add: t(1))
    have g: "kernel_heap s = booted_heap" "mem s 0x5E00 AND 0x80 = 0" "unat (proc_id (P t)) < length (processes s)"
      "current_process s \<noteq> process_of s t \<or> first_process ((processes s)[unat (proc_id (P t)) := 0]) \<noteq> 0"
      using finish(3) h p by (simp_all add: null_harmless_def can_finish_def)
    from process_terminate_contract [OF iso [unfolded ts] t(2) g, of pl] obtain s1
      where "process_terminate pl (process_of s t) s = Inr (0, s1)" "isolated us P s1" "spares s s1" by blast
    then show ?thesis using finish(4) S unfolding e by auto
  qed
qed

section \<open>Starting a program is possible\<close>

text \<open>With 20000 free blocks a program of at most one page can be launched.\<close>

lemma launch_possible:
  assumes run: "running ts P s" and idle: "process \<notin> process_of s ` dom (tasks s)" and sp: "20000 \<le> kheap_spare s"
    and q: "proc_filetype q = PROCESS_FILETYPE_BINARY"
      "proc_allocations q = replicate SLOBOS_MAX_PROGRAM_ALLOCATIONS no_allocation"
      "proc_size q \<noteq> 0" "unat (proc_size q) \<le> 4096"
  shows "\<exists>b k t P' s'. os_step pl s s' \<and> running (ts @ [t]) P' s' \<and> t \<notin> set ts \<and>
    P' t = q\<lparr>proc_ptr := b, proc_stack := k, proc_task := t\<rparr> \<and> process_of s' t = process \<and> spares s s' \<and>
    kheap_spare s' + 1032 = kheap_spare s \<and> processes s' = processes s \<and> current_process s' = current_process s \<and>
    (\<forall>w. 4096 dvd unat w \<longrightarrow> entry s' t w = program_entry (P' t) (w OR 5) w)"
proof -
  have iso: "isolated ts P s" and h: "kernel_heap s = booted_heap" and nh: "null_harmless s"
    using run by (simp_all add: running_def null_harmless_def)
  then have ok: "kheap_ok s" by (simp add: isolated_def sched_ok_def)
  have b1: "blocks_for (proc_size q) = 1" using q(3,4) by (rule kzalloc.blocks_for_page)
  obtain b s1 where z1: "kzalloc (proc_size q) s = (b, s1)" by (cases "kzalloc (proc_size q) s")
  have r1: "kheap_room s (blocks_for (proc_size q))" using kheap_spare_room [OF ok] sp b1 by simp
  have sz: "unat (proc_size q) \<le> 4294963200" using q(4) by simp
  note A = kzalloc_isolated [OF iso q(3) sz r1 z1]
  have ok1: "kheap_ok s1" using A(1) by (simp add: isolated_def sched_ok_def)
  have sp1: "kheap_spare s1 + 1 = kheap_spare s"
    using kzalloc.spare_alloc [OF ok q(3) sz r1] z1 b1 by simp
  have h1: "kernel_heap s1 = booted_heap" using A(7) h by (simp add: spares_def)
  have T: "heap_blocks (kernel_heap s1) = 25600" by (simp add: h1 booted_heap_def)
  have r2: "kheap_room s1 4"
    by (rule room_by_count [OF ok1]) (use sp sp1 in \<open>simp_all add: T\<close>)
  obtain k s2 where z2: "kzalloc SLOBOS_USER_PROGRAM_STACK_SIZE s1 = (k, s2)"
    by (cases "kzalloc SLOBOS_USER_PROGRAM_STACK_SIZE s1")
  have st: "SLOBOS_USER_PROGRAM_STACK_SIZE \<noteq> 0" "unat SLOBOS_USER_PROGRAM_STACK_SIZE \<le> 4294963200"
    "kheap_room s1 (blocks_for SLOBOS_USER_PROGRAM_STACK_SIZE)" using r2 stack_blocks by (simp_all add: c_defs)
  note B = kzalloc_isolated [OF A(1) st z2, unfolded stack_blocks]
  have sp2: "kheap_spare s2 + 4 = kheap_spare s1"
    using kzalloc.spare_alloc [OF ok1 st] z2 stack_blocks by simp
  let ?p = "q\<lparr>proc_ptr := b, proc_stack := k\<rparr>"
  have id: "\<forall>x \<in> set ts. process_of s2 x \<noteq> process"
    using idle iso by (auto simp: isolated_def sched_ok_def process_of_def A(6) B(6))
  note Q = put_idle_isolated [OF B(1) id, of ?p]
  have ok3: "sched_ok ts (put_process process ?p s2)" using Q(1) by (simp add: isolated_def)
  have sp3: "1027 \<le> kheap_spare (put_process process ?p s2)" "1027 \<le> kheap_spare s2" using Q(3) sp sp1 sp2 by simp_all
  have ob: "process_objects (put_process process ?p s2) process = Some ?p" by (simp add: put_process_def)
  have "proc_filetype ?p = PROCESS_FILETYPE_ELF \<longrightarrow> elf_files (put_process process ?p s2) (proc_ptr ?p) \<noteq> None"
    using q(1) by (simp add: c_defs)
  from task_new_contract [OF ok3 sp3(1) ob this] obtain t s3
    where n: "task_new process (put_process process ?p s2) = Inr (t, s3)" by blast
  have m: "s1\<lparr>mem := mem s1\<rparr> = s1" by simp
  have p: "proc_filetype ?p = PROCESS_FILETYPE_BINARY"
    "proc_allocations ?p = replicate SLOBOS_MAX_PROGRAM_ALLOCATIONS no_allocation"
    "proc_size ?p \<noteq> 0" "unat (proc_size ?p) \<le> 4294963200" "kheap_room s (blocks_for (proc_size ?p))"
    "kzalloc (proc_size ?p) s = (proc_ptr ?p, s1)"
    "\<forall>a. 4096 * blocks_for (proc_size ?p) \<le> unat (a - proc_ptr ?p) \<longrightarrow> mem s1 a = mem s1 a"
    "kheap_room (s1\<lparr>mem := mem s1\<rparr>) 4"
    "kzalloc SLOBOS_USER_PROGRAM_STACK_SIZE (s1\<lparr>mem := mem s1\<rparr>) = (proc_stack ?p, s2)"
    using q sz r1 z1 r2 z2 m by simp_all
  obtain P' s4 where L: "process_map_memory process (put_process process (?p\<lparr>proc_task := t\<rparr>) s3) = Inr (0, s4)"
    "isolated (ts @ [t]) P' s4" "P' t = ?p\<lparr>proc_task := t\<rparr>" "t \<notin> set ts" "spares s s4" "process_of s4 t = process"
    "processes s4 = processes s" "current_process s4 = current_process s"
    "kheap_spare s4 + 1027 = kheap_spare s2" "\<forall>w. 4096 dvd unat w \<longrightarrow> entry s4 t w = program_entry ?p (w OR 5) w"
    using launch_isolated [OF iso idle p sp3(2) n] by blast
  have "os_step pl s s4" by (rule os_step.launch [OF idle p sp3(2) n L(1)])
  moreover have "running (ts @ [t]) P' s4" using L(2) spares_harmless [OF L(5) nh] by (simp add: running_def)
  moreover have "program_entry (P' t) o' w = program_entry ?p o' w" for o' w by (simp add: L(3) program_entry_def)
  ultimately show ?thesis
    using L(3-10) sp1 sp2 by (intro exI [of _ b] exI [of _ k] exI [of _ t] exI [of _ P'] exI [of _ s4]) simp
qed

section \<open>From boot on\<close>

lemma booted_running:
  assumes "task_head s = 0" "task_tail s = 0" "current_task s = 0" "tasks s = Map.empty" and "mem s 0x5E00 AND 0x80 = 0"
  shows "running [] P (snd (kheap_init s))"
proof -
  have "null_harmless (snd (kheap_init s))"
    using booted_client(4) [of s] booted_client(5) [of "0x5E00" s] assms(5) by (simp add: null_harmless_def)
  then show ?thesis using booted_sched [OF assms(1-4)] by (simp add: running_def isolated_def)
qed

lemma reach_running:
  assumes "os_reach pl s0 s" and "running us Q s0"
  shows "\<exists>ts P. running ts P s"
  using assms(1)
proof (induction rule: os_reach.induct)
  case start
  then show ?case using assms(2) by blast
next
  case (step s s')
  then show ?case using os_step_running by blast
qed

lemma isolated_disjoint:
  assumes iso: "isolated ts P s" and t: "t \<in> set ts" and a: "a \<in> memory_of (P t)"
  shows "u \<in> set ts \<Longrightarrow> u \<noteq> t \<Longrightarrow> a \<notin> memory_of (P u)" and "\<not> kheap_table s a"
    and "u \<in> set ts \<Longrightarrow> outside (task_pages s u) a"
proof -
  have ok: "sched_ok ts s" and cf: "confined s x (P x)" if "x \<in> set ts" for x
    using iso that by (simp_all add: isolated_def)
  then have kok: "kheap_ok s" and so: "sched_ok ts s" using t by (auto simp: sched_ok_def)
  obtain b n where b: "(b, n) \<in> blocks_of (P t)" "live s b = Some n" "unat (a - b) < 4096 * n"
    using memory_live [OF cf [OF t] a] .
  have bb: "b \<in> bases (P t)" using confined_blocks(2) [OF cf [OF t] b(1)] .
  show "\<not> kheap_table s a" by (rule kzalloc.owned_meta [OF kok b(2,3)])
  have far: "4096 * l \<le> unat (a - q)" if "live s q = Some l" "q \<noteq> b" for q l
    by (rule live_outside [OF kok that(1) b(2) that(2) b(3)])
  show "outside (task_pages s u) a" if u: "u \<in> set ts"
  proof -
    have "q \<noteq> b" if "q \<in> task_pages s u" for q using iso t u bb that unfolding isolated_def by blast
    then show ?thesis using far sched_live [OF so u] by (fastforce simp: outside_def)
  qed
  show "a \<notin> memory_of (P u)" if u: "u \<in> set ts" "u \<noteq> t"
  proof
    assume "a \<in> memory_of (P u)"
    then obtain q l where q: "(q, l) \<in> blocks_of (P u)" "live s q = Some l" "unat (a - q) < 4096 * l"
      using memory_live [OF cf [OF u(1)]] by metis
    have "q \<in> bases (P u)" using confined_blocks(2) [OF cf [OF u(1)] q(1)] .
    then have "q \<noteq> b" using iso t u bb unfolding isolated_def by blast
    then show False using far [OF q(2)] q(3) by simp
  qed
qed

text \<open>A small program, launched once and twice.\<close>

definition demo_process :: process where
  "demo_process = \<lparr>proc_id = 0, proc_filename = [], proc_task = 0,
     proc_allocations = replicate SLOBOS_MAX_PROGRAM_ALLOCATIONS no_allocation, proc_filetype = PROCESS_FILETYPE_BINARY,
     proc_ptr = 0, proc_stack = 0, proc_size = 100,
     proc_keyboard = \<lparr>kb_buffer = [], kb_tail = 0, kb_head = 0\<rparr>, proc_argc = 0, proc_argv = 0\<rparr>"

lemma demo_process_simps [simp]:
  "proc_filetype demo_process = PROCESS_FILETYPE_BINARY" "proc_size demo_process = 100" "proc_id demo_process = 0"
  "proc_allocations demo_process = replicate SLOBOS_MAX_PROGRAM_ALLOCATIONS no_allocation"
  by (simp_all add: demo_process_def)

abbreviation demo_boot :: kernel where
  "demo_boot \<equiv> snd (kheap_init demo_kernel)"

lemma demo_boot_running: "running [] P demo_boot"
  by (rule booted_running) (simp_all add: demo_kernel_def)

lemma demo_launched:
  obtains b k t P s where "os_step pl demo_boot s" "running [t] P s" "process_of s t = 0x5000"
    "processes s = replicate 12 0" "current_process s = 0"
    "P t = demo_process\<lparr>proc_ptr := b, proc_stack := k, proc_task := t\<rparr>" "kheap_spare s = 24568"
    "\<And>w. 4096 dvd unat w \<Longrightarrow> entry s t w = program_entry (P t) (w OR 5) w"
proof -
  have "0x5000 \<notin> process_of demo_boot ` dom (tasks demo_boot)" by (simp add: kheap_init_eq demo_kernel_def)
  moreover have "20000 \<le> kheap_spare demo_boot" by (simp add: booted_spare)
  moreover have "processes demo_boot = replicate 12 0" "current_process demo_boot = 0"
    by (simp_all add: kheap_init_eq demo_kernel_def)
  ultimately show thesis
    using launch_possible [OF demo_boot_running, of "0x5000" demo_process pl] by (auto simp: booted_spare intro: that)
qed

lemma demo_launched_twice:
  obtains b k t u P s where "os_reach pl demo_boot s" "running [t, u] P s" "process_of s u = 0x6000"
    "processes s = replicate 12 0" "current_process s = 0"
    "P u = demo_process\<lparr>proc_ptr := b, proc_stack := k, proc_task := u\<rparr>"
proof -
  obtain t P s where s: "os_step pl demo_boot s" "running [t] P s" "process_of s t = 0x5000" "kheap_spare s = 24568"
    "processes s = replicate 12 0" "current_process s = 0"
    using demo_launched by metis
  have "dom (tasks s) = {t}" using s(2) by (simp add: running_def isolated_def sched_ok_def)
  then have "0x6000 \<notin> process_of s ` dom (tasks s)" using s(3) by simp
  from launch_possible [OF s(2) this, of demo_process pl] s(4-6) obtain b k u P' s'
    where "os_step pl s s'" "running ([t] @ [u]) P' s'" "process_of s' u = 0x6000"
      "processes s' = replicate 12 0" "current_process s' = 0"
      "P' u = demo_process\<lparr>proc_ptr := b, proc_stack := k, proc_task := u\<rparr>" by auto
  then show thesis
    using that [OF os_reach.step [OF os_reach.step [OF os_reach.start s(1)], of s']] by simp
qed

lemma task_walk:
  assumes iso: "isolated ts P s" and t: "t \<in> set ts"
    and e: "entry s t (v - v mod 4096) = f OR 7" "4096 dvd unat f"
  shows "user_walk (mem s) (load32 (mem s) (directory_of s t)) v = Inr (f + v mod 4096)"
proof (rule user_walk_page [OF _ _ _ e(2)])
  have "confined s t (P t)" "chunk_ok (directory_of s t) (mem s)"
    using iso t by (simp_all add: isolated_def sched_ok_def spaces_ok_def)
  then show "low_dir_ok (load32 (mem s) (directory_of s t)) (mem s)"
    "\<forall>i<1024. load32 (mem s) (slot (load32 (mem s) (directory_of s t)) i) AND 7 = 7"
    by (simp_all add: chunk_ok_def confined_def user_dir_def)
qed (use e(1) in \<open>simp add: entry_def\<close>)

text \<open>The program runs: its page directory is loaded and it writes to its first page.\<close>

lemma demo_running:
  obtains t P s s' where "os_reach pl demo_boot s" "running [t] P s" "cr3 s = load32 (mem s) (directory_of s t)"
    "user_write 0x400010 9 s = Inr s'"
proof -
  obtain b k t P s where s: "os_step pl demo_boot s" "running [t] P s"
    "P t = demo_process\<lparr>proc_ptr := b, proc_stack := k, proc_task := t\<rparr>"
    "\<And>w. 4096 dvd unat w \<Longrightarrow> entry s t w = program_entry (P t) (w OR 5) w"
    using demo_launched by metis
  have iso: "isolated [t] P s" and ok: "sched_ok [t] s" using s(2) by (simp_all add: running_def isolated_def)
  then have cur: "current_task s = t" and dom: "dom (tasks s) = {t}" by (simp_all add: sched_ok_def task_list_def)
  then obtain x where x: "tasks s t = Some x" by blast
  let ?s = "s\<lparr>data_segment := USER_DATA_SEGMENT, cr3 := load32 (mem s) (task_page_directory x),
    current_directory := load32 (mem s) (task_page_directory x)\<rparr>"
  obtain s1 where s1: "task_page s = Inr s1" "cr3 s1 = load32 (mem s) (directory_of s t)" "mem s1 = mem s"
    "directory_of s1 t = directory_of s t"
    using x cur by (auto simp: task_page_def user_registers_def task_switch_def deref_def paging_switch_def directory_of_def Let_def)
  have r1: "running [t] P s1"
    using leave_isolated [OF iso s1(1)] same_harmless s(2) unfolding running_def by blast
  have l: "live s b = Some 1"
    using iso by (simp add: isolated_def confined_def s(3) blocks_for_def)
  have ba: "4096 dvd unat b" using live_page_aligned [OF _ l] ok by (simp add: sched_ok_def)
  have v: "(0x400010 :: u32) mod 4096 = 0x10" "(0x400010 :: u32) - 0x10 = 0x400000" by simp_all
  have "entry s t 0x400000 = b OR 7"
    using s(4) [of "0x400000"] by (simp add: s(3) program_entry_def blocks_for_def user_flags_eq c_defs)
  then have "user_walk (mem s) (load32 (mem s) (directory_of s t)) 0x400010 = Inr (b + 0x10)"
    using task_walk [OF iso _ _ ba, of t "0x400010"] by (simp add: v)
  then have "user_write 0x400010 9 s1 = Inr (s1\<lparr>mem := (mem s1)(b + 0x10 := 9)\<rparr>)"
    using s1 by (simp add: user_write_def)
  moreover have "os_reach pl demo_boot s1"
    by (rule os_reach.step [OF os_reach.step [OF os_reach.start s(1)] os_step.leave [OF s1(1)]])
  ultimately show thesis using that r1 s1(2,3,4) by simp
qed

section \<open>Claims\<close>

text \<open>
  C1: memory protection between programs, through the steps of \<open>os_step\<close>. After any sequence of these from boot on - flat
  binaries launched while the heap has room, the program of the last of several tasks ended, tasks scheduled and interrupted,
  \<open>malloc\<close> of a size that is not 0 and that a free run of the heap fits, \<open>free\<close> of any pointer, bytes written in
  user mode - the memory of two tasks is disjoint, and a byte that a task writes while its page directory is loaded
  goes to its own memory: to no other task's, to no page directory or page table, to no task
  structure and not to the table of the heap. The byte at \<open>0x5E00\<close>, which \<open>free(0)\<close> may clear, has its highest
  bit clear at boot. ELF programs are not among the steps, nor are \<open>malloc(0)\<close>, requests that do not fit, ending another task than the
  last and system call 8, for which the code does not guarantee this.
\<close>

theorem memory_isolation:
  assumes "os_reach pl (snd (kheap_init s0)) s"
    and "task_head s0 = 0" "task_tail s0 = 0" "current_task s0 = 0" "tasks s0 = Map.empty" and "mem s0 0x5E00 AND 0x80 = 0"
  shows "\<exists>ts P. task_list ts s \<and> dom (tasks s) = set ts \<and>
    (\<forall>t \<in> set ts. process_objects s (process_of s t) = Some (P t) \<and>
      (\<forall>u \<in> set ts. t \<noteq> u \<longrightarrow> memory_of (P t) \<inter> memory_of (P u) = {}) \<and>
      (\<forall>v b s'. cr3 s = load32 (mem s) (directory_of s t) \<longrightarrow> user_write v b s = Inr s' \<longrightarrow>
        (\<exists>a \<in> memory_of (P t). s' = s\<lparr>mem := (mem s)(a := b)\<rparr> \<and> \<not> kheap_table s a \<and>
          (\<forall>u \<in> set ts. outside (task_pages s u) a \<and> (u \<noteq> t \<longrightarrow> a \<notin> memory_of (P u))))))"
proof -
  obtain ts P where iso: "isolated ts P s"
    using reach_running [OF assms(1) booted_running [OF assms(2-6)]] by (auto simp: running_def)
  note D = isolated_disjoint [OF iso]
  have disj: "memory_of (P t) \<inter> memory_of (P u) = {}" if "t \<in> set ts" "u \<in> set ts" "t \<noteq> u" for t u
    using D(1) [OF that(1) _ that(2)] that(3) by blast
  have own: "\<exists>a \<in> memory_of (P t). s' = s\<lparr>mem := (mem s)(a := b)\<rparr> \<and> \<not> kheap_table s a \<and>
      (\<forall>u \<in> set ts. outside (task_pages s u) a \<and> (u \<noteq> t \<longrightarrow> a \<notin> memory_of (P u)))"
    if t: "t \<in> set ts" and r: "cr3 s = load32 (mem s) (directory_of s t)" and w: "user_write v b s = Inr s'" for t v b s'
  proof -
    obtain a where "s' = s\<lparr>mem := (mem s)(a := b)\<rparr>" "a \<in> memory_of (P t)"
      using user_write_memory [OF iso t r w] .
    then show ?thesis using D [OF t] by blast
  qed
  have "task_list ts s" "dom (tasks s) = set ts" "\<forall>t \<in> set ts. process_objects s (process_of s t) = Some (P t)"
    using iso by (auto simp: isolated_def sched_ok_def confined_def)
  then show ?thesis using disj own by (intro exI [of _ ts] exI [of _ P]) blast
qed

theorem memory_isolation_witness:
  "\<exists>s s' t p. \<exists>a \<in> memory_of p. os_reach demo_platform demo_boot s \<and> process_objects s (process_of s t) = Some p \<and>
     user_write 0x400010 9 s = Inr s' \<and> s' = s\<lparr>mem := (mem s)(a := 9)\<rparr> \<and> \<not> kheap_table s a"
proof -
  obtain t P s s' where s: "os_reach demo_platform demo_boot s" "running [t] P s" "cr3 s = load32 (mem s) (directory_of s t)"
    "user_write 0x400010 9 s = Inr s'" using demo_running by metis
  have dom: "t \<in> dom (tasks s)" using s(2) by (simp add: running_def isolated_def sched_ok_def)
  obtain us Q where Q: "dom (tasks s) = set us"
    "\<forall>t \<in> set us. process_objects s (process_of s t) = Some (Q t) \<and>
      (\<forall>u \<in> set us. t \<noteq> u \<longrightarrow> memory_of (Q t) \<inter> memory_of (Q u) = {}) \<and>
      (\<forall>v b s'. cr3 s = load32 (mem s) (directory_of s t) \<longrightarrow> user_write v b s = Inr s' \<longrightarrow>
        (\<exists>a \<in> memory_of (Q t). s' = s\<lparr>mem := (mem s)(a := b)\<rparr> \<and> \<not> kheap_table s a \<and>
          (\<forall>u \<in> set us. outside (task_pages s u) a \<and> (u \<noteq> t \<longrightarrow> a \<notin> memory_of (Q u)))))"
    using memory_isolation [OF s(1)] by (auto simp: demo_kernel_def)
  have t: "t \<in> set us" using dom Q(1) by simp
  then obtain a where "a \<in> memory_of (Q t)" "s' = s\<lparr>mem := (mem s)(a := 9)\<rparr>" "\<not> kheap_table s a"
    using Q(2) s(3,4) by blast
  moreover have "process_objects s (process_of s t) = Some (Q t)" using Q(2) t by blast
  ultimately show ?thesis using s(1,4) by blast
qed

text \<open>
  C11: \<open>process_map_memory\<close> for a flat binary. In user mode the program sees its image from
  \<open>0x400000\<close> on and its stack from \<open>0x3FB000\<close> to \<open>0x3FEFFF\<close>, byte by byte and writeable; the entry of
  every other page is what it was, and the heap is not touched.
\<close>

theorem process_map_memory_maps:
  assumes u: "user_ok process p c s" and "proc_filetype p = PROCESS_FILETYPE_BINARY"
    and l: "live s (proc_ptr p) = Some (blocks_for (proc_size p))" "live s (proc_stack p) = Some 4"
    and ud: "user_dir c (mem s)"
  shows "\<exists>m. process_map_memory process s = Inr (0, s\<lparr>mem := m\<rparr>) \<and> live (s\<lparr>mem := m\<rparr>) = live s \<and>
    (\<forall>v. unat (v - 0x400000) < 4096 * blocks_for (proc_size p) \<longrightarrow>
       user_walk m (load32 m c) v = Inr (proc_ptr p + (v - 0x400000))) \<and>
    (\<forall>v. unat (v - 0x3FB000) < 16384 \<longrightarrow> user_walk m (load32 m c) v = Inr (proc_stack p + (v - 0x3FB000))) \<and>
    (\<forall>w. 4096 dvd unat w \<longrightarrow> 4096 * blocks_for (proc_size p) \<le> unat (w - 0x400000) \<longrightarrow> 16384 \<le> unat (w - 0x3FB000) \<longrightarrow>
       paging_get m (load32 m c) w = paging_get (mem s) (load32 (mem s) c) w)"
proof -
  let ?n = "blocks_for (proc_size p)"
  have ok: "kheap_ok s" "kheap_low s" using u by (simp_all add: user_ok_def)
  obtain m where m: "process_map_memory process s = Inr (0, s\<lparr>mem := m\<rparr>)" "live (s\<lparr>mem := m\<rparr>) = live s"
    and u': "user_ok process p c (s\<lparr>mem := m\<rparr>)" and ud': "user_dir c m"
    and e: "\<forall>w. 4096 dvd unat w \<longrightarrow> paging_get m (load32 m c) w = program_entry p (paging_get (mem s) (load32 (mem s) c) w) w"
    using process_map_memory_contract [OF assms(1-4)] ud by blast
  have d: "low_dir_ok (load32 m c) m" using u' by (simp add: user_ok_def chunk_ok_def)
  have v0: "SLOBOS_PROGRAM_VIRTUAL_ADDRESS = 0x400000" "SLOBOS_PROGRAM_VIRTUAL_STACK_ADDRESS_END = 0x3FB000"
    by (simp_all add: c_defs)
  have W: "user_walk m (load32 m c) v = Inr (b + (v - a))"
    if en: "paging_get m (load32 m c) (v - v mod 4096) = (b + (v - v mod 4096 - a)) OR 7"
      and b: "4096 dvd unat b" and a: "4096 dvd unat a" for v a b
  proof -
    have "4096 dvd unat (b + (v - v mod 4096 - a))"
      using b by (rule aligned_plus) (rule aligned_minus [OF page_of_address(1) a])
    from user_walk_page [OF d _ en this] have "user_walk m (load32 m c) v = Inr (b + (v - v mod 4096 - a) + v mod 4096)"
      using ud' by (simp add: user_dir_def)
    then show ?thesis by simp
  qed
  have al: "4096 dvd unat (0x400000 :: u32)" "4096 dvd unat (0x3FB000 :: u32)" by simp_all
  have image: "user_walk m (load32 m c) v = Inr (proc_ptr p + (v - 0x400000))" if v: "unat (v - 0x400000) < 4096 * ?n" for v
  proof (rule W [OF _ live_page_aligned [OF ok(1) l(1)] al(1)])
    let ?w = "v - v mod 4096"
    have r: "unat (?w - 0x400000) < 4096 * ?n" using page_in_run(1) [OF al(1)] v by blast
    then have "unat (?w - 0x400000) < 0x10000000" using live_low_end [OF ok l(1)] by simp
    then have "unat ((?w - 0x400000) + 0x5000) = unat (?w - 0x400000) + 0x5000" by (subst unat_add_u32) simp_all
    then have "\<not> unat (?w - 0x3FB000) < 16384" by simp
    then show "paging_get m (load32 m c) ?w = (proc_ptr p + (?w - 0x400000)) OR 7"
      using e page_of_address(1) [of v] r by (simp add: program_entry_def v0 user_flags_eq)
  qed
  have stack: "user_walk m (load32 m c) v = Inr (proc_stack p + (v - 0x3FB000))" if v: "unat (v - 0x3FB000) < 16384" for v
  proof (rule W [OF _ live_page_aligned [OF ok(1) l(2)] al(2)])
    have "unat (v - v mod 4096 - 0x3FB000) < 4096 * 4" using page_in_run(1) [OF al(2), of v 4] v by simp
    then show "paging_get m (load32 m c) (v - v mod 4096) = (proc_stack p + (v - v mod 4096 - 0x3FB000)) OR 7"
      using e page_of_address(1) [of v] by (simp add: program_entry_def v0 user_flags_eq)
  qed
  show ?thesis
    using m image stack e by (intro exI [of _ m]) (simp add: program_entry_def v0 not_less)
qed

theorem process_map_memory_maps_witness:
  "\<exists>s :: kernel. \<exists>p d m. process_objects s 0x5000 = Some p \<and> process_map_memory 0x5000 s = Inr (0, s\<lparr>mem := m\<rparr>) \<and>
     user_walk m d 0x400004 = Inr (proc_ptr p + 4) \<and> user_walk m d 0x3FEFFC = Inr (proc_stack p + 0x3FFC)"
proof -
  obtain t P and s :: kernel where s: "running [t] P s" "process_of s t = 0x5000" "proc_size (P t) = 100"
    using demo_launched by (metis demo_process_simps(2) process.select_convs(8) process.surjective process.update_convs(3,6,7))
  have iso: "isolated [t] P s" using s(1) by (simp add: running_def)
  then have cf: "confined s t (P t)" by (simp add: isolated_def)
  have u: "user_ok 0x5000 (P t) (directory_of s t) s" using user_of_confined [OF iso, of t] s(2) by simp
  have c: "proc_filetype (P t) = PROCESS_FILETYPE_BINARY" "live s (proc_ptr (P t)) = Some (blocks_for (proc_size (P t)))"
    "live s (proc_stack (P t)) = Some 4" "user_dir (directory_of s t) (mem s)"
    "process_objects s 0x5000 = Some (P t)" using cf s(2) by (simp_all add: confined_def)
  have b: "blocks_for (proc_size (P t)) = 1" by (simp add: s(3) blocks_for_def)
  obtain m where m: "process_map_memory 0x5000 s = Inr (0, s\<lparr>mem := m\<rparr>)"
    "\<forall>v. unat (v - 0x400000) < 4096 * blocks_for (proc_size (P t)) \<longrightarrow>
       user_walk m (load32 m (directory_of s t)) v = Inr (proc_ptr (P t) + (v - 0x400000))"
    "\<forall>v. unat (v - 0x3FB000) < 16384 \<longrightarrow>
       user_walk m (load32 m (directory_of s t)) v = Inr (proc_stack (P t) + (v - 0x3FB000))"
    using process_map_memory_maps [OF u c(1-4)] by blast
  have "user_walk m (load32 m (directory_of s t)) 0x400004 = Inr (proc_ptr (P t) + 4)"
    "user_walk m (load32 m (directory_of s t)) 0x3FEFFC = Inr (proc_stack (P t) + 0x3FFC)"
    using m(2) [rule_format, of "0x400004"] m(3) [rule_format, of "0x3FEFFC"] b by simp_all
  then show ?thesis using m(1) c(5) by blast
qed

text \<open>
  C15: ending a flat binary, the program of the last of at least two tasks that all run flat binaries. When its slot is
  in the table of processes, another process can be switched to (\<open>can_finish\<close>) and the byte that \<open>free(0)\<close> may
  clear has its highest bit clear (\<open>null_harmless\<close>), \<open>process_terminate\<close> succeeds and gives back all the program
  had - its image, its stack, its allocations and the pages of its address space -, and nothing else; its slot in
  the table of processes is free; the memory of every other program keeps its contents, and the
  tasks that are left are still isolated.
\<close>

theorem process_terminate_returns_memory:
  assumes "isolated (ts @ [t]) P s" and "ts \<noteq> []" and "null_harmless s"
    and "can_finish s (P t)"
  shows "\<exists>s'. process_terminate pl (process_of s t) s = Inr (0, s') \<and> isolated ts P s' \<and>
    live s' = live s |` (- (bases (P t) \<union> task_pages s t)) \<and>
    processes s' = (processes s)[unat (proc_id (P t)) := 0] \<and>
    (\<forall>x \<in> set ts. \<forall>a \<in> memory_of (P x). mem s' a = mem s a)"
proof -
  have "proc_task (P t) = t" using assms(1) by (simp add: isolated_def confined_def)
  then show ?thesis
    using process_terminate_contract [OF assms(1,2), of pl] assms(3,4)
    by (auto simp: null_harmless_def can_finish_def)
qed

theorem process_terminate_returns_memory_witness:
  "\<exists>s s' t p P. os_reach demo_platform demo_boot s \<and> process_objects s 0x6000 = Some p \<and>
     process_terminate demo_platform 0x6000 s = Inr (0, s') \<and> live s (proc_ptr p) = Some 1 \<and>
     live s' (proc_ptr p) = None \<and> live s' (proc_stack p) = None \<and> isolated [t] P s'"
proof -
  obtain b k t u P s where s: "os_reach demo_platform demo_boot s" "running [t, u] P s" "process_of s u = 0x6000"
    "processes s = replicate 12 0" "current_process s = 0"
    "P u = demo_process\<lparr>proc_ptr := b, proc_stack := k, proc_task := u\<rparr>" using demo_launched_twice by metis
  have iso: "isolated ([t] @ [u]) P s" and h: "null_harmless s" using s(2) by (simp_all add: running_def)
  have cf: "confined s u (P u)" using iso by (simp add: isolated_def)
  have "can_finish s (P u)" using s(3-6) by (simp add: can_finish_def)
  from process_terminate_returns_memory [OF iso _ h this, of demo_platform] s(3) obtain s'
    where "process_terminate demo_platform 0x6000 s = Inr (0, s')" "isolated [t] P s'"
      "live s' = live s |` (- (bases (P u) \<union> task_pages s u))" by auto
  moreover have "process_objects s 0x6000 = Some (P u)" "live s (proc_ptr (P u)) = Some 1"
    using cf s(3,6) by (simp_all add: confined_def blocks_for_def)
  ultimately show ?thesis
    using s(1) by (intro exI [of _ s] exI [of _ s'] exI [of _ t] exI [of _ "P u"] exI [of _ P]) (simp add: bases_def)
qed

text \<open>
  C39: the system calls are not protected the same way. A program pushes the address of a page that
  it can only read - the kernel's own, say - and asks for its arguments: written by the program itself the
  byte is a page fault, written by \<open>isr80h_command8_get_program_arguments\<close> it is done, with the number of
  arguments at that address and their list four bytes on. Nothing checks the address.
\<close>

theorem get_program_arguments_unprotected:
  assumes iso: "isolated ts P s" and t: "tasks s (current_task s) = Some t"
    and item: "task_get_stack_item (current_task s) 0 s = Inr (a, s1)"
    and page: "entry s (current_task s) (a - a mod 4096) = (a - a mod 4096) OR 5"
  shows "user_write a b (s\<lparr>cr3 := load32 (mem s) (task_page_directory t)\<rparr>) = Inl (BadPointer a) \<and>
    (\<exists>s'. isr80h_command8_get_program_arguments s = Inr (0, s') \<and>
       load32 (mem s') a = word_of_int (proc_argc (P (current_task s))) \<and>
       load32 (mem s') (a + 4) = proc_argv (P (current_task s)))"
proof -
  let ?w = "a - a mod 4096" and ?d = "load32 (mem s) (task_page_directory t)" and ?p = "P (current_task s)"
  note C = current_isolated [OF iso t]
  have "chunk_ok (directory_of s (current_task s)) (mem s)"
    using iso C(1) by (simp add: isolated_def sched_ok_def spaces_ok_def)
  then have d: "low_dir_ok ?d (mem s)" by (simp add: C(4) chunk_ok_def)
  have e: "paging_get (mem s) ?d ?w = ?w OR 5" using page C(4) by (simp add: entry_def)
  have fr: "frame_of (?w OR 5) = ?w" using frame_flags [OF page_of_address(1), of 5] by simp
  have fault: "user_walk (mem s) ?d a = Inl (BadPointer a)"
  proof (cases "user_walk (mem s) ?d a")
    case (Inl x)
    then show ?thesis by (auto simp: user_walk_def Let_def split: if_splits)
  next
    case (Inr x)
    then have "writeable (?w OR 5)" using user_walk_entry(1) [OF d Inr] e by simp
    then show ?thesis using writeable_flags [OF page_of_address(1), of a 5] by (simp add: writeable_def c_defs)
  qed
  have s1: "mem s1 = mem s" "tasks s1 = tasks s" "current_task s1 = current_task s" "process_objects s1 = process_objects s"
    using item t by (auto simp: task_get_stack_item_def deref_def task_page_task_def user_registers_def paging_switch_def
      kernel_page_def kernel_registers_def andthen_eq_Inr Let_def)
  have "paging_get_physical_address (mem s) ?d a = a"
    using e fr by (simp add: paging_get_physical_address_def paging_align_to_lower_page_def frame_of_def Let_def c_defs)
  then have run: "isr80h_command8_get_program_arguments s = Inr (0, s1\<lparr>mem := process_get_arguments ?p a (a + 4) (mem s)\<rparr>)"
    using item t C(3) s1
    by (simp add: isr80h_command8_get_program_arguments_def deref_def task_virtual_address_to_physical_def)
  have "load32 (store32 m (a + 4) y) a = load32 m a" for m y
  proof -
    have "(-1 :: u32) = 0xFFFFFFFF" by simp
    then have "unat (-1 :: u32) = unat (0xFFFFFFFF :: u32)" by (simp only:)
    then have "4 \<le> unat (-1 :: u32)" by simp
    then show ?thesis by (intro load32_cong; intro store32_outside; simp)
  qed
  then show ?thesis
    using fault run by (simp add: user_write_def process_get_arguments_def)
qed

text \<open>A program just launched that is interrupted with its stack pointer at \<open>0x6FF0\<close>, where every byte is 7.\<close>

definition demo_frame :: interrupt_frame where
  "demo_frame = \<lparr>frame_edi = 0, frame_esi = 0, frame_ebp = 0, frame_reserved = 0, frame_ebx = 0, frame_edx = 0,
     frame_ecx = 0, frame_eax = 8, frame_ip = 0x400000, frame_cs = 0x1B, frame_flags = 0, frame_esp = 0x6FF0, frame_ss = 0x23\<rparr>"

definition demo_boot_system :: system where
  "demo_boot_system = kernel.extend demo_kernel (system.fields [] \<lparr>idtr_limit = 0, idtr_base = 0\<rparr> (replicate 512 None) (replicate 1024 None))"

lemma demo_call:
  obtains t P x and s s1 :: system where "isolated [t] P s" "tasks s (current_task s) = Some x"
    "task_get_stack_item (current_task s) 0 s = Inr (0x07070707, s1)"
    "entry s (current_task s) 0x07070000 = 0x07070000 OR 5"
proof -
  let ?boot = "snd (kheap_init demo_boot_system)"
  have boot: "running [] P ?boot" for P
    by (rule booted_running) (simp_all add: demo_boot_system_def kernel.defs system.defs demo_kernel_def)
  have "0x5000 \<notin> process_of ?boot ` dom (tasks ?boot)"
    by (simp add: kheap_init_eq demo_boot_system_def kernel.defs system.defs demo_kernel_def)
  from launch_possible [OF boot this, of demo_process demo_platform] obtain b k t P s where
    s: "running ([] @ [t]) P s" "P t = demo_process\<lparr>proc_ptr := b, proc_stack := k, proc_task := t\<rparr>" "spares ?boot s"
      "\<forall>w. 4096 dvd unat w \<longrightarrow> entry s t w = program_entry (P t) (w OR 5) w"
    by (auto simp: booted_spare)
  have iso: "isolated [t] P s" using s(1) by (simp add: running_def)
  then have cur: "current_task s = t" and dom: "dom (tasks s) = {t}" by (simp_all add: isolated_def sched_ok_def task_list_def)
  then obtain x where x: "tasks s t = Some x" by blast
  let ?x = "task_save_state x demo_frame" and ?s = "s\<lparr>tasks := (tasks s)(t \<mapsto> task_save_state x demo_frame)\<rparr>"
  have save: "task_current_save_state demo_frame s = Inr ?s"
    by (simp add: task_current_save_state_def deref_def cur x)
  have iso': "isolated [t] P ?s" by (rule save_isolated(1) [OF iso save])
  have d: "directory_of ?s t = task_page_directory x" by (simp add: directory_of_def task_save_state_def)
  have en: "entry ?s t w = program_entry (P t) (w OR 5) w" if "4096 dvd unat w" for w
    using s(4) that x d by (simp add: entry_def directory_of_def)
  have pe: "program_entry (P t) (w OR 5) w = w OR 5" if "4096 \<le> unat (w - 0x400000)" "16384 \<le> unat (w - 0x3FB000)" for w
    using that by (simp add: s(2) program_entry_def blocks_for_def c_defs)
  have seven: "mem ?s a = 7" if a: "0x6FF0 \<le> a" "a < 0x7000" for a
  proof -
    have f: "unat a < 0x7000" "0x6FF0 \<le> unat a" using a by (simp_all add: word_less_nat_alt word_le_nat_alt)
    then have n: "25600 \<le> unat (a - 0x7E00)" "104857600 \<le> unat (a - 0x02000000)" "a \<noteq> 0x5E00"
      by (auto simp: unat_sub_if_size word_size word_le_nat_alt)
    have "kernel_heap ?boot = booted_heap" by (rule booted_client(4))
    then have "foreign ?boot a" using n by (simp add: foreign_def in_table_def in_pool_def booted_heap_def)
    then have "mem s a = mem ?boot a" using s(3) n(3) by (auto simp: spares_def)
    also have "\<dots> = mem demo_boot_system a" by (rule booted_client(5) [OF n(1)])
    also have "\<dots> = 7" by (simp add: demo_boot_system_def kernel.defs system.defs demo_kernel_def)
    finally show ?thesis by simp
  qed
  have ud: "low_dir_ok (load32 (mem s) (task_page_directory x)) (mem s)"
    "\<forall>i<1024. load32 (mem s) (slot (load32 (mem s) (task_page_directory x)) i) AND 7 = 7"
    using iso' by (simp_all add: isolated_def sched_ok_def spaces_ok_def chunk_ok_def confined_def user_dir_def d)
  have walk: "page_walk (mem s) (load32 (mem s) (task_page_directory x)) v = Inr v"
    if v: "v - v mod 4096 = 0x6000" for v
  proof -
    have "paging_get (mem s) (load32 (mem s) (task_page_directory x)) (v - v mod 4096) = 0x6000 OR 5"
      using en [of "0x6000"] pe [of "0x6000"] by (simp add: v entry_def d)
    from page_walk_page [OF ud this] have "page_walk (mem s) (load32 (mem s) (task_page_directory x)) v = Inr (0x6000 + v mod 4096)"
      by simp
    then show ?thesis using v by (metis diff_add_cancel)
  qed
  have item: "task_get_stack_item t 0 ?s = Inr (0x07070707, kernel_page (paging_switch (task_page_directory x) (user_registers ?s)))"
    using walk [of "0x6FF0"] walk [of "0x6FF1"] walk [of "0x6FF2"] walk [of "0x6FF3"] seven
    by (simp add: task_get_stack_item_def task_page_task_def deref_def task_save_state_def demo_frame_def user_registers_def
      read_virtual32_def read_virtual_def paging_switch_def Let_def)
  have e: "entry ?s t 0x07070000 = 0x07070000 OR 5" using en [of "0x07070000"] pe [of "0x07070000"] by simp
  show thesis by (rule that [of t P ?s ?x]) (use iso' item e cur in simp_all)
qed

theorem get_program_arguments_unprotected_witness:
  "\<exists>(s :: system) s' d. user_write 0x07070707 9 (s\<lparr>cr3 := d\<rparr>) = Inl (BadPointer 0x07070707) \<and>
     isr80h_command8_get_program_arguments s = Inr (0, s')"
proof -
  obtain t P x and s s1 :: system where s: "isolated [t] P s" "tasks s (current_task s) = Some x"
    "task_get_stack_item (current_task s) 0 s = Inr (0x07070707, s1)"
    "entry s (current_task s) 0x07070000 = 0x07070000 OR 5" using demo_call by metis
  have "(0x07070707 :: u32) - 0x07070707 mod 4096 = 0x07070000" by simp
  then show ?thesis using get_program_arguments_unprotected [OF s(1-3), of 9] s(4) by auto
qed

end
