(* ===== verification/Process_Args.thy ===== *)
theory Process_Args
  imports Process_Life CString_Props
begin

text \<open>
  How a command line reaches a program: \<open>process_inject_arguments\<close> turns the list of arguments that
  the shell has built into the array \<open>argv\<close> in memory of the new process.
\<close>

unbundle bit_operations_syntax

section \<open>Allocations of at most a page\<close>

definition free_slots :: "process \<Rightarrow> nat" where
  "free_slots p = length (filter (\<lambda>a. alloc_ptr a = 0) (proc_allocations p))"

text \<open>
  What the kernel leaves alone when it allocates for a process and writes to the blocks in \<open>X\<close>:
  everything live stays live, with its pages' entries and, outside \<open>X\<close> and the page tables, its contents.
\<close>

definition preserves :: "u32 set \<Rightarrow> u32 \<Rightarrow> 'a kernel_scheme \<Rightarrow> 'a kernel_scheme \<Rightarrow> bool" where
  "preserves X c s s' \<longleftrightarrow> chunk_pages (mem s') c = chunk_pages (mem s) c \<and>
     user_dir c (mem s') = user_dir c (mem s) \<and>
     (\<forall>b l. live s b = Some l \<longrightarrow> live s' b = Some l \<and>
       (\<forall>w. 4096 dvd unat w \<longrightarrow> unat (w - b) < 4096 * l \<longrightarrow>
          paging_get (mem s') (load32 (mem s') c) w = paging_get (mem s) (load32 (mem s) c) w) \<and>
       (b \<notin> X \<longrightarrow> b \<notin> chunk_pages (mem s) c \<longrightarrow> (\<forall>a. unat (a - b) < 4096 * l \<longrightarrow> mem s' a = mem s a)))"

lemma preserves_mono: "preserves X c s t \<Longrightarrow> X \<subseteq> Y \<Longrightarrow> preserves Y c s t"
  unfolding preserves_def by (meson subsetD)

lemma preservesD:
  assumes "preserves X c s t" and "live s b = Some l"
  shows "live t b = Some l"
    and "4096 dvd unat w \<Longrightarrow> unat (w - b) < 4096 * l \<Longrightarrow>
      paging_get (mem t) (load32 (mem t) c) w = paging_get (mem s) (load32 (mem s) c) w"
    and "b \<notin> X \<Longrightarrow> b \<notin> chunk_pages (mem s) c \<Longrightarrow> unat (a - b) < 4096 * l \<Longrightarrow> mem t a = mem s a"
  using assms unfolding preserves_def by blast+

lemma preserves_pages:
  "preserves X c s t \<Longrightarrow> chunk_pages (mem t) c = chunk_pages (mem s) c"
  "preserves X c s t \<Longrightarrow> user_dir c (mem t) = user_dir c (mem s)"
  by (simp_all add: preserves_def)

lemma preserves_trans:
  assumes st: "preserves X c s t" and tu: "preserves X c t u"
  shows "preserves X c s u"
  unfolding preserves_def
proof (intro conjI allI impI)
  note P = preserves_pages [OF st] preserves_pages [OF tu]
  show "chunk_pages (mem u) c = chunk_pages (mem s) c" "user_dir c (mem u) = user_dir c (mem s)" using P by simp_all
  fix b l assume b: "live s b = Some l"
  note T = preservesD [OF st b] and U = preservesD [OF tu preservesD(1) [OF st b]]
  show "live u b = Some l" by (rule U(1))
  show "paging_get (mem u) (load32 (mem u) c) w = paging_get (mem s) (load32 (mem s) c) w"
    if "4096 dvd unat w" "unat (w - b) < 4096 * l" for w using T(2) U(2) that by simp
  show "mem u a = mem s a" if "b \<notin> X" "b \<notin> chunk_pages (mem s) c" "unat (a - b) < 4096 * l" for a
    using T(3) U(3) that P(1) by simp
qed

lemma free_slot:
  assumes "0 < free_slots p"
  obtains i where "process_find_free_allocation_index p = int i" "i < length (proc_allocations p)"
    "alloc_ptr (proc_allocations p ! i) = 0"
proof -
  have "0 \<in> alloc_ptr ` set (proc_allocations p)"
    using assms by (auto simp: free_slots_def filter_empty_conv image_iff)
  then obtain i where i: "allocation_index 0 0 (proc_allocations p) = Some i"
    using allocation_index_None [of 0 0 "proc_allocations p"] by auto
  then show thesis
    using allocation_index_Some [OF i] by (intro that [of i]) (simp_all add: process_find_free_allocation_index_def)
qed

lemma free_slots_put:
  assumes "i < length (proc_allocations p)" and "alloc_ptr (proc_allocations p ! i) = 0" and "q \<noteq> 0"
  shows "free_slots (p\<lparr>proc_allocations := (proc_allocations p)[i := \<lparr>alloc_ptr = q, alloc_size = sz\<rparr>]\<rparr>) + 1 = free_slots p"
  using assms
  by (simp add: free_slots_def upd_conv_take_nth_drop)
     (subst (2) id_take_nth_drop [OF assms(1)], simp)

lemma malloc_page:
  assumes u: "user_ok process p c s" and sz: "sz \<noteq> 0" "unat sz \<le> 4096" and sp: "0 < kheap_spare s" and fr: "0 < free_slots p"
  shows "\<exists>q s' as. process_malloc process sz s = Inr (q, s') \<and> q \<noteq> 0 \<and> live s q = None \<and> live s' q = Some 1 \<and>
    4096 dvd unat q \<and> q \<notin> chunk_pages (mem s') c \<and> user_ok process (p\<lparr>proc_allocations := as\<rparr>) c s' \<and>
    free_slots (p\<lparr>proc_allocations := as\<rparr>) + 1 = free_slots p \<and> kheap_spare s' + 1 = kheap_spare s \<and> preserves {} c s s' \<and>
    paging_get (mem s') (load32 (mem s') c) q = q OR 7"
proof -
  let ?as = "proc_allocations p"
  have b: "blocks_for sz = 1" using sz by (rule kzalloc.blocks_for_page)
  have ok: "kheap_ok s" and own: "\<forall>q \<in> chunk_pages (mem s) c. live s q = Some 1" using u by (simp_all add: user_ok_def)
  have room: "kheap_room s (blocks_for sz)" using kheap_spare_room [OF ok sp] b by simp
  have sz': "unat sz \<le> 4294963200" using sz(2) by simp
  obtain i where i: "process_find_free_allocation_index p = int i" "i < length ?as" "alloc_ptr (?as ! i) = 0"
    using free_slot [OF fr] .
  obtain q s' where m: "process_malloc process sz s = Inr (q, s')" "q \<noteq> 0" "live s q = None" "live s' = (live s)(q \<mapsto> 1)"
    and u': "user_ok process (p\<lparr>proc_allocations := ?as[i := \<lparr>alloc_ptr = q, alloc_size = sz\<rparr>]\<rparr>) c s'"
    and sm: "self_mapped c q 1 user_flags (mem s) (mem s')" and sp': "kheap_spare s' + 1 = kheap_spare s"
    and pg: "chunk_pages (mem s') c = chunk_pages (mem s) c" and ud: "user_dir c (mem s') = user_dir c (mem s)"
    and fm: "\<forall>a. \<not> kheap_table s a \<longrightarrow> outside (chunk_pages (mem s) c) a \<longrightarrow> 4096 \<le> unat (a - q) \<longrightarrow> mem s' a = mem s a"
    using process_malloc_contract [OF u sz(1) sz' room i(1)] unfolding b by auto
  have ok': "kheap_ok s'" using u' by (simp add: user_ok_def)
  have lq: "live s' q = Some 1" using m(4) by simp
  have far: "4096 \<le> unat (a - q)" if "live s d = Some l" "unat (a - d) < 4096 * l" for d l a
  proof -
    have "live s' d = Some l" "q \<noteq> d" using that(1) m(3,4) by auto
    then show ?thesis using live_outside [OF ok' lq, of d l a] that(2) by simp
  qed
  have "preserves {} c s s'"
    unfolding preserves_def
  proof (intro conjI allI impI)
    fix d l assume d: "live s d = Some l"
    show "live s' d = Some l" using d m(3,4) by auto
    show "mem s' a = mem s a" if "d \<notin> chunk_pages (mem s) c" "unat (a - d) < 4096 * l" for a
      using fm far [OF d that(2)] live_far [OF ok d that(2) own that(1)] by blast
    show "paging_get (mem s') (load32 (mem s') c) w = paging_get (mem s) (load32 (mem s) c) w"
      if "4096 dvd unat w" "unat (w - d) < 4096 * l" for w
      using sm far [OF d that(2)] that(1) unfolding self_mapped_def by auto
  qed (use pg ud in auto)
  moreover have "paging_get (mem s') (load32 (mem s') c) q = q OR 7"
    using sm unfolding self_mapped_def by (simp add: user_flags_eq)
  moreover have "q \<notin> chunk_pages (mem s') c" using own m(3) pg by auto
  ultimately show ?thesis
    using m(1-3) lq u' sp' free_slots_put [OF i(2,3) m(2)] live_page_aligned [OF ok' lq] by blast
qed

lemma preserves_write:
  assumes u: "user_ok process p c s" and b: "live s b = Some n" "b \<notin> chunk_pages (mem s) c"
    and m: "\<forall>a. 4096 * n \<le> unat (a - b) \<longrightarrow> m a = mem s a"
  shows "preserves {b} c s (s\<lparr>mem := m\<rparr>)"
proof -
  note W = user_ok_write [OF u b m]
  show ?thesis unfolding preserves_def using W(2,4-7) by simp
qed

section \<open>The list of arguments\<close>

text \<open>\<open>n\<close> bytes at \<open>q\<close> lie in one live block that is no page table.\<close>

definition holds :: "'a kernel_scheme \<Rightarrow> u32 \<Rightarrow> u32 set \<Rightarrow> u32 \<Rightarrow> nat \<Rightarrow> bool" where
  "holds s c X q n \<longleftrightarrow>
     (\<exists>b l. live s b = Some l \<and> b \<notin> chunk_pages (mem s) c \<and> b \<notin> X \<and> unat (q - b) + n \<le> 4096 * l)"

lemma holds_bytes:
  assumes "holds s c X q n" and "preserves X c s t" and ok: "kheap_ok s" and j: "j < n"
  shows "mem t (q + of_nat j) = mem s (q + of_nat j)"
proof -
  obtain b l where b: "live s b = Some l" "b \<notin> chunk_pages (mem s) c" "b \<notin> X" "unat (q - b) + n \<le> 4096 * l"
    using assms(1) by (auto simp: holds_def)
  have l: "4096 * l \<le> 4294967296" using kzalloc.owned_bound [OF ok b(1)] by simp
  have "unat (of_nat j :: u32) = j" using j b(4) l by (intro unat_of_nat_u32) simp
  then have "unat ((q - b) + of_nat j) = unat (q - b) + j" using j b(4) l by (subst unat_add_u32) simp_all
  moreover have "q + of_nat j - b = (q - b) + of_nat j" by simp
  ultimately have "unat (q + of_nat j - b) < 4096 * l" using j b(4) by (simp only:)
  then show ?thesis using preservesD(3) [OF assms(2) b(1,3,2)] by blast
qed

lemma holds_keeps: "holds s c X q n \<Longrightarrow> preserves Y c s t \<Longrightarrow> holds t c X q n"
  unfolding holds_def using preservesD(1) preserves_pages(1) by metis

definition list_held :: "'a kernel_scheme \<Rightarrow> u32 \<Rightarrow> u32 set \<Rightarrow> (u32 \<times> u8 list) list \<Rightarrow> bool" where
  "list_held s c X ns \<longleftrightarrow> (\<forall>(q, w) \<in> set ns. holds s c X q 516)"

lemma list_keeps:
  assumes "list_held s c X ns" and "arg_list (mem s) r ns" and "preserves X c s t" and "kheap_ok s"
  shows "list_held t c X ns" and "arg_list (mem t) r ns"
proof -
  show "list_held t c X ns" using assms(1) holds_keeps [OF _ assms(3)] by (fastforce simp: list_held_def)
  have "\<forall>(q, w) \<in> set ns. \<forall>j < 516. mem t (q + of_nat j) = mem s (q + of_nat j)"
    using assms(1) holds_bytes [OF _ assms(3,4)] by (fastforce simp: list_held_def)
  from arg_list_cong [OF this] show "arg_list (mem t) r ns" using assms(2) by simp
qed

lemma count_arguments_list: "arg_list m p ns \<Longrightarrow> count_arguments m p i = Some (i + length ns)"
proof (induction ns arbitrary: p i)
  case Nil
  then show ?case by (subst count_arguments.simps) simp
next
  case (Cons n ns)
  then show ?case by (subst count_arguments.simps) (cases n, auto simp: argument_next_def)
qed

text \<open>Copying a string into a page of its own.\<close>

lemma strncpy_page:
  assumes w: "cstr m r w" "length w < 512" and d: "4096 dvd unat d"
    and apart: "\<forall>j < 516. 4096 \<le> unat (r + of_nat j - d)"
  shows "strncpy m d r 512 = store_bytes m d (w @ [0])" and "cstr (strncpy m d r 512) d w"
    and "4096 \<le> unat (a - d) \<Longrightarrow> strncpy m d r 512 a = m a"
proof -
  have off: "unat (of_nat k :: u32) = k" if "k < 512" for k :: nat using that by (intro unat_of_nat_u32) simp
  have "d + of_nat i \<noteq> r + of_nat j" if "i < j" "j \<le> length w" for i j :: nat
  proof
    assume "d + of_nat i = r + of_nat j"
    then have "r + of_nat j - d = of_nat i" by (metis add_diff_cancel_left')
    then have "unat (r + of_nat j - d) = i" using off [of i] that w(2) by simp
    moreover have "4096 \<le> unat (r + of_nat j - d)" using apart that w(2) by simp
    ultimately show False using that w(2) by simp
  qed
  then show e: "strncpy m d r 512 = store_bytes m d (w @ [0])"
    using strncpy_cstr [OF w(1), of 512 d] w(2) by simp
  show "cstr (strncpy m d r 512) d w"
    unfolding e using cstr_nonzero [OF w(1)] w(2) by (intro cstr_store_bytes) simp_all
  show "strncpy m d r 512 a = m a" if "4096 \<le> unat (a - d)"
    unfolding e using that w(2) by (intro store_bytes_outside) simp
qed

section \<open>Building argv\<close>

text \<open>An entry of \<open>argv\<close>: the address of a string in a page the program may write.\<close>

definition argument_ok :: "'a kernel_scheme \<Rightarrow> u32 \<Rightarrow> u32 \<Rightarrow> u8 list \<Rightarrow> bool" where
  "argument_ok s c q w \<longleftrightarrow> cstr (mem s) q w \<and> 4096 dvd unat q \<and> live s q = Some 1 \<and>
     q \<notin> chunk_pages (mem s) c \<and> paging_get (mem s) (load32 (mem s) c) q = q OR 7"

lemma argument_keeps:
  assumes a: "argument_ok s c q w" and k: "preserves X c s t" and q: "q \<notin> X" and w: "length w < 512"
  shows "argument_ok t c q w"
proof -
  have l: "live s q = Some 1" and c: "q \<notin> chunk_pages (mem s) c" and al: "4096 dvd unat q" using a by (simp_all add: argument_ok_def)
  have off: "unat (of_nat i :: u32) = i" if "i < 512" for i :: nat using that by (intro unat_of_nat_u32) simp
  have "cstr (mem t) q w = cstr (mem s) q w"
    using preservesD(3) [OF k l q c] off w by (intro cstr_cong) simp
  then show ?thesis
    using a preservesD(1,2) [OF k l] preserves_pages(1) [OF k] al by (simp add: argument_ok_def)
qed

lemma argv_slot:
  assumes "4096 dvd unat argv" and "i < 1024"
  shows "argv + 4 * of_nat i = slot argv i"
  by (simp add: slot_def)

lemma preserves_fresh:
  assumes T: "preserves (insert q X) c s t" and q: "live s q = None"
  shows "preserves X c s t"
  unfolding preserves_def
proof (intro conjI allI impI)
  show "chunk_pages (mem t) c = chunk_pages (mem s) c" "user_dir c (mem t) = user_dir c (mem s)"
    using preserves_pages [OF T] by simp_all
  fix b l assume b: "live s b = Some l"
  show "live t b = Some l" by (rule preservesD(1) [OF T b])
  show "paging_get (mem t) (load32 (mem t) c) w = paging_get (mem s) (load32 (mem s) c) w"
    if "4096 dvd unat w" "unat (w - b) < 4096 * l" for w using preservesD(2) [OF T b that] .
  have "b \<noteq> q" using b q by auto
  then show "mem t a = mem s a" if "b \<notin> X" "b \<notin> chunk_pages (mem s) c" "unat (a - b) < 4096 * l" for a
    using preservesD(3) [OF T b _ that(2,3)] that(1) by simp
qed

text \<open>A new page is apart from everything that was held before.\<close>

lemma holds_apart:
  assumes h: "holds s c X r n" and ok: "kheap_ok s" "kheap_ok t" and st: "preserves Y c s t"
    and q: "live s q = None" "live t q = Some 1"
  shows "\<forall>j < n. 4096 \<le> unat (r + of_nat j - q)"
proof (intro allI impI)
  fix j :: nat assume j: "j < n"
  obtain b l where b: "live s b = Some l" "unat (r - b) + n \<le> 4096 * l" using h by (auto simp: holds_def)
  have lb: "live t b = Some l" "q \<noteq> b" using preservesD(1) [OF st b(1)] b(1) q(1) by auto
  have l: "4096 * l \<le> 4294967296" using kzalloc.owned_bound [OF ok(1) b(1)] by simp
  have "unat (of_nat j :: u32) = j" using j b(2) l by (intro unat_of_nat_u32) simp
  then have "unat ((r - b) + of_nat j) = unat (r - b) + j" using j b(2) l by (subst unat_add_u32) simp_all
  moreover have "r + of_nat j - b = (r - b) + of_nat j" by simp
  ultimately have "unat (r + of_nat j - b) < 4096 * l" using j b(2) by (simp only:)
  then show "4096 \<le> unat (r + of_nat j - q)" using live_outside [OF ok(2) q(2) lb(1) lb(2)] by simp
qed

text \<open>The link of a node, as long as its block keeps its contents.\<close>

lemma holds_next:
  assumes "holds s c X r 516" and "preserves X c s t" and "kheap_ok s"
  shows "argument_next (mem t) r = argument_next (mem s) r"
  using holds_bytes [OF assms, of 512] holds_bytes [OF assms, of 513] holds_bytes [OF assms, of 514] holds_bytes [OF assms, of 515]
  unfolding argument_next_def by (intro load32_cong) (simp_all add: add.assoc)

text \<open>One turn of the loop: a page for the copy, the copy, and its address in \<open>argv\<close>.\<close>

lemma inject_step:
  assumes u: "user_ok process p c s" and w: "cstr (mem s) r w" "length w < 512" and held: "holds s c {argv} r 516"
    and argv: "live s argv = Some 1" "argv \<notin> chunk_pages (mem s) c" "4096 dvd unat argv" and i: "i < 1024"
    and pos: "0 < kheap_spare s" "0 < free_slots p"
  shows "\<exists>q s1 as s3. process_malloc process 512 s = Inr (q, s1) \<and> q \<noteq> 0 \<and> q \<noteq> argv \<and>
    s3 = s1\<lparr>mem := store32 (strncpy (mem s1) q r 512) (slot argv i) q\<rparr> \<and>
    user_ok process (p\<lparr>proc_allocations := as\<rparr>) c s3 \<and> free_slots (p\<lparr>proc_allocations := as\<rparr>) + 1 = free_slots p \<and>
    kheap_spare s3 + 1 = kheap_spare s \<and> preserves {argv} c s s3 \<and> argument_ok s3 c q w \<and>
    load32 (mem s3) (slot argv i) = q \<and> (\<forall>j < i. load32 (mem s3) (slot argv j) = load32 (mem s) (slot argv j))"
proof -
  have ok: "kheap_ok s" using u by (simp add: user_ok_def)
  obtain q s1 as where m: "process_malloc process 512 s = Inr (q, s1)" "q \<noteq> 0" "live s q = None" "live s1 q = Some 1"
      "4096 dvd unat q" "q \<notin> chunk_pages (mem s1) c"
    and u1: "user_ok process (p\<lparr>proc_allocations := as\<rparr>) c s1"
    and fs: "free_slots (p\<lparr>proc_allocations := as\<rparr>) + 1 = free_slots p" "kheap_spare s1 + 1 = kheap_spare s"
    and k1: "preserves {} c s s1" and eq: "paging_get (mem s1) (load32 (mem s1) c) q = q OR 7"
    using malloc_page [OF u _ _ pos, of 512] by auto
  have ok1: "kheap_ok s1" using u1 by (simp add: user_ok_def)
  have ka: "preserves {argv} c s s1" using preserves_mono [OF k1] by simp
  have qa: "q \<noteq> argv" using m(3) argv(1) by auto
  have cw: "cstr (mem s1) r w" using w holds_bytes [OF held ka ok] by (subst cstr_cong) auto
  note S = strncpy_page [OF cw w(2) m(5) holds_apart [OF held ok ok1 k1 m(3,4)]]
  let ?m2 = "strncpy (mem s1) q r 512" let ?s2 = "s1\<lparr>mem := ?m2\<rparr>"
  have f2: "\<forall>a. 4096 * 1 \<le> unat (a - q) \<longrightarrow> ?m2 a = mem s1 a" using S(3) by simp
  note W2 = user_ok_write [OF u1 m(4,6) f2] and K2 = preserves_write [OF u1 m(4,6) f2]
  have la: "live ?s2 argv = Some 1" "argv \<notin> chunk_pages (mem ?s2) c"
    using preservesD(1) [OF k1 argv(1)] W2(2,4) preserves_pages(1) [OF k1] argv(2) by simp_all
  let ?m3 = "store32 ?m2 (slot argv i) q" let ?s3 = "?s2\<lparr>mem := ?m3\<rparr>"
  have f3: "\<forall>a. 4096 * 1 \<le> unat (a - argv) \<longrightarrow> ?m3 a = mem ?s2 a" using store32_slot_outside [OF i] by simp
  note W3 = user_ok_write [OF W2(1) la f3] and K3 = preserves_write [OF W2(1) la f3]
  have "preserves {argv, q} c s1 ?s3" by (rule preserves_trans [OF preserves_mono [OF K2] preserves_mono [OF K3]]) auto
  then have "preserves {q, argv} c s ?s3"
    using preserves_trans [OF preserves_mono [OF k1, of "{argv, q}"]] by (simp add: insert_commute)
  then have k: "preserves {argv} c s ?s3" using m(3) by (rule preserves_fresh)
  have q2: "argument_ok ?s2 c q w"
    using S(2) m(4-6) W2(2,4) W2(6) [OF m(5)] eq by (simp add: argument_ok_def)
  have q3: "argument_ok ?s3 c q w" using argument_keeps [OF q2 K3 _ w(2)] qa by simp
  have old: "load32 (mem ?s3) (slot argv j) = load32 (mem s) (slot argv j)" if "j < i" for j
  proof -
    have "load32 (mem ?s3) (slot argv j) = load32 ?m2 (slot argv j)"
      using load32_store32_slot [OF argv(3,3) i, of j] that i by simp
    also have "\<dots> = load32 (mem s1) (slot argv j)"
      using preservesD(3) [OF K2 preservesD(1) [OF k1 argv(1)]] qa preserves_pages(1) [OF k1] argv(2) that i
      by (intro load32_slot_cong [OF _ argv(3)]) auto
    also have "\<dots> = load32 (mem s) (slot argv j)"
      using preservesD(3) [OF k1 argv(1)] argv(2) that i by (intro load32_slot_cong [OF _ argv(3)]) auto
    finally show ?thesis .
  qed
  have "load32 (mem ?s3) (slot argv i) = q" by simp
  moreover have "kheap_spare ?s3 + 1 = kheap_spare s" using W2(3) W3(3) fs(2) by simp
  moreover have "?s3 = s1\<lparr>mem := ?m3\<rparr>" by simp
  ultimately show ?thesis
    using m(1,2) qa W3(1) fs(1) k q3 old
    by (intro exI [of _ q] exI [of _ s1] exI [of _ as] exI [of _ ?s3] conjI allI impI) (assumption | simp only:)+
qed

lemma inject_loop_contract:
  assumes "user_ok process p c s" and "arg_list (mem s) current ns" and "list_held s c {argv} ns"
    and "live s argv = Some 1" and "argv \<notin> chunk_pages (mem s) c" and "4096 dvd unat argv"
    and "i + length ns \<le> 1024" and "length ns \<le> free_slots p" and "length ns \<le> kheap_spare s"
  shows "\<exists>s' as. inject_loop process argv current i s = Some (Inr (0, s')) \<and>
    user_ok process (p\<lparr>proc_allocations := as\<rparr>) c s' \<and> preserves {argv} c s s' \<and>
    (\<forall>j < i. load32 (mem s') (slot argv j) = load32 (mem s) (slot argv j)) \<and>
    (\<forall>k < length ns. load32 (mem s') (slot argv (i + k)) \<noteq> argv \<and>
      argument_ok s' c (load32 (mem s') (slot argv (i + k))) (snd (ns ! k)))"
  using assms
proof (induction ns arbitrary: current i p s)
  case Nil
  have e: "p = p\<lparr>proc_allocations := proc_allocations p\<rparr>" by simp
  have "inject_loop process argv current i s = Some (Inr (0, s))"
    using Nil.prems(2) by (subst inject_loop.simps) simp
  moreover have "preserves {argv} c s s" by (simp add: preserves_def)
  ultimately show ?case using Nil.prems(1) e by (intro exI [of _ s] exI [of _ "proc_allocations p"]) simp
next
  case (Cons n ns)
  obtain r w where n: "n = (r, w)" by (cases n)
  have cur: "current = r" "r \<noteq> 0" "cstr (mem s) r w" "length w < 512" "arg_list (mem s) (argument_next (mem s) r) ns"
    and held: "holds s c {argv} r 516" "list_held s c {argv} ns"
    using Cons.prems(2,3) by (simp_all add: n list_held_def argument_next_def)
  have ok: "kheap_ok s" using Cons.prems(1) by (simp add: user_ok_def)
  have pos: "i < 1024" "0 < kheap_spare s" "0 < free_slots p" using Cons.prems(7-9) by simp_all
  obtain q s1 as s3 where m: "process_malloc process 512 s = Inr (q, s1)" "q \<noteq> 0" "q \<noteq> argv"
      "s3 = s1\<lparr>mem := store32 (strncpy (mem s1) q r 512) (slot argv i) q\<rparr>"
    and u3: "user_ok process (p\<lparr>proc_allocations := as\<rparr>) c s3"
    and fs: "free_slots (p\<lparr>proc_allocations := as\<rparr>) + 1 = free_slots p" "kheap_spare s3 + 1 = kheap_spare s"
    and k: "preserves {argv} c s s3" and q3: "argument_ok s3 c q w" "load32 (mem s3) (slot argv i) = q"
    and old: "\<forall>j < i. load32 (mem s3) (slot argv j) = load32 (mem s) (slot argv j)"
    using inject_step [OF Cons.prems(1) cur(3,4) held(1) Cons.prems(4-6) pos] by blast
  note L3 = list_keeps [OF held(2) cur(5) k ok]
  have av: "live s3 argv = Some 1" "argv \<notin> chunk_pages (mem s3) c"
    using preservesD(1) [OF k Cons.prems(4)] preserves_pages(1) [OF k] Cons.prems(5) by simp_all
  have len: "Suc i + length ns \<le> 1024" "length ns \<le> free_slots (p\<lparr>proc_allocations := as\<rparr>)" "length ns \<le> kheap_spare s3"
    using Cons.prems(7-9) fs by simp_all
  obtain s' as' where R: "inject_loop process argv (argument_next (mem s) r) (Suc i) s3 = Some (Inr (0, s'))"
    "user_ok process (p\<lparr>proc_allocations := as, proc_allocations := as'\<rparr>) c s'" "preserves {argv} c s3 s'"
    "\<forall>j < Suc i. load32 (mem s') (slot argv j) = load32 (mem s3) (slot argv j)"
    "\<forall>k < length ns. load32 (mem s') (slot argv (Suc i + k)) \<noteq> argv \<and>
      argument_ok s' c (load32 (mem s') (slot argv (Suc i + k))) (snd (ns ! k))"
    using Cons.IH [OF u3 L3(2,1) av Cons.prems(6) len] by blast
  have run: "inject_loop process argv current i s = Some (Inr (0, s'))"
    using m R(1) holds_next [OF held(1) k ok] cur(1,2)
    by (subst inject_loop.simps) (simp add: argv_slot [OF Cons.prems(6) pos(1)])
  have first: "load32 (mem s') (slot argv i) = q" using R(4) q3(2) by simp
  have "argument_ok s' c q w" using argument_keeps [OF q3(1) R(3) _ cur(4)] m(3) by simp
  then have "load32 (mem s') (slot argv (i + k)) \<noteq> argv \<and>
      argument_ok s' c (load32 (mem s') (slot argv (i + k))) (snd ((n # ns) ! k))" if "k < length (n # ns)" for k
    using R(5) that m(3) by (cases k) (simp_all add: first n)
  moreover have "preserves {argv} c s s'" by (rule preserves_trans [OF k R(3)])
  moreover have "\<forall>j < i. load32 (mem s') (slot argv j) = load32 (mem s) (slot argv j)" using R(4) old by simp
  ultimately show ?case using run R(2) by (intro exI [of _ s'] exI [of _ as']) simp
qed

lemma holds_fresh: "holds s c {} q n \<Longrightarrow> live s x = None \<Longrightarrow> holds s c {x} q n"
  unfolding holds_def by fastforce

lemma free_slots_bound: "user_ok process p c s \<Longrightarrow> free_slots p \<le> 1024"
  using length_filter_le [of "\<lambda>a. alloc_ptr a = 0" "proc_allocations p"]
  by (simp add: user_ok_def allocations_ok_def free_slots_def c_defs)

lemma inject_arguments_contract:
  assumes u: "user_ok process p c s" and list: "arg_list (mem s) root ns" "ns \<noteq> []" and held: "list_held s c {} ns"
    and room: "length ns < free_slots p" "length ns < kheap_spare s"
  shows "\<exists>s' p'. process_inject_arguments process root s = Inr (0, s') \<and> user_ok process p' c s' \<and>
    proc_argc p' = int (length ns) \<and> preserves {} c s s' \<and> live s (proc_argv p') = None \<and> live s' (proc_argv p') = Some 1 \<and>
    paging_get (mem s') (load32 (mem s') c) (proc_argv p') = proc_argv p' OR 7 \<and>
    (\<forall>k < length ns. argument_ok s' c (load32 (mem s') (proc_argv p' + 4 * of_nat k)) (snd (ns ! k)))"
proof -
  let ?n = "length ns"
  have ok: "kheap_ok s" using u by (simp add: user_ok_def)
  have n: "?n \<le> 1024" "0 < ?n" using room(1) free_slots_bound [OF u] list(2) by simp_all
  have sz: "unat (4 * of_nat ?n :: u32) = 4 * ?n"
    using n(1) unat_of_nat_u32 [of "4 * ?n"] by simp
  then have z: "(4 * of_nat ?n :: u32) \<noteq> 0" "unat (4 * of_nat ?n :: u32) \<le> 4096" using n by auto
  have pos: "0 < kheap_spare s" "0 < free_slots p" using room by simp_all
  obtain argv s1 as where m: "process_malloc process (4 * of_nat ?n) s = Inr (argv, s1)" "argv \<noteq> 0" "live s argv = None"
      "live s1 argv = Some 1" "4096 dvd unat argv" "argv \<notin> chunk_pages (mem s1) c"
    and u1: "user_ok process (p\<lparr>proc_allocations := as\<rparr>) c s1"
    and fs: "free_slots (p\<lparr>proc_allocations := as\<rparr>) + 1 = free_slots p" "kheap_spare s1 + 1 = kheap_spare s"
    and k1: "preserves {} c s s1" and e1: "paging_get (mem s1) (load32 (mem s1) c) argv = argv OR 7"
    using malloc_page [OF u z pos] by auto
  have held': "list_held s c {argv} ns"
    using held holds_fresh [OF _ m(3)] by (fastforce simp: list_held_def)
  note L = list_keeps [OF held' list(1) preserves_mono [OF k1] ok, simplified]
  have len: "0 + ?n \<le> 1024" "?n \<le> free_slots (p\<lparr>proc_allocations := as\<rparr>)" "?n \<le> kheap_spare s1"
    using n room fs by simp_all
  obtain s2 as2 where R: "inject_loop process argv root 0 s1 = Some (Inr (0, s2))"
    "user_ok process (p\<lparr>proc_allocations := as, proc_allocations := as2\<rparr>) c s2" "preserves {argv} c s1 s2"
    "\<forall>k < ?n. argument_ok s2 c (load32 (mem s2) (slot argv k)) (snd (ns ! k))"
    using inject_loop_contract [OF u1 L(2,1) m(4,6,5) len] by auto
  let ?p = "p\<lparr>proc_allocations := as2, proc_argc := int ?n, proc_argv := argv\<rparr>" and ?s = "\<lambda>p. put_process process p s2"
  have p2: "process_objects s2 process = Some (p\<lparr>proc_allocations := as2\<rparr>)" using R(2) by (simp add: user_ok_def)
  have run: "process_inject_arguments process root s = Inr (0, ?s ?p)"
    using m(1,2) R(1) p2 n(2) count_arguments_list [OF list(1), of 0]
    by (simp add: process_inject_arguments_def process_count_command_arguments_def hang_or_def deref_def)
  have lv: "live (?s ?p) = live s2" by (rule same_heap) (simp_all add: put_process_def)
  have ms: "mem (?s ?p) = mem s2" by (simp add: put_process_def)
  have "process_chunk ?p (?s ?p) = process_chunk (p\<lparr>proc_allocations := as2\<rparr>) s2"
    by (simp add: process_chunk_def deref_def put_process_def)
  moreover have "kheap_ok (?s ?p)" "kheap_low (?s ?p)"
    using R(2) by (simp_all add: user_ok_def kheap_low_def put_process_def)
  ultimately have "user_ok process ?p c (?s ?p)"
    using R(2) by (simp add: user_ok_def lv ms) (simp add: put_process_def)
  moreover have "argument_ok (?s ?p) c q w = argument_ok s2 c q w" for q w by (simp add: argument_ok_def lv ms)
  moreover have "live s2 argv = Some 1" "paging_get (mem s2) (load32 (mem s2) c) argv = argv OR 7"
    using preservesD(1) [OF R(3) m(4)] preservesD(2) [OF R(3) m(4,5)] e1 by simp_all
  moreover have "preserves {} c s (?s ?p)"
  proof -
    have k: "preserves {argv} c s s2" by (rule preserves_trans [OF preserves_mono [OF k1] R(3)]) simp
    have "b \<noteq> argv" if "live s b = Some l" for b l using that m(3) by auto
    then show ?thesis using k unfolding preserves_def lv ms by blast
  qed
  ultimately show ?thesis
    using run R(4) m(3) n(1) by (intro exI [of _ "?s ?p"] exI [of _ ?p]) (simp add: lv ms slot_def)
qed

text \<open>
  C13: the arguments of a program. Given a list of strings in allocated memory, \<open>process_inject_arguments\<close>
  leaves the process with \<open>argc\<close> their number and \<open>argv\<close> the address of an array of its own; the \<open>k\<close>th
  element is the address of a copy of the \<open>k\<close>th string, and the array and every copy are in pages the
  program may read and write. The process stays in good order; everything that was allocated
  before, the list among it, stays allocated, mapped as it was and unchanged.
\<close>

theorem process_inject_arguments_builds_argv:
  assumes u: "user_ok process p c s" and list: "arg_list (mem s) root ns" "ns \<noteq> []" and held: "list_held s c {} ns"
    and room: "length ns < free_slots p" "length ns < kheap_spare s"
  shows "\<exists>s' p'. process_inject_arguments process root s = Inr (0, s') \<and> user_ok process p' c s' \<and>
    proc_argc p' = int (length ns) \<and> preserves {} c s s' \<and> live s (proc_argv p') = None \<and> live s' (proc_argv p') = Some 1 \<and>
    paging_get (mem s') (load32 (mem s') c) (proc_argv p') = proc_argv p' OR 7 \<and>
    (\<forall>k < length ns. argument_ok s' c (load32 (mem s') (proc_argv p' + 4 * of_nat k)) (snd (ns ! k)))"
  using inject_arguments_contract [OF assms] by blast

text \<open>A list of one argument, in a page that was allocated for it.\<close>

lemma demo_argument:
  fixes w :: "u8 list"
  assumes w: "0 \<notin> set w" "length w < 512"
  obtains p c q and s :: kernel where "user_ok 0x5000 p c s" "user_dir c (mem s)" "arg_list (mem s) q [(q, w)]"
    "list_held s c {} [(q, w)]" "1 < free_slots p" "1 < kheap_spare s"
proof -
  let ?w = w
  obtain p c and s :: kernel where d: "user_ok 0x5000 p c s" "proc_allocations p = replicate 1024 no_allocation"
    "20000 \<le> kheap_spare s" "user_dir c (mem s)" using demo_user by blast
  have fs: "free_slots p = 1024" by (simp add: free_slots_def d(2))
  have "(516 :: u32) \<noteq> 0" "unat (516 :: u32) \<le> 4096" "0 < kheap_spare s" "0 < free_slots p" using d(3) fs by simp_all
  from malloc_page [OF d(1) this] obtain q as and s1 :: kernel where m: "q \<noteq> 0" "live s1 q = Some 1" "4096 dvd unat q"
    "q \<notin> chunk_pages (mem s1) c" "user_ok 0x5000 (p\<lparr>proc_allocations := as\<rparr>) c s1"
    "free_slots (p\<lparr>proc_allocations := as\<rparr>) + 1 = free_slots p" "kheap_spare s1 + 1 = kheap_spare s"
    "preserves {} c s s1" by blast
  define mm where "mm = store32 (store_bytes (mem s1) q (?w @ [0])) (q + 512) 0"
  have sl: "q + 512 = slot q 128" by (simp add: slot_def)
  have fr: "mm a = mem s1 a" if "4096 \<le> unat (a - q)" for a
  proof -
    have "mm a = store_bytes (mem s1) q (?w @ [0]) a" unfolding sl mm_def by (rule store32_slot_outside) (use that in simp_all)
    also have "\<dots> = mem s1 a" by (rule store_bytes_outside) (use that w(2) in simp)
    finally show ?thesis .
  qed
  then have f: "\<forall>a. 4096 * 1 \<le> unat (a - q) \<longrightarrow> mm a = mem s1 a" by simp
  note W = user_ok_write [OF m(5,2,4) f]
  have "cstr (store_bytes (mem s1) q (?w @ [0])) q ?w" by (rule cstr_store_bytes) (use w in simp_all)
  moreover have "mm (q + of_nat i) = store_bytes (mem s1) q (?w @ [0]) (q + of_nat i)" if i: "i \<le> length ?w" for i
    unfolding mm_def
  proof (rule store32_outside)
    have j: "unat (of_nat i :: u32) = i" using i w(2) by (intro unat_of_nat_u32) simp
    then have "(of_nat i :: u32) < 512" using i w(2) by (simp add: word_less_nat_alt)
    then have "unat (of_nat i - 512 :: u32) = 4294967296 + i - 512"
      using j i w(2) by (simp add: unat_sub_if_size word_size word_le_nat_alt)
    then show "4 \<le> unat (q + of_nat i - (q + 512))" using i w(2) by simp
  qed
  ultimately have "cstr mm q ?w" using cstr_cong [of ?w mm q] by blast
  moreover have "load32 mm (q + 512) = 0" by (simp only: mm_def load32_store32)
  ultimately have a: "arg_list mm q [(q, ?w)]" using m(1) w(2) by simp
  have ms: "mem (s1\<lparr>mem := mm\<rparr>) = mm" by simp
  have lq: "live (s1\<lparr>mem := mm\<rparr>) q = Some 1" "q \<notin> chunk_pages (mem (s1\<lparr>mem := mm\<rparr>)) c"
    unfolding ms W(2,4) by (rule m(2), rule m(4))
  then have "holds (s1\<lparr>mem := mm\<rparr>) c {} q 516" unfolding holds_def by (intro exI [of _ q] exI [of _ 1]) simp
  then have h: "list_held (s1\<lparr>mem := mm\<rparr>) c {} [(q, ?w)]" by (simp only: list_held_def list.set ball_simps split_conv)
  have f: "1 < free_slots (p\<lparr>proc_allocations := as\<rparr>)" using m(6) fs by linarith
  have g: "1 < kheap_spare (s1\<lparr>mem := mm\<rparr>)" unfolding W(3) using m(7) d(3) by linarith
  have a': "arg_list (mem (s1\<lparr>mem := mm\<rparr>)) q [(q, ?w)]" unfolding ms by (rule a)
  have u: "user_dir c (mem (s1\<lparr>mem := mm\<rparr>))" using d(4) preserves_pages(2) [OF m(8)] W(5) by simp
  show thesis by (rule that [OF W(1) u a' h f g])
qed

theorem process_inject_arguments_builds_argv_witness:
  "\<exists>(s :: kernel) q s' p' c. process_inject_arguments 0x5000 q s = Inr (0, s') \<and>
     process_objects s' 0x5000 = Some p' \<and> proc_argc p' = 1 \<and>
     argument_ok s' c (load32 (mem s') (proc_argv p')) [84, 101, 115, 116, 105, 110, 103]"
proof -
  have w: "0 \<notin> set [84, 101, 115, 116, 105, 110, 103 :: u8]" "length [84, 101, 115, 116, 105, 110, 103 :: u8] < 512" by simp_all
  obtain p c q and s :: kernel where d: "user_ok 0x5000 p c s" "arg_list (mem s) q [(q, [84, 101, 115, 116, 105, 110, 103])]"
    "list_held s c {} [(q, [84, 101, 115, 116, 105, 110, 103])]" "1 < free_slots p" "1 < kheap_spare s" by (rule demo_argument [OF w])
  from process_inject_arguments_builds_argv [OF d(1,2) _ d(3)] d(4,5) obtain p' and s' :: kernel where
    "process_inject_arguments 0x5000 q s = Inr (0, s')" "user_ok 0x5000 p' c s'" "proc_argc p' = 1"
    "argument_ok s' c (load32 (mem s') (proc_argv p')) [84, 101, 115, 116, 105, 110, 103]" by auto
  then show ?thesis
    by (intro exI [of _ s] exI [of _ q] exI [of _ s'] exI [of _ p'] exI [of _ c]) (simp add: user_ok_def)
qed

end
