(* ===== verification/Stdlib_Print.thy ===== *)
theory Stdlib_Print
  imports Stdlib_Props CString_Props
begin

text \<open>
  Formatted output: \<open>printf\<close> against a reference on lists of characters and values, and what the
  blank program prints. A string is cut at the 1023 characters that the kernel's buffer has room for.
\<close>

section \<open>The reference\<close>

datatype printable = Number int | Word "u8 list"

text \<open>No output is defined when a conversion has no argument of its type, or nothing follows a percent sign.\<close>

fun format_text :: "u8 list \<Rightarrow> printable list \<Rightarrow> u8 list option" where
  "format_text [] vs = Some []"
| "format_text [c] vs = (if c = 37 then None else Some [c])"
| "format_text (c # d # f) vs =
     (if c \<noteq> 37 then map_option ((#) c) (format_text (d # f) vs)
      else if d = 105 then
        case vs of
          Number i # vs \<Rightarrow> map_option ((@) (numeral_text i)) (format_text f vs)
        | _ \<Rightarrow> None
      else if d = 115 then
        case vs of
          Word w # vs \<Rightarrow> map_option ((@) (take 1023 w)) (format_text f vs)
        | _ \<Rightarrow> None
      else map_option ((#) d) (format_text f vs))"

fun stands_for :: "byte_mem \<Rightarrow> argument \<Rightarrow> printable \<Rightarrow> bool" where
  "stands_for m (Int_arg i) (Number j) \<longleftrightarrow> i = j \<and> - 2147483648 \<le> i \<and> i < 2147483648"
| "stands_for m (String_arg p) (Word w) \<longleftrightarrow> cstr m p w"
| "stands_for m _ _ \<longleftrightarrow> False"

section \<open>Conversions\<close>

lemma string_at_cstr: "cstr m p s \<Longrightarrow> string_at m p n = take n s"
proof (induction n arbitrary: p s)
  case (Suc n)
  then show ?case by (cases s) auto
qed simp

lemma digit_nonzero: "n < 10 \<Longrightarrow> (48 + of_nat n :: u8) \<noteq> 0"
proof -
  assume "n < 10"
  then have "n = 0 \<or> n = 1 \<or> n = 2 \<or> n = 3 \<or> n = 4 \<or> n = 5 \<or> n = 6 \<or> n = 7 \<or> n = 8 \<or> n = 9" by arith
  then show ?thesis by (elim disjE) simp_all
qed

lemma decimal_nonzero: "0 \<notin> set (decimal n)"
proof (induction n rule: decimal.induct)
  case (1 n)
  have "(48 + of_nat (n mod 10) :: u8) \<noteq> 0" by (rule digit_nonzero) simp
  moreover have "n < 10 \<Longrightarrow> (48 + of_nat n :: u8) \<noteq> 0" by (rule digit_nonzero)
  ultimately show ?case using 1 by (subst decimal.simps) auto
qed

lemma numeral_nonzero: "0 \<notin> set (numeral_text i)"
  using decimal_nonzero by (simp add: numeral_text_def)

lemma convert_number:
  assumes "- 2147483648 \<le> i \<and> i < 2147483648" and "length text = 12"
  shows "\<exists>text'. convert m text 105 (Int_arg i # args) = Inr (numeral_text i, text', args) \<and> length text' = 12"
proof -
  obtain loc text' where t: "itoa i text = Inr (loc, text')" "length text' = 12" "drop loc text' = numeral_text i @ [0]"
    using itoa_numeral [OF assms] by blast
  have "takeWhile (\<lambda>c. c \<noteq> 0) (numeral_text i @ [0]) = numeral_text i"
    using numeral_nonzero [of i] by (subst takeWhile_append2) auto
  then show ?thesis using t by simp
qed

lemma convert_word: "cstr m p w \<Longrightarrow> convert m text 115 (String_arg p # args) = Inr (take 1023 w, text, args)"
  by (simp add: string_at_cstr print_call_def)

lemma stands_for_cases:
  assumes "list_all2 (stands_for m) args vs"
  shows "vs = Number i # ws \<Longrightarrow> \<exists>as. args = Int_arg i # as \<and> (- 2147483648 \<le> i \<and> i < 2147483648) \<and> list_all2 (stands_for m) as ws"
    and "vs = Word w # ws \<Longrightarrow> \<exists>p as. args = String_arg p # as \<and> cstr m p w \<and> list_all2 (stands_for m) as ws"
  using assms by (auto simp: list_all2_Cons2 elim: stands_for.elims)

lemma printf_loop_formats:
  assumes "cstr m p f" and "list_all2 (stands_for m) args vs" and "length buf = 12" and "format_text f vs = Some cs"
  shows "printf_loop m buf p args out = Some (Inr (out @ cs))"
  using assms
proof (induction f vs arbitrary: p args buf out cs rule: format_text.induct)
  case (1 vs)
  then show ?case by (subst printf_loop.simps) simp
next
  case (2 c vs)
  then show ?case by (subst printf_loop.simps, simp split: if_splits) (subst printf_loop.simps, simp)
next
  case (3 c d f vs)
  have c: "m p = c" "m p \<noteq> 0" "m (p + 1) = d" "cstr m (p + 1) (d # f)" "cstr m (p + 2) f"
    using 3(5) by (simp_all add: add.assoc)
  consider "c \<noteq> 37" | "c = 37" "d = 105" | "c = 37" "d = 115" | "c = 37" "d \<noteq> 105" "d \<noteq> 115" by blast
  then show ?case
  proof cases
    case 1
    then obtain r where r: "format_text (d # f) vs = Some r" "cs = c # r" using 3(8) by auto
    have "printf_loop m buf p args out = printf_loop m buf (p + 1) args (out @ [c])"
      using c 1 by (subst printf_loop.simps) simp
    also have "\<dots> = Some (Inr ((out @ [c]) @ r))" by (rule 3(1) [OF 1 c(4) 3(6,7) r(1)])
    finally show ?thesis using r(2) by simp
  next
    case 2
    then obtain i ws r where r: "vs = Number i # ws" "format_text f ws = Some r" "cs = numeral_text i @ r"
      using 3(8) by (auto split: list.splits printable.splits)
    obtain as where a: "args = Int_arg i # as" "- 2147483648 \<le> i \<and> i < 2147483648" "list_all2 (stands_for m) as ws"
      using stands_for_cases(1) [OF 3(6) r(1)] by blast
    obtain buf' where t: "convert m buf 105 args = Inr (numeral_text i, buf', as)" "length buf' = 12"
      using convert_number [OF a(2) 3(7)] a(1) by blast
    have "printf_loop m buf p args out = printf_loop m buf' (p + 2) as (out @ numeral_text i)"
      using c 2 t(1) by (subst printf_loop.simps) (simp del: convert.simps)
    also have "\<dots> = Some (Inr ((out @ numeral_text i) @ r))"
      using 3(2) [of "Number i" ws i] 2 c(5) a(3) t(2) r by simp
    finally show ?thesis using r(3) by simp
  next
    case 3
    then obtain w ws r where r: "vs = Word w # ws" "format_text f ws = Some r" "cs = take 1023 w @ r"
      using "3.prems"(4) by (auto split: list.splits printable.splits)
    obtain q as where a: "args = String_arg q # as" "cstr m q w" "list_all2 (stands_for m) as ws"
      using stands_for_cases(2) [OF "3.prems"(2) r(1)] by blast
    have "printf_loop m buf p args out = printf_loop m buf (p + 2) as (out @ take 1023 w)"
      using c 3 convert_word [OF a(2)] a(1) by (subst printf_loop.simps) (simp del: convert.simps)
    also have "\<dots> = Some (Inr ((out @ take 1023 w) @ r))"
      using "3.IH"(3) [of "Word w" ws w] 3 c(5) a(3) "3.prems"(3) r by simp
    finally show ?thesis using r(3) by simp
  next
    case 4
    then obtain r where r: "format_text f vs = Some r" "cs = d # r" using "3.prems"(4) by auto
    have "printf_loop m buf p args out = printf_loop m buf (p + 2) args (out @ [d])"
      using c 4 by (subst printf_loop.simps) simp
    also have "\<dots> = Some (Inr ((out @ [d]) @ r))"
      using "3.IH"(4) 4 c(5) "3.prems"(2,3) r(1) by simp
    finally show ?thesis using r(2) by simp
  qed
qed

lemma printf_text:
  assumes "cstr m fmt f" and "list_all2 (stands_for m) args vs" and "length buf = 12" and "format_text f vs = Some cs"
  shows "printf m buf fmt args = Inr cs"
  using printf_loop_formats [OF assms, of "[]"] by (simp add: printf_def)

text \<open>
  C26: \<open>printf\<close>. For a terminated format whose conversions are followed by a character and have arguments of their
  type, the program writes the characters of the format with \<open>%i\<close> replaced by the decimal numeral of its argument, any
  32-bit \<open>int\<close>, and \<open>%s\<close> by the first 1023 characters of its string, which is all the system call prints; any other
  character after a percent sign stands for itself.
\<close>

theorem printf_formats:
  assumes "cstr m fmt f" and "list_all2 (stands_for m) args vs" and "length text_buffer = 12"
    and "format_text f vs = Some cs"
  shows "printf m text_buffer fmt args = Inr cs"
  using assms by (rule printf_text)

text \<open>\<^verbatim>\<open>%s is %i%%\<close> with \<^verbatim>\<open>a\<close> and -50.\<close>

theorem printf_formats_witness:
  "printf (store_bytes (store_bytes (\<lambda>x. 0) 100 [37, 115, 32, 105, 115, 32, 37, 105, 37, 37, 0]) 200 [97, 0]) (replicate 12 7) 100
     [String_arg 200, Int_arg (- 50)] = Inr [97, 32, 105, 115, 32, 45, 53, 48, 37]"
proof -
  let ?m = "store_bytes (store_bytes (\<lambda>x. 0) 100 [37, 115, 32, 105, 115, 32, 37, 105, 37, 37, 0]) 200 [97, 0]"
  have f: "cstr ?m 100 [37, 115, 32, 105, 115, 32, 37, 105, 37, 37]" by (simp add: store_bytes_def)
  have "cstr ?m 200 [97]" by (simp add: store_bytes_def)
  then have a: "list_all2 (stands_for ?m) [String_arg 200, Int_arg (- 50)] [Word [97], Number (- 50)]" by simp
  have n: "numeral_text (- 50) = [45, 53, 48]" by (simp add: numeral_text_def decimal.simps)
  show ?thesis by (rule printf_formats [OF f a]) (simp_all add: n)
qed

section \<open>The blank program\<close>

lemma blank_prints:
  assumes f: "cstr m fmt [37, 115, 10]" and a: "\<forall>k < length ws. cstr m (load32 m (argv + 4 * of_nat k)) (ws ! k)"
    and short: "\<forall>w \<in> set ws. length w < 1024"
    and b: "length text_buffer = 12"
  shows "blank_main m text_buffer fmt (int (length ws)) argv = Inr (concat (map (\<lambda>w. w @ [10]) ws))"
proof -
  have "print_arguments m text_buffer fmt argv i n = Inr (concat (map (\<lambda>w. w @ [10]) (take n (drop i ws))))"
    if "i + n \<le> length ws" for i n
    using that
  proof (induction n arbitrary: i)
    case 0
    then show ?case by simp
  next
    case (Suc n)
    then have i: "i < length ws" by simp
    have len: "length (ws ! i) < 1024" by (rule bspec [OF short nth_mem [OF i]])
    have "list_all2 (stands_for m) [String_arg (load32 m (argv + 4 * of_nat i))] [Word (ws ! i)]" using a i by simp
    then have "printf m text_buffer fmt [String_arg (load32 m (argv + 4 * of_nat i))] = Inr (ws ! i @ [10])"
      by (rule printf_text [OF f _ b]) (use len in simp)
    moreover have "drop i ws = ws ! i # drop (Suc i) ws" using i by (simp add: Cons_nth_drop_Suc)
    ultimately show ?case using Suc.IH [of "Suc i"] Suc.prems by simp
  qed
  from this [of 0 "length ws"] show ?thesis by (simp add: blank_main_def)
qed

end
