(* ===== verification/Process_Run.thy ===== *)
theory Process_Run
  imports Process_Args Isolation Stdlib_Print
begin

text \<open>
  The arguments of a program as the program sees them: \<open>argc\<close> and \<open>argv\<close> through its own page
  directory, read by the code of the user library.
\<close>

section \<open>The memory a program reads\<close>

text \<open>
  An address that is not mapped has no contents; 0 stands for it. In the directories of the kernel every
  page is mapped and readable in user mode.
\<close>

definition program_view :: "byte_mem \<Rightarrow> u32 \<Rightarrow> byte_mem" where
  "program_view m d v = (case page_walk m d v of Inr a \<Rightarrow> m a | Inl e \<Rightarrow> 0)"

lemma address_in_page:
  fixes v q :: u32
  assumes q: "4096 dvd unat q" and v: "unat (v - q) < 4096"
  shows "v - v mod 4096 = q"
proof -
  let ?p = "v - v mod 4096"
  have "unat (?p - q) < 4096 * 1" using page_in_run(1) [OF q, of v 1] v by simp
  moreover have "4096 dvd unat (?p - q)" using page_of_address(1) q by (rule aligned_minus)
  ultimately have "unat (?p - q) = 0" by (auto elim: dvdE)
  then have "?p - q = 0" by (simp only: unat_eq_0)
  then show ?thesis by (simp only: right_minus_eq)
qed

lemma view_page:
  assumes c: "chunk_ok c m" "user_dir c m" and q: "4096 dvd unat q" "paging_get m (load32 m c) q = q OR 7"
    and v: "unat (v - q) < 4096"
  shows "program_view m (load32 m c) v = m v"
proof -
  have p: "v - v mod 4096 = q" using q(1) v by (rule address_in_page)
  have "page_walk m (load32 m c) v = Inr (q + v mod 4096)"
  proof (rule page_walk_page)
    show "low_dir_ok (load32 m c) m" using c(1) by (simp add: chunk_ok_def)
    show "\<forall>i<1024. load32 m (slot (load32 m c) i) AND 7 = 7" using c(2) by (simp add: user_dir_def)
    show "paging_get m (load32 m c) (v - v mod 4096) = q OR 7" unfolding p by (rule q(2))
  qed (use q(1) in simp_all)
  moreover have "q + v mod 4096 = v" unfolding p [symmetric] by simp
  ultimately show ?thesis by (simp add: program_view_def)
qed

text \<open>A string of less than a page, at the start of one.\<close>

lemma view_cstr:
  assumes c: "chunk_ok c m" "user_dir c m" and q: "4096 dvd unat q" "paging_get m (load32 m c) q = q OR 7"
    and w: "cstr m q w" "length w < 4096"
  shows "cstr (program_view m (load32 m c)) q w"
proof -
  have "program_view m (load32 m c) (q + of_nat i) = m (q + of_nat i)" if "i \<le> length w" for i
    using that w(2) by (intro view_page [OF c q]) (simp add: unat_of_nat_u32)
  then show ?thesis using w(1) cstr_cong [of w "program_view m (load32 m c)" q m] by blast
qed

lemma view_argument:
  assumes "chunk_ok c (mem s)" and "user_dir c (mem s)" and a: "argument_ok s c q w" and "length w < 512"
  shows "cstr (program_view (mem s) (load32 (mem s) c)) q w"
proof (rule view_cstr [OF assms(1,2)])
  show "4096 dvd unat q" "paging_get (mem s) (load32 (mem s) c) q = q OR 7" "cstr (mem s) q w"
    using a unfolding argument_ok_def by blast+
  show "length w < 4096" using assms(4) by simp
qed

text \<open>An element of an array of less than a page.\<close>

lemma view_slot:
  assumes c: "chunk_ok c m" "user_dir c m" and q: "4096 dvd unat q" "paging_get m (load32 m c) q = q OR 7" and k: "k < 1024"
  shows "load32 (program_view m (load32 m c)) (q + 4 * of_nat k) = load32 m (q + 4 * of_nat k)"
proof -
  have u: "unat (4 * of_nat k + of_nat j :: u32) = 4 * k + j" if "j < 4" for j
  proof -
    have "unat (of_nat (4 * k + j) :: u32) = 4 * k + j" using that k by (intro unat_of_nat_u32) simp
    then show ?thesis by simp
  qed
  have e: "program_view m (load32 m c) (q + 4 * of_nat k + of_nat j) = m (q + 4 * of_nat k + of_nat j)" if "j < 4" for j
    using u [OF that] that k by (intro view_page [OF c q]) (simp add: add.assoc)
  show ?thesis using e [of 0] e [of 1] e [of 2] e [of 3] by (intro load32_cong) simp_all
qed

end
