(* ===== verification/Process_Elf.thy ===== *)
theory Process_Elf
  imports Process_Args Isolation_Props
begin

text \<open>
  The address space of an ELF program: \<open>process_map_elf\<close> maps the segments of the file, which lies in
  one block of the heap, to the addresses its program headers ask for.
\<close>

unbundle bit_operations_syntax

section \<open>Pages of a segment\<close>

abbreviation page_of :: "u32 \<Rightarrow> u32" where
  "page_of v \<equiv> v - v mod 4096"

definition segment_pages :: "byte_mem \<Rightarrow> u32 \<Rightarrow> nat" where
  "segment_pages m phdr = blocks_for (p_vaddr m phdr mod 4096 + p_memsz m phdr)"

definition segment_covers :: "byte_mem \<Rightarrow> u32 \<Rightarrow> u32 \<Rightarrow> bool" where
  "segment_covers m phdr w \<longleftrightarrow> unat (w - page_of (p_vaddr m phdr)) < 4096 * segment_pages m phdr"

definition segment_flags :: "byte_mem \<Rightarrow> u32 \<Rightarrow> u32" where
  "segment_flags m phdr = (if p_flags m phdr AND PF_W \<noteq> 0 then 7 else 5)"

definition segment_entry :: "byte_mem \<Rightarrow> elf_file \<Rightarrow> u32 \<Rightarrow> u32 \<Rightarrow> u32" where
  "segment_entry m f phdr w =
     (page_of (elf_phdr_phys_addr m f phdr) + (w - page_of (p_vaddr m phdr))) OR segment_flags m phdr"

text \<open>The entry of page \<open>w\<close> after the segments \<open>i, ..., i + n - 1\<close>: a later segment replaces an earlier one.\<close>

fun elf_entry :: "byte_mem \<Rightarrow> elf_file \<Rightarrow> u32 \<Rightarrow> nat \<Rightarrow> nat \<Rightarrow> u32 \<Rightarrow> u32 \<Rightarrow> u32" where
  "elf_entry m f phdrs i 0 old w = old"
| "elf_entry m f phdrs i (Suc n) old w =
     (let phdr = phdrs + 32 * of_nat i
      in elf_entry m f phdrs (Suc i) n (if segment_covers m phdr w then segment_entry m f phdr w else old) w)"

lemma elf_entry_last:
  assumes "\<forall>j < n. \<not> segment_covers m (phdrs + 32 * of_nat (i + j)) w"
  shows "elf_entry m f phdrs i n old w = old"
  using assms
proof (induction n arbitrary: i)
  case (Suc n)
  have "\<not> segment_covers m (phdrs + 32 * of_nat i) w" using Suc.prems [rule_format, of 0] by simp
  moreover have "\<forall>j < n. \<not> segment_covers m (phdrs + 32 * of_nat (Suc i + j)) w"
    using Suc.prems [rule_format, of "Suc j" for j] by (simp del: of_nat_Suc)
  ultimately show ?case using Suc.IH [of "Suc i"] by (simp add: Let_def)
qed simp

lemma elf_entry_covered:
  assumes "k < n" and "segment_covers m (phdrs + 32 * of_nat (i + k)) w"
    and "\<forall>j < n. k < j \<longrightarrow> \<not> segment_covers m (phdrs + 32 * of_nat (i + j)) w"
  shows "elf_entry m f phdrs i n old w = segment_entry m f (phdrs + 32 * of_nat (i + k)) w"
  using assms
proof (induction n arbitrary: i k old)
  case (Suc n)
  show ?case
  proof (cases k)
    case 0
    have "\<forall>j < n. \<not> segment_covers m (phdrs + 32 * of_nat (Suc i + j)) w"
      using Suc.prems(3) [rule_format, of "Suc j" for j] 0 by (simp del: of_nat_Suc)
    then show ?thesis using elf_entry_last [of n m phdrs "Suc i" w f] Suc.prems(2) 0 by (simp add: Let_def)
  next
    case (Suc k')
    have "\<forall>j < n. k' < j \<longrightarrow> \<not> segment_covers m (phdrs + 32 * of_nat (Suc i + j)) w"
      using Suc.prems(3) [rule_format, of "Suc j" for j] Suc by (simp del: of_nat_Suc)
    then show ?thesis using Suc.IH [of k' "Suc i"] Suc.prems(1,2) Suc by (simp add: Let_def)
  qed
qed simp

section \<open>The loop\<close>

text \<open>
  A program header that the loop can follow: it is not in a page table, the segment has the same
  offset in its page in the file and in memory, and does not reach the end of the address space.
\<close>

definition segment_ok :: "byte_mem \<Rightarrow> elf_file \<Rightarrow> u32 set \<Rightarrow> u32 \<Rightarrow> bool" where
  "segment_ok m f P phdr \<longleftrightarrow> (\<forall>x. unat (x - phdr) < 32 \<longrightarrow> outside P x) \<and>
     elf_phdr_phys_addr m f phdr mod 4096 = p_vaddr m phdr mod 4096 \<and>
     unat (elf_phdr_phys_addr m f phdr) + unat (p_memsz m phdr) + 8192 \<le> 4294967296"

lemma phdr_load:
  assumes "\<forall>x. unat (x - phdr) < 32 \<longrightarrow> m' x = m x" and "k + 4 \<le> 32"
  shows "load32 m' (phdr + of_nat k) = load32 m (phdr + of_nat k)"
proof (rule load32_cong)
  have "m' (phdr + of_nat j) = m (phdr + of_nat j)" if "j < 32" for j
    using assms(1) that by (simp add: unat_of_nat_u32)
  from this [of k] this [of "k + 1"] this [of "k + 2"] this [of "k + 3"] assms(2)
  show "m' (phdr + of_nat k) = m (phdr + of_nat k)" "m' (phdr + of_nat k + 1) = m (phdr + of_nat k + 1)"
    "m' (phdr + of_nat k + 2) = m (phdr + of_nat k + 2)" "m' (phdr + of_nat k + 3) = m (phdr + of_nat k + 3)"
    by (simp_all only: of_nat_add of_nat_1 of_nat_numeral add.assoc)
qed

lemma phdr_same:
  assumes "\<forall>x. unat (x - phdr) < 32 \<longrightarrow> m' x = m x"
  shows "p_vaddr m' phdr = p_vaddr m phdr" and "p_memsz m' phdr = p_memsz m phdr" and "p_flags m' phdr = p_flags m phdr"
    and "elf_phdr_phys_addr m' f phdr = elf_phdr_phys_addr m f phdr"
  using phdr_load [OF assms, of 8] phdr_load [OF assms, of 20] phdr_load [OF assms, of 24] phdr_load [OF assms, of 4]
  by (simp_all add: p_vaddr_def p_memsz_def p_flags_def p_offset_def elf_phdr_phys_addr_def)

lemma map_segment:
  assumes c: "chunk_ok c m" and P: "chunk_pages m c = P" and m0: "\<forall>a. outside P a \<longrightarrow> m a = m0 a"
    and ok: "segment_ok m0 f P phdr"
    and r: "paging_map_to m c (paging_align_to_lower_page (p_vaddr m phdr)) (paging_align_to_lower_page (elf_phdr_phys_addr m f phdr))
      (paging_align_address (elf_phdr_phys_addr m f phdr + p_memsz m phdr)) (segment_flags m phdr) = (res, m')"
  shows "res = 0" and "chunk_ok c m'" and "chunk_pages m' c = P" and "\<forall>a. outside P a \<longrightarrow> m' a = m0 a"
    and "user_dir c m' = user_dir c m"
    and "4096 dvd unat w \<Longrightarrow> paging_get m' (load32 m' c) w =
      (if segment_covers m0 phdr w then segment_entry m0 f phdr w else paging_get m (load32 m c) w)"
proof -
  let ?v = "p_vaddr m0 phdr" and ?q = "elf_phdr_phys_addr m0 f phdr" and ?z = "p_memsz m0 phdr"
  have "\<forall>x. unat (x - phdr) < 32 \<longrightarrow> m x = m0 x" using ok m0 by (simp add: segment_ok_def)
  note E = phdr_same [OF this]
  have o: "?q mod 4096 = ?v mod 4096" and b: "unat ?q + unat ?z + 8192 \<le> 4294967296" using ok by (simp_all add: segment_ok_def)
  have lo: "paging_align_to_lower_page x = page_of x" for x by (simp add: paging_align_to_lower_page_def c_defs)
  have fl: "segment_flags m phdr = segment_flags m0 phdr" by (simp add: segment_flags_def E)
  have al: "4096 dvd unat (page_of ?v)" "4096 dvd unat (page_of ?q)" by (rule page_of_address(1))+
  have q: "?q + ?z = page_of ?q + (?v mod 4096 + ?z)" unfolding o [symmetric] by simp
  have "unat (page_of ?q) + unat (?v mod 4096) = unat ?q"
  proof -
    have "unat (page_of ?q) = unat ?q - unat ?q mod 4096" by (subst unat_sub) (simp_all add: unat_mod word_le_nat_alt)
    then show ?thesis unfolding o [symmetric] by (simp add: unat_mod)
  qed
  moreover have "unat (?v mod 4096 + ?z) = unat (?v mod 4096) + unat ?z"
    using b calculation by (intro unat_add_u32) linarith
  ultimately have "unat (page_of ?q) + unat (?v mod 4096 + ?z) + 4096 \<le> 4294967296" using b by linarith
  from align_end [OF al(2) this] have e: "unat (paging_align_address (?q + ?z)) = unat (page_of ?q) + 4096 * segment_pages m0 phdr"
    unfolding q segment_pages_def by simp
  note M = map_to_run [OF c al e r [unfolded E lo fl]]
  show "res = 0" "chunk_ok c m'" "chunk_pages m' c = P" "\<forall>a. outside P a \<longrightarrow> m' a = m0 a" "user_dir c m' = user_dir c m"
    using M(1-3,6,7) P m0 by simp_all
  have n: "4096 * segment_pages m0 phdr \<le> 4294967296" using e unat_u32_bound [of "paging_align_address (?q + ?z)"] by linarith
  show "paging_get m' (load32 m' c) w =
      (if segment_covers m0 phdr w then segment_entry m0 f phdr w else paging_get m (load32 m c) w)" if w: "4096 dvd unat w"
    using M(4) M(5) [OF w] unfolding segment_covers_def segment_entry_def in_run_iff [OF al(1) w n] by auto
qed

lemma map_elf_loop_maps:
  assumes "chunk_ok c m" and "chunk_pages m c = P" and "\<forall>a. outside P a \<longrightarrow> m a = m0 a"
    and "\<forall>j < n. segment_ok m0 f P (phdrs + 32 * of_nat (i + j))"
  shows "\<exists>m'. map_elf_loop m c f phdrs i n 0 = (0, m') \<and> chunk_ok c m' \<and> chunk_pages m' c = P \<and>
    (\<forall>a. outside P a \<longrightarrow> m' a = m0 a) \<and> user_dir c m' = user_dir c m \<and>
    (\<forall>w. 4096 dvd unat w \<longrightarrow> paging_get m' (load32 m' c) w = elf_entry m0 f phdrs i n (paging_get m (load32 m c) w) w)"
  using assms
proof (induction n arbitrary: i m)
  case 0
  then show ?case by simp
next
  case (Suc n)
  let ?ph = "phdrs + 32 * of_nat i"
  have ok: "segment_ok m0 f P ?ph" using Suc.prems(4) [rule_format, of 0] by simp
  obtain r m1 where r: "paging_map_to m c (paging_align_to_lower_page (p_vaddr m ?ph)) (paging_align_to_lower_page (elf_phdr_phys_addr m f ?ph))
      (paging_align_address (elf_phdr_phys_addr m f ?ph + p_memsz m ?ph)) (segment_flags m ?ph) = (r, m1)" by fastforce
  note S = map_segment [OF Suc.prems(1-3) ok r]
  have fl: "(if p_flags m ?ph AND PF_W \<noteq> 0 then (PAGING_IS_PRESENT OR PAGING_ACCESS_FROM_ALL) OR PAGING_IS_WRITEABLE
      else PAGING_IS_PRESENT OR PAGING_ACCESS_FROM_ALL) = segment_flags m ?ph" by (simp add: segment_flags_def c_defs)
  have rest: "\<forall>j < n. segment_ok m0 f P (phdrs + 32 * of_nat (Suc i + j))"
    using Suc.prems(4) [rule_format, of "Suc j" for j] by (simp del: of_nat_Suc)
  obtain m' where m': "map_elf_loop m1 c f phdrs (Suc i) n 0 = (0, m')" "chunk_ok c m'" "chunk_pages m' c = P"
    "\<forall>a. outside P a \<longrightarrow> m' a = m0 a" "user_dir c m' = user_dir c m1"
    "\<forall>w. 4096 dvd unat w \<longrightarrow> paging_get m' (load32 m' c) w = elf_entry m0 f phdrs (Suc i) n (paging_get m1 (load32 m1 c) w) w"
    using Suc.IH [OF S(2-4) rest] by blast
  have "map_elf_loop m c f phdrs i (Suc n) 0 = (0, m')"
    unfolding map_elf_loop.simps Let_def fl r using m'(1) S(1) by simp
  then show ?case using m' S(5,6) by (intro exI [of _ m']) (simp add: Let_def)
qed

section \<open>The program in its address space\<close>

text \<open>
  The file is in one block of the heap that is no page table; its program headers and what the segments
  map lie in the block, and every segment has the same offset in its page in the file and in memory.
\<close>

definition elf_image :: "'a kernel_scheme \<Rightarrow> u32 \<Rightarrow> elf_file \<Rightarrow> nat \<Rightarrow> bool" where
  "elf_image s c f n \<longleftrightarrow> live s (ef_memory f) = Some n \<and> ef_memory f \<notin> chunk_pages (mem s) c \<and>
     e_phoff (mem s) (ef_memory f) \<noteq> 0 \<and>
     unat (e_phoff (mem s) (ef_memory f)) + 32 * unat (e_phnum (mem s) (ef_memory f)) \<le> 4096 * n \<and>
     (\<forall>i < unat (e_phnum (mem s) (ef_memory f)).
        let phdr = elf_program_header (mem s) (ef_memory f) i
        in unat (p_offset (mem s) phdr) + unat (p_memsz (mem s) phdr) \<le> 4096 * n \<and>
           p_offset (mem s) phdr mod 4096 = p_vaddr (mem s) phdr mod 4096)"

lemma mod_aligned:
  fixes b x :: u32
  assumes "4096 dvd unat b"
  shows "(b + x) mod 4096 = x mod 4096"
proof -
  have "unat ((b + x) mod 4096) = (unat b + unat x) mod 4294967296 mod 4096" by (simp add: unat_mod unat_word_ariths)
  also have "\<dots> = (unat b + unat x) mod 4096" by (simp add: mod_mod_cancel)
  also have "\<dots> = unat x mod 4096" using assms by (subst mod_add_left_eq [symmetric]) simp
  finally show ?thesis by (simp add: word_unat_eq_iff unat_mod)
qed

lemma image_segment:
  assumes ok: "kheap_ok s" "kheap_low s" and own: "\<forall>q \<in> chunk_pages (mem s) c. live s q = Some 1"
    and im: "elf_image s c f n" and i: "i < unat (e_phnum (mem s) (ef_memory f))"
  shows "segment_ok (mem s) f (chunk_pages (mem s) c) (elf_program_header (mem s) (ef_memory f) i)"
proof -
  let ?b = "ef_memory f" and ?ph = "elf_program_header (mem s) (ef_memory f) i"
  have l: "live s ?b = Some n" "?b \<notin> chunk_pages (mem s) c" and z: "e_phoff (mem s) ?b \<noteq> 0"
    and o: "unat (e_phoff (mem s) ?b) + 32 * unat (e_phnum (mem s) ?b) \<le> 4096 * n"
    and seg: "unat (p_offset (mem s) ?ph) + unat (p_memsz (mem s) ?ph) \<le> 4096 * n"
      "p_offset (mem s) ?ph mod 4096 = p_vaddr (mem s) ?ph mod 4096"
    using im i by (simp_all add: elf_image_def Let_def)
  have n: "unat ?b + 4096 * n \<le> 0x10000000" by (rule live_low_end [OF ok l(1)])
  have ph: "?ph - ?b = e_phoff (mem s) ?b + of_nat (32 * i)" using z by (simp add: elf_program_header_def elf_pheader_def)
  have i32: "unat (of_nat (32 * i) :: u32) = 32 * i" using i o n by (intro unat_of_nat_u32) simp
  have pb: "unat (?ph - ?b) = unat (e_phoff (mem s) ?b) + 32 * i"
    unfolding ph using i32 i o n by (subst unat_add_u32) simp_all
  have "outside (chunk_pages (mem s) c) x" if x: "unat (x - ?ph) < 32" for x
  proof -
    have "unat ((?ph - ?b) + (x - ?ph)) = unat (?ph - ?b) + unat (x - ?ph)"
      using x pb i o n by (intro unat_add_u32) simp
    then have "unat (x - ?b) < 4096 * n" using x pb i o by simp
    then show ?thesis by (rule live_far(2) [OF ok(1) l(1) _ own l(2)])
  qed
  moreover have "elf_phdr_phys_addr (mem s) f ?ph mod 4096 = p_vaddr (mem s) ?ph mod 4096"
    using mod_aligned [OF live_page_aligned [OF ok(1) l(1)]] seg(2) by (simp add: elf_phdr_phys_addr_def elf_memory_def)
  moreover have "unat (elf_phdr_phys_addr (mem s) f ?ph) = unat ?b + unat (p_offset (mem s) ?ph)"
    unfolding elf_phdr_phys_addr_def elf_memory_def using seg(1) n by (intro unat_add_u32) simp
  ultimately show ?thesis using seg(1) n by (simp add: segment_ok_def)
qed

text \<open>The entries after \<open>process_map_memory\<close>: the stack replaces what a segment has mapped there.\<close>

lemma map_memory_elf:
  assumes u: "user_ok process p c s" and e: "proc_filetype p = PROCESS_FILETYPE_ELF" "elf_files s (proc_ptr p) = Some f"
    and im: "elf_image s c f n" and st: "live s (proc_stack p) = Some 4"
  shows "\<exists>m. process_map_memory process s = Inr (0, s\<lparr>mem := m\<rparr>) \<and> user_ok process p c (s\<lparr>mem := m\<rparr>) \<and>
    live (s\<lparr>mem := m\<rparr>) = live s \<and> user_dir c m = user_dir c (mem s) \<and>
    (\<forall>w. 4096 dvd unat w \<longrightarrow> paging_get m (load32 m c) w =
      (if unat (w - 0x3FB000) < 16384 then (proc_stack p + (w - 0x3FB000)) OR 7
       else elf_entry (mem s) f (elf_pheader (mem s) (ef_memory f)) 0 (unat (e_phnum (mem s) (ef_memory f)))
         (paging_get (mem s) (load32 (mem s) c) w) w))"
proof -
  let ?P = "chunk_pages (mem s) c" and ?k = "unat (e_phnum (mem s) (ef_memory f))" and ?ph = "elf_pheader (mem s) (ef_memory f)"
  have p: "process_objects s process = Some p" and ch: "process_chunk p s = Inr c"
    and k: "kheap_ok s" "kheap_low s" "chunk_ok c (mem s)" "\<forall>q \<in> ?P. live s q = Some 1"
    using u by (simp_all add: user_ok_def)
  have ok: "\<forall>j < ?k. segment_ok (mem s) f ?P (?ph + 32 * of_nat (0 + j))"
    using image_segment [OF k(1,2,4) im] by (simp add: elf_program_header_def)
  obtain m1 where M1: "map_elf_loop (mem s) c f ?ph 0 ?k 0 = (0, m1)" "chunk_ok c m1" "chunk_pages m1 c = ?P"
    "\<forall>a. outside ?P a \<longrightarrow> m1 a = mem s a" "user_dir c m1 = user_dir c (mem s)"
    "\<forall>w. 4096 dvd unat w \<longrightarrow> paging_get m1 (load32 m1 c) w = elf_entry (mem s) f ?ph 0 ?k (paging_get (mem s) (load32 (mem s) c) w) w"
    using map_elf_loop_maps [OF k(3) refl _ ok] by blast
  let ?s1 = "s\<lparr>mem := m1\<rparr>"
  note U1 = user_ok_put [OF u M1(4)[rule_format] M1(2,3)]
  have k1: "kheap_ok ?s1" "kheap_low ?s1" "chunk_ok c (mem ?s1)" "\<forall>q \<in> chunk_pages (mem ?s1) c. live ?s1 q = Some 1"
    using U1(1) by (simp_all add: user_ok_def)
  have l2: "live ?s1 (proc_stack p) = Some (blocks_for SLOBOS_USER_PROGRAM_STACK_SIZE)" using U1(2) st by (simp add: stack_blocks)
  have a2: "4096 dvd unat SLOBOS_PROGRAM_VIRTUAL_STACK_ADDRESS_END" by (simp add: c_defs)
  obtain r2 m2 where m2: "paging_map_to (mem ?s1) c SLOBOS_PROGRAM_VIRTUAL_STACK_ADDRESS_END (proc_stack p)
      (paging_align_address (proc_stack p + SLOBOS_USER_PROGRAM_STACK_SIZE)) user_page_flags = (r2, m2)" by fastforce
  note M2 = map_to_block [OF k1 l2 a2 m2]
  have ch1: "process_chunk p (s\<lparr>mem := m\<rparr>) = Inr c" for m using ch by (simp add: process_chunk_def deref_def)
  have run: "process_map_memory process s = Inr (0, s\<lparr>mem := m2\<rparr>)"
    using p e ch ch1 M1(1) m2
    by (simp add: process_map_memory_def process_map_elf_def deref_def Let_def elf_header_def)
  have out: "m2 a = mem s a" if "outside ?P a" for a using M1(3,4) M2(8) that by simp
  have pages: "chunk_pages m2 c = ?P" using M2(4) M1(3) by simp
  have v0: "SLOBOS_PROGRAM_VIRTUAL_STACK_ADDRESS_END = 0x3FB000" by (simp add: c_defs)
  have "\<forall>w. 4096 dvd unat w \<longrightarrow> paging_get m2 (load32 m2 c) w =
      (if unat (w - 0x3FB000) < 16384 then (proc_stack p + (w - 0x3FB000)) OR 7
       else elf_entry (mem s) f ?ph 0 ?k (paging_get (mem s) (load32 (mem s) c) w) w)"
    using M1(6) M2(2) by (simp add: mapped_def stack_blocks v0 user_flags_eq)
  moreover have "user_dir c m2 = user_dir c (mem s)" using M2(9) M1(5) by simp
  moreover note user_ok_put [OF u out M2(3) pages]
  ultimately show ?thesis using run by blast
qed

text \<open>What the processor makes of a page in a mapped range, with the write flag and without.\<close>

lemma walk_run:
  assumes d: "low_dir_ok d m" and u: "\<forall>i<1024. load32 m (slot d i) AND 7 = 7"
    and en: "paging_get m d (page_of v) = (b + (page_of v - a)) OR fl" and fl: "fl = 5 \<or> fl = 7"
    and b: "4096 dvd unat b" and a: "4096 dvd unat a"
  shows "page_walk m d v = Inr (b + (v - a))"
    and "user_walk m d v = (if fl = 7 then Inr (b + (v - a)) else Inl (BadPointer v))"
proof -
  let ?F = "b + (page_of v - a)"
  have F: "4096 dvd unat ?F" using b by (rule aligned_plus) (rule aligned_minus [OF page_of_address(1) a])
  have f: "fl < 4096" "fl AND 1 \<noteq> 0" using fl by auto
  have s: "?F + v mod 4096 = b + (v - a)" by simp
  show "page_walk m d v = Inr (b + (v - a))" using page_walk_page [OF d u en F f] unfolding s .
  show "user_walk m d v = (if fl = 7 then Inr (b + (v - a)) else Inl (BadPointer v))"
  proof (cases "fl = 7")
    case True
    then show ?thesis using user_walk_page [OF d u _ F] en unfolding s by simp
  next
    case False
    then have fl: "fl = 5" using fl by simp
    have i: "unat (v div 4194304) < 1024" by (simp add: unat_div) (use unat_u32_bound [of v] in linarith)
    have e: "load32 m (slot (load32 m (slot d (unat (v div 4194304))) AND 0xFFFFF000) (unat (v mod 4194304 div 4096))) = ?F OR 5"
      using en unfolding paging_get_eq [OF d page_of_address(1)] page_entry_def table_at_def page_of_address fl .
    have "(?F OR 5) AND 7 \<noteq> 7"
    proof
      assume "(?F OR 5) AND 7 = 7"
      then have "bit ((?F OR 5) AND 7) 1 = bit (7 :: u32) 1" by (simp only:)
      moreover have "\<not> bit ?F 1" by (rule page_low_bits [OF F]) simp
      moreover have "bit (7 :: u32) 1" "\<not> bit (5 :: u32) 1" by simp_all
      ultimately show False by (simp only: bit_and_iff bit_or_iff simp_thms)
    qed
    then show ?thesis using u i e fl by (simp add: user_walk_def Let_def)
  qed
qed

text \<open>A byte of a segment: it is in one of the segment's pages, and where these lead.\<close>

lemma segment_byte:
  assumes ok: "segment_ok m f P phdr" and v: "unat (v - p_vaddr m phdr) < unat (p_memsz m phdr)"
  shows "segment_covers m phdr (page_of v)"
proof -
  let ?v = "p_vaddr m phdr" and ?o = "p_vaddr m phdr mod 4096" and ?z = "p_memsz m phdr"
  have z: "unat ?o + unat ?z < 4294967296" using ok by (simp add: segment_ok_def unat_mod)
      (use mod_less_divisor [of 4096 "unat ?v"] in linarith)
  have "v - page_of ?v = ?o + (v - ?v)" by simp
  then have "unat (v - page_of ?v) = unat ?o + unat (v - ?v)" using v z by (simp only:) (rule unat_add_u32, linarith)
  also have "\<dots> < unat ?o + unat ?z" using v by simp
  also have "\<dots> = unat (?o + ?z)" using z by (subst unat_add_u32) simp_all
  also have "\<dots> \<le> 4096 * segment_pages m phdr" unfolding segment_pages_def by (rule size_in_blocks)
  finally show ?thesis unfolding segment_covers_def by (simp only: page_in_run(1) [OF page_of_address(1)])
qed

lemma segment_walk:
  assumes d: "low_dir_ok d m" "\<forall>i<1024. load32 m (slot d i) AND 7 = 7"
    and en: "paging_get m d (page_of v) = segment_entry m0 f phdr (page_of v)" and ok: "segment_ok m0 f P phdr"
  defines "a \<equiv> elf_phdr_phys_addr m0 f phdr + (v - p_vaddr m0 phdr)"
  shows "page_walk m d v = Inr a \<and>
    user_walk m d v = (if p_flags m0 phdr AND PF_W \<noteq> 0 then Inr a else Inl (BadPointer v))"
proof -
  have o: "elf_phdr_phys_addr m0 f phdr mod 4096 = p_vaddr m0 phdr mod 4096" using ok by (simp add: segment_ok_def)
  have fl: "segment_flags m0 phdr = 5 \<or> segment_flags m0 phdr = 7" by (simp add: segment_flags_def)
  have a: "page_of (elf_phdr_phys_addr m0 f phdr) + (v - page_of (p_vaddr m0 phdr)) = a" unfolding o a_def by simp
  note W = walk_run [OF d en [unfolded segment_entry_def] fl page_of_address(1) page_of_address(1), unfolded a]
  have "segment_flags m0 phdr = 7 \<longleftrightarrow> p_flags m0 phdr AND PF_W \<noteq> 0" by (simp add: segment_flags_def)
  then show ?thesis using W by simp
qed

text \<open>
  C12: an ELF program in its address space. When the file lies in one block of the heap and its headers
  stay inside, \<open>process_map_memory\<close> succeeds, and each byte of a segment that no later segment's pages
  and not the stack cover is found at its virtual address: the processor translates it to its
  place in the file. It can be written in user mode if the segment is writeable, and is a page fault
  if not. The stack is mapped as for a flat binary, and no other page changes.
\<close>

theorem process_map_memory_elf:
  fixes s :: "'a kernel_scheme" and f :: elf_file
  defines "phdr \<equiv> elf_program_header (mem s) (ef_memory f)" and "num \<equiv> unat (e_phnum (mem s) (ef_memory f))"
  assumes u: "user_ok process p c s" "user_dir c (mem s)"
    and e: "proc_filetype p = PROCESS_FILETYPE_ELF" "elf_files s (proc_ptr p) = Some f"
    and im: "elf_image s c f n" and st: "live s (proc_stack p) = Some 4"
  shows "\<exists>m. process_map_memory process s = Inr (0, s\<lparr>mem := m\<rparr>) \<and> live (s\<lparr>mem := m\<rparr>) = live s \<and>
    (\<forall>i v. i < num \<longrightarrow> unat (v - p_vaddr (mem s) (phdr i)) < unat (p_memsz (mem s) (phdr i)) \<longrightarrow>
       (\<forall>j < num. i < j \<longrightarrow> \<not> segment_covers (mem s) (phdr j) (v - v mod 4096)) \<longrightarrow> 16384 \<le> unat (v - 0x3FB000) \<longrightarrow>
       (let a = ef_memory f + p_offset (mem s) (phdr i) + (v - p_vaddr (mem s) (phdr i))
        in page_walk m (load32 m c) v = Inr a \<and>
           user_walk m (load32 m c) v = (if p_flags (mem s) (phdr i) AND PF_W \<noteq> 0 then Inr a else Inl (BadPointer v)))) \<and>
    (\<forall>v. unat (v - 0x3FB000) < 16384 \<longrightarrow> user_walk m (load32 m c) v = Inr (proc_stack p + (v - 0x3FB000))) \<and>
    (\<forall>w. 4096 dvd unat w \<longrightarrow> 16384 \<le> unat (w - 0x3FB000) \<longrightarrow> (\<forall>j < num. \<not> segment_covers (mem s) (phdr j) w) \<longrightarrow>
       paging_get m (load32 m c) w = paging_get (mem s) (load32 (mem s) c) w)"
proof -
  have ok: "kheap_ok s" "kheap_low s" and own: "\<forall>q \<in> chunk_pages (mem s) c. live s q = Some 1" using u(1) by (simp_all add: user_ok_def)
  obtain m where m: "process_map_memory process s = Inr (0, s\<lparr>mem := m\<rparr>)" "live (s\<lparr>mem := m\<rparr>) = live s"
    "user_ok process p c (s\<lparr>mem := m\<rparr>)" "user_dir c m"
    and E: "\<forall>w. 4096 dvd unat w \<longrightarrow> paging_get m (load32 m c) w =
      (if unat (w - 0x3FB000) < 16384 then (proc_stack p + (w - 0x3FB000)) OR 7
       else elf_entry (mem s) f (elf_pheader (mem s) (ef_memory f)) 0 num (paging_get (mem s) (load32 (mem s) c) w) w)"
    using map_memory_elf [OF u(1) e im st] u(2) unfolding num_def by blast
  have d: "low_dir_ok (load32 m c) m" "\<forall>i<1024. load32 m (slot (load32 m c) i) AND 7 = 7"
    using m(3,4) by (simp_all add: user_ok_def chunk_ok_def user_dir_def)
  have ph: "phdr i = elf_pheader (mem s) (ef_memory f) + 32 * of_nat (0 + i)" for i by (simp add: phdr_def elf_program_header_def)
  have al: "4096 dvd unat (0x3FB000 :: u32)" by simp
  have st_in: "unat (page_of v - 0x3FB000) < 16384 \<longleftrightarrow> unat (v - 0x3FB000) < 16384" for v
    using page_in_run(1) [OF al, of v 4] by simp
  have stack: "user_walk m (load32 m c) v = Inr (proc_stack p + (v - 0x3FB000))" if v: "unat (v - 0x3FB000) < 16384" for v
    using walk_run(2) [OF d _ _ live_page_aligned [OF ok(1) st] al, of v 7] E page_of_address(1) [of v] v st_in [of v] by simp
  have seg: "page_walk m (load32 m c) v = Inr (elf_phdr_phys_addr (mem s) f (phdr i) + (v - p_vaddr (mem s) (phdr i))) \<and>
      user_walk m (load32 m c) v = (if p_flags (mem s) (phdr i) AND PF_W \<noteq> 0
        then Inr (elf_phdr_phys_addr (mem s) f (phdr i) + (v - p_vaddr (mem s) (phdr i))) else Inl (BadPointer v))"
    if i: "i < num" and v: "unat (v - p_vaddr (mem s) (phdr i)) < unat (p_memsz (mem s) (phdr i))"
      and last: "\<forall>j < num. i < j \<longrightarrow> \<not> segment_covers (mem s) (phdr j) (page_of v)" and ns: "16384 \<le> unat (v - 0x3FB000)" for i v
  proof -
    have S: "segment_ok (mem s) f (chunk_pages (mem s) c) (phdr i)"
      using image_segment [OF ok own im] i unfolding phdr_def num_def by blast
    have c: "segment_covers (mem s) (phdr i) (page_of v)" by (rule segment_byte [OF S v])
    have "paging_get m (load32 m c) (page_of v) = segment_entry (mem s) f (phdr i) (page_of v)"
      using E page_of_address(1) [of v] st_in [of v] ns elf_entry_covered [OF i, of "mem s" _ 0] c last unfolding ph by simp
    from segment_walk [OF d this S] show ?thesis .
  qed
  have "paging_get m (load32 m c) w = paging_get (mem s) (load32 (mem s) c) w"
    if "4096 dvd unat w" "16384 \<le> unat (w - 0x3FB000)" "\<forall>j < num. \<not> segment_covers (mem s) (phdr j) w" for w
    using E that elf_entry_last [of num "mem s" _ 0 w] unfolding ph by simp
  then show ?thesis
    using m(1,2) seg stack unfolding Let_def elf_phdr_phys_addr_def elf_memory_def by (intro exI [of _ m]) blast
qed

section \<open>An example\<close>

text \<open>A file with two segments: 256 bytes of code at \<open>0x400000\<close>, 128 bytes of data at \<open>0x401200\<close>.\<close>

definition demo_file :: "u8 list" where
  "demo_file = replicate 28 0 @ [52, 0, 0, 0] @ replicate 12 0 @ [2, 0] @ replicate 6 0 @
     [1, 0, 0, 0,  0, 0, 0, 0,  0, 0, 0x40, 0,  0, 0, 0, 0,  0, 1, 0, 0,  0, 1, 0, 0,  5, 0, 0, 0,  0, 0, 0, 0] @
     [1, 0, 0, 0,  0, 2, 0, 0,  0, 0x12, 0x40, 0,  0, 0, 0, 0,  0x80, 0, 0, 0,  0x80, 0, 0, 0,  6, 0, 0, 0,  0, 0, 0, 0]"

lemma load32_file:
  assumes "k + 4 \<le> length bs" and "length bs \<le> 4096"
  shows "load32 (store_bytes m q bs) (q + of_nat k) = load32 (store_bytes (\<lambda>x. 0) 0 bs) (of_nat k)"
proof -
  have b: "store_bytes m q bs (q + of_nat j) = bs ! j" "store_bytes (\<lambda>x. 0) 0 bs (of_nat j) = bs ! j" if "j < length bs" for j
    using that assms(2) store_bytes_nth [of j bs "\<lambda>x. 0" 0] by simp_all
  have c: "store_bytes m q bs (q + of_nat (k + i)) = store_bytes (\<lambda>x. 0) 0 bs (of_nat (k + i))" if "i < 4" for i
    using b [of "k + i"] that assms(1) by simp
  from c [of 0] c [of 1] c [of 2] c [of 3] show ?thesis
    unfolding load32_def by (simp_all only: of_nat_add of_nat_0 of_nat_1 of_nat_numeral add.assoc add_0_right)
qed

lemma demo_file_fields:
  fixes m :: byte_mem and q :: u32
  defines "m' \<equiv> store_bytes m q demo_file"
  shows "e_phoff m' q = 52" and "e_phnum m' q = 2"
    and "elf_program_header m' q 0 = q + 52" and "elf_program_header m' q 1 = q + 84"
    and "p_offset m' (q + 52) = 0" and "p_vaddr m' (q + 52) = 0x400000" and "p_memsz m' (q + 52) = 256" and "p_flags m' (q + 52) = 5"
    and "p_offset m' (q + 84) = 0x200" and "p_vaddr m' (q + 84) = 0x401200" and "p_memsz m' (q + 84) = 128" and "p_flags m' (q + 84) = 6"
proof -
  let ?z = "store_bytes (\<lambda>x. 0) 0 demo_file"
  have n: "length demo_file = 116" by (simp add: demo_file_def)
  have l: "load32 m' (q + of_nat k) = load32 ?z (of_nat k)" if "k + 4 \<le> 116" for k
    unfolding m'_def using that n by (intro load32_file) simp_all
  have z: "load32 ?z 28 = 52" "load32 ?z 56 = 0" "load32 ?z 60 = 0x400000" "load32 ?z 72 = 256" "load32 ?z 76 = 5"
    "load32 ?z 88 = 0x200" "load32 ?z 92 = 0x401200" "load32 ?z 104 = 128" "load32 ?z 108 = 6"
    by (simp_all add: load32_def store_bytes_def demo_file_def nth_append)
  show "e_phoff m' q = 52" using l [of 28] z by (simp add: e_phoff_def)
  show "p_offset m' (q + 52) = 0" "p_vaddr m' (q + 52) = 0x400000" "p_memsz m' (q + 52) = 256" "p_flags m' (q + 52) = 5"
    "p_offset m' (q + 84) = 0x200" "p_vaddr m' (q + 84) = 0x401200" "p_memsz m' (q + 84) = 128" "p_flags m' (q + 84) = 6"
    using l [of 56] l [of 60] l [of 72] l [of 76] l [of 88] l [of 92] l [of 104] l [of 108] z
    by (simp_all add: p_offset_def p_vaddr_def p_memsz_def p_flags_def add.assoc)
  have "m' (q + of_nat 44) = 2" "m' (q + of_nat 45) = 0"
    unfolding m'_def using n by (subst store_bytes_nth, simp, simp, simp add: demo_file_def nth_append)+
  then show "e_phnum m' q = 2" by (simp add: e_phnum_def load16_def add.assoc)
  show "elf_program_header m' q 0 = q + 52" "elf_program_header m' q 1 = q + 84"
    using l [of 28] z by (simp_all add: elf_program_header_def elf_pheader_def e_phoff_def)
qed

lemma all_less_2: "(\<forall>i < 2 :: nat. Q i) \<longleftrightarrow> Q 0 \<and> Q 1"
  by (auto simp: less_2_cases_iff)

text \<open>The program that was launched last is given this file instead of its flat image.\<close>

lemma demo_elf_process:
  obtains p c f m and s :: kernel where "user_ok 0x5000 p c s" "user_dir c (mem s)" "proc_filetype p = PROCESS_FILETYPE_ELF"
    "elf_files s (proc_ptr p) = Some f" "live s (proc_stack p) = Some 4" "elf_image s c f 1"
    "mem s = store_bytes m (ef_memory f) demo_file"
proof -
  obtain b k t P and s :: kernel where l: "running [t] P s" "process_of s t = 0x5000"
    "P t = demo_process\<lparr>proc_ptr := b, proc_stack := k, proc_task := t\<rparr>" "kheap_spare s = 24568" using demo_launched by metis
  define c where "c = directory_of s t"
  have iso: "isolated [t] P s" using l(1) by (simp add: running_def)
  then have cf: "live s (proc_stack (P t)) = Some 4" "user_dir c (mem s)" by (simp_all add: isolated_def confined_def c_def)
  have u: "user_ok 0x5000 (P t) c s" using user_of_confined [OF iso, of t] l(2) by (simp add: c_def)
  have fs: "0 < free_slots (P t)" by (simp add: free_slots_def l(3) demo_process_simps c_defs)
  have sz: "(4096 :: u32) \<noteq> 0" "unat (4096 :: u32) \<le> 4096" "0 < kheap_spare s" using l(4) by simp_all
  from malloc_page [OF u sz fs] obtain q as and s1 :: kernel where m: "live s1 q = Some 1" "q \<notin> chunk_pages (mem s1) c"
    "user_ok 0x5000 ((P t)\<lparr>proc_allocations := as\<rparr>) c s1" "preserves {} c s s1" by blast
  define mm where "mm = store_bytes (mem s1) q demo_file"
  have n: "length demo_file = 116" by (simp add: demo_file_def)
  have w: "\<forall>a. 4096 * 1 \<le> unat (a - q) \<longrightarrow> mm a = mem s1 a" unfolding mm_def using n by (auto intro: store_bytes_outside)
  note W = user_ok_write [OF m(3,1,2) w]
  define f where "f = \<lparr>in_memory_size = 0, ef_memory = q, virtual_base_address = 0, virtual_end_address = 0,
      physical_base_address = 0, physical_end_address = 0\<rparr>"
  define p where "p = (P t)\<lparr>proc_allocations := as, proc_filetype := PROCESS_FILETYPE_ELF, proc_ptr := 0x7000\<rparr>"
  define s3 where "s3 = put_process 0x5000 p (s1\<lparr>mem := mm, elf_files := (elf_files s1)(0x7000 \<mapsto> f)\<rparr>)"
  have mem3: "mem s3 = mm" by (simp add: s3_def put_process_def)
  have live3: "live s3 = live s1" using W(2) same_heap(1) [of s3 "s1\<lparr>mem := mm\<rparr>"] by (simp add: s3_def put_process_def)
  have "process_chunk p s3 = process_chunk ((P t)\<lparr>proc_allocations := as\<rparr>) s1"
    by (simp add: process_chunk_def deref_def s3_def put_process_def p_def)
  then have "user_ok 0x5000 p c s3"
    using W(1) m(3) by (simp add: user_ok_def live3 mem3 W(2,4)) (simp add: s3_def put_process_def p_def kheap_low_def)
  moreover have "user_dir c (mem s3)" unfolding mem3 W(5) using preserves_pages(2) [OF m(4)] cf(2) by simp
  moreover have "elf_files s3 (proc_ptr p) = Some f" "proc_filetype p = PROCESS_FILETYPE_ELF" "proc_stack p = proc_stack (P t)"
    by (simp_all add: s3_def put_process_def p_def)
  moreover have "live s3 (proc_stack p) = Some 4" using preservesD(1) [OF m(4) cf(1)] calculation(5) by (simp add: live3)
  moreover have "elf_image s3 c f 1"
    using m(1,2) demo_file_fields [of "mem s1" q, folded mm_def]
    by (simp add: elf_image_def live3 mem3 W(4) f_def all_less_2 Let_def del: One_nat_def)
  moreover have "mem s3 = store_bytes (mem s1) (ef_memory f) demo_file" by (simp add: mem3 mm_def f_def)
  ultimately show thesis by (intro that [of p c s3 f "mem s1"])
qed

theorem process_map_memory_elf_witness:
  "\<exists>(s :: kernel) q d m. process_map_memory 0x5000 s = Inr (0, s\<lparr>mem := m\<rparr>) \<and>
     user_walk m d 0x401210 = Inr (q + 0x210) \<and> page_walk m d 0x400010 = Inr (q + 0x10) \<and>
     user_walk m d 0x400010 = Inl (BadPointer 0x400010)"
proof -
  obtain p c f m0 and s :: kernel where d: "user_ok 0x5000 p c s" "user_dir c (mem s)" "proc_filetype p = PROCESS_FILETYPE_ELF"
    "elf_files s (proc_ptr p) = Some f" "live s (proc_stack p) = Some 4" "elf_image s c f 1"
    "mem s = store_bytes m0 (ef_memory f) demo_file" by (rule demo_elf_process)
  note F = demo_file_fields [of m0 "ef_memory f", folded d(7)]
  have n: "unat (e_phnum (mem s) (ef_memory f)) = 2" by (simp add: F)
  obtain m where m: "process_map_memory 0x5000 s = Inr (0, s\<lparr>mem := m\<rparr>)"
    and S: "\<forall>i v. i < 2 \<longrightarrow> unat (v - p_vaddr (mem s) (elf_program_header (mem s) (ef_memory f) i))
        < unat (p_memsz (mem s) (elf_program_header (mem s) (ef_memory f) i)) \<longrightarrow>
      (\<forall>j < 2. i < j \<longrightarrow> \<not> segment_covers (mem s) (elf_program_header (mem s) (ef_memory f) j) (v - v mod 4096)) \<longrightarrow>
      16384 \<le> unat (v - 0x3FB000) \<longrightarrow>
      (let a = ef_memory f + p_offset (mem s) (elf_program_header (mem s) (ef_memory f) i) +
           (v - p_vaddr (mem s) (elf_program_header (mem s) (ef_memory f) i))
       in page_walk m (load32 m c) v = Inr a \<and>
          user_walk m (load32 m c) v = (if p_flags (mem s) (elf_program_header (mem s) (ef_memory f) i) AND PF_W \<noteq> 0
            then Inr a else Inl (BadPointer v)))"
    using process_map_memory_elf [OF d(1-4,6,5), unfolded n] by blast
  have "segment_pages (mem s) (ef_memory f + 84) = 1" by (simp add: segment_pages_def F blocks_for_def)
  then have "\<not> segment_covers (mem s) (ef_memory f + 84) 0x400000" by (simp add: segment_covers_def F)
  then have "user_walk m (load32 m c) 0x401210 = Inr (ef_memory f + 0x210)"
    "page_walk m (load32 m c) 0x400010 = Inr (ef_memory f + 0x10)" "user_walk m (load32 m c) 0x400010 = Inl (BadPointer 0x400010)"
    using S [rule_format, of 1 "0x401210"] S [rule_format, of 0 "0x400010"]
    by (auto simp: F F [unfolded One_nat_def] less_2_cases_iff PF_W_def Let_def)
  with m show ?thesis by blast
qed

end
