(* ===== verification/Fat16_Read.thy ===== *)
theory Fat16_Read
  imports Fat16_Props
begin

text \<open>
  Reading along the chain of clusters. A read is made of pieces of at most a cluster; for each the driver
  follows the file allocation table from the first cluster again, and looks its entries up at the wrong place.
\<close>

unbundle bit_operations_syntax

section \<open>The chain of a file\<close>

text \<open>
  The chain as FAT16 defines it: the entry of cluster \<open>c\<close> is the 16-bit number \<open>2 * c\<close> bytes into the table, which
  begins after the reserved sectors; from \<open>0xFFF8\<close> on it marks the end of the chain, \<open>0xFFF7\<close> a bad cluster, the
  numbers from \<open>0xFFF0\<close> on and 1 are reserved and 0 is a free cluster.
\<close>

definition fat_entry :: "(nat \<Rightarrow> u8) \<Rightarrow> fat_private \<Rightarrow> int \<Rightarrow> int" where
  "fat_entry img p c =
     (let q = nat (512 * reserved_sectors p + 2 * c) in uint (img q) + 256 * uint (img (q + 1)))"

fun fat_chain :: "(nat \<Rightarrow> u8) \<Rightarrow> fat_private \<Rightarrow> int \<Rightarrow> nat \<Rightarrow> int option" where
  "fat_chain img p c 0 = Some c"
| "fat_chain img p c (Suc n) =
     (let e = fat_entry img p c in if 2 \<le> e \<and> e < 0xFFF0 then fat_chain img p e n else None)"

text \<open>
  The cluster after \<open>c\<close> that the driver finds: the number at \<open>entry_position\<close>, where it multiplies instead of adding,
  and none at the marks it knows, those of FAT12.
\<close>

definition driver_next :: "(nat \<Rightarrow> u8) \<Rightarrow> fat_private \<Rightarrow> int \<Rightarrow> int option" where
  "driver_next img p c =
     (let q = nat (entry_position p c);
          entry = uint (img q) + 256 * uint (img (q + 1))
      in if entry \<in> {0xFF8, 0xFFF, 0xFF7, 0xFF0, 0xFF6, 0} then None else Some entry)"

fun driver_chain :: "(nat \<Rightarrow> u8) \<Rightarrow> fat_private \<Rightarrow> int \<Rightarrow> nat \<Rightarrow> int option" where
  "driver_chain img p c 0 = Some c"
| "driver_chain img p c (Suc n) = (case driver_next img p c of None \<Rightarrow> None | Some c' \<Rightarrow> driver_chain img p c' n)"

definition cluster_size :: "fat_private \<Rightarrow> nat" where
  "cluster_size p = nat (512 * sectors_per_cluster p)"

text \<open>Byte \<open>x\<close> of the file that starts at cluster \<open>c\<close>, by the FAT.\<close>

definition file_byte :: "(nat \<Rightarrow> u8) \<Rightarrow> fat_private \<Rightarrow> int \<Rightarrow> nat \<Rightarrow> u8" where
  "file_byte img p c x = (case fat_chain img p c (x div cluster_size p) of
     None \<Rightarrow> 0 | Some c' \<Rightarrow> img (nat (cluster_byte p c') + x mod cluster_size p))"

text \<open>
  Byte \<open>k\<close> of a read at \<open>off\<close>, by the driver: every piece starts as far into its cluster as the first one and runs over
  the end of the cluster, into the next sectors of the disk.
\<close>

definition piece_byte :: "(nat \<Rightarrow> u8) \<Rightarrow> fat_private \<Rightarrow> int \<Rightarrow> nat \<Rightarrow> nat \<Rightarrow> u8" where
  "piece_byte img p c off k = (case driver_chain img p c (off div cluster_size p + k div cluster_size p) of
     None \<Rightarrow> 0 | Some c' \<Rightarrow> img (nat (cluster_byte p c') + off mod cluster_size p + k mod cluster_size p))"

text \<open>The first \<open>n + 1\<close> clusters the driver finds and the places of their entries lie on the part of the disk an \<open>int\<close> reaches.\<close>

definition chain_on_disk :: "(nat \<Rightarrow> u8) \<Rightarrow> fat_private \<Rightarrow> int \<Rightarrow> nat \<Rightarrow> bool" where
  "chain_on_disk img p c n \<longleftrightarrow> (\<forall>j \<le> n. \<forall>c'. driver_chain img p c j = Some c' \<longrightarrow> entry_position p c' + 2 < 33554432 \<and>
     0 \<le> cluster_byte p c' \<and> cluster_byte p c' + 2 * int (cluster_size p) < 33554432)"

definition disk_open :: "platform \<Rightarrow> (nat \<Rightarrow> u8) \<Rightarrow> disk \<Rightarrow> fat_private \<Rightarrow> 'a fat_volumes_scheme \<Rightarrow> bool" where
  "disk_open pl img d p s \<longleftrightarrow> fat_privates s (disk_fs_private d) = Some p \<and> disk_sector_size d = 512 \<and>
     fat_read_stream p \<noteq> 0 \<and> stream_ok pl img (fat_read_stream p) s \<and> stream_ok pl img (cluster_read_stream p) s \<and>
     0 < sectors_per_cluster p"

lemma disk_open_streams: "disk_open pl img d p s \<Longrightarrow> streams_only s t \<Longrightarrow> disk_open pl img d p t"
  using streams_only_ok [of pl img _ s t] by (auto simp: disk_open_def streams_only_def)

lemma stream_ok_mem [simp]: "stream_ok pl img a (s\<lparr>mem := m\<rparr>) = stream_ok pl img a s"
  by (simp add: stream_ok_def)

lemma disk_open_mem [simp]: "disk_open pl img d p (s\<lparr>mem := m\<rparr>) = disk_open pl img d p s"
  by (simp add: disk_open_def)

lemma chain_before: "driver_chain img p c n \<noteq> None \<Longrightarrow> j \<le> n \<Longrightarrow> driver_chain img p c j \<noteq> None"
proof (induction n arbitrary: c j)
  case (Suc n)
  then show ?case by (cases j) (auto split: option.splits)
qed simp

lemma driver_next_nonneg: "driver_next img p c = Some c' \<Longrightarrow> 0 \<le> c'"
  by (auto simp: driver_next_def Let_def split: if_splits)

lemma chain_nonneg: "0 \<le> c \<Longrightarrow> driver_chain img p c n = Some c' \<Longrightarrow> 0 \<le> c'"
proof (induction n arbitrary: c)
  case (Suc n)
  then show ?case using driver_next_nonneg [of img p c] by (auto split: option.splits)
qed simp

lemma chain_on_disk_Suc:
  assumes "chain_on_disk img p c (Suc n)" and "driver_next img p c = Some c'"
  shows "chain_on_disk img p c' n"
  unfolding chain_on_disk_def
proof (intro allI impI)
  fix j e
  assume "j \<le> n" "driver_chain img p c' j = Some e"
  then have "Suc j \<le> Suc n" "driver_chain img p c (Suc j) = Some e" using assms(2) by simp_all
  then show "entry_position p e + 2 < 33554432 \<and> 0 \<le> cluster_byte p e \<and> cluster_byte p e + 2 * int (cluster_size p) < 33554432"
    using assms(1) unfolding chain_on_disk_def by blast
qed

lemma chain_on_disk_le: "chain_on_disk img p c n \<Longrightarrow> j \<le> n \<Longrightarrow> chain_on_disk img p c j"
  unfolding chain_on_disk_def by (meson order_trans)

section \<open>Following the chain\<close>

lemma follow_chain:
  assumes "disk_open pl img d p s" and "0 \<le> c" and "chain_on_disk img p c n"
  shows "\<exists>t. follow_clusters pl d n c s = Inr (case driver_chain img p c n of None \<Rightarrow> - EIO | Some c' \<Rightarrow> c', t) \<and> streams_only s t"
  using assms
proof (induction n arbitrary: c s)
  case 0
  show ?case unfolding follow_clusters.simps driver_chain.simps option.case
    by (intro exI [of _ s]) (auto simp: streams_only_def intro!: exI [of _ "streams s"])
next
  case (Suc n)
  let ?e = "uint (img (nat (entry_position p c))) + 256 * uint (img (nat (entry_position p c) + 1))"
  have lim: "entry_position p c + 2 < 33554432" using Suc.prems(3) unfolding chain_on_disk_def by force
  obtain t where t: "fat16_get_fat_entry pl d c s = Inr (?e, t)" "streams_only s t"
    using fat_entry_read [OF _ _ _ _ Suc.prems(2) lim, of pl img s d] Suc.prems(1) unfolding disk_open_def by blast
  show ?case
  proof (cases "driver_next img p c")
    case None
    then have "?e \<in> {0xFF8, 0xFFF, 0xFF7, 0xFF0, 0xFF6, 0}" by (auto simp: driver_next_def Let_def split: if_splits)
    then show ?thesis using t None by (intro exI [of _ t]) (auto simp: SLOBOS_FAT16_BAD_SECTOR_def)
  next
    case (Some c')
    then have e: "?e = c'" "?e \<notin> {0xFF8, 0xFFF, 0xFF7, 0xFF0, 0xFF6, 0}"
      by (auto simp: driver_next_def Let_def split: if_splits)
    obtain u where u: "follow_clusters pl d n c' t = Inr (case driver_chain img p c' n of None \<Rightarrow> - EIO | Some c' \<Rightarrow> c', u)" "streams_only t u"
      using Suc.IH [OF disk_open_streams [OF Suc.prems(1) t(2)] driver_next_nonneg [OF Some]
          chain_on_disk_Suc [OF Suc.prems(3) Some]] by blast
    have "follow_clusters pl d (Suc n) c s = follow_clusters pl d n c' t"
      using t(1) e by (simp add: SLOBOS_FAT16_BAD_SECTOR_def)
    then show ?thesis using u streams_only_trans [OF t(2) u(2)] Some by (intro exI [of _ u]) simp
  qed
qed


section \<open>A read is made of pieces\<close>

lemma cluster_size_int: "int (cluster_size p) = 512 * sectors_per_cluster p"
  using sectors_per_cluster_bounds [of p] by (simp add: cluster_size_def)

lemma piece_read:
  fixes out :: u32
  assumes D: "disk_open pl img d p s" and c: "0 \<le> c" and R: "chain_on_disk img p c (off div cluster_size p)"
  shows "\<exists>t. streams_only s t \<and> read_piece pl d (cluster_read_stream p) c (int off) (int n) out s =
    Inr (case driver_chain img p c (off div cluster_size p) of None \<Rightarrow> (- EIO, 0, t)
      | Some c' \<Rightarrow> (0, int (min n (cluster_size p)), t\<lparr>mem := store_bytes (mem s) out
          (map img [nat (cluster_byte p c') + off mod cluster_size p..<
                    nat (cluster_byte p c') + off mod cluster_size p + min n (cluster_size p)])\<rparr>))"
proof -
  let ?b = "cluster_size p"
  have d: "fat_privates s (disk_fs_private d) = Some p" "disk_sector_size d = 512" "0 < sectors_per_cluster p"
    using D by (simp_all add: disk_open_def)
  have b: "0 < ?b" "int ?b = 512 * sectors_per_cluster p" using d(3) cluster_size_int [of p] by simp_all
  have q: "nat (int off sdiv int ?b) = off div ?b"
    using sdiv_smod_nonneg(1) [of "int off" "int ?b"] b(1) by (simp only: of_nat_div [symmetric] nat_int of_nat_0_le_iff of_nat_0_less_iff)
  obtain t where t: "follow_clusters pl d (off div ?b) c s =
      Inr (case driver_chain img p c (off div ?b) of None \<Rightarrow> - EIO | Some c' \<Rightarrow> c', t)" "streams_only s t"
    using follow_chain [OF D c R] by blast
  have find: "fat16_get_cluster_for_offset pl d c (int off) s =
      Inr (case driver_chain img p c (off div ?b) of None \<Rightarrow> - EIO | Some c' \<Rightarrow> c', t)"
    using t(1) d(3) q by (simp add: fat16_get_cluster_for_offset_def deref_def d(1) size_of_cluster [OF d(2)] b(2))
  show ?thesis
  proof (cases "driver_chain img p c (off div ?b)")
    case None
    then show ?thesis using t(2) find
      by (intro exI [of _ t]) (simp add: read_piece_def deref_def d(1) Let_def EIO_def)
  next
    case (Some c')
    have c': "0 \<le> c'" by (rule chain_nonneg [OF c Some])
    let ?x = "cluster_byte p c' + int off mod int ?b"
    have r: "0 \<le> cluster_byte p c'" "cluster_byte p c' + 2 * int ?b < 33554432"
      using R Some unfolding chain_on_disk_def by blast+
    have x: "?x + int (min n ?b) < 33554432" using r b(1) pos_mod_bound [of "int ?b" "int off"] by linarith
    have st: "stream_ok pl img (cluster_read_stream p) t"
      using disk_open_streams [OF D t(2)] by (simp add: disk_open_def)
    have "\<exists>u. streams_only t u \<and> read_piece pl d (cluster_read_stream p) c (int off) (int n) out s =
        Inr (0, int (min n ?b), u\<lparr>mem := store_bytes (mem t) out (map img [nat ?x..<nat (?x + int (min n ?b))])\<rparr>)"
      by (rule read_piece_in_cluster [OF d find [unfolded Some option.case] st _ _ _ c' r(1) _ x]) (simp_all add: b(2) [symmetric])
    then obtain u where u: "streams_only t u" "read_piece pl d (cluster_read_stream p) c (int off) (int n) out s =
        Inr (0, int (min n ?b), u\<lparr>mem := store_bytes (mem t) out (map img [nat ?x..<nat (?x + int (min n ?b))])\<rparr>)"
      by blast
    have n: "nat ?x = nat (cluster_byte p c') + off mod ?b" "nat (?x + int (min n ?b)) = nat (cluster_byte p c') + off mod ?b + min n ?b"
      using r(1) by (simp_all add: nat_add_distrib flip: of_nat_mod)
    have m: "mem t = mem s" using t(2) by (auto simp: streams_only_def)
    show ?thesis
      using u(2) streams_only_trans [OF t(2) u(1)] unfolding n m Some option.case by (intro exI [of _ u]) simp
  qed
qed


lemma piece_byte_first:
  assumes "driver_chain img p c (off div cluster_size p) = Some c'" and "k \<le> cluster_size p"
  shows "map img [nat (cluster_byte p c') + off mod cluster_size p..<nat (cluster_byte p c') + off mod cluster_size p + k] =
    map (piece_byte img p c off) [0..<k]"
  using assms by (intro nth_equalityI) (simp_all add: piece_byte_def)

lemma piece_byte_next:
  assumes "0 < cluster_size p"
  shows "piece_byte img p c (off + cluster_size p) k = piece_byte img p c off (cluster_size p + k)"
proof -
  have "(off + cluster_size p) div cluster_size p + k div cluster_size p = off div cluster_size p + (cluster_size p + k) div cluster_size p"
    using assms by (simp add: div_add_self1 div_add_self2)
  then show ?thesis unfolding piece_byte_def by (simp only: mod_add_self1 mod_add_self2)
qed

text \<open>The cluster of the last piece.\<close>

abbreviation last_piece :: "fat_private \<Rightarrow> nat \<Rightarrow> nat \<Rightarrow> nat" where
  "last_piece p off n \<equiv> off div cluster_size p + (n - 1) div cluster_size p"

lemma read_pieces:
  assumes "disk_open pl img d p s" and "0 \<le> c" and "chain_on_disk img p c (last_piece p off n)"
    and "driver_chain img p c (last_piece p off n) \<noteq> None" and "n < 2147483648"
  shows "\<exists>t. streams_only s t \<and> fat16_read_internal_from_stream pl d (cluster_read_stream p) c (int off) (int n) out s =
    Some (Inr (0, t\<lparr>mem := store_bytes (mem s) out (map (piece_byte img p c off) [0..<n])\<rparr>))"
  using assms
proof (induction n arbitrary: off out s rule: less_induct)
  case (less n)
  let ?b = "cluster_size p"
  have b: "0 < ?b" using less.prems(1) cluster_size_int [of p] by (simp add: disk_open_def)
  obtain c' where c': "driver_chain img p c (off div ?b) = Some c'"
    using chain_before [OF less.prems(4), of "off div ?b"] by auto
  obtain t where t: "streams_only s t" "read_piece pl d (cluster_read_stream p) c (int off) (int n) out s =
      Inr (0, int (min n ?b), t\<lparr>mem := store_bytes (mem s) out (map (piece_byte img p c off) [0..<min n ?b])\<rparr>)"
    using piece_read [OF less.prems(1,2) chain_on_disk_le [OF less.prems(3)], of off n out] c'
    by (auto simp: piece_byte_first [OF c'])
  show ?case
  proof (cases "n \<le> ?b")
    case True
    then show ?thesis using t
      by (intro exI [of _ t]) (simp add: fat16_read_internal_from_stream.simps SLOBOS_ALL_OK_def min_absorb1)
  next
    case False
    let ?s = "t\<lparr>mem := store_bytes (mem s) out (map (piece_byte img p c off) [0..<?b])\<rparr>"
    have k: "n - 1 = ?b + (n - ?b - 1)" using False by simp
    have l: "last_piece p (off + ?b) (n - ?b) = last_piece p off n"
      unfolding k using b by (simp add: div_add_self1 div_add_self2)
    have small: "n - ?b < n" "n - ?b < 2147483648" using less.prems(5) False b by linarith+
    have D: "disk_open pl img d p ?s" using disk_open_streams [OF less.prems(1) t(1)] by simp
    obtain u where u: "streams_only ?s u"
      "fat16_read_internal_from_stream pl d (cluster_read_stream p) c (int (off + ?b)) (int (n - ?b)) (out + of_nat ?b) ?s =
        Some (Inr (0, u\<lparr>mem := store_bytes (mem ?s) (out + of_nat ?b) (map (piece_byte img p c (off + ?b)) [0..<n - ?b])\<rparr>))"
      using less.IH [OF _ D less.prems(2), of "n - ?b" "off + ?b" "out + of_nat ?b", unfolded l, OF small(1) less.prems(3,4) small(2)]
      by blast
    have a: "store_bytes (mem ?s) (out + of_nat ?b) (map (piece_byte img p c (off + ?b)) [0..<n - ?b]) =
        store_bytes (mem s) out (map (piece_byte img p c off) [0..<n])"
    proof -
      have "map (piece_byte img p c off) [0..<n] =
          map (piece_byte img p c off) [0..<?b] @ map (piece_byte img p c (off + ?b)) [0..<n - ?b]"
        using False b by (intro nth_equalityI) (auto simp: nth_append piece_byte_next)
      then show ?thesis
        using store_bytes_append [of "map (piece_byte img p c off) [0..<?b]" "map (piece_byte img p c (off + ?b)) [0..<n - ?b]" "mem s" out]
          False less.prems(5) by simp
    qed
    obtain g where g: "u = ?s\<lparr>streams := g\<rparr>" "streams_only t (t\<lparr>streams := g\<rparr>)" using u(1) by (auto simp: streams_only_def)
    have m: "min n ?b = ?b" "int n - int ?b = int (n - ?b)" "int off + int ?b = int (off + ?b)" "0 < int (n - ?b)"
      using False by (simp_all add: of_nat_diff)
    have "fat16_read_internal_from_stream pl d (cluster_read_stream p) c (int off) (int n) out s =
        fat16_read_internal_from_stream pl d (cluster_read_stream p) c (int (off + ?b)) (int (n - ?b)) (out + of_nat ?b) ?s"
      unfolding fat16_read_internal_from_stream.simps [of pl d "cluster_read_stream p" c "int off" "int n" out s]
        t(2) sum.case prod.case m of_int_of_nat_eq SLOBOS_ALL_OK_def
      using m(4) by (simp only: refl not_True_eq_False if_False if_True)
    then have e: "fat16_read_internal_from_stream pl d (cluster_read_stream p) c (int off) (int n) out s =
        Some (Inr (0, u\<lparr>mem := store_bytes (mem s) out (map (piece_byte img p c off) [0..<n])\<rparr>))"
      unfolding u(2) a .
    show ?thesis
    proof (intro exI conjI)
      show "streams_only s (t\<lparr>streams := g\<rparr>)" by (rule streams_only_trans [OF t(1) g(2)])
      show "fat16_read_internal_from_stream pl d (cluster_read_stream p) c (int off) (int n) out s =
          Some (Inr (0, t\<lparr>streams := g\<rparr>\<lparr>mem := store_bytes (mem s) out (map (piece_byte img p c off) [0..<n])\<rparr>))"
        unfolding e g(1) by simp
    qed
  qed
qed


section \<open>Reading a file\<close>

text \<open>Byte \<open>i\<close> of a read of members of \<open>sz\<close> bytes at \<open>off\<close>.\<close>

definition member_byte :: "(nat \<Rightarrow> u8) \<Rightarrow> fat_private \<Rightarrow> int \<Rightarrow> nat \<Rightarrow> nat \<Rightarrow> nat \<Rightarrow> u8" where
  "member_byte img p c off sz i = piece_byte img p c (off + sz * (i div sz)) (i mod sz)"

text \<open>The bytes of the directory item that hold its first cluster are not among the \<open>n\<close> bytes at \<open>out\<close>.\<close>

definition item_apart :: "u32 \<Rightarrow> u32 \<Rightarrow> nat \<Rightarrow> bool" where
  "item_apart item out n \<longleftrightarrow> n \<le> unat (item + 20 - out) \<and> n \<le> unat (item + 21 - out) \<and>
     n \<le> unat (item + 26 - out) \<and> n \<le> unat (item + 27 - out)"

lemma first_cluster_kept:
  assumes "item_apart item out n" and "length bs \<le> n"
  shows "fat16_get_first_cluster (store_bytes m out bs) item = fat16_get_first_cluster m item"
proof -
  have "store_bytes m out bs (item + j) = m (item + j)" if "j \<in> {20, 21, 26, 27}" for j
    using assms that unfolding item_apart_def by (intro store_bytes_outside) auto
  then show ?thesis by (simp add: fat16_get_first_cluster_def load16_def add.assoc)
qed

lemma item_apart_next:
  assumes "item_apart item out (Suc n * unat sz)"
  shows "item_apart item (out + sz) (n * unat sz)"
proof -
  have "n * unat sz \<le> unat (x - (out + sz))" if "Suc n * unat sz \<le> unat (x - out)" for x :: u32
  proof -
    have "unat (x - out - sz) = unat (x - out) - unat sz" using that by (intro unat_sub) (simp add: word_le_nat_alt)
    then show ?thesis using that by (simp add: diff_diff_add)
  qed
  then show ?thesis using assms unfolding item_apart_def by blast
qed

lemma member_bytes_Suc:
  assumes "0 < sz"
  shows "map (member_byte img p c off sz) [0..<Suc n * sz] =
    map (piece_byte img p c off) [0..<sz] @ map (member_byte img p c (off + sz) sz) [0..<n * sz]"
proof (intro nth_equalityI)
  fix i
  assume "i < length (map (member_byte img p c off sz) [0..<Suc n * sz])"
  then have i: "i < sz + n * sz" by simp
  show "map (member_byte img p c off sz) [0..<Suc n * sz] ! i =
      (map (piece_byte img p c off) [0..<sz] @ map (member_byte img p c (off + sz) sz) [0..<n * sz]) ! i"
  proof (cases "i < sz")
    case True
    then show ?thesis using i by (simp add: nth_append member_byte_def)
  next
    case False
    then obtain j where "i = sz + j" using le_Suc_ex not_less by blast
    then show ?thesis using i assms by (simp add: nth_append member_byte_def div_add_self1 add.assoc)
  qed
qed simp

lemma read_members_chain:
  assumes "disk_open pl img d p s" and "item_apart item out (n * unat sz)"
    and "c = sint (fat16_get_first_cluster (mem s) item)" and "sz \<noteq> 0" and "off + n * unat sz < 2147483648"
    and "chain_on_disk img p c k" and "driver_chain img p c k \<noteq> None" and "\<forall>m < n. last_piece p (off + unat sz * m) (unat sz) \<le> k"
  shows "\<exists>t. streams_only s t \<and> read_members pl d item sz n (int off) out s =
    Inr (0, t\<lparr>mem := store_bytes (mem s) out (map (member_byte img p c off (unat sz)) [0..<n * unat sz])\<rparr>)"
  using assms
proof (induction n arbitrary: off out s)
  case 0
  show ?case by (intro exI [of _ s]) (auto simp: streams_only_def intro!: exI [of _ "streams s"])
next
  case (Suc n)
  have z: "0 < unat sz" "unat sz < 2147483648" using Suc.prems(4,5) by (simp_all add: unat_gt_0)
  have sz: "sint sz = int (unat sz)" using sint_small [OF z(2)] by simp
  have c: "0 \<le> c" unfolding Suc.prems(3) by (rule first_cluster_bounds)
  have l: "last_piece p off (unat sz) \<le> k" using Suc.prems(8) by force
  obtain t where t: "streams_only s t" "fat16_read_internal_from_stream pl d (cluster_read_stream p) c (int off) (int (unat sz)) out s =
      Some (Inr (0, t\<lparr>mem := store_bytes (mem s) out (map (piece_byte img p c off) [0..<unat sz])\<rparr>))"
    using read_pieces [OF Suc.prems(1) c chain_on_disk_le [OF Suc.prems(6) l] chain_before [OF Suc.prems(7) l] z(2)] by blast
  let ?s = "t\<lparr>mem := store_bytes (mem s) out (map (piece_byte img p c off) [0..<unat sz])\<rparr>"
  have read: "fat16_read_internal pl d c (int off) (sint sz) out s = Inr (0, ?s)"
    using t(2) Suc.prems(1) by (simp add: fat16_read_internal_def deref_def disk_open_def sz hang_or_def)
  have D: "disk_open pl img d p ?s" using disk_open_streams [OF Suc.prems(1) t(1)] by simp
  have c': "c = sint (fat16_get_first_cluster (mem ?s) item)"
    using first_cluster_kept [OF Suc.prems(2), of "map (piece_byte img p c off) [0..<unat sz]" "mem s"] Suc.prems(3) by simp
  have off: "sint (word_of_int (int off) + sz) = int (off + unat sz)" "off + unat sz + n * unat sz < 2147483648"
  proof -
    have "unat (of_nat off + sz) = off + unat sz" using Suc.prems(5) by (subst unat_add_u32) (simp_all add: unat_of_nat_u32)
    then show "sint (word_of_int (int off) + sz) = int (off + unat sz)"
      using Suc.prems(5) by (subst sint_small) simp_all
  qed (use Suc.prems(5) in simp)
  have m: "\<forall>m < n. last_piece p (off + unat sz + unat sz * m) (unat sz) \<le> k"
  proof (intro allI impI)
    fix j
    assume "j < n"
    then have "last_piece p (off + unat sz * Suc j) (unat sz) \<le> k" using Suc.prems(8) by (meson Suc_less_eq)
    then show "last_piece p (off + unat sz + unat sz * j) (unat sz) \<le> k" by (simp add: add.assoc)
  qed
  obtain u where u: "streams_only ?s u" "read_members pl d item sz n (int (off + unat sz)) (out + sz) ?s =
      Inr (0, u\<lparr>mem := store_bytes (mem ?s) (out + sz) (map (member_byte img p c (off + unat sz) (unat sz)) [0..<n * unat sz])\<rparr>)"
    using Suc.IH [OF D item_apart_next [OF Suc.prems(2)] c' Suc.prems(4) off(2) Suc.prems(6,7) m] by blast
  have a: "store_bytes (mem ?s) (out + sz) (map (member_byte img p c (off + unat sz) (unat sz)) [0..<n * unat sz]) =
      store_bytes (mem s) out (map (member_byte img p c off (unat sz)) [0..<Suc n * unat sz])"
    using store_bytes_append [of "map (piece_byte img p c off) [0..<unat sz]"
        "map (member_byte img p c (off + unat sz) (unat sz)) [0..<n * unat sz]" "mem s" out] Suc.prems(5)
    unfolding member_bytes_Suc [OF z(1)] by simp
  obtain g where g: "u = ?s\<lparr>streams := g\<rparr>" "streams_only t (t\<lparr>streams := g\<rparr>)" using u(1) by (auto simp: streams_only_def)
  have e: "read_members pl d item sz (Suc n) (int off) out s =
      Inr (0, u\<lparr>mem := store_bytes (mem s) out (map (member_byte img p c off (unat sz)) [0..<Suc n * unat sz])\<rparr>)"
    unfolding read_members.simps Suc.prems(3) [symmetric] read andthen.simps prod.case off(1) u(2) a by simp
  show ?case
  proof (intro exI conjI)
    show "streams_only s (t\<lparr>streams := g\<rparr>)" by (rule streams_only_trans [OF t(1) g(2)])
    show "read_members pl d item sz (Suc n) (int off) out s =
        Inr (0, t\<lparr>streams := g\<rparr>\<lparr>mem := store_bytes (mem s) out (map (member_byte img p c off (unat sz)) [0..<Suc n * unat sz])\<rparr>)"
      unfolding e g(1) by simp
  qed
qed


lemma member_byte_file:
  assumes "(off + sz * (i div sz)) mod cluster_size p + i mod sz mod cluster_size p < cluster_size p"
    and "driver_chain img p c ((off + i) div cluster_size p) = fat_chain img p c ((off + i) div cluster_size p)"
  shows "member_byte img p c off sz i = file_byte img p c (off + i)"
proof -
  let ?o = "off + sz * (i div sz)" and ?k = "i mod sz" and ?b = "cluster_size p"
  have s: "off + i = ?o + ?k" using mult_div_mod_eq [of sz i] by simp
  have "(?o + ?k) div ?b = ?o div ?b + ?k div ?b" using assms(1) div_add1_eq [of ?o ?k ?b] by simp
  moreover have "(?o + ?k) mod ?b = ?o mod ?b + ?k mod ?b" using assms(1) mod_add_eq [of ?o ?b ?k] by (metis mod_less)
  ultimately show ?thesis
    using assms(2) unfolding member_byte_def piece_byte_def file_byte_def s by (simp only: add.assoc)
qed

lemma read_members_ended:
  assumes "disk_open pl img d p s" and "c = sint (fat16_get_first_cluster (mem s) item)" and "n \<noteq> 0"
    and "unat sz < 2147483648" and "chain_on_disk img p c (off div cluster_size p)" and "driver_chain img p c (off div cluster_size p) = None"
  shows "\<exists>t. streams_only s t \<and> read_members pl d item sz n (int off) out s = Inr (- EIO, t)"
proof -
  obtain j where n: "n = Suc j" using assms(3) not0_implies_Suc by blast
  have c: "0 \<le> c" unfolding assms(2) by (rule first_cluster_bounds)
  have sz: "sint sz = int (unat sz)" using sint_small [OF assms(4)] by simp
  obtain t where t: "streams_only s t" "read_piece pl d (cluster_read_stream p) c (int off) (int (unat sz)) out s = Inr (- EIO, 0, t)"
    using piece_read [OF assms(1) c assms(5), of "unat sz" out] unfolding assms(6) by auto
  have "fat16_read_internal pl d c (int off) (sint sz) out s = Inr (- EIO, t)"
    using t(2) assms(1) by (simp add: fat16_read_internal_def deref_def disk_open_def sz hang_or_def
      fat16_read_internal_from_stream.simps EIO_def SLOBOS_ALL_OK_def)
  then have "read_members pl d item sz n (int off) out s = Inr (- EIO, t)"
    unfolding n read_members.simps assms(2) [symmetric] by (simp add: EIO_def)
  then show ?thesis using t(1) by blast
qed

text \<open>
  Descriptor \<open>fd\<close> is open for the file of directory item \<open>it\<close>, at position \<open>off\<close>; \<open>p\<close> is the driver's
  structure for the disk, whose image is \<open>img\<close>.
\<close>

definition file_open :: "platform \<Rightarrow> (nat \<Rightarrow> u8) \<Rightarrow> int \<Rightarrow> fat_private \<Rightarrow> u32 \<Rightarrow> nat \<Rightarrow> 'a vfs_scheme \<Rightarrow> bool" where
  "file_open pl img fd p it off s \<longleftrightarrow> 1 \<le> fd \<and> file_get_descriptor fd s \<noteq> 0 \<and>
     (\<exists>e x i. file_objects s (file_get_descriptor fd s) = Some e \<and> fd_filesystem e = pl_fat16_fs pl \<and>
       fd_disk e = pl_disk pl \<and> fat_descriptors s (fd_private e) = Some x \<and> fat_items s (desc_item x) = Some i \<and>
       item_ptr i = it \<and> sint (desc_pos x) = int off) \<and>
     disk_open pl img (the_disk s) p s"

lemma fread_members:
  assumes "file_open pl img fd p it off s" and "sz \<noteq> 0" and "n \<noteq> 0" and "unat n < 2147483648"
    and "read_members pl (the_disk s) it sz (unat n) (int off) ptr s = Inr (r, t)"
  shows "fread pl ptr sz n fd s = Inr (if r < 0 then r else int (unat n), t)"
proof -
  have n: "sint n = int (unat n)" using sint_small [OF assms(4)] by simp
  obtain e x i where o: "1 \<le> fd" "file_get_descriptor fd s \<noteq> 0" "file_objects s (file_get_descriptor fd s) = Some e"
    "fd_filesystem e = pl_fat16_fs pl" "fd_disk e = pl_disk pl" "fat_descriptors s (fd_private e) = Some x"
    "fat_items s (desc_item x) = Some i" "item_ptr i = it" "sint (desc_pos x) = int off"
    using assms(1) unfolding file_open_def by blast
  have "fat16_read pl (pl_disk pl) (fd_private e) sz n ptr s = Inr (if r < 0 then r else int (unat n), t)"
    using assms(5) by (simp add: fat16_read_def deref_disk_def deref_def o(6-9) n)
  then show ?thesis using o(1-5) assms(2,3) by (simp add: fread_def deref_def fs_call_def Let_def)
qed

text \<open>
  C7: what \<open>fread\<close> reads, through the descriptor table, the driver, the streams and the sectors, on the first 32 MiB
  of the disk. If the clusters the driver looks up (\<open>driver_chain\<close>, at the wrong place for FAT16) go far enough, all
  members are read, and the buffer gets the bytes \<open>member_byte\<close> says, no other byte changes and the position of the file
  is not advanced. Byte \<open>i\<close> is the byte at position \<open>off + i\<close> of the file, as the FAT defines it, when it lies in
  the first cluster or in one where the driver's lookup gives the cluster of the FAT, and its piece does not run over
  the end of a cluster there. If the driver's lookup ends before the cluster of the position, the result is \<open>- EIO\<close>
  and memory is unchanged.
\<close>

theorem fread_follows_chain:
  fixes s :: "'a vfs_scheme" and sz n it :: u32 and off :: nat and p :: fat_private
  defines "c \<equiv> sint (fat16_get_first_cluster (mem s) it)" and "len \<equiv> unat n * unat sz" and "b \<equiv> cluster_size p"
    and "k \<equiv> last_piece p (off + unat sz * (unat n - 1)) (unat sz)"
  assumes o: "file_open pl img fd p it off s" "sz \<noteq> 0" "n \<noteq> 0" and small: "off + len < 2147483648"
    and a: "item_apart it ptr len" and disk: "chain_on_disk img p c k"
  shows "(driver_chain img p c k \<noteq> None \<longrightarrow>
      (\<exists>s'. fread pl ptr sz n fd s = Inr (int (unat n), s') \<and> fat_descriptors s' = fat_descriptors s \<and>
        mem s' = store_bytes (mem s) ptr (map (member_byte img p c off (unat sz)) [0..<len]) \<and>
        (\<forall>i < len. (off + unat sz * (i div unat sz)) mod b + i mod unat sz mod b < b \<longrightarrow>
           (off + i < b \<or> driver_chain img p c ((off + i) div b) = fat_chain img p c ((off + i) div b)) \<longrightarrow>
           mem s' (ptr + of_nat i) = file_byte img p c (off + i)))) \<and>
    (driver_chain img p c (off div b) = None \<longrightarrow>
      (\<exists>s'. fread pl ptr sz n fd s = Inr (- EIO, s') \<and> mem s' = mem s))"
proof -
  have D: "disk_open pl img (the_disk s) p s" using o(1) by (simp add: file_open_def)
  have z: "0 < unat sz" "0 < unat n" using o(2,3) by (simp_all add: unat_gt_0)
  have n: "unat n < 2147483648" "unat sz < 2147483648"
    using small z unfolding len_def by (simp_all add: le_less_trans [OF _ small [unfolded len_def]] trans_le_add2)
  have full: "\<exists>s'. fread pl ptr sz n fd s = Inr (int (unat n), s') \<and> fat_descriptors s' = fat_descriptors s \<and>
        mem s' = store_bytes (mem s) ptr (map (member_byte img p c off (unat sz)) [0..<len]) \<and>
        (\<forall>i < len. (off + unat sz * (i div unat sz)) mod b + i mod unat sz mod b < b \<longrightarrow>
           (off + i < b \<or> driver_chain img p c ((off + i) div b) = fat_chain img p c ((off + i) div b)) \<longrightarrow>
           mem s' (ptr + of_nat i) = file_byte img p c (off + i))"
    if ch: "driver_chain img p c k \<noteq> None"
  proof -
    have m: "\<forall>m < unat n. last_piece p (off + unat sz * m) (unat sz) \<le> k"
      unfolding k_def by (auto intro!: div_le_mono add_mono)
    obtain t where t: "streams_only s t" "read_members pl (the_disk s) it sz (unat n) (int off) ptr s =
        Inr (0, t\<lparr>mem := store_bytes (mem s) ptr (map (member_byte img p c off (unat sz)) [0..<len])\<rparr>)"
      using read_members_chain [OF D a [unfolded len_def] c_def [THEN meta_eq_to_obj_eq] o(2) small [unfolded len_def] disk ch m]
      unfolding len_def by blast
    let ?s = "t\<lparr>mem := store_bytes (mem s) ptr (map (member_byte img p c off (unat sz)) [0..<len])\<rparr>"
    have f: "fat_descriptors ?s = fat_descriptors s" using t(1) by (auto simp: streams_only_def)
    have g: "mem ?s (ptr + of_nat i) = file_byte img p c (off + i)"
      if i: "i < len" "(off + unat sz * (i div unat sz)) mod b + i mod unat sz mod b < b"
        and agree: "off + i < b \<or> driver_chain img p c ((off + i) div b) = fat_chain img p c ((off + i) div b)" for i
    proof -
      have "driver_chain img p c ((off + i) div b) = fat_chain img p c ((off + i) div b)" using agree by auto
      then show ?thesis using i small member_byte_file [of off "unat sz" i p img c] unfolding b_def by simp
    qed
    show ?thesis
      using fread_members [OF o n(1) t(2)] f g by (intro exI [of _ ?s]) simp
  qed
  have ended: "\<exists>s'. fread pl ptr sz n fd s = Inr (- EIO, s') \<and> mem s' = mem s" if e: "driver_chain img p c (off div b) = None"
  proof -
    have "off div b \<le> k" unfolding k_def b_def by (simp add: div_le_mono trans_le_add1)
    obtain t where t: "streams_only s t" "read_members pl (the_disk s) it sz (unat n) (int off) ptr s = Inr (- EIO, t)"
      using read_members_ended [OF D c_def [THEN meta_eq_to_obj_eq] _ n(2) chain_on_disk_le [OF disk \<open>off div b \<le> k\<close>, unfolded b_def]
          e [unfolded b_def], of "unat n" ptr] z(2) by auto
    have "mem t = mem s" using t(1) by (auto simp: streams_only_def)
    then show ?thesis
      using fread_members [OF o n(1) t(2)] by (intro exI [of _ t]) (simp add: EIO_def)
  qed
  show ?thesis using full ended by blast
qed


text \<open>On the example disk the entry of every cluster is 256, so the file goes on there.\<close>

lemma demo_chain:
  shows "driver_chain of_nat demo_private c (Suc j) = Some 256" and "cluster_size demo_private = 512"
proof -
  have "reserved_sectors demo_private = 0" by (simp add: reserved_sectors_def header16_def demo_private_def nth_append)
  then have n: "driver_next of_nat demo_private c = Some 256" for c by (simp add: driver_next_def entry_position_def Let_def)
  show "driver_chain of_nat demo_private c (Suc j) = Some 256" by (induction j arbitrary: c) (simp_all add: n)
  show "cluster_size demo_private = 512"
    by (simp add: cluster_size_def sectors_per_cluster_def header8_def demo_private_def nth_append)
qed

lemma demo_file_open: "file_open demo_platform of_nat 1 demo_private 0x900 3 demo_mounted"
  by (simp add: file_open_def disk_open_def demo_mounted_def demo_kernel_def file_get_descriptor_def c_defs demo_platform_def
      demo_private_def stream_ok_def image_drive_serves sectors_per_cluster_def header8_def nth_append)

theorem fread_follows_chain_witness:
  "\<exists>s'. fread demo_platform 0x3000 600 1 1 demo_mounted = Inr (1, s') \<and> mem s' 0x3210 = 19 \<and>
     mem s' 0x3001 = file_byte of_nat demo_private 1799 4"
proof -
  let ?c = "sint (fat16_get_first_cluster (mem demo_mounted) 0x900)"
  have c: "?c = 1799"
  proof -
    have "load16 (\<lambda>_. 7) a = 1799" for a :: u32 by (simp add: load16_def)
    then show ?thesis by (simp add: fat16_get_first_cluster_def demo_mounted_def demo_kernel_def)
  qed
  have k: "last_piece demo_private 3 600 = 1" by (simp add: demo_chain)
  have disk: "chain_on_disk of_nat demo_private ?c 1"
    unfolding chain_on_disk_def
  proof (intro allI impI)
    fix j e
    assume "j \<le> 1" "driver_chain of_nat demo_private ?c j = Some e"
    then have "e = 1799 \<or> e = 256" using demo_chain(1) c by (cases j) (auto simp del: driver_chain.simps(2))
    then show "entry_position demo_private e + 2 < 33554432 \<and> 0 \<le> cluster_byte demo_private e \<and>
        cluster_byte demo_private e + 2 * int (cluster_size demo_private) < 33554432"
      unfolding demo_chain(2)
      by (auto simp: entry_position_def cluster_byte_def reserved_sectors_def header16_def sectors_per_cluster_def header8_def
          demo_private_def nth_append)
  qed
  have ch: "driver_chain of_nat demo_private ?c 1 = Some 256" using demo_chain(1) [of ?c 0] by simp
  have a: "item_apart 0x900 0x3000 600" by (simp add: item_apart_def)
  obtain s' where s': "fread demo_platform 0x3000 600 1 1 demo_mounted = Inr (1, s')"
    "mem s' = store_bytes (mem demo_mounted) 0x3000 (map (member_byte of_nat demo_private ?c 3 600) [0..<600])"
    "\<forall>i < 600. (3 + 600 * (i div 600)) mod 512 + i mod 600 mod 512 < 512 \<longrightarrow>
      (3 + i < 512 \<or> driver_chain of_nat demo_private ?c ((3 + i) div 512) = fat_chain of_nat demo_private ?c ((3 + i) div 512)) \<longrightarrow>
      mem s' (0x3000 + of_nat i) = file_byte of_nat demo_private ?c (3 + i)"
    using fread_follows_chain [OF demo_file_open, of 600 1 "0x3000"] disk ch a k by (auto simp: demo_chain(2))
  have first: "mem s' 0x3001 = file_byte of_nat demo_private 1799 4" using s'(3) [rule_format, of 1] c by simp
  have "mem s' 0x3210 = member_byte of_nat demo_private ?c 3 600 528"
    using store_bytes_nth [of 528 "map (member_byte of_nat demo_private ?c 3 600) [0..<600]" "mem demo_mounted" "0x3000"]
    unfolding s'(2) by simp
  also have "\<dots> = 19"
  proof -
    have i: "(3 + 600 * (528 div 600)) div cluster_size demo_private + 528 mod 600 div cluster_size demo_private = 1" by (simp add: demo_chain)
    have "cluster_byte demo_private 256 = 135168"
      by (simp add: cluster_byte_def demo_private_def sectors_per_cluster_def header8_def nth_append)
    then show ?thesis unfolding member_byte_def piece_byte_def i ch option.case by (simp add: demo_chain)
  qed
  finally show ?thesis using s'(1) first by blast
qed

end
