(* ===== verification/Stdlib_Command.thy ===== *)
theory Stdlib_Command
  imports Stdlib CString_Props
begin

text \<open>
  The command line as the shell hands it on: \<open>slobos_parse_command\<close> builds the list of its words.
\<close>

section \<open>The words of a line\<close>

function tokens :: "u8 list \<Rightarrow> u8 list list" where
  "tokens s =
     (let r = dropWhile (\<lambda>c. c = 32) s; t = takeWhile (\<lambda>c. c \<noteq> 32) r
      in if r = [] then [] else t # tokens (drop (Suc (length t)) r))"
  by pat_completeness auto
termination
proof (relation "measure length", goal_cases)
  case (2 s r t)
  have "length r \<le> length s" unfolding 2(1) by (rule length_dropWhile_le)
  moreover have "0 < length r" using 2(3) by simp
  ultimately have "length r - Suc (length t) < length s" by linarith
  then show ?case by simp
qed simp

declare tokens.simps [simp del]

lemma tokens_empty: "dropWhile (\<lambda>c. c = 32) s = [] \<Longrightarrow> tokens s = []"
  by (subst tokens.simps) simp

section \<open>What the program expects of malloc\<close>

text \<open>
  What the program relies on in system call 4: \<open>used\<close> are the addresses that belong to the program, \<open>room\<close> is the
  number of calls that will still succeed. A call returns new addresses and leaves the old ones as they are; the
  program's own writes do not change what is used. \<open>Stdlib_Kernel\<close> proves this of the kernel's \<open>process_malloc\<close>.
\<close>

abbreviation uview :: "'k user \<Rightarrow> byte_mem \<times> 'k" where
  "uview u \<equiv> (user_mem u, user_kernel u)"

definition node :: "u32 \<Rightarrow> u32 set" where
  "node a = {x. unat (x - a) < 516}"

definition next_field :: "u32 \<Rightarrow> u32 set" where
  "next_field a = {x. unat (x - (a + 512)) < 4}"

definition malloc_ok :: "'k malloc_call \<Rightarrow> (byte_mem \<times> 'k \<Rightarrow> u32 set) \<Rightarrow> (byte_mem \<times> 'k \<Rightarrow> nat) \<Rightarrow> bool" where
  "malloc_ok malloc used room \<longleftrightarrow>
     (\<forall>m k a m' k'. malloc 516 (m, k) = (a, m', k') \<longrightarrow> 0 < room (m, k) \<longrightarrow>
        a \<noteq> 0 \<and> node a \<inter> used (m, k) = {} \<and> used (m', k') = used (m, k) \<union> node a \<and> room (m', k') + 1 = room (m, k) \<and>
        (\<forall>x \<in> used (m, k). m' x = m x)) \<and>
     (\<forall>m k m'. (\<forall>x. x \<notin> used (m, k) \<longrightarrow> m' x = m x) \<longrightarrow> used (m', k) = used (m, k) \<and> room (m', k) = room (m, k))"

lemma malloc_okD:
  assumes "malloc_ok malloc used room" and "malloc 516 (m, k) = (a, m', k')" and "0 < room (m, k)"
  shows "a \<noteq> 0" and "node a \<inter> used (m, k) = {}" and "used (m', k') = used (m, k) \<union> node a"
    and "room (m', k') + 1 = room (m, k)" and "x \<in> used (m, k) \<Longrightarrow> m' x = m x"
  using assms unfolding malloc_ok_def by blast+

lemma own_writes:
  assumes "malloc_ok malloc used room" and "\<forall>x. x \<notin> used (m, k) \<longrightarrow> m' x = m x"
  shows "used (m', k) = used (m, k)" and "room (m', k) = room (m, k)"
  using assms unfolding malloc_ok_def by blast+

lemma next_field_node: "next_field a \<subseteq> node a"
proof
  fix x assume x: "x \<in> next_field a"
  have "x - a = (x - (a + 512)) + 512" by simp
  moreover have "unat ((x - (a + 512)) + 512) = unat (x - (a + 512)) + 512"
    using x by (subst unat_add_u32) (simp_all add: next_field_def)
  ultimately have "unat (x - a) = unat (x - (a + 512)) + 512" by (simp only:)
  then show "x \<in> node a" using x by (simp add: node_def next_field_def)
qed

lemma text_field:
  assumes "j < 512"
  shows "a + of_nat j \<in> node a" and "a + of_nat j \<notin> next_field a"
proof -
  have j: "unat (of_nat j :: u32) = j" using assms by (intro unat_of_nat_u32) simp
  then show "a + of_nat j \<in> node a" using assms by (simp add: node_def)
  have "unat (of_nat j - 512 :: u32) = 4294967296 + j - 512"
    using j assms by (simp add: unat_sub_if_size word_size word_le_nat_alt)
  then show "a + of_nat j \<notin> next_field a" using assms by (simp add: next_field_def)
qed

lemma store_next: "x \<notin> next_field a \<Longrightarrow> store32 m (a + 512) v x = m x"
  by (rule store32_outside) (simp add: next_field_def)

lemma load_next:
  assumes "\<And>x. x \<in> next_field a \<Longrightarrow> m' x = m x"
  shows "load32 m' (a + 512) = load32 m (a + 512)"
proof (rule load32_cong)
  show "m' (a + 512) = m (a + 512)" "m' (a + 512 + 1) = m (a + 512 + 1)"
    "m' (a + 512 + 2) = m (a + 512 + 2)" "m' (a + 512 + 3) = m (a + 512 + 3)"
    by (rule assms, simp add: next_field_def)+
qed

section \<open>One token\<close>

text \<open>A string in the buffer \<open>B\<close>.\<close>

definition piece :: "byte_mem \<Rightarrow> u32 \<Rightarrow> u8 list \<Rightarrow> u32 set \<Rightarrow> bool" where
  "piece m p s B \<longleftrightarrow> cstr m p s \<and> length s \<le> 1024 \<and> (\<forall>j \<le> length s. p + of_nat j \<in> B)"

lemma piece_cong: "piece m p s B \<Longrightarrow> (\<And>x. x \<in> B \<Longrightarrow> m' x = m x) \<Longrightarrow> piece m' p s B"
  using cstr_cong [of s m' p m] by (auto simp: piece_def)

lemma piece_nonnull: "piece m p s B \<Longrightarrow> 0 \<notin> B \<Longrightarrow> p \<noteq> 0"
  unfolding piece_def by (elim conjE allE [where x = 0]) auto

lemma strtok_piece:
  assumes s: "piece m p s B" and B: "0 \<notin> B" and d: "cstr m d [32]"
    and call: "sp = 0 \<and> str = p \<or> sp = p"
  shows "tokens s = [] \<Longrightarrow> strtok m sp str d = Some (0, 0, m)"
    and "tokens s = t # ts \<Longrightarrow> \<exists>q sp' m' r. strtok m sp str d = Some (q, sp', m') \<and>
      piece m' q t B \<and> piece m' sp' r B \<and> tokens r = ts \<and> (\<forall>x. x \<notin> B \<longrightarrow> m' x = m x)"
proof -
  define rest where "rest = dropWhile (\<lambda>c. c = 32) s"
  define tok where "tok = takeWhile (\<lambda>c. c \<noteq> 32) rest"
  define q where "q = p + of_nat (length s - length rest)"
  have c: "cstr m p s" "length s \<le> 1024" "\<And>j. j \<le> length s \<Longrightarrow> p + of_nat j \<in> B" using s by (simp_all add: piece_def)
  have ls: "length rest \<le> length s" unfolding rest_def by (rule length_dropWhile_le)
  have lt: "length tok \<le> length rest" unfolding tok_def by (rule length_takeWhile_le)
  have long: "length s < 4294967294" using c(2) by simp
  note N = strtok_next [OF c(1) long piece_nonnull [OF s B] d call, simplified list.set insert_iff empty_iff simp_thms,
      folded rest_def, folded tok_def, folded q_def]
  have tk: "tokens s = (if rest = [] then [] else tok # tokens (drop (Suc (length tok)) rest))"
    by (subst tokens.simps) (simp add: rest_def tok_def Let_def)
  show "tokens s = [] \<Longrightarrow> strtok m sp str d = Some (0, 0, m)"
    using N(1) tk by (simp split: if_splits)
  assume "tokens s = t # ts"
  then have ne: "rest \<noteq> []" and t: "t = tok" "ts = tokens (drop (Suc (length tok)) rest)"
    using tk by (auto split: if_splits)
  obtain sp' m' where N2: "strtok m sp str d = Some (q, sp', m')" "cstr m' q tok"
    "cstr m' sp' (drop (Suc (length tok)) rest)" "\<forall>a. a \<noteq> q + of_nat (length tok) \<longrightarrow> m' a = m a"
    "sp' = q + of_nat (min (Suc (length tok)) (length rest))" using N(2) [OF ne] by blast
  have qj: "q + of_nat j \<in> B" if "j \<le> length rest" for j
  proof -
    have "length s - length rest + j \<le> length s" using that ls by linarith
    from c(3) [OF this] show ?thesis by (simp only: q_def of_nat_add add.assoc)
  qed
  have "sp' + of_nat j \<in> B" if "j \<le> length (drop (Suc (length tok)) rest)" for j
  proof -
    have "min (Suc (length tok)) (length rest) + j \<le> length rest" using that by simp
    from qj [OF this] show ?thesis by (simp only: N2(5) of_nat_add add.assoc)
  qed
  then have "piece m' sp' (drop (Suc (length tok)) rest) B" using N2(3) c(2) ls by (simp add: piece_def)
  moreover have "piece m' q tok B" using N2(2) c(2) ls lt qj by (simp add: piece_def)
  moreover have "\<forall>x. x \<notin> B \<longrightarrow> m' x = m x" using N2(4) qj [OF lt] by metis
  ultimately show "\<exists>q sp' m' r. strtok m sp str d = Some (q, sp', m') \<and>
      piece m' q t B \<and> piece m' sp' r B \<and> tokens r = ts \<and> (\<forall>x. x \<notin> B \<longrightarrow> m' x = m x)"
    using N2(1) t by blast
qed

section \<open>One node\<close>

text \<open>The memory of the program outside what a step may write.\<close>

definition same_on :: "u32 set \<Rightarrow> byte_mem \<Rightarrow> byte_mem \<Rightarrow> bool" where
  "same_on A m m' \<longleftrightarrow> (\<forall>x \<in> A. m' x = m x)"

lemma same_onD: "same_on A m m' \<Longrightarrow> x \<in> A \<Longrightarrow> m' x = m x"
  by (simp add: same_on_def)

lemma new_argument_node:
  assumes M: "malloc_ok malloc used room" and B: "B \<subseteq> used (uview u)" and t: "piece (user_mem u) token t B"
    and r: "0 < room (uview u)"
  shows "\<exists>a u'. new_argument malloc token u = (a, u') \<and> a \<noteq> 0 \<and> node a \<inter> used (uview u) = {} \<and>
    used (uview u') = used (uview u) \<union> node a \<and> room (uview u') + 1 = room (uview u) \<and>
    cstr (user_mem u') a (take 511 t) \<and> load32 (user_mem u') (a + 512) = 0 \<and>
    same_on (used (uview u)) (user_mem u) (user_mem u') \<and> strtok_sp u' = strtok_sp u"
proof -
  let ?m = "user_mem u"
  obtain a m1 k1 where z: "malloc 516 (uview u) = (a, m1, k1)" by (cases "malloc 516 (uview u)") auto
  note D = malloc_okD [OF M z r]
  have c: "cstr ?m token t" "length t \<le> 1024" "\<And>j. j \<le> length t \<Longrightarrow> token + of_nat j \<in> used (uview u)"
    using t B by (auto simp: piece_def)
  have c1: "cstr m1 token t" using c D(5) by (subst cstr_cong) auto
  have apart: "a + of_nat i \<noteq> token + of_nat j" if "i < j" "j \<le> length t" "int j < 512" for i j
    using text_field(1) [of i a] c(3) [of j] D(2) that by auto
  define m2 where "m2 = strncpy m1 a token 512"
  have m2: "m2 = store_bytes m1 a (take 511 t @ [0])"
    unfolding m2_def using strncpy_cstr [OF c1, of 512 a] c(2) apart by simp
  have nz: "0 \<notin> set (take 511 t)" using cstr_nonzero [OF c(1)] set_take_subset [of 511 t] by blast
  have out2: "m2 x = m1 x" if "x \<notin> node a" for x
    unfolding m2 using that by (intro store_bytes_outside) (simp add: node_def)
  have c2: "cstr m2 a (take 511 t)" unfolding m2 using nz by (intro cstr_store_bytes) simp_all
  define m3 where "m3 = store32 m2 (a + 512) 0"
  have out3: "m3 x = m2 x" if "x \<notin> next_field a" for x unfolding m3_def by (rule store_next [OF that])
  have c3: "cstr m3 a (take 511 t)"
  proof -
    have "m3 (a + of_nat i) = m2 (a + of_nat i)" if "i \<le> length (take 511 t)" for i
      using that by (intro out3 text_field(2)) simp
    then show ?thesis using c2 cstr_cong [of "take 511 t" m3 a m2] by blast
  qed
  have ow: "\<forall>x. x \<notin> used (m1, k1) \<longrightarrow> m3 x = m1 x"
  proof (intro allI impI)
    fix x assume "x \<notin> used (m1, k1)"
    then have n: "x \<notin> node a" unfolding D(3) by simp
    then have "x \<notin> next_field a" using next_field_node by blast
    from out3 [OF this] out2 [OF n] show "m3 x = m1 x" by (simp only:)
  qed
  have "new_argument malloc token u = (a, u\<lparr>user_mem := m3, user_kernel := k1\<rparr>)"
    using z D(1) by (simp add: new_argument_def user_malloc_def user_strncpy_def user_update_def m2_def m3_def)
  moreover have "same_on (used (uview u)) ?m m3"
    unfolding same_on_def
  proof
    fix x assume x: "x \<in> used (uview u)"
    then have n: "x \<notin> node a" using D(2) by blast
    then have "x \<notin> next_field a" using next_field_node by blast
    from out3 [OF this] out2 [OF n] D(5) [OF x] show "m3 x = ?m x" by (simp only:)
  qed
  moreover have "load32 m3 (a + 512) = 0" unfolding m3_def by simp
  ultimately show ?thesis using D(1-4) own_writes [OF M ow] c3 by (intro exI [of _ a] exI [of _ "u\<lparr>user_mem := m3, user_kernel := k1\<rparr>"]) simp
qed

text \<open>What the last call of \<open>strtok\<close> has left: the words \<open>ts\<close>, the first of them at \<open>token\<close>.\<close>

fun pending :: "u32 \<Rightarrow> u8 list list \<Rightarrow> u32 set \<Rightarrow> 'k user \<Rightarrow> bool" where
  "pending token [] B u \<longleftrightarrow> token = 0 \<and> strtok_sp u = 0"
| "pending token (t # ts) B u \<longleftrightarrow> token \<noteq> 0 \<and> piece (user_mem u) token t B \<and>
     (\<exists>r. piece (user_mem u) (strtok_sp u) r B \<and> tokens r = ts)"

lemma next_token:
  assumes M: "malloc_ok malloc used room" and B: "B \<subseteq> used (uview u)" "0 \<notin> B" and d: "cstr (user_mem u) d [32]"
    and s: "piece (user_mem u) p s B" and call: "strtok_sp u = 0 \<and> str = p \<or> strtok_sp u = p"
  shows "\<exists>q u'. user_strtok str d u = Inr (q, u') \<and> used (uview u') = used (uview u) \<and>
    room (uview u') = room (uview u) \<and> same_on (- B) (user_mem u) (user_mem u') \<and> pending q (tokens s) B u'"
proof (cases "tokens s")
  case Nil
  then show ?thesis
    using strtok_piece(1) [OF s B(2) d call] by (simp add: user_strtok_def same_on_def)
next
  case (Cons t ts)
  obtain q sp' m' r where N: "strtok (user_mem u) (strtok_sp u) str d = Some (q, sp', m')"
    "piece m' q t B" "piece m' sp' r B" "tokens r = ts" "\<forall>x. x \<notin> B \<longrightarrow> m' x = user_mem u x"
    using strtok_piece(2) [OF s B(2) d call Cons] by blast
  have "\<forall>x. x \<notin> used (uview u) \<longrightarrow> m' x = user_mem u x" using N(5) B(1) by blast
  note O = own_writes [OF M this]
  show ?thesis
    using N O piece_nonnull [OF N(2) B(2)] Cons
    by (intro exI [of _ q] exI [of _ "u\<lparr>user_mem := m', strtok_sp := sp'\<rparr>"]) (auto simp: user_strtok_def same_on_def)
qed

lemma user_update_same: "user_update (\<lambda>m. m) u = u"
  by (simp add: user_update_def)

section \<open>The list\<close>

text \<open>
  A node for the word at \<open>token\<close>, a write \<open>f\<close> to the field \<open>W\<close> of an older node, and the next call of
  \<open>strtok\<close>.
\<close>

lemma argument_step:
  assumes M: "malloc_ok malloc used room" and B: "B \<subseteq> used (uview u)" "0 \<notin> B"
    and d: "cstr (user_mem u) d [32]" "{d, d + 1} \<subseteq> used (uview u) - B - W"
    and W: "W \<subseteq> used (uview u) - B" and f: "\<And>a m x. x \<notin> W \<Longrightarrow> f a m x = m x"
    and tok: "pending token (t # ts) B u" and pos: "0 < room (uview u)"
  shows "\<exists>a u1 q u3. new_argument malloc token u = (a, u1) \<and> user_strtok 0 d (user_update (f a) u1) = Inr (q, u3) \<and>
    a \<noteq> 0 \<and> node a \<inter> used (uview u) = {} \<and> used (uview u3) = used (uview u) \<union> node a \<and>
    room (uview u3) + 1 = room (uview u) \<and> pending q ts B u3 \<and>
    cstr (user_mem u3) a (take 511 t) \<and> load32 (user_mem u3) (a + 512) = 0 \<and>
    same_on (used (uview u) - B - W) (user_mem u) (user_mem u3) \<and> same_on W (f a (user_mem u1)) (user_mem u3)"
proof -
  let ?m = "user_mem u"
  obtain r where t: "piece ?m token t B" "piece ?m (strtok_sp u) r B" "tokens r = ts" using tok by auto
  obtain a u1 where a: "new_argument malloc token u = (a, u1)" "a \<noteq> 0" "node a \<inter> used (uview u) = {}"
    "used (uview u1) = used (uview u) \<union> node a" "room (uview u1) + 1 = room (uview u)" "cstr (user_mem u1) a (take 511 t)"
    "load32 (user_mem u1) (a + 512) = 0" "same_on (used (uview u)) ?m (user_mem u1)" "strtok_sp u1 = strtok_sp u"
    using new_argument_node [OF M B(1) t(1) pos] by blast
  define u2 where "u2 = user_update (f a) u1"
  have m2: "user_mem u2 = f a (user_mem u1)" and sp2: "strtok_sp u2 = strtok_sp u" and k2: "user_kernel u2 = user_kernel u1"
    using a(9) by (simp_all add: u2_def user_update_def)
  have out2: "user_mem u2 x = user_mem u1 x" if "x \<notin> W" for x unfolding m2 by (rule f [OF that])
  have nf: "W \<subseteq> used (uview u)" "W \<inter> B = {}" using W by auto
  have "\<forall>x. x \<notin> used (uview u1) \<longrightarrow> user_mem u2 x = user_mem u1 x" using out2 nf(1) a(4) by blast
  then have O2: "used (uview u2) = used (uview u1)" "room (uview u2) = room (uview u1)"
    unfolding k2 by (rule own_writes [OF M])+
  have old: "user_mem u2 x = ?m x" if "x \<in> used (uview u)" "x \<notin> W" for x
    using out2 [OF that(2)] same_onD [OF a(8) that(1)] by simp
  have B2: "B \<subseteq> used (uview u2)" using B(1) O2(1) a(4) by blast
  have D: "d \<in> used (uview u)" "d + 1 \<in> used (uview u)" "d \<notin> B" "d + 1 \<notin> B" "d \<notin> W" "d + 1 \<notin> W" using d(2) by auto
  have d2: "cstr (user_mem u2) d [32]" using d(1) D old by simp
  have r2: "piece (user_mem u2) (strtok_sp u2) r B"
    unfolding sp2 by (rule piece_cong [OF t(2)]) (use old B(1) nf(2) in blast)
  obtain q u3 where u3: "user_strtok 0 d u2 = Inr (q, u3)" "used (uview u3) = used (uview u2)"
    "room (uview u3) = room (uview u2)" "same_on (- B) (user_mem u2) (user_mem u3)" "pending q (tokens r) B u3"
    using next_token [OF M B2 B(2) d2 r2, of 0] by auto
  have keep: "user_mem u3 x = user_mem u1 x" if "x \<notin> W" "x \<notin> B" for x
    using same_onD [OF u3(4), of x] out2 that by simp
  have na: "x \<notin> B" "x \<notin> W" if "x \<in> node a" for x using that a(3) B(1) nf(1) by blast+
  have "load32 (user_mem u3) (a + 512) = load32 (user_mem u1) (a + 512)"
    using keep na next_field_node [of a] by (intro load_next) blast
  moreover have "cstr (user_mem u3) a (take 511 t) = cstr (user_mem u1) a (take 511 t)"
    by (rule cstr_cong) (use keep na text_field(1) [of _ a] in simp)
  moreover have "same_on (used (uview u) - B - W) ?m (user_mem u3)"
    unfolding same_on_def using keep same_onD [OF a(8)] by simp
  moreover have "same_on W (f a (user_mem u1)) (user_mem u3)"
    unfolding same_on_def using same_onD [OF u3(4)] nf(2) m2 by auto
  ultimately show ?thesis
    using a(1-3,6,7) u3(1-3,5) O2 a(4,5) t(3)
    by (intro exI [of _ a] exI [of _ u1] exI [of _ q] exI [of _ u3]) (simp add: u2_def)
qed

text \<open>The memory after such a step, with \<open>U\<close> what was used before it.\<close>

lemma argument_state:
  assumes a: "node a \<inter> U = {}" and B: "B \<subseteq> U" and d: "cstr m d [32]" "{d, d + 1} \<subseteq> U - B - W"
    and m3: "same_on (U - B - W) m m3"
  shows "cstr m3 d [32]" and "{d, d + 1} \<subseteq> (U \<union> node a) - B - next_field a"
    and "next_field a \<subseteq> (U \<union> node a) - B" and "B \<subseteq> U \<union> node a"
proof -
  have D: "d \<in> U" "d + 1 \<in> U" "d \<notin> B" "d + 1 \<notin> B" "d \<notin> W" "d + 1 \<notin> W" using d(2) by auto
  have na: "x \<notin> U" if "x \<in> node a" for x using that a by blast
  show "cstr m3 d [32]" using d(1) D same_onD [OF m3] by simp
  show "{d, d + 1} \<subseteq> (U \<union> node a) - B - next_field a" using D na next_field_node [of a] by blast
  show "next_field a \<subseteq> (U \<union> node a) - B" using next_field_node [of a] na B by blast
  show "B \<subseteq> U \<union> node a" using B by blast
qed

text \<open>The node and the list that hangs on it.\<close>

lemma node_joined:
  assumes a: "node a \<inter> U = {}" "a \<noteq> 0" and B: "B \<subseteq> U" and w: "cstr m3 a w" "length w < 512"
    and ns: "arg_list m' (load32 m' (a + 512)) ns" and m': "same_on ((U \<union> node a) - B - next_field a) m3 m'"
  shows "arg_list m' a ((a, w) # ns)" and "same_on (U - B) m3 m'"
proof -
  have na: "x \<notin> U" if "x \<in> node a" for x using that a by blast
  have "cstr m' a w = cstr m3 a w"
  proof (rule cstr_cong)
    fix i assume "i \<le> length w"
    then have i: "i < 512" using w(2) by simp
    show "m' (a + of_nat i) = m3 (a + of_nat i)"
      by (rule same_onD [OF m']) (use text_field [OF i, of a] na B in blast)
  qed
  then show "arg_list m' a ((a, w) # ns)" using a(2) w ns by simp
  show "same_on (U - B) m3 m'"
    unfolding same_on_def
  proof
    fix x assume "x \<in> U - B"
    then have "x \<in> (U \<union> node a) - B - next_field a" using na next_field_node [of a] by blast
    then show "m' x = m3 x" by (rule same_onD [OF m'])
  qed
qed

text \<open>
  Each node lies outside the addresses \<open>U\<close> used before and outside the nodes before it, and \<open>U'\<close> are those used afterwards.
\<close>

fun fresh_nodes :: "u32 set \<Rightarrow> (u32 \<times> u8 list) list \<Rightarrow> u32 set \<Rightarrow> bool" where
  "fresh_nodes U [] U' \<longleftrightarrow> U' = U"
| "fresh_nodes U ((q, w) # ns) U' \<longleftrightarrow> node q \<inter> U = {} \<and> fresh_nodes (U \<union> node q) ns U'"

lemma fresh_nodes_used: "fresh_nodes U ns U' \<Longrightarrow> U' = U \<union> (\<Union>n \<in> set ns. node (fst n))"
proof (induction ns arbitrary: U)
  case (Cons n ns)
  have "fresh_nodes (U \<union> node (fst n)) ns U'" using Cons.prems by (cases n) simp
  from Cons.IH [OF this] show ?case by auto
qed simp

lemma fresh_nodes_apart:
  "fresh_nodes U ns U' \<Longrightarrow> i < length ns \<Longrightarrow> node (fst (ns ! i)) \<inter> U = {}"
  "fresh_nodes U ns U' \<Longrightarrow> i < j \<Longrightarrow> j < length ns \<Longrightarrow> node (fst (ns ! i)) \<inter> node (fst (ns ! j)) = {}"
proof (induction ns arbitrary: U i j)
  case (Cons n ns)
  case 1
  then show ?case using Cons.IH(1) [of "U \<union> node (fst n)" "i - 1"] by (cases n; cases i) auto
next
  case (Cons n ns)
  case 2
  then obtain k where j: "j = Suc k" "k < length ns" by (cases j) auto
  have f: "fresh_nodes (U \<union> node (fst n)) ns U'" using 2(1) by (cases n) simp
  show ?case
  proof (cases i)
    case 0
    then show ?thesis using Cons.IH(1) [OF f j(2)] j(1) by auto
  next
    case (Suc l)
    then show ?thesis using Cons.IH(2) [OF f, of l k] 2(2) j by simp
  qed
qed simp_all

text \<open>The rest of the line is turned into a list that hangs on the node \<open>current\<close>.\<close>

lemma parse_arguments_list:
  assumes M: "malloc_ok malloc used room" and B: "B \<subseteq> used (uview u)" "0 \<notin> B"
    and d: "cstr (user_mem u) d [32]" "{d, d + 1} \<subseteq> used (uview u) - B - next_field current"
    and cur: "next_field current \<subseteq> used (uview u) - B" "load32 (user_mem u) (current + 512) = 0"
    and tok: "pending token toks B u" and room: "length toks \<le> room (uview u)"
  shows "\<exists>u' ns. parse_arguments malloc d token current u = Some (Inr u') \<and> strtok_sp u' = 0 \<and>
    map snd ns = map (take 511) toks \<and> arg_list (user_mem u') (load32 (user_mem u') (current + 512)) ns \<and>
    same_on (used (uview u) - B - next_field current) (user_mem u) (user_mem u') \<and>
    fresh_nodes (used (uview u)) ns (used (uview u'))"
  using assms(2-)
proof (induction toks arbitrary: token current u)
  case Nil
  then have "parse_arguments malloc d token current u = Some (Inr u)" by (subst parse_arguments.simps) simp
  then show ?case using Nil.prems by (intro exI [of _ u] exI [of _ "[]"]) (simp add: same_on_def)
next
  case (Cons t ts)
  let ?m = "user_mem u" and ?W = "next_field current"
  obtain a u1 q u3 where S: "new_argument malloc token u = (a, u1)"
    "user_strtok 0 d (user_update (\<lambda>m. store32 m (current + 512) a) u1) = Inr (q, u3)"
    "a \<noteq> 0" "node a \<inter> used (uview u) = {}" "used (uview u3) = used (uview u) \<union> node a" "room (uview u3) + 1 = room (uview u)"
    "pending q ts B u3" "cstr (user_mem u3) a (take 511 t)" "load32 (user_mem u3) (a + 512) = 0"
    "same_on (used (uview u) - B - ?W) ?m (user_mem u3)" "same_on ?W (store32 (user_mem u1) (current + 512) a) (user_mem u3)"
    using argument_step [OF M Cons.prems(1-5), of "\<lambda>a m. store32 m (current + 512) a", OF store_next Cons.prems(7)]
      Cons.prems(8) by auto
  note N = argument_state [OF S(4) Cons.prems(1,3,4) S(10), folded S(5)]
  have len: "length ts \<le> room (uview u3)" using Cons.prems(8) S(6) by simp
  obtain u' ns where R: "parse_arguments malloc d q a u3 = Some (Inr u')" "strtok_sp u' = 0"
    "map snd ns = map (take 511) ts" "arg_list (user_mem u') (load32 (user_mem u') (a + 512)) ns"
    "same_on (used (uview u3) - B - next_field a) (user_mem u3) (user_mem u')" "fresh_nodes (used (uview u3)) ns (used (uview u'))"
    using Cons.IH [OF N(4) Cons.prems(2) N(1-3) S(9) S(7) len] by blast
  note J = node_joined [OF S(4,3) Cons.prems(1) S(8) _ R(4) R(5) [unfolded S(5)]]
  have nf: "x \<in> used (uview u) - B" if "x \<in> ?W" for x using that Cons.prems(5) by blast
  have "load32 (user_mem u') (current + 512) = load32 (store32 (user_mem u1) (current + 512) a) (current + 512)"
    using same_onD [OF J(2)] nf same_onD [OF S(11)] by (intro load_next) simp
  then have link: "load32 (user_mem u') (current + 512) = a" by simp
  have "same_on (used (uview u) - B - ?W) ?m (user_mem u')"
    unfolding same_on_def using same_onD [OF J(2)] same_onD [OF S(10)] by simp
  moreover have "parse_arguments malloc d token current u = Some (Inr u')"
    using S(1-3) R(1) Cons.prems(7) by (subst parse_arguments.simps) simp
  ultimately show ?case
    using R(2,3,6) J(1) link S(4,5) by (intro exI [of _ u'] exI [of _ "(a, take 511 t) # ns"]) simp
qed

section \<open>The command line\<close>

text \<open>The local buffer of 1025 bytes.\<close>

definition command_buffer :: "u32 \<Rightarrow> u32 set" where
  "command_buffer p = {x. unat (x - p) < 1025}"

text \<open>The line is copied into the buffer, and the first word is cut off.\<close>

lemma first_token:
  fixes u :: "'k user" and scommand command :: u32
  defines "m \<equiv> user_mem u" and "u1 \<equiv> user_update (\<lambda>m. strncpy m scommand command 1025) u"
  assumes M: "malloc_ok malloc used room" and B: "command_buffer scommand \<subseteq> used (uview u)" "0 \<notin> command_buffer scommand"
    and d: "cstr m space [32]" "{space, space + 1} \<subseteq> used (uview u) - command_buffer scommand"
    and c: "cstr m command s" "length s \<le> 1024" "\<forall>j \<le> length s. command + of_nat j \<notin> command_buffer scommand"
    and sp: "strtok_sp u = 0"
  shows "\<exists>q u2. user_strtok scommand space u1 = Inr (q, u2) \<and> used (uview u2) = used (uview u) \<and> room (uview u2) = room (uview u) \<and>
    same_on (- command_buffer scommand) m (user_mem u2) \<and> pending q (tokens s) (command_buffer scommand) u2"
proof -
  let ?B = "command_buffer scommand"
  have inB: "scommand + of_nat i \<in> ?B" if "i \<le> 1024" for i
    using that by (simp add: command_buffer_def unat_of_nat_u32)
  have apart: "scommand + of_nat i \<noteq> command + of_nat j" if "i < j" "j \<le> length s" for i j
    using inB [of i] c(2,3) that by auto
  have m1: "user_mem u1 = store_bytes m scommand (s @ [0])" and sp1: "strtok_sp u1 = 0"
    using strncpy_cstr [OF c(1), of 1025 scommand] c(2) apart sp by (simp_all add: u1_def user_update_def m_def)
  have out: "user_mem u1 x = m x" if "x \<notin> ?B" for x
    unfolding m1 using that c(2) by (intro store_bytes_outside) (simp add: command_buffer_def)
  have "cstr (user_mem u1) scommand s" unfolding m1 using cstr_nonzero [OF c(1)] c(2) by (intro cstr_store_bytes) simp_all
  then have p1: "piece (user_mem u1) scommand s ?B" using c(2) inB by (simp add: piece_def)
  have k1: "user_kernel u1 = user_kernel u" by (simp add: u1_def user_update_def)
  have "\<forall>x. x \<notin> used (uview u) \<longrightarrow> user_mem u1 x = user_mem u x" using out B(1) unfolding m_def by blast
  then have O1: "used (uview u1) = used (uview u)" "room (uview u1) = room (uview u)"
    unfolding k1 by (rule own_writes [OF M])+
  have d1: "cstr (user_mem u1) space [32]" using d out by simp
  obtain q u2 where T: "user_strtok scommand space u1 = Inr (q, u2)" "used (uview u2) = used (uview u)"
    "room (uview u2) = room (uview u)" "same_on (- ?B) (user_mem u1) (user_mem u2)" "pending q (tokens s) ?B u2"
    using next_token [OF M _ B(2) d1 p1, of scommand] B(1) O1 sp1 by auto
  have "same_on (- ?B) m (user_mem u2)" unfolding same_on_def using same_onD [OF T(4)] out by simp
  then show ?thesis using T by blast
qed

lemma parse_command_list:
  fixes u :: "'k user"
  defines "m \<equiv> user_mem u"
  assumes M: "malloc_ok malloc used room" and B: "command_buffer scommand \<subseteq> used (uview u)" "0 \<notin> command_buffer scommand"
    and d: "cstr m space [32]" "{space, space + 1} \<subseteq> used (uview u) - command_buffer scommand"
    and c: "cstr m command s" "length s \<le> 1024" "\<forall>j \<le> length s. command + of_nat j \<notin> command_buffer scommand"
    and sp: "strtok_sp u = 0" and max: "max_len < 1025" and room: "length (tokens s) \<le> room (uview u)"
  shows "\<exists>root u' ns. slobos_parse_command malloc scommand space command max_len u = Inr (root, u') \<and>
    arg_list (user_mem u') root ns \<and> map snd ns = map (take 511) (tokens s) \<and> strtok_sp u' = 0 \<and>
    (\<forall>x \<in> used (uview u) - command_buffer scommand. user_mem u' x = m x) \<and>
    fresh_nodes (used (uview u)) ns (used (uview u'))"
proof -
  let ?B = "command_buffer scommand"
  obtain q u2 where T: "user_strtok scommand space (user_update (\<lambda>m. strncpy m scommand command 1025) u) = Inr (q, u2)"
    "used (uview u2) = used (uview u)" "room (uview u2) = room (uview u)" "same_on (- ?B) m (user_mem u2)" "pending q (tokens s) ?B u2"
    using first_token [of malloc used room scommand u space command s] assms by blast
  note run = slobos_parse_command_def user_strncpy_def T(1) user_update_same
  show ?thesis
  proof (cases "tokens s")
    case Nil
    then show ?thesis using T(2,5) max same_onD [OF T(4)] by (intro exI [of _ 0] exI [of _ u2] exI [of _ "[]"]) (simp add: run)
  next
    case (Cons t ts)
    have B2: "?B \<subseteq> used (uview u2)" and pos: "0 < room (uview u2)" using B(1) T(2,3) room Cons by simp_all
    have d2: "cstr (user_mem u2) space [32]" "{space, space + 1} \<subseteq> used (uview u2) - ?B - {}"
      using d T(2) same_onD [OF T(4)] by auto
    obtain a u3 q' u4 where S: "new_argument malloc q u2 = (a, u3)" "user_strtok 0 space (user_update (\<lambda>m. m) u3) = Inr (q', u4)"
      "a \<noteq> 0" "node a \<inter> used (uview u2) = {}" "used (uview u4) = used (uview u2) \<union> node a"
      "room (uview u4) + 1 = room (uview u2)" "pending q' ts ?B u4" "cstr (user_mem u4) a (take 511 t)"
      "load32 (user_mem u4) (a + 512) = 0" "same_on (used (uview u2) - ?B - {}) (user_mem u2) (user_mem u4)"
      using argument_step [OF M B2 B(2) d2 _ _ T(5) [unfolded Cons] pos, of "\<lambda>a m. m"] by (simp del: pending.simps) blast
    note N = argument_state [OF S(4) B2 d2 S(10), folded S(5)]
    have len: "length ts \<le> room (uview u4)" using room S(6) T(3) Cons by simp
    obtain u' ns where R: "parse_arguments malloc space q' a u4 = Some (Inr u')" "strtok_sp u' = 0"
      "map snd ns = map (take 511) ts" "arg_list (user_mem u') (load32 (user_mem u') (a + 512)) ns"
      "same_on (used (uview u4) - ?B - next_field a) (user_mem u4) (user_mem u')" "fresh_nodes (used (uview u4)) ns (used (uview u'))"
      using parse_arguments_list [OF M N(4) B(2) N(1-3) S(9) S(7) len] by blast
    note J = node_joined [OF S(4,3) B2 S(8) _ R(4) R(5) [unfolded S(5)]]
    have "user_mem u' x = m x" if "x \<in> used (uview u)" "x \<notin> ?B" for x
      using same_onD [OF J(2)] same_onD [OF S(10)] same_onD [OF T(4)] that T(2) by simp
    moreover have "slobos_parse_command malloc scommand space command max_len u = Inr (a, u')"
      using T(5) Cons max S(1-3) R(1) by (simp add: run)
    ultimately show ?thesis
      using R(2,3,6) J(1) Cons S(4,5) T(2) by (intro exI [of _ a] exI [of _ u'] exI [of _ "(a, take 511 t) # ns"]) simp
  qed
qed

end
