(* ===== verification/Stdlib_Kernel.thy ===== *)
theory Stdlib_Kernel
  imports Stdlib_Command Process_Args Isolation_Props
begin

text \<open>
  The library of the programs on the kernel: \<open>slobos_malloc\<close> is answered by \<open>process_malloc\<close>, in the memory
  the program sees through the page directory of its task.
\<close>

unbundle bit_operations_syntax

section \<open>What a program sees\<close>

text \<open>
  A read in user mode: the page tables as the processor walks them (\<open>user_walk\<close>), without the demand that the
  page may be written.
\<close>

definition read_walk :: "byte_mem \<Rightarrow> u32 \<Rightarrow> u32 \<Rightarrow> u32 option" where
  "read_walk m directory v =
     (let pde = load32 m (slot directory (unat (v div 4194304)))
      in if pde AND 5 \<noteq> 5 then None
         else
           let pte = load32 m (slot (pde AND 0xFFFFF000) (unat (v mod 4194304 div 4096)))
           in if pte AND 5 \<noteq> 5 then None
              else Some ((pte AND 0xFFFFF000) + v mod 4096))"

definition user_read :: "byte_mem \<Rightarrow> u32 \<Rightarrow> u32 \<Rightarrow> u8" where
  "user_read m directory v = (case read_walk m directory v of None \<Rightarrow> 0 | Some a \<Rightarrow> m a)"

lemma and_5: "(x :: u32) AND 7 = 7 \<Longrightarrow> x AND 5 = 5"
proof -
  assume x: "x AND 7 = 7"
  have "x AND 5 = (x AND 7) AND 5" by (simp add: and.assoc)
  then show ?thesis using x by simp
qed

lemma read_walk_eq:
  assumes d: "low_dir_ok d m" and u: "\<forall>i<1024. load32 m (slot d i) AND 7 = 7"
  shows "read_walk m d v =
    (let e = paging_get m d (v - v mod 4096) in if e AND 5 \<noteq> 5 then None else Some ((e AND 0xFFFFF000) + v mod 4096))"
proof -
  have "unat (v div 4194304) < 1024" by (simp add: unat_div) (use unat_u32_bound [of v] in linarith)
  then have "load32 m (slot d (unat (v div 4194304))) AND 5 = 5" using and_5 u by blast
  moreover have "paging_get m d (v - v mod 4096) =
      load32 m (slot (load32 m (slot d (unat (v div 4194304))) AND 0xFFFFF000) (unat (v mod 4194304 div 4096)))"
    unfolding paging_get_eq [OF d page_of_address(1)] page_entry_def table_at_def page_of_address by simp
  ultimately show ?thesis by (simp add: read_walk_def Let_def)
qed

lemma user_walk_read: "user_walk m d v = Inr a \<Longrightarrow> read_walk m d v = Some a"
  using and_5 by (auto simp: user_walk_def read_walk_def Let_def split: if_splits)

section \<open>Writes to memory of the program\<close>

lemma user_ok_writes:
  assumes u: "user_ok process p c s" and w: "\<forall>a. m a \<noteq> mem s a \<longrightarrow> holds s c {} a 1"
  shows "user_ok process p c (s\<lparr>mem := m\<rparr>)" and "live (s\<lparr>mem := m\<rparr>) = live s"
    and "kheap_spare (s\<lparr>mem := m\<rparr>) = kheap_spare s" and "chunk_pages m c = chunk_pages (mem s) c"
    and "user_dir c m = user_dir c (mem s)" and "load32 m c = load32 (mem s) c"
    and "4096 dvd unat v \<Longrightarrow> paging_get m (load32 m c) v = paging_get (mem s) (load32 (mem s) c) v"
proof -
  let ?s = "s\<lparr>mem := m\<rparr>"
  have ok: "kheap_ok s" and ch: "chunk_ok c (mem s)" and own: "\<forall>q \<in> chunk_pages (mem s) c. live s q = Some 1"
    using u by (simp_all add: user_ok_def)
  have B: "\<exists>b l. live s b = Some l \<and> b \<notin> chunk_pages (mem s) c \<and> unat (a - b) < 4096 * l" if "m a \<noteq> mem s a" for a
    using w that unfolding holds_def by (auto simp: Suc_le_eq)
  have table: "m a = mem s a" if t: "kheap_table s a" for a
  proof (rule ccontr)
    assume "m a \<noteq> mem s a"
    then obtain b l where b: "live s b = Some l" "unat (a - b) < 4096 * l" using B by blast
    from kzalloc.owned_meta [OF ok b] t show False by blast
  qed
  have W: "kheap_ok ?s" "live ?s = live s" "kheap_spare ?s = kheap_spare s"
    using kzalloc.put_ok [OF ok] kzalloc.put_owned [OF ok] kzalloc.spare_put [OF ok] table by blast+
  show "live ?s = live s" "kheap_spare ?s = kheap_spare s" by fact+
  have keep: "m a = mem s a" if q: "q \<in> chunk_pages (mem s) c" "unat (a - q) < 4096" for q a
  proof (rule ccontr)
    assume "m a \<noteq> mem s a"
    then obtain b l where b: "live s b = Some l" "b \<notin> chunk_pages (mem s) c" "unat (a - b) < 4096 * l" using B by blast
    have lq: "live s q = Some 1" "q \<noteq> b" using own q(1) b(2) by auto
    from live_outside [OF ok lq(1) b(1) lq(2) b(3)] q(2) show False by simp
  qed
  note F = chunk_frame [OF ch, of m]
  show pg: "chunk_pages m c = chunk_pages (mem s) c" using F(2) keep by blast
  show "user_dir c m = user_dir c (mem s)" using F(5) keep by blast
  show "load32 m c = load32 (mem s) c" using F(3) keep by blast
  show "4096 dvd unat v \<Longrightarrow> paging_get m (load32 m c) v = paging_get (mem s) (load32 (mem s) c) v" for v
    using F(4) keep by blast
  have ch': "chunk_ok c m" using F(1) keep by blast
  have "process_chunk p ?s = process_chunk p s" by (simp add: process_chunk_def deref_def)
  then show "user_ok process p c ?s" using u W pg ch' by (simp add: user_ok_def kheap_low_def)
qed

section \<open>malloc\<close>

text \<open>
  Beside the state of the kernel the program's world has a map: \<open>R a = Some v\<close> when the program has the byte \<open>a\<close>
  of the machine's memory at its address \<open>v\<close>. What the program has written is in the machine's memory when the kernel
  runs; what the program sees afterwards is read through its page directory, which \<open>c\<close> holds. A block that
  was allocated belongs to the program from then on.
\<close>

type_synonym 'a world = "'a kernel_scheme \<times> (u32 \<Rightarrow> u32 option)"

definition with_memory :: "byte_mem \<Rightarrow> (u32 \<Rightarrow> u32 option) \<Rightarrow> 'a kernel_scheme \<Rightarrow> 'a kernel_scheme" where
  "with_memory um R s = s\<lparr>mem := \<lambda>a. case R a of None \<Rightarrow> mem s a | Some v \<Rightarrow> um v\<rparr>"

definition block_at :: "u32 \<Rightarrow> u32 \<Rightarrow> u32 \<Rightarrow> u32 option" where
  "block_at ptr sz = (\<lambda>a. if unat (a - ptr) < unat sz then Some a else None)"

definition kernel_malloc :: "u32 \<Rightarrow> u32 \<Rightarrow> ('a world) malloc_call" where
  "kernel_malloc process c sz = (\<lambda>(um, s, R).
     case process_malloc process sz (with_memory um R s) of
       Inl e \<Rightarrow> (0, um, s, R)
     | Inr (ptr, s') \<Rightarrow>
         (ptr, user_read (mem s') (load32 (mem s') c), s', if ptr = 0 then R else R ++ block_at ptr sz))"

text \<open>
  The process is in good order, and every byte of the program is in allocated memory that is no page
  table and is where the page directory says; addresses of the kernel's heap stand for themselves.
\<close>

definition program_world :: "u32 \<Rightarrow> process \<Rightarrow> u32 \<Rightarrow> 'a kernel_scheme \<Rightarrow> (u32 \<Rightarrow> u32 option) \<Rightarrow> bool" where
  "program_world process p c s R \<longleftrightarrow> user_ok process p c s \<and> user_dir c (mem s) \<and>
     (\<forall>a v. R a = Some v \<longrightarrow> read_walk (mem s) (load32 (mem s) c) v = Some a \<and> holds s c {} a 1 \<and>
       (v = a \<or> \<not> in_pool (kernel_heap s) (v - v mod 4096)))"

lemma program_worldD:
  assumes "program_world process p c s R"
  shows "user_ok process p c s" and "user_dir c (mem s)"
    and "R a = Some v \<Longrightarrow> read_walk (mem s) (load32 (mem s) c) v = Some a"
    and "R a = Some v \<Longrightarrow> holds s c {} a 1" and "R a = Some v \<Longrightarrow> v \<noteq> a \<Longrightarrow> \<not> in_pool (kernel_heap s) (v - v mod 4096)"
  using assms unfolding program_world_def by blast+

lemma world_walk:
  assumes "user_ok process p c s" and "user_dir c (mem s)"
  shows "read_walk (mem s) (load32 (mem s) c) v =
    (let e = paging_get (mem s) (load32 (mem s) c) (v - v mod 4096)
     in if e AND 5 \<noteq> 5 then None else Some ((e AND 0xFFFFF000) + v mod 4096))"
  by (rule read_walk_eq) (use assms in \<open>simp_all add: user_ok_def chunk_ok_def user_dir_def\<close>)

lemma world_with_memory:
  fixes um :: byte_mem and s :: "'a kernel_scheme"
  assumes w: "program_world process p c s R"
  defines "s1 \<equiv> with_memory um R s"
  shows "program_world process p c s1 R" and "live s1 = live s" and "kheap_spare s1 = kheap_spare s"
    and "kernel_heap s1 = kernel_heap s" and "R a = Some v \<Longrightarrow> mem s1 a = um v"
proof -
  define m where "m = (\<lambda>a. case R a of None \<Rightarrow> mem s a | Some v \<Rightarrow> um v)"
  have s1: "s1 = s\<lparr>mem := m\<rparr>" by (simp add: s1_def with_memory_def m_def)
  have H: "\<forall>a. m a \<noteq> mem s a \<longrightarrow> holds s c {} a 1"
    using program_worldD(4) [OF w] by (auto simp: m_def split: option.splits)
  note W = user_ok_writes [OF program_worldD(1) [OF w] H]
  show lv: "live s1 = live s" unfolding s1 by (rule W(2))
  show "kheap_spare s1 = kheap_spare s" unfolding s1 by (rule W(3))
  show kh: "kernel_heap s1 = kernel_heap s" by (simp add: s1)
  have ms: "mem s1 = m" by (simp add: s1)
  have u1: "user_ok process p c s1" unfolding s1 by (rule W(1))
  have d1: "user_dir c (mem s1)" unfolding ms by (rule iffD2 [OF W(5) program_worldD(2) [OF w]])
  have rw: "read_walk (mem s1) (load32 (mem s1) c) v = read_walk (mem s) (load32 (mem s) c) v" for v
    unfolding world_walk [OF u1 d1] world_walk [OF program_worldD(1,2) [OF w]]
    by (simp only: ms W(7) [OF page_of_address(1)])
  have "holds s1 c {} a 1 = holds s c {} a 1" for a by (simp add: holds_def lv ms W(4))
  then show "program_world process p c s1 R"
    using w u1 d1 unfolding program_world_def rw kh by blast
  show "R a = Some v \<Longrightarrow> mem s1 a = um v" by (simp add: ms m_def)
qed

lemma process_malloc_heap: "process_malloc process sz s = Inr (q, s') \<Longrightarrow> kernel_heap s' = kernel_heap s"
  by (auto simp: process_malloc_def andthen_eq_Inr case_prod_unfold Let_def put_process_def kzalloc_kernel_heap
      split: if_splits)

lemma block_at_ran: "ran (block_at q 516) = node q"
  by (auto simp: block_at_def node_def ran_def)

lemma block_page:
  fixes q v :: u32
  assumes "4096 dvd unat q" and "unat (v - q) < 4096"
  shows "v - v mod 4096 = q"
proof -
  have "unat (v - v mod 4096 - q) < 4096 * 1" using page_in_run(1) [OF assms(1), of v 1] assms(2) by simp
  moreover have "4096 dvd unat (v - v mod 4096 - q)"
    by (rule aligned_minus [OF page_of_address(1) assms(1)])
  ultimately have "unat (v - v mod 4096 - q) = 0" by (auto elim: dvdE)
  then show ?thesis by (simp add: unat_eq_0)
qed

text \<open>A page that is new to the heap holds no address of the program.\<close>

lemma world_fresh_page:
  assumes w: "program_world process p c s R" and q: "live s q = None" "in_pool (kernel_heap s) q" "4096 dvd unat q"
    and l: "live s' q = Some 1" "kheap_ok s'" "\<forall>b l. live s b = Some l \<longrightarrow> live s' b = Some l" and R: "R a = Some v"
  shows "v - v mod 4096 \<noteq> q" and "4096 \<le> unat (a - q)"
proof -
  have "holds s c {} a 1" by (rule program_worldD(4) [OF w R])
  then obtain b n where b: "live s b = Some n" "unat (a - b) < 4096 * n" by (auto simp: holds_def Suc_le_eq)
  have "q \<noteq> b" using b(1) q(1) by auto
  from live_outside [OF l(2,1) l(3) [rule_format, OF b(1)] this b(2)] show far: "4096 \<le> unat (a - q)" by simp
  show "v - v mod 4096 \<noteq> q"
  proof
    assume e: "v - v mod 4096 = q"
    then have "v = a" using program_worldD(5) [OF w R] q(2) by blast
    then have "a - q = a mod 4096" using e by (simp add: algebra_simps)
    then show False using far by (simp add: unat_mod)
  qed
qed

lemma malloc_page_others:
  assumes u: "user_ok process p c s" and sz: "sz \<noteq> 0" "unat sz \<le> 4096" and sp: "0 < kheap_spare s" and fr: "0 < free_slots p"
    and run: "process_malloc process sz s = Inr (q, s')" and w: "4096 dvd unat w" "w \<noteq> q"
  shows "paging_get (mem s') (load32 (mem s') c) w = paging_get (mem s) (load32 (mem s) c) w"
proof -
  have b: "blocks_for sz = 1" using sz by (rule kzalloc.blocks_for_page)
  have room: "kheap_room s (blocks_for sz)" using kheap_spare_room [OF _ sp] u b by (simp add: user_ok_def)
  obtain i where i: "process_find_free_allocation_index p = int i" using free_slot [OF fr] .
  have "self_mapped c q 1 user_flags (mem s) (mem s')"
    using process_malloc_contract [OF u sz(1) _ room i] sz(2) run unfolding b by auto
  then show ?thesis using w by (simp add: self_mapped_def)
qed

lemma kernel_malloc_step:
  assumes w: "program_world process p c s R" and room: "0 < free_slots p" "0 < kheap_spare s"
    and k: "kernel_malloc process c 516 (um, s, R) = (q, um', s', R')"
  shows "q \<noteq> 0" and "node q \<inter> ran R = {}" and "ran R' = ran R \<union> node q" and "v \<in> ran R \<Longrightarrow> um' v = um v"
    and "\<exists>p'. program_world process p' c s' R' \<and> free_slots p' + 1 = free_slots p \<and> kheap_spare s' + 1 = kheap_spare s"
proof -
  define s1 where "s1 = with_memory um R s"
  note W = world_with_memory [OF w, where um = um, folded s1_def]
  note D = program_worldD [OF W(1)]
  have sz: "(516 :: u32) \<noteq> 0" "unat (516 :: u32) \<le> 4096" by simp_all
  have sp: "0 < kheap_spare s1" unfolding W(3) by (rule room(2))
  obtain q' s'' as where M: "process_malloc process 516 s1 = Inr (q', s'')" "q' \<noteq> 0" "live s1 q' = None" "live s'' q' = Some 1"
    "4096 dvd unat q'" "q' \<notin> chunk_pages (mem s'') c" "user_ok process (p\<lparr>proc_allocations := as\<rparr>) c s''"
    "free_slots (p\<lparr>proc_allocations := as\<rparr>) + 1 = free_slots p" "kheap_spare s'' + 1 = kheap_spare s1" "preserves {} c s1 s''"
    "paging_get (mem s'') (load32 (mem s'') c) q' = q' OR 7"
    using malloc_page [OF D(1) sz sp room(1)] by blast
  have k': "q' = q" "um' = user_read (mem s') (load32 (mem s') c)" "s'' = s'" "R' = R ++ block_at q 516"
    using k M(1,2) by (auto simp: kernel_malloc_def s1_def)
  note M = M [unfolded k'(1,3)]
  have ok': "kheap_ok s'" using M(7) by (simp add: user_ok_def)
  have kh: "kernel_heap s' = kernel_heap s1" by (rule process_malloc_heap [OF M(1)])
  have pool: "in_pool (kernel_heap s1) a" if "unat (a - q) < 4096" for a
    using live_in_pool [OF ok' M(4), of a] that unfolding kh by simp
  have pq: "in_pool (kernel_heap s1) q" by (rule pool) simp
  have lv: "\<forall>b l. live s1 b = Some l \<longrightarrow> live s' b = Some l" using preservesD(1) [OF M(10)] by blast
  note F = world_fresh_page [OF W(1) M(3) pq M(5,4) ok' lv]
  show "q \<noteq> 0" by (rule M(2))
  show nd: "node q \<inter> ran R = {}"
  proof (rule ccontr)
    assume "node q \<inter> ran R \<noteq> {}"
    then obtain v a where v: "unat (v - q) < 516" "R a = Some v" by (auto simp: node_def ran_def)
    then have "v - v mod 4096 = q" by (intro block_page M(5)) simp
    then show False using F(1) [OF v(2)] by blast
  qed
  have "dom R \<inter> dom (block_at q 516) = {}"
    using F(2) by (fastforce simp: block_at_def split: if_splits)
  then show ran: "ran R' = ran R \<union> node q" unfolding k'(4) by (simp add: ran_map_add block_at_ran)
  have ud': "user_dir c (mem s')" using D(2) preserves_pages(2) [OF M(10)] by simp
  note X = world_walk [OF M(7) ud'] world_walk [OF D(1,2)]
  have old: "read_walk (mem s') (load32 (mem s') c) v = Some a" if r: "R a = Some v" for a v
  proof -
    note O = malloc_page_others [OF D(1) sz sp room(1) M(1) page_of_address(1) F(1) [OF r]]
    have "read_walk (mem s') (load32 (mem s') c) v = read_walk (mem s1) (load32 (mem s1) c) v" unfolding X O ..
    then show ?thesis using D(3) [OF r] by simp
  qed
  have hold: "holds s' c {} a 1" if "holds s1 c {} a 1" for a by (rule holds_keeps [OF that M(10)])
  show "um' v = um v" if v: "v \<in> ran R"
  proof -
    obtain a where a: "R a = Some v" using v by (auto simp: ran_def)
    have "mem s' (a + of_nat 0) = mem s1 (a + of_nat 0)"
      by (rule holds_bytes [OF D(4) [OF a] M(10)]) (use D(1) in \<open>simp_all add: user_ok_def\<close>)
    then show ?thesis using old [OF a] W(5) [OF a] by (simp add: k'(2) user_read_def)
  qed
  have new: "read_walk (mem s') (load32 (mem s') c) a = Some a \<and> holds s' c {} a 1" if a: "unat (a - q) < 516" for a
  proof
    have pg: "a - a mod 4096 = q" by (rule block_page [OF M(5)]) (use a in simp)
    have "(q OR 7) AND 7 = 7" by (rule bit_word_eqI) (auto simp: bit_simps)
    then have "(q OR 7) AND 5 = 5" by (rule and_5)
    moreover have "(q OR 7) AND 0xFFFFF000 = q" using frame_flags [OF M(5), of 7] by (simp add: frame_of_def)
    moreover have "q + a mod 4096 = a" using pg by (simp add: algebra_simps)
    ultimately show "read_walk (mem s') (load32 (mem s') c) a = Some a" unfolding X(1) pg M(11) by simp
    show "holds s' c {} a 1"
      unfolding holds_def by (intro exI [of _ q] exI [of _ 1]) (use M(4,6) a in simp)
  qed
  have "program_world process (p\<lparr>proc_allocations := as\<rparr>) c s' R'"
    unfolding program_world_def
  proof (intro conjI allI impI)
    fix a v assume r: "R' a = Some v"
    then consider "R a = Some v" | "v = a" "unat (a - q) < 516"
      by (auto simp: k'(4) block_at_def map_add_def split: if_splits)
    then have "read_walk (mem s') (load32 (mem s') c) v = Some a \<and> holds s' c {} a 1 \<and>
      (v = a \<or> \<not> in_pool (kernel_heap s') (v - v mod 4096))"
    proof cases
      case 1
      then show ?thesis using old hold D(4,5) unfolding kh by blast
    next
      case 2
      then show ?thesis using new by blast
    qed
    then show "read_walk (mem s') (load32 (mem s') c) v = Some a" "holds s' c {} a 1"
      "v = a \<or> \<not> in_pool (kernel_heap s') (v - v mod 4096)" by blast+
  qed (rule M(7), rule ud')
  then show "\<exists>p'. program_world process p' c s' R' \<and> free_slots p' + 1 = free_slots p \<and> kheap_spare s' + 1 = kheap_spare s"
    using M(8,9) unfolding W(3) by blast
qed

text \<open>The interface the library was proved against.\<close>

definition kernel_used :: "byte_mem \<times> 'a world \<Rightarrow> u32 set" where
  "kernel_used = (\<lambda>(um, s, R). ran R)"

definition kernel_room :: "u32 \<Rightarrow> u32 \<Rightarrow> byte_mem \<times> 'a world \<Rightarrow> nat" where
  "kernel_room process c = (\<lambda>(um, s, R).
     if \<exists>p. program_world process p c s R then min (free_slots (the (process_objects s process))) (kheap_spare s) else 0)"

lemma kernel_room_eq:
  assumes "program_world process p c s R"
  shows "kernel_room process c (um, s, R) = min (free_slots p) (kheap_spare s)"
proof -
  have "process_objects s process = Some p" using program_worldD(1) [OF assms] by (simp add: user_ok_def)
  then show ?thesis using assms by (auto simp: kernel_room_def)
qed

lemma kernel_malloc_ok: "malloc_ok (kernel_malloc process c) kernel_used (kernel_room process c)"
  unfolding malloc_ok_def
proof (intro conjI allI impI)
  fix um k q um' k'
  assume z: "kernel_malloc process c 516 (um, k) = (q, um', k')" and r: "0 < kernel_room process c (um, k)"
  obtain s R s' R' where k: "k = (s, R)" "k' = (s', R')" by (cases k; cases k') auto
  obtain p where w: "program_world process p c s R" using r by (auto simp: k kernel_room_def split: if_splits)
  then have "0 < free_slots p" "0 < kheap_spare s" using r kernel_room_eq [OF w] by (simp_all add: k)
  note S = kernel_malloc_step [OF w this z [unfolded k]]
  obtain p' where p': "program_world process p' c s' R'" "free_slots p' + 1 = free_slots p"
    "kheap_spare s' + 1 = kheap_spare s" using S(5) by blast
  show "q \<noteq> 0" by (rule S(1))
  show "node q \<inter> kernel_used (um, k) = {}" "kernel_used (um', k') = kernel_used (um, k) \<union> node q"
    using S(2,3) by (simp_all add: kernel_used_def k)
  show "kernel_room process c (um', k') + 1 = kernel_room process c (um, k)"
    unfolding k kernel_room_eq [OF w] kernel_room_eq [OF p'(1)] using p'(2,3) by simp
  show "\<forall>x \<in> kernel_used (um, k). um' x = um x" using S(4) by (auto simp: kernel_used_def k)
qed (simp_all add: kernel_used_def kernel_room_def)

section \<open>The words of the command line\<close>

text \<open>
  C14: the words of a command line, on the kernel's \<open>process_malloc\<close>. From a line of at most 1024 characters
  \<open>slobos_parse_command\<close> builds a list of the words between its blanks, in order, each cut to 511 characters and
  terminated. Every node is memory the program did not have before the call - not its image, not its stack with the local
  buffer, none of its blocks - and shares no byte with another node; the nodes are all that the program has gained. Every byte
  the program had, outside the local buffer, is unchanged. This needs a free entry in the table of allocations and a page of
  the heap for each word.
\<close>

theorem slobos_parse_command_list:
  assumes w: "program_world process p c s R" and u: "user_kernel u = (s, R)"
    and B: "command_buffer scommand \<subseteq> ran R" "0 \<notin> command_buffer scommand"
    and d: "cstr (user_mem u) space [32]" "{space, space + 1} \<subseteq> ran R - command_buffer scommand"
    and l: "cstr (user_mem u) command line" "length line \<le> 1024"
      "\<forall>j \<le> length line. command + of_nat j \<notin> command_buffer scommand"
    and sp: "strtok_sp u = 0" and max: "max_len < 1025"
    and room: "length (tokens line) \<le> free_slots p" "length (tokens line) \<le> kheap_spare s"
  shows "\<exists>root u' s' R' ns. slobos_parse_command (kernel_malloc process c) scommand space command max_len u = Inr (root, u') \<and>
    user_kernel u' = (s', R') \<and> arg_list (user_mem u') root ns \<and> map snd ns = map (take 511) (tokens line) \<and>
    (\<forall>i < length ns. node (fst (ns ! i)) \<inter> ran R = {}) \<and>
    (\<forall>j < length ns. \<forall>i < j. node (fst (ns ! i)) \<inter> node (fst (ns ! j)) = {}) \<and>
    ran R' = ran R \<union> (\<Union>n \<in> set ns. node (fst n)) \<and> strtok_sp u' = 0 \<and>
    (\<forall>x \<in> ran R - command_buffer scommand. user_mem u' x = user_mem u x)"
proof -
  have ur: "kernel_used (uview u) = ran R" by (simp add: kernel_used_def u)
  have rm: "length (tokens line) \<le> kernel_room process c (uview u)"
    unfolding u kernel_room_eq [OF w] using room by simp
  obtain root u' ns where L: "slobos_parse_command (kernel_malloc process c) scommand space command max_len u = Inr (root, u')"
    "arg_list (user_mem u') root ns" "map snd ns = map (take 511) (tokens line)" "strtok_sp u' = 0"
    "\<forall>x \<in> kernel_used (uview u) - command_buffer scommand. user_mem u' x = user_mem u x"
    "fresh_nodes (kernel_used (uview u)) ns (kernel_used (uview u'))"
    using parse_command_list [OF kernel_malloc_ok _ B(2) d(1) _ l sp max rm] B(1) d(2) unfolding ur by blast
  obtain s' R' where k: "user_kernel u' = (s', R')" by (cases "user_kernel u'")
  have "kernel_used (uview u') = ran R'" by (simp add: kernel_used_def k)
  note F = L(6) [unfolded this ur]
  show ?thesis
    using L(1-5) k fresh_nodes_apart [OF F] fresh_nodes_used [OF F] unfolding ur
    by (intro exI [of _ root] exI [of _ u'] exI [of _ s'] exI [of _ R'] exI [of _ ns]) simp
qed

text \<open>A program that was launched on the booted machine; the map holds its stack.\<close>

definition stack_map :: "u32 \<Rightarrow> u32 \<Rightarrow> u32 option" where
  "stack_map k = (\<lambda>a. if unat (a - k) < 16384 then Some (a - k + 0x3FB000) else None)"

lemma stack_map_ran: "ran (stack_map k) = {v. unat (v - 0x3FB000) < 16384}"
proof (intro set_eqI iffI)
  fix v :: u32 assume "v \<in> {v. unat (v - 0x3FB000) < 16384}"
  then have "stack_map k (k + (v - 0x3FB000)) = Some v" by (simp add: stack_map_def)
  then show "v \<in> ran (stack_map k)" by (rule ranI)
qed (auto simp: stack_map_def ran_def split: if_splits)

lemma stack_below_pool:
  fixes w :: u32
  assumes "unat (w - 0x3FB000) < 16384"
  shows "\<not> in_pool booted_heap w"
proof -
  have "unat ((w - 0x3FB000) + 0x3FB000) = unat (w - 0x3FB000) + 4173824" using assms by (subst unat_add_u32) simp_all
  then have "unat w = unat (w - 0x3FB000) + 4173824" by simp
  then have "unat w < 4190208" using assms by simp
  then show ?thesis by (simp add: in_pool_def booted_heap_def unat_sub_if_size word_size word_le_nat_alt)
qed

lemma demo_world:
  obtains p c k and s :: kernel where "os_step pl demo_boot s" "program_world 0x5000 p c s (stack_map k)"
    "free_slots p = 1024" "kheap_spare s = 24568"
proof -
  obtain b k t P and s :: kernel where l: "os_step pl demo_boot s" "running [t] P s" "process_of s t = 0x5000"
    "P t = demo_process\<lparr>proc_ptr := b, proc_stack := k, proc_task := t\<rparr>" "kheap_spare s = 24568"
    "\<And>w. 4096 dvd unat w \<Longrightarrow> entry s t w = program_entry (P t) (w OR 5) w" using demo_launched by metis
  let ?c = "directory_of s t"
  have iso: "isolated [t] P s" and kh: "kernel_heap s = booted_heap" using l(2) by (simp_all add: running_def null_harmless_def)
  have u: "user_ok 0x5000 (P t) ?c s" using user_of_confined [OF iso, of t] l(3) by simp
  have ok: "kheap_ok s" using u by (simp add: user_ok_def)
  have st: "live s k = Some 4" and ud: "user_dir ?c (mem s)" and nk: "k \<notin> chunk_pages (mem s) ?c"
    using iso by (simp_all add: isolated_def confined_def l(4) bases_def task_pages_def)
  have al: "4096 dvd unat (0x3FB000 :: u32)" and ak: "4096 dvd unat k" using live_page_aligned [OF ok st] by simp_all
  have "program_world 0x5000 (P t) ?c s (stack_map k)"
    unfolding program_world_def
  proof (intro conjI allI impI)
    fix a v assume "stack_map k a = Some v"
    then have a: "unat (a - k) < 16384" and v: "v = a - k + 0x3FB000" by (simp_all add: stack_map_def split: if_splits)
    let ?w = "v - v mod 4096"
    have r: "unat (?w - 0x3FB000) < 16384" using page_in_run(1) [OF al, of v 4] a v by simp
    have f: "4096 dvd unat (k + (?w - 0x3FB000))" by (rule aligned_plus [OF ak aligned_minus [OF page_of_address(1) al]])
    have "entry s t ?w = (k + (?w - 0x3FB000)) OR 7"
      unfolding l(6) [OF page_of_address(1)] using r
      by (simp add: program_entry_def l(4) user_flags_eq) (simp add: c_defs)
    from task_walk [OF iso _ this f] have "user_walk (mem s) (load32 (mem s) ?c) v = Inr (k + (?w - 0x3FB000) + v mod 4096)" by simp
    then show "read_walk (mem s) (load32 (mem s) ?c) v = Some a" by (simp add: user_walk_read v)
    show "holds s ?c {} a 1" unfolding holds_def by (intro exI [of _ k] exI [of _ 4]) (use st nk a in simp)
    show "v = a \<or> \<not> in_pool (kernel_heap s) ?w" unfolding kh using stack_below_pool [OF r] by blast
  qed (rule u, rule ud)
  moreover have "free_slots (P t) = 1024" by (simp add: free_slots_def l(4) c_defs)
  ultimately show thesis using that l(1,5) by blast
qed

definition demo_line :: "u8 list" where
  "demo_line = [108, 115, 32, 32, 45, 97]"

definition demo_memory :: byte_mem where
  "demo_memory = store_bytes (store_bytes (\<lambda>x. 0) 0x3FE000 [32, 0]) 0x3FE800 (demo_line @ [0])"

lemma demo_words: "tokens demo_line = [[108, 115], [45, 97]]"
  by (simp add: demo_line_def tokens.simps Let_def)

lemma demo_buffer:
  assumes "x \<in> command_buffer 0x3FC000"
  shows "unat (x - 0x3FB000) < 16384" and "0x3FC000 \<le> unat x" and "unat x < 0x3FC401"
proof -
  have d: "unat (x - 0x3FC000) < 1025" using assms by (simp add: command_buffer_def)
  have "unat ((x - 0x3FC000) + 0x3FC000) = unat (x - 0x3FC000) + 4177920" using d by (subst unat_add_u32) simp_all
  then have "unat x = unat (x - 0x3FC000) + 4177920" by simp
  then show "0x3FC000 \<le> unat x" "unat x < 0x3FC401" using d by simp_all
  have "unat ((x - 0x3FC000) + 0x1000) = unat (x - 0x3FC000) + 4096" using d by (subst unat_add_u32) simp_all
  then show "unat (x - 0x3FB000) < 16384" using d by simp
qed

theorem slobos_parse_command_list_witness:
  "\<exists>(s :: kernel) s' R R' c u root u' ns. os_step demo_platform demo_boot s \<and> user_kernel u = (s, R) \<and>
    cstr (user_mem u) 0x3FE800 demo_line \<and>
    slobos_parse_command (kernel_malloc 0x5000 c) 0x3FC000 0x3FE000 0x3FE800 1024 u = Inr (root, u') \<and>
    user_kernel u' = (s', R') \<and> arg_list (user_mem u') root ns \<and> map snd ns = [[108, 115], [45, 97]] \<and>
    ran R' = ran R \<union> (\<Union>n \<in> set ns. node (fst n)) \<and> (\<forall>i < length ns. node (fst (ns ! i)) \<inter> ran R = {})"
proof -
  obtain p c k and s :: kernel where w: "os_step demo_platform demo_boot s" "program_world 0x5000 p c s (stack_map k)"
    "free_slots p = 1024" "kheap_spare s = 24568" using demo_world .
  let ?u = "\<lparr>user_mem = demo_memory, strtok_sp = 0, user_kernel = (s, stack_map k)\<rparr>"
  have l: "cstr (user_mem ?u) 0x3FE800 demo_line" by (simp add: demo_memory_def demo_line_def store_bytes_def)
  have d: "cstr (user_mem ?u) 0x3FE000 [32]" by (simp add: demo_memory_def demo_line_def store_bytes_def)
  have B: "command_buffer 0x3FC000 \<subseteq> ran (stack_map k)" "0 \<notin> command_buffer 0x3FC000"
    "{0x3FE000, 0x3FE000 + 1} \<subseteq> ran (stack_map k) - command_buffer 0x3FC000"
    using demo_buffer(1) by (auto simp: stack_map_ran) (simp_all add: command_buffer_def)
  have A: "\<forall>j \<le> length demo_line. 0x3FE800 + of_nat j \<notin> command_buffer 0x3FC000"
  proof (intro allI impI)
    fix j assume "j \<le> length demo_line"
    then have "j \<in> {0, 1, 2, 3, 4, 5, 6}" by (auto simp: demo_line_def le_Suc_eq)
    then show "0x3FE800 + of_nat j \<notin> command_buffer 0x3FC000"
      by (elim insertE emptyE) (simp_all add: command_buffer_def)
  qed
  have n: "length demo_line \<le> 1024" "length (tokens demo_line) \<le> free_slots p" "length (tokens demo_line) \<le> kheap_spare s"
    using w(3,4) by (simp_all add: demo_words) (simp add: demo_line_def)
  have z: "user_kernel ?u = (s, stack_map k)" "strtok_sp ?u = 0" "(1024 :: int) < 1025" by simp_all
  have m: "map (take 511) (tokens demo_line) = [[108, 115], [45, 97]]" by (simp add: demo_words)
  from slobos_parse_command_list [OF w(2) z(1) B(1,2) d B(3) l n(1) A z(2,3) n(2,3), unfolded m]
  obtain root u' s' R' ns where
    "slobos_parse_command (kernel_malloc 0x5000 c) 0x3FC000 0x3FE000 0x3FE800 1024 ?u = Inr (root, u')"
    "user_kernel u' = (s', R')" "arg_list (user_mem u') root ns" "map snd ns = [[108, 115], [45, 97]]"
    "\<forall>i < length ns. node (fst (ns ! i)) \<inter> ran (stack_map k) = {}"
    "ran R' = ran (stack_map k) \<union> (\<Union>n \<in> set ns. node (fst n))" by (elim exE conjE) (rule that; assumption)
  with w(1) z(1) l show ?thesis
    by (intro exI [of _ s] exI [of _ s'] exI [of _ "stack_map k"] exI [of _ R'] exI [of _ c] exI [of _ ?u]
        exI [of _ root] exI [of _ u'] exI [of _ ns] conjI)
qed

end
