(* ===== verification/Spec2Isabelle.thy ===== *)
theory Spec2Isabelle
  imports Kheap Paging_Chunk CString_Props Gdt Disk_Props Terminal_Props Keyboard Pparser_Props Kernel
    Stdlib_Props Fat16_Props Elf_Props Syscalls_Props
    Isolation_Props Process_Run Process_Elf Fat16_Read Stdlib_Kernel
begin

text \<open>
  The slobOS kernel and its user library: a model of the C code under \<^verbatim>\<open>src/\<close> and what makes it
  correct.

  \<^bold>\<open>The program.\<close> slobOS is a small operating system for 32-bit x86. The kernel manages one heap of
  25600 blocks of 4 KiB at \<open>0x02000000\<close>, gives every task a page directory of its own, reads a FAT16
  disk through LBA28 port I/O, loads ELF and flat binaries, and serves ten system calls through interrupt
  \<open>0x80\<close>. Everything rests on the heap: path parts, streams, directory items, descriptors, page
  tables, tasks and processes are all heap blocks.

  \<^bold>\<open>State.\<close> Physical memory is a function from 32-bit addresses to bytes, and the global variables
  are record fields. Each component extends the record of the ones it uses, so its functions run on
  any larger state: \<open>kmem\<close> (memory, kernel heap), \<open>mmu\<close> (CR3, current directory), \<open>screen\<close>,
  \<open>paths\<close>, \<open>volumes\<close> (the disk, streams), \<open>fat_volumes\<close>, \<open>vfs\<close> (descriptors), \<open>loader\<close> (ELF files),
  \<open>kernel\<close> (tasks, processes), \<open>system\<close> (interrupt and command tables), \<open>machine\<close> (keyboard drivers).
  A user program has a state of its own, \<open>user\<close>: its memory, the static pointer of \<open>strtok\<close> and what is behind its
  system calls.
  Block tables, page tables, strings, file contents and ELF images are bytes of memory. Structures
  that the code only reaches through their fields are objects: a map from heap addresses to
  records; a freed structure is no longer in the map, so using it is the fault \<open>BadPointer\<close>.

  \<^bold>\<open>Control.\<close> An \<open>int\<close> is an integer (cut to 32 bits by \<open>i32\<close> where it can overflow), the unsigned
  types are words. Error codes are values; what does not return to its caller (a panic, a bad
  pointer, an access out of bounds, a division by zero, a wait that never ends) is a \<open>fault\<close>, the left
  side of an \<open>outcome\<close>. Loops are recursions that end by structure or a measure; those that the
  data can keep from ending (strings without terminator, lists in user memory, cluster
  chains, polling) are partial functions, and not ending is \<open>None\<close> or the fault \<open>Hang\<close>. There
  is no fuel. \<open>task_return\<close> and an exit do not come back: a handler ends with \<open>Returns\<close> or
  \<open>User_mode\<close>.

  \<^bold>\<open>Theories and what they show.\<close>
  \<^item> \<open>Prelude\<close>, \<open>CMemory\<close>: integers, outcomes, error numbers of \<^verbatim>\<open>status.h\<close>, bytes and words in
    memory, \<^verbatim>\<open>memory/memory.c\<close>.
  \<^item> \<open>Heap\<close>, \<open>Heap_Spec\<close>, \<open>Heap_Refine\<close>, \<open>Heap_Props\<close>: \<^verbatim>\<open>memory/heap/heap.c\<close>. The table refines first
    fit on a map of allocations; the missing error path and what it overruns.
  \<^item> \<open>Kheap\<close>, \<open>Kheap_Client\<close>: \<^verbatim>\<open>kheap.c\<close>. The contracts \<open>block_allocator\<close>, \<open>zeroing_allocator\<close> and
    \<open>page_allocator\<close>, which \<open>kmalloc\<close>, \<open>kzalloc\<close> and \<open>kfree\<close> meet and every client uses.
  \<^item> \<open>Paging\<close>, \<open>Paging_Props\<close>, \<open>Paging_Chunk\<close>: \<^verbatim>\<open>memory/paging/paging.c\<close>. The contract \<open>page_map\<close>; the
    identity map of 4 GiB, mapping ranges, translation, freeing.
  \<^item> \<open>CString\<close>, \<open>CString_Props\<close>: \<^verbatim>\<open>string/string.c\<close>. Strings in memory as lists of characters; copying
    them; the tokens of \<open>strtok\<close>; the linked list of arguments.
  \<^item> \<open>Gdt\<close>, \<open>Terminal\<close>, \<open>Terminal_Props\<close>, \<open>Keyboard\<close>: descriptors, the text screen of \<^verbatim>\<open>kernel.c\<close>,
    \<^verbatim>\<open>keyboard.c\<close> and \<^verbatim>\<open>ps2.c\<close> with the contract \<open>key_queue\<close>.
  \<^item> \<open>Pparser\<close>, \<open>Pparser_Props\<close>: \<^verbatim>\<open>fs/pparser.c\<close>. Parsing a path builds its list of names and freeing
    it gives all of it back.
  \<^item> \<open>Disk\<close>, \<open>Disk_Props\<close>, \<open>Volume\<close>: \<^verbatim>\<open>disk/disk.c\<close>, \<^verbatim>\<open>disk/streamer.c\<close>. Against an image of the disk: which
    byte of it the driver's commands deliver (\<open>disk_byte\<close>), the right one below 32 MiB.
  \<^item> \<open>Fat16\<close>, \<open>Fat16_Props\<close>, \<open>Fat16_Read\<close>, \<open>File\<close>, \<open>File_Props\<close>: \<^verbatim>\<open>fs/fat/fat16.c\<close>, \<^verbatim>\<open>fs/file.c\<close>.
    The contract \<open>byte_stream\<close>; \<open>fread\<close> down to the disk image, along the chain the driver finds
    (\<open>driver_chain\<close>) and compared with the chain of the FAT16 volume (\<open>fat_chain\<close>); the table of
    descriptors; why no subdirectory can be reached.
  \<^item> \<open>Elf\<close>, \<open>Elf_Props\<close>: \<^verbatim>\<open>loader/formats\<close>. The bounds of the loaded segments, and where address 0
    spoils them.
  \<^item> \<open>Task\<close>, \<open>Task_Props\<close>: \<^verbatim>\<open>task/task.c\<close>. The list of tasks and their address spaces as an invariant
    of the step relation \<open>sched_step\<close>, from boot on; every task gets its turn and resumes with
    its registers; the link that is left dangling.
  \<^item> \<open>Process\<close>, \<open>Process_Props\<close>, \<open>Process_Life\<close>: \<^verbatim>\<open>task/process.c\<close>. The allocations of a process between
    the heap and its page directory; mapping a flat binary; what ending a process gives back.
  \<^item> \<open>Process_Args\<close>, \<open>Process_Run\<close>: \<open>process_inject_arguments\<close> builds \<open>argv\<close> in memory of the process;
    what the program then reads there through its own page directory.
  \<^item> \<open>Process_Elf\<close>: what \<open>process_map_elf\<close> maps: every segment is found at the address its program header
    asks for and is writeable if the header says so.
  \<^item> \<open>Isolation\<close>, \<open>Isolation_Props\<close>: the kernel and the programs together. \<open>os_step\<close> is one step: starting
    a flat binary, ending the last program of the list, a turn of the scheduler, system calls 4 (of a size that is not 0 and
    fits) and 5, a write in user mode. After any sequence of these from boot on (\<open>os_reach\<close>) the memory of the processes, the page tables and the heap table stay
    apart (\<open>isolated\<close>), and a write reaches the writer's own memory only.
  \<^item> \<open>Syscalls\<close>, \<open>Syscalls_Props\<close>, \<open>Kernel\<close>: \<^verbatim>\<open>idt/idt.c\<close>, \<^verbatim>\<open>isr80h/\<close>, \<open>kernel_main\<close>. The gates, the
    dispatch, and the pages every handler ends on.
  \<^item> \<open>Ulib\<close>, \<open>Stdlib\<close>: \<^verbatim>\<open>programs/\<close>. The library every program is linked with, its start code, the shell
    and the blank program.
  \<^item> \<open>Stdlib_Props\<close>, \<open>Stdlib_Print\<close>, \<open>Stdlib_Command\<close>: the decimal numeral and the line editor; \<open>printf\<close>
    against a reference formatter; the list of words that \<open>slobos_parse_command\<close> makes of a line, on any
    allocator that meets \<open>malloc_ok\<close>.
  \<^item> \<open>Stdlib_Kernel\<close>: the library on the kernel. \<open>kernel_malloc\<close> answers a request with \<open>process_malloc\<close>, in the memory
    the program sees through its page directory; it meets \<open>malloc_ok\<close>.
  \<^item> This theory: the arguments of a program from the kernel's list to its output.

  \<^bold>\<open>Parameters.\<close> The ATA controller (\<open>ata\<close>; \<open>ata_serves\<close> is what it does on the command to read sectors in LBA mode
  from the first drive, for as many sectors as the count register says, with the instance \<open>image_drive\<close>), the addresses the linker chooses and values the C code leaves
  undefined (\<open>platform\<close>, \<open>layout\<close>), scan codes read from port \<open>0x60\<close>, and for the user library the
  system calls: \<open>kernel_malloc\<close> is number 4.
  \<open>page_walk\<close>, \<open>user_walk\<close> and \<open>read_walk\<close> are the translations of the processor (Intel SDM, vol. 3, 4.6) for the kernel on
  a task's directory and for a write and a read in user mode.

  \<^bold>\<open>Limits of the results.\<close> Isolation covers the steps of \<open>os_step\<close>, the list of tasks those of \<open>sched_step\<close>; their guards leave
  out what the code does not survive: \<open>malloc(0)\<close> and requests no free run fits (the block is not marked, or others are),
  freeing another task than the last of the list (\<open>task_free_head_dangles\<close>), making a task with fewer than
  1027 free blocks. Launching is the memory side of \<open>process_load_for_slot\<close>, without what opening
  the file allocates and gives back. Not among the steps are launching an
  ELF file, whose program headers are mapped unchecked (\<open>process_map_memory_elf\<close> supposes that they stay
  inside the file, \<open>elf_image\<close>), and system call 8, which writes where the
  program says: \<open>get_program_arguments_unprotected\<close> shows that a program can have it overwrite memory that it
  may not write itself. The driver looks up the chain of
  clusters at the wrong place on the disk and with the end marks of FAT12 (\<open>driver_next\<close>): \<open>fread\<close> is shown to deliver the bytes of
  the file only where that chain agrees with the volume's, as it does in the first cluster.
  \<open>printf\<close> is shown right where the print system call does not cut: up to 1023 characters of a string.

  \<^bold>\<open>Not modelled.\<close> The assembly files (boot sector, port access, interrupt stubs, loading of
  registers and tables); \<open>restore_general_purpose_registers\<close> among them, which pops a stale
  \<open>ebp\<close>. \<^verbatim>\<open>vbe/vbe.c\<close> is not part of the kernel image. Port writes that the modelled state does not
  depend on (acknowledging an interrupt, enabling the keyboard) are left out. Interrupts are disabled
  while the kernel runs, so handlers are atomic steps.
\<close>

section \<open>From the command line to the program\<close>

text \<open>
  C2: arguments, through kernel, page directory and user library. When \<open>process_inject_arguments\<close> has run on
  the list of strings the shell has built, the blank program, given \<open>argc\<close> and \<open>argv\<close> and reading
  memory through its own page directory, writes exactly these strings, in order, one per line.
\<close>

theorem arguments_reach_program:
  assumes u: "user_ok process p c s" "user_dir c (mem s)" and list: "arg_list (mem s) root ns" "ns \<noteq> []"
    and held: "list_held s c {} ns" and room: "length ns < free_slots p" "length ns < kheap_spare s"
  shows "\<exists>s' p'. process_inject_arguments process root s = Inr (0, s') \<and> process_objects s' process = Some p' \<and>
    (\<forall>fmt text_buffer. cstr (program_view (mem s') (load32 (mem s') c)) fmt [37, 115, 10] \<longrightarrow> length text_buffer = 12 \<longrightarrow>
       blank_main (program_view (mem s') (load32 (mem s') c)) text_buffer fmt (proc_argc p') (proc_argv p') =
         Inr (concat (map (\<lambda>(q, w). w @ [10]) ns)))"
proof -
  obtain s' p' where R: "process_inject_arguments process root s = Inr (0, s')" "user_ok process p' c s'"
    "proc_argc p' = int (length ns)" "preserves {} c s s'" "live s' (proc_argv p') = Some 1"
    "paging_get (mem s') (load32 (mem s') c) (proc_argv p') = proc_argv p' OR 7"
    and A: "\<forall>k < length ns. argument_ok s' c (load32 (mem s') (proc_argv p' + 4 * of_nat k)) (snd (ns ! k))"
    using inject_arguments_contract [OF u(1) list held room] by blast
  let ?V = "program_view (mem s') (load32 (mem s') c)" and ?ws = "map snd ns"
  have c: "kheap_ok s'" "chunk_ok c (mem s')" "user_dir c (mem s')"
    using R(2) u(2) preserves_pages(2) [OF R(4)] by (simp_all add: user_ok_def)
  have al: "4096 dvd unat (proc_argv p')" by (rule live_page_aligned [OF c(1) R(5)])
  have n: "length ns \<le> 1024" using room(1) free_slots_bound [OF u(1)] by simp
  have args: "\<forall>k < length ?ws. cstr ?V (load32 ?V (proc_argv p' + 4 * of_nat k)) (?ws ! k)"
  proof (intro allI impI)
    fix k assume "k < length ?ws"
    then have k: "k < length ns" "k < 1024" using n by simp_all
    have l: "load32 ?V (proc_argv p' + 4 * of_nat k) = load32 (mem s') (proc_argv p' + 4 * of_nat k)"
      by (rule view_slot [OF c(2,3) al R(6) k(2)])
    have "length (snd (ns ! k)) < 512" by (rule arg_list_short [OF list(1) nth_mem [OF k(1)]])
    then show "cstr ?V (load32 ?V (proc_argv p' + 4 * of_nat k)) (?ws ! k)"
      unfolding l nth_map [OF k(1)] by (intro view_argument [OF c(2,3)]) (use A k(1) in blast)
  qed
  have short: "\<forall>w \<in> set ?ws. length w < 1024" using arg_list_short [OF list(1)] by fastforce
  have "concat (map (\<lambda>(q, w). w @ [10]) ns) = concat (map (\<lambda>w. w @ [10]) ?ws)" by (simp add: case_prod_unfold comp_def)
  moreover have "process_objects s' process = Some p'" using R(2) by (simp add: user_ok_def)
  moreover have "blank_main ?V b fmt (proc_argc p') (proc_argv p') = Inr (concat (map (\<lambda>w. w @ [10]) ?ws))"
    if "cstr ?V fmt [37, 115, 10]" "length b = 12" for fmt b
    using blank_prints [OF that(1) args short that(2)] by (simp add: R(3))
  ultimately show ?thesis using R(1) by (intro exI [of _ s'] exI [of _ p']) simp
qed

text \<open>The one argument is \<^verbatim>\<open>%s\<close> and a newline, and serves as the format too.\<close>

theorem arguments_reach_program_witness:
  "\<exists>(s :: kernel) q s' p' c. process_inject_arguments 0x5000 q s = Inr (0, s') \<and> process_objects s' 0x5000 = Some p' \<and>
     blank_main (program_view (mem s') (load32 (mem s') c)) (replicate 12 0) (load32 (mem s') (proc_argv p'))
       (proc_argc p') (proc_argv p') = Inr [37, 115, 10, 10]"
proof -
  let ?w = "[37, 115, 10] :: u8 list"
  have w: "0 \<notin> set ?w" "length ?w < 512" by simp_all
  obtain p c q and s :: kernel where d: "user_ok 0x5000 p c s" "user_dir c (mem s)" "arg_list (mem s) q [(q, ?w)]"
    "list_held s c {} [(q, ?w)]" "1 < free_slots p" "1 < kheap_spare s" by (rule demo_argument [OF w])
  have n: "[(q, ?w)] \<noteq> []" "length [(q, ?w)] < free_slots p" "length [(q, ?w)] < kheap_spare s" using d(5,6) by simp_all
  obtain s' p' where R: "process_inject_arguments 0x5000 q s = Inr (0, s')" "process_objects s' 0x5000 = Some p'"
    "\<forall>fmt text_buffer. cstr (program_view (mem s') (load32 (mem s') c)) fmt ?w \<longrightarrow> length text_buffer = 12 \<longrightarrow>
       blank_main (program_view (mem s') (load32 (mem s') c)) text_buffer fmt (proc_argc p') (proc_argv p') =
         Inr (concat (map (\<lambda>(q, w). w @ [10]) [(q, ?w)]))"
    using arguments_reach_program [OF d(1-3) n(1) d(4) n(2,3)] by blast
  obtain s'' p'' where I: "process_inject_arguments 0x5000 q s = Inr (0, s'')" "user_ok 0x5000 p'' c s''" "preserves {} c s s''"
    and A: "\<forall>k < length [(q, ?w)]. argument_ok s'' c (load32 (mem s'') (proc_argv p'' + 4 * of_nat k)) (snd ([(q, ?w)] ! k))"
    using inject_arguments_contract [OF d(1,3) n(1) d(4) n(2,3)] by blast
  have "s'' = s'" using R(1) I(1) by simp
  moreover have "p'' = p'" using R(2) I(2) \<open>s'' = s'\<close> by (simp add: user_ok_def)
  ultimately have I': "user_ok 0x5000 p' c s'" "preserves {} c s s'" "argument_ok s' c (load32 (mem s') (proc_argv p')) ?w"
    using I(2,3) spec [OF A, of 0] by simp_all
  have "chunk_ok c (mem s')" "user_dir c (mem s')"
    using I'(1) d(2) preserves_pages(2) [OF I'(2)] by (simp_all add: user_ok_def)
  then have "cstr (program_view (mem s') (load32 (mem s') c)) (load32 (mem s') (proc_argv p')) ?w"
    by (rule view_argument [OF _ _ I'(3) w(2)])
  then have "blank_main (program_view (mem s') (load32 (mem s') c)) (replicate 12 0) (load32 (mem s') (proc_argv p'))
      (proc_argc p') (proc_argv p') = Inr (concat (map (\<lambda>(q, w). w @ [10]) [(q, ?w)]))"
    by (intro R(3) [THEN spec, THEN spec, THEN mp, THEN mp]) simp_all
  also have "concat (map (\<lambda>(q, w). w @ [10]) [(q, ?w)]) = [37, 115, 10, 10]" by simp
  finally show ?thesis using R(1,2) by blast
qed

end
